(* ===== verification/Prelude.thy ===== *)
theory Prelude
  imports Main "HOL-Library.Word"
begin

text \<open>
  Shared material of the development: the C integer types of the kernel as machine words, the
  conversions between them, the ``first index that satisfies a test'' loop that most tables of the
  kernel use, in-place update of one array slot, and the modular arithmetic of ring buffers.
  The collections below carry the component proofs: \<open>kdefs\<close> holds definitions that a component
  proof may unfold without thought, \<open>kframe\<close> the equations saying which part of the state an
  operation leaves alone.
\<close>

unbundle bit_operations_syntax

named_theorems kdefs \<open>small definitions unfolded by component proofs\<close>
named_theorems kframe \<open>what an operation does not touch\<close>

section \<open>C integer types\<close>

type_synonym u8 = "8 word"
type_synonym u16 = "16 word"
type_synonym u32 = "32 word"
type_synonym u64 = "64 word"

text \<open>A C \<open>int\<close> is an \<open>int\<close> of the model, reduced to 32 bits where the source converts to it.\<close>

definition wrap32 :: "int \<Rightarrow> int" where
  "wrap32 x = sint (word_of_int x :: 32 word)"

definition u64_to_int :: "u64 \<Rightarrow> int" where
  "u64_to_int w = sint (ucast w :: 32 word)"

definition int_to_u64 :: "int \<Rightarrow> u64" where
  "int_to_u64 i = word_of_int i"

text \<open>C's \<open>/\<close> and \<open>%\<close> on signed operands truncate towards zero.\<close>

definition c_div :: "int \<Rightarrow> int \<Rightarrow> int" where
  "c_div a b = sgn a * sgn b * (\<bar>a\<bar> div \<bar>b\<bar>)"

definition c_mod :: "int \<Rightarrow> int \<Rightarrow> int" where
  "c_mod a b = a - b * c_div a b"

definition c_bool :: "bool \<Rightarrow> u8" where
  "c_bool b = (if b then 1 else 0)"

lemma c_bool_simps [simp]: "c_bool True = 1" "c_bool False = 0" "(c_bool b = 0) = (\<not> b)"
  by (simp_all add: c_bool_def)

lemma wrap32_id: "- (2 ^ 31) \<le> x \<Longrightarrow> x < 2 ^ 31 \<Longrightarrow> wrap32 x = x"
  by (simp add: wrap32_def signed_of_int signed_take_bit_int_eq_self)

lemma c_div_nonneg: "0 \<le> a \<Longrightarrow> 0 < b \<Longrightarrow> c_div a b = a div b"
  by (cases "a = 0") (simp_all add: c_div_def)

lemma c_mod_nonneg: "0 \<le> a \<Longrightarrow> 0 < b \<Longrightarrow> c_mod a b = a mod b"
  by (simp add: c_mod_def c_div_nonneg minus_mult_div_eq_mod)

section \<open>Array searches and updates\<close>

text \<open>
  \<^verbatim>\<open>for (int i = 0; i < N; i++) if (P(a[i])) { found = i; break; }\<close>: the first index that passes
  the test, \<^const>\<open>None\<close> when no slot does.
\<close>

fun find_index :: "('a \<Rightarrow> bool) \<Rightarrow> 'a list \<Rightarrow> nat option" where
  "find_index P [] = None"
| "find_index P (x # xs) = (if P x then Some 0 else map_option Suc (find_index P xs))"

lemma find_index_None: "find_index P xs = None \<longleftrightarrow> (\<forall>x \<in> set xs. \<not> P x)"
  by (induction xs) auto

lemma find_index_Some:
  "find_index P xs = Some i \<longleftrightarrow> i < length xs \<and> P (xs ! i) \<and> (\<forall>j < i. \<not> P (xs ! j))"
proof (induction xs arbitrary: i)
  case Nil
  then show ?case by simp
next
  case (Cons x xs)
  show ?case
  proof (cases i)
    case 0
    then show ?thesis by auto
  next
    case (Suc k)
    have "(\<forall>j < Suc k. \<not> P ((x # xs) ! j)) \<longleftrightarrow> \<not> P x \<and> (\<forall>j < k. \<not> P (xs ! j))"
      by (auto simp: less_Suc_eq_0_disj)
    with Suc show ?thesis by (auto simp: Cons.IH)
  qed
qed

lemma find_index_SomeD:
  assumes "find_index P xs = Some i"
  shows "i < length xs" "P (xs ! i)" "\<And>j. j < i \<Longrightarrow> \<not> P (xs ! j)"
  using assms by (auto simp: find_index_Some)

lemma find_index_cong:
  assumes "length xs = length ys"
    and "\<And>i. i < length xs \<Longrightarrow> P (xs ! i) = Q (ys ! i)"
  shows "find_index P xs = find_index Q ys"
  using assms
proof (induction xs ys rule: list_induct2)
  case Nil
  then show ?case by simp
next
  case (Cons x xs y ys)
  have "P x = Q y" using Cons.prems [of 0] by simp
  moreover have "find_index P xs = find_index Q ys"
    using Cons.IH Cons.prems [of "Suc _"] by simp
  ultimately show ?case by simp
qed

lemma find_index_map: "find_index P (map f xs) = find_index (P \<circ> f) xs"
  by (induction xs) simp_all

lemma upt_Suc_Cons: "[0..<Suc n] = 0 # map Suc [0..<n]"
  by (simp add: map_Suc_upt upt_conv_Cons del: upt_Suc)

lemma find_index_upt: "find_index P [0..<n] = Some k \<longleftrightarrow> k < n \<and> P k \<and> (\<forall>j < k. \<not> P j)"
  by (auto simp: find_index_Some)

definition upd_nth :: "nat \<Rightarrow> ('a \<Rightarrow> 'a) \<Rightarrow> 'a list \<Rightarrow> 'a list" where
  "upd_nth i f xs = xs[i := f (xs ! i)]"

lemma length_upd_nth [simp]: "length (upd_nth i f xs) = length xs"
  by (simp add: upd_nth_def)

lemma nth_upd_nth: "j < length xs \<Longrightarrow> upd_nth i f xs ! j = (if i = j then f (xs ! j) else xs ! j)"
  by (auto simp: upd_nth_def nth_list_update)

lemma nth_upd_nth_eq [simp]: "i < length xs \<Longrightarrow> upd_nth i f xs ! i = f (xs ! i)"
  by (simp add: upd_nth_def)

lemma nth_upd_nth_neq [simp]: "i \<noteq> j \<Longrightarrow> upd_nth i f xs ! j = xs ! j"
  by (simp add: upd_nth_def)

lemma upd_nth_id: "f (xs ! i) = xs ! i \<Longrightarrow> upd_nth i f xs = xs"
  by (simp add: upd_nth_def)

lemma map_upd_nth_same: "(\<And>x. g (f x) = g x) \<Longrightarrow> map g (upd_nth i f xs) = map g xs"
  by (metis list_update_id map_update upd_nth_def list_update_beyond linorder_not_le nth_map)

section \<open>Ring arithmetic\<close>

lemma mod_step: "(a + i) mod n = b \<Longrightarrow> (a + Suc i) mod n = Suc b mod n" for n :: nat
  by (metis add_Suc_right mod_Suc_eq)

lemma mod_add_inj:
  fixes n :: nat
  assumes "i < n" "j < n"
  shows "(a + i) mod n = (a + j) mod n \<longleftrightarrow> i = j"
proof
  assume eq: "(a + i) mod n = (a + j) mod n"
  have "n dvd (a + j) - (a + i)" "n dvd (a + i) - (a + j)"
    using eq by (metis mod_eq_dvd_iff_nat nat_le_linear diff_is_0_eq dvd_0_right)+
  then show "i = j" using assms by (auto dest!: dvd_imp_le simp: nat_neq_iff)
qed simp

end
