(* ===== verification/CLib.thy ===== *)
theory CLib
  imports Prelude
begin

text \<open>
  The string and number routines the kernel carries itself: \<open>strlen\<close>, both versions of
  \<open>int_to_string\<close> (one in \<open>kernel.c\<close>, one in \<open>idt.c\<close>), and \<open>atoi\<close> and \<open>strcmp\<close> of
  \<open>coreutils.c\<close>. A C string is a list of characters; the terminating NUL is either an element
  of the list or implicit at its end. A \<open>char*\<close> output buffer is the list of the characters
  written before the terminating NUL.
\<close>

abbreviation NUL :: char where "NUL \<equiv> CHR 0x00"
abbreviation NL :: char where "NL \<equiv> CHR 0x0A"

fun strlen :: "string \<Rightarrow> nat" where
  "strlen [] = 0"
| "strlen (c # cs) = (if c = NUL then 0 else Suc (strlen cs))"

text \<open>The characters in front of the first NUL: what a C string denotes.\<close>

definition cstr :: "string \<Rightarrow> string" where
  "cstr s = takeWhile (\<lambda>c. c \<noteq> NUL) s"

lemma strlen_cstr: "strlen s = length (cstr s)"
  by (induction s) (simp_all add: cstr_def)

lemma strlen_le: "strlen s \<le> length s"
  by (induction s) simp_all

lemma strlen_no_nul: "NUL \<notin> set s \<Longrightarrow> strlen s = length s"
  by (induction s) auto

section \<open>\<open>strcmp\<close>\<close>

fun strcmp :: "string \<Rightarrow> string \<Rightarrow> int" where
  "strcmp [] [] = 0"
| "strcmp [] (d # ds) = 0 - of_char d"
| "strcmp (c # cs) [] = of_char c"
| "strcmp (c # cs) (d # ds) =
     (if c \<noteq> NUL \<and> c = d then strcmp cs ds else of_char c - of_char d)"

lemma of_char_int_eq_iff: "(of_char c :: int) = of_char d \<longleftrightarrow> c = d"
  by (metis char_of_char)

lemma of_char_int_0: "(of_char c :: int) = 0 \<longleftrightarrow> c = NUL"
  using of_char_int_eq_iff [of c NUL] by simp

lemma strcmp_0_iff: "strcmp s t = 0 \<longleftrightarrow> cstr s = cstr t"
  by (induction s t rule: strcmp.induct)
     (auto simp: cstr_def of_char_int_0 of_char_int_eq_iff)

section \<open>In-place reversal\<close>

text \<open>
  \<^verbatim>\<open>while (start < end) { swap(str[start], str[end]); start++; end--; }\<close> of \<open>kernel.c\<close>, and
  \<^verbatim>\<open>for (j = 0; j < len / 2; j++) swap(str[j], str[len - j - 1])\<close> of \<open>idt.c\<close>.
\<close>

definition swap_at :: "nat \<Rightarrow> nat \<Rightarrow> 'a list \<Rightarrow> 'a list" where
  "swap_at i j xs = xs[i := xs ! j, j := xs ! i]"

function reverse_while :: "nat \<Rightarrow> nat \<Rightarrow> 'a list \<Rightarrow> 'a list" where
  "reverse_while start end' str =
     (if start < end' then reverse_while (Suc start) (end' - 1) (swap_at start end' str) else str)"
  by pat_completeness auto
termination by (relation "measure (\<lambda>(s, e, _). e - s)") auto

function reverse_for :: "nat \<Rightarrow> nat \<Rightarrow> 'a list \<Rightarrow> 'a list" where
  "reverse_for j len str =
     (if j < len div 2 then reverse_for (Suc j) len (swap_at j (len - j - 1) str) else str)"
  by pat_completeness auto
termination by (relation "measure (\<lambda>(j, len, _). len div 2 - j)") auto

declare reverse_while.simps [simp del] reverse_for.simps [simp del]

lemma length_swap_at [simp]: "length (swap_at i j xs) = length xs"
  by (simp add: swap_at_def)

lemma nth_swap_at:
  "i < length xs \<Longrightarrow> j < length xs \<Longrightarrow> k < length xs \<Longrightarrow>
    swap_at i j xs ! k = (if k = j then xs ! i else if k = i then xs ! j else xs ! k)"
  by (auto simp: swap_at_def nth_list_update)

text \<open>The window \<open>[s, e]\<close> is mirrored, everything outside it is untouched.\<close>

lemma reverse_while_window:
  "e < length xs \<Longrightarrow> length (reverse_while s e xs) = length xs \<and>
    (\<forall>k < length xs. reverse_while s e xs ! k =
      (if s \<le> k \<and> k \<le> e then xs ! (s + e - k) else xs ! k))"
proof (induction s e xs rule: reverse_while.induct)
  case (1 s e xs)
  show ?case
  proof (cases "s < e")
    case True
    let ?ys = "swap_at s e xs"
    have IH: "length (reverse_while (Suc s) (e - 1) ?ys) = length xs"
      "\<forall>k < length xs. reverse_while (Suc s) (e - 1) ?ys ! k =
        (if Suc s \<le> k \<and> k \<le> e - 1 then ?ys ! (Suc s + (e - 1) - k) else ?ys ! k)"
      using 1 True by auto
    have "(if Suc s \<le> k \<and> k \<le> e - 1 then ?ys ! (Suc s + (e - 1) - k) else ?ys ! k) =
        (if s \<le> k \<and> k \<le> e then xs ! (s + e - k) else xs ! k)" if "k < length xs" for k
      using True "1.prems" that by (auto simp: nth_swap_at)
    with IH True show ?thesis
      by (subst reverse_while.simps, subst (2) reverse_while.simps) simp
  next
    case False
    then have "s + e - k = k" if "s \<le> k" "k \<le> e" for k using that by simp
    with False show ?thesis by (simp add: reverse_while.simps [of s e xs])
  qed
qed

lemma reverse_while_rev: "xs \<noteq> [] \<Longrightarrow> reverse_while 0 (length xs - 1) xs = rev xs"
  using reverse_while_window [of "length xs - 1" xs 0]
  by (intro nth_equalityI) (auto simp: rev_nth)

lemma reverse_for_while:
  "reverse_for j (length xs) xs = reverse_while j (length xs - 1 - j) xs"
proof (induction j "length xs" xs rule: reverse_for.induct)
  case (1 j xs)
  show ?case
  proof (cases "j < length xs div 2")
    case True
    then have "j < length xs - 1 - j" "length xs - 1 - j - 1 = length xs - 1 - Suc j"
      "length xs - j - 1 = length xs - 1 - j" by auto
    with 1 [OF True] True show ?thesis
      by (subst reverse_for.simps, subst reverse_while.simps) simp
  next
    case False
    then have "\<not> j < length xs - 1 - j" by linarith
    with False show ?thesis
      by (subst reverse_for.simps, subst reverse_while.simps) simp
  qed
qed

lemma reverse_for_rev: "xs \<noteq> [] \<Longrightarrow> reverse_for 0 (length xs) xs = rev xs"
  using reverse_while_rev [of xs] by (simp add: reverse_for_while)

section \<open>\<open>int_to_string\<close> of \<open>kernel.c\<close>\<close>

lemma c_div10_decreases: "n \<noteq> 0 \<Longrightarrow> \<bar>c_div n 10\<bar> < \<bar>n\<bar>"
  by (simp add: c_div_def abs_mult)

function digits_until_zero :: "int \<Rightarrow> string" where
  "digits_until_zero num =
     (if num \<noteq> 0 then
        (let rem = c_mod num 10;
             c = (if rem > 9 then char_of ((rem - 10) + 97) else char_of (rem + 48))
         in c # digits_until_zero (c_div num 10))
      else [])"
  by pat_completeness auto
termination
  by (relation "measure (\<lambda>n. nat \<bar>n\<bar>)") (auto dest: c_div10_decreases)

declare digits_until_zero.simps [simp del]

definition int_to_string :: "int \<Rightarrow> string" where
  "int_to_string num0 =
     (let is_negative = num0 < 0;
          num = (if is_negative then wrap32 (- num0) else num0)
      in if num = 0 then ''0''
         else let str = digits_until_zero num @ (if is_negative then ''-'' else '''')
              in reverse_while 0 (length str - 1) str)"

section \<open>\<open>int_to_string\<close> of \<open>idt.c\<close>\<close>

function digits_while_positive :: "int \<Rightarrow> string" where
  "digits_while_positive num =
     (if num > 0 then char_of (c_mod num 10 + 48) # digits_while_positive (c_div num 10) else [])"
  by pat_completeness auto
termination
  by (relation "measure (\<lambda>n. nat \<bar>n\<bar>)") (simp_all add: c_div_nonneg)

declare digits_while_positive.simps [simp del]

definition int_to_string_idt :: "int \<Rightarrow> string" where
  "int_to_string_idt num0 =
     (if num0 = 0 then ''0''
      else let sign = num0 < 0;
               num = (if sign then wrap32 (- num0) else num0);
               str = digits_while_positive num @ (if sign then ''-'' else '''')
           in reverse_for 0 (length str) str)"

lemma digits_agree: "0 \<le> n \<Longrightarrow> digits_until_zero n = digits_while_positive n"
proof (induction n rule: digits_until_zero.induct)
  case (1 n)
  show ?case
  proof (cases "n = 0")
    case True
    then show ?thesis by (simp add: digits_until_zero.simps [of 0] digits_while_positive.simps [of 0])
  next
    case False
    with "1.prems" have "0 < n" "0 \<le> c_div n 10" "c_mod n 10 \<le> 9"
      by (simp_all add: c_div_nonneg c_mod_nonneg)
    with False "1.IH" show ?thesis
      by (simp add: digits_until_zero.simps [of n] digits_while_positive.simps [of n])
  qed
qed

lemma digits_nonempty: "0 < n \<Longrightarrow> digits_while_positive n \<noteq> []"
  by (simp add: digits_while_positive.simps [of n])

lemma digits_snoc:
  "0 < n \<Longrightarrow> rev (digits_while_positive n) =
    rev (digits_while_positive (n div 10)) @ [char_of (n mod 10 + 48)]"
  by (subst digits_while_positive.simps) (simp add: c_mod_nonneg c_div_nonneg)

lemma int_to_string_pos: "0 < n \<Longrightarrow> int_to_string n = rev (digits_while_positive n)"
  using reverse_while_rev [OF digits_nonempty, of n]
  by (simp add: int_to_string_def digits_agree Let_def)

lemma int_to_string_neg:
  "0 < n \<Longrightarrow> n < 2 ^ 31 \<Longrightarrow> int_to_string (- n) = CHR ''-'' # rev (digits_while_positive n)"
  by (simp add: int_to_string_def wrap32_id digits_agree Let_def)
     (simp add: reverse_while_rev [of "digits_while_positive n @ ''-''", simplified])

text \<open>
  The digit count: a positive number below \<open>10 ^ k\<close> has at most \<open>k\<close> digits, and one of at least
  \<open>10 ^ k\<close> has more than \<open>k\<close>.
\<close>

lemma length_digits_le: "n < 10 ^ k \<Longrightarrow> length (digits_while_positive n) \<le> k"
proof (induction k arbitrary: n)
  case 0
  then show ?case by (simp add: digits_while_positive.simps [of n])
next
  case (Suc k)
  have "n div 10 < 10 ^ k" using Suc.prems by (simp add: div_less_iff_less_mult)
  with Suc.IH [of "n div 10"] show ?case
    by (simp add: digits_while_positive.simps [of n] c_div_nonneg)
qed

lemma length_digits_ge: "10 ^ k \<le> n \<Longrightarrow> k < length (digits_while_positive n)"
proof (induction k arbitrary: n)
  case 0
  then show ?case by (simp add: digits_while_positive.simps [of n])
next
  case (Suc k)
  then have "10 ^ k \<le> n div 10" using zdiv_mono1 [of "10 ^ Suc k" n 10] by simp
  moreover have "0 < n" using Suc.prems by (smt (verit) zero_less_power)
  ultimately show ?case
    using Suc.IH [of "n div 10"] by (simp add: digits_while_positive.simps [of n] c_div_nonneg)
qed

section \<open>\<open>atoi\<close>\<close>

fun atoi_digits :: "int \<Rightarrow> string \<Rightarrow> int" where
  "atoi_digits result [] = result"
| "atoi_digits result (c # cs) =
     (if of_char c \<ge> (48 :: int) \<and> of_char c \<le> (57 :: int)
      then atoi_digits (wrap32 (result * 10 + (of_char c - 48))) cs
      else result)"

fun atoi_sign :: "string \<Rightarrow> int \<times> string" where
  "atoi_sign [] = (1, [])"
| "atoi_sign (c # cs) =
     (if c = CHR ''-'' then (-1, cs) else if c = CHR ''+'' then (1, cs) else (1, c # cs))"

definition atoi :: "string \<Rightarrow> int" where
  "atoi str =
     (let s1 = dropWhile (\<lambda>c. c = CHR '' '' \<or> c = CHR 0x09) str;
          (sign, s2) = atoi_sign s1
      in wrap32 (sign * atoi_digits 0 s2))"

lemma atoi_digits_append:
  "\<forall>c \<in> set xs. (48 :: int) \<le> of_char c \<and> of_char c \<le> (57 :: int) \<Longrightarrow>
    atoi_digits r (xs @ ys) = atoi_digits (atoi_digits r xs) ys"
  by (induction xs arbitrary: r) auto

lemma of_char_digit: "of_char (char_of (n mod 10 + 48 :: int)) = n mod 10 + 48"
proof -
  have "0 \<le> n mod 10" "n mod 10 < 10" by simp_all
  then have "(n mod 10 + 48) mod 256 = n mod 10 + 48" by (intro mod_pos_pos_trivial) linarith+
  then show ?thesis by (simp add: of_char_of)
qed

lemma digits_are_digits:
  "\<forall>c \<in> set (digits_while_positive n). (48 :: int) \<le> of_char c \<and> of_char c \<le> (57 :: int)"
proof (induction n rule: digits_while_positive.induct)
  case (1 n)
  have "n mod 10 < 10" by simp
  then have "n mod 10 + 48 \<le> 57" by linarith
  moreover have "of_char (char_of (c_mod n 10 + 48)) = n mod 10 + 48" if "0 < n"
    using that by (simp add: c_mod_nonneg of_char_digit)
  ultimately show ?case
    using 1 by (subst digits_while_positive.simps) auto
qed

lemma atoi_digits_rev_digits:
  "0 \<le> n \<Longrightarrow> n < 2 ^ 31 \<Longrightarrow> atoi_digits 0 (rev (digits_while_positive n)) = n"
proof (induction n rule: digits_while_positive.induct)
  case (1 n)
  show ?case
  proof (cases "n = 0")
    case True
    then show ?thesis by (simp add: digits_while_positive.simps [of 0])
  next
    case False
    with "1.prems" have pos: "0 < n" by simp
    then have "n div 10 < 2 ^ 31" "0 \<le> n div 10" using "1.prems" by auto
    with "1.IH" pos have IH: "atoi_digits 0 (rev (digits_while_positive (n div 10))) = n div 10"
      by (simp add: c_div_nonneg)
    have d: "n mod 10 + 48 \<le> 57" using pos_mod_bound [of 10 n] by linarith
    have "n div 10 * 10 + n mod 10 = n" by simp
    with pos IH d "1.prems" show ?thesis
      by (simp add: digits_snoc atoi_digits_append digits_are_digits of_char_digit wrap32_id)
  qed
qed

lemma rev_digits_head:
  assumes "0 < n"
  obtains c cs where "rev (digits_while_positive n) = c # cs" "(48 :: int) \<le> of_char c"
proof -
  obtain c cs where eq: "rev (digits_while_positive n) = c # cs"
    using digits_nonempty [OF assms] by (cases "rev (digits_while_positive n)") auto
  then have "c \<in> set (digits_while_positive n)" by (metis list.set_intros(1) set_rev)
  then have "(48 :: int) \<le> of_char c" using digits_are_digits by blast
  with eq show ?thesis by (rule that)
qed

section \<open>Properties\<close>

text \<open>The kernel defines \<open>int_to_string\<close> twice, in \<open>kernel.c\<close> and in \<open>idt.c\<close>. On every C \<open>int\<close>
  the two write the same characters, except on the most negative one, whose negation overflows.\<close>

theorem int_to_string_versions_agree:
  assumes "- (2 ^ 31) \<le> n" "n < 2 ^ 31"
  shows "int_to_string n = int_to_string_idt n \<longleftrightarrow> n \<noteq> - (2 ^ 31)"
proof -
  have pos: "int_to_string_idt m = rev (digits_while_positive m)" if "0 < m" for m
    using that reverse_for_rev [OF digits_nonempty [OF that]]
    by (simp add: int_to_string_idt_def Let_def)
  have neg: "int_to_string_idt (- m) = CHR ''-'' # rev (digits_while_positive m)"
    if "0 < m" "m < 2 ^ 31" for m
    using that reverse_for_rev [of "digits_while_positive m @ ''-''"]
    by (simp add: int_to_string_idt_def Let_def wrap32_id)
  consider "n = - (2 ^ 31)" | "- (2 ^ 31) < n" "n < 0" | "n = 0" | "0 < n" using assms by linarith
  then show ?thesis
  proof cases
    case 1
    have "int_to_string (- (2 ^ 31)) \<noteq> int_to_string_idt (- (2 ^ 31))" by code_simp
    with 1 show ?thesis by simp
  next
    case 2
    then have "0 < - n" "- n < 2 ^ 31" by auto
    with int_to_string_neg [of "- n"] neg [of "- n"] 2 show ?thesis by simp
  next
    case 3
    then show ?thesis by (simp add: int_to_string_def int_to_string_idt_def)
  next
    case 4
    with int_to_string_pos pos show ?thesis by simp
  qed
qed

theorem int_to_string_versions_agree_witness:
  "(int_to_string (- 2147483648) = int_to_string_idt (- 2147483648)) = ((- 2147483648 :: int) \<noteq> - (2 ^ 31)) \<and>
   (int_to_string 42 = int_to_string_idt 42) = ((42 :: int) \<noteq> - (2 ^ 31))"
  using int_to_string_versions_agree [of "- 2147483648"] int_to_string_versions_agree [of 42] by simp

text \<open>C28: Round trip: \<open>atoi\<close> reads back every number \<open>int_to_string\<close> prints, for every C \<open>int\<close>
  above the most negative one.\<close>

theorem atoi_int_to_string:
  assumes "- (2 ^ 31) < n" "n < 2 ^ 31"
  shows "atoi (int_to_string n) = n"
proof -
  consider "n < 0" | "n = 0" | "0 < n" by linarith
  then show ?thesis
  proof cases
    case 1
    then have "0 < - n" "- n < 2 ^ 31" using assms by auto
    with int_to_string_neg [of "- n"] atoi_digits_rev_digits [of "- n"] assms
    show ?thesis by (simp add: atoi_def wrap32_id)
  next
    case 2
    then show ?thesis by (simp add: int_to_string_def atoi_def wrap32_id)
  next
    case 3
    obtain c cs where c: "rev (digits_while_positive n) = c # cs" "(48 :: int) \<le> of_char c"
      using rev_digits_head [OF 3] .
    then have "c \<noteq> CHR '' ''" "c \<noteq> CHR 0x09" "c \<noteq> CHR ''-''" "c \<noteq> CHR ''+''" by auto
    with int_to_string_pos [OF 3] atoi_digits_rev_digits [of n] 3 assms c(1)
    show ?thesis by (simp add: atoi_def wrap32_id)
  qed
qed

theorem atoi_int_to_string_witness: "atoi (int_to_string (- 1984)) = - 1984"
  using atoi_int_to_string [of "- 1984"] by simp



end
