(* ===== verification/Terminal.thy ===== *)
theory Terminal
  imports CLib
begin

text \<open>
  The VGA text terminal of \<open>kernel.c\<close>: its four statics, with the 80x25 cell array at
  \<open>VGA_MEMORY\<close> as a list of 2000 character cells.
\<close>

abbreviation VGA_WIDTH :: nat where "VGA_WIDTH \<equiv> 80"
abbreviation VGA_HEIGHT :: nat where "VGA_HEIGHT \<equiv> 25"

record terminal =
  terminal_row :: nat
  terminal_column :: nat
  terminal_color :: u8
  terminal_buffer :: "u16 list"

definition vga_entry_color :: "u8 \<Rightarrow> u8 \<Rightarrow> u8" where
  "vga_entry_color fg bg = fg OR push_bit 4 bg"

definition vga_entry :: "char \<Rightarrow> u8 \<Rightarrow> u16" where
  "vga_entry c color = of_char c OR push_bit 8 (ucast color)"

definition terminal_putentryat :: "char \<Rightarrow> u8 \<Rightarrow> nat \<Rightarrow> nat \<Rightarrow> terminal \<Rightarrow> terminal" where
  "terminal_putentryat c color x y t =
     t\<lparr>terminal_buffer := (terminal_buffer t)[y * VGA_WIDTH + x := vga_entry c color]\<rparr>"

definition terminal_next_row :: "terminal \<Rightarrow> terminal" where
  "terminal_next_row t =
     (let row = Suc (terminal_row t)
      in t\<lparr>terminal_column := 0, terminal_row := (if row = VGA_HEIGHT then 0 else row)\<rparr>)"

definition terminal_putchar :: "char \<Rightarrow> terminal \<Rightarrow> terminal" where
  "terminal_putchar c t =
     (if c = CHR 0x0A then terminal_next_row t
      else let t1 = terminal_putentryat c (terminal_color t) (terminal_column t) (terminal_row t) t;
               col = Suc (terminal_column t1)
           in if col = VGA_WIDTH then terminal_next_row t1 else t1\<lparr>terminal_column := col\<rparr>)"

definition terminal_setcolor :: "u8 \<Rightarrow> terminal \<Rightarrow> terminal" where
  "terminal_setcolor color t = t\<lparr>terminal_color := color\<rparr>"

definition terminal_write :: "string \<Rightarrow> nat \<Rightarrow> terminal \<Rightarrow> terminal" where
  "terminal_write data n t = fold terminal_putchar (take n data) t"

definition terminal_writestring :: "string \<Rightarrow> terminal \<Rightarrow> terminal" where
  "terminal_writestring data t = terminal_write data (strlen data) t"

text \<open>The nested clearing loops run over every \<open>index = y * VGA_WIDTH + x\<close>.\<close>

definition terminal_initialize :: "terminal \<Rightarrow> terminal" where
  "terminal_initialize t =
     (let color = vga_entry_color 7 0
      in \<lparr>terminal_row = 0, terminal_column = 0, terminal_color = color,
          terminal_buffer =
            fold (\<lambda>y. fold (\<lambda>x buf. buf[y * VGA_WIDTH + x := vga_entry CHR '' '' color])
                   [0..<VGA_WIDTH])
              [0..<VGA_HEIGHT] (terminal_buffer t)\<rparr>)"

section \<open>The cursor stays on the screen\<close>

definition terminal_ok :: "terminal \<Rightarrow> bool" where
  "terminal_ok t \<longleftrightarrow> terminal_row t < VGA_HEIGHT \<and> terminal_column t < VGA_WIDTH \<and>
     length (terminal_buffer t) = VGA_WIDTH * VGA_HEIGHT"

definition cursor :: "terminal \<Rightarrow> nat" where
  "cursor t = terminal_row t * VGA_WIDTH + terminal_column t"

lemmas terminal_defs = terminal_putchar_def terminal_next_row_def terminal_putentryat_def
  terminal_ok_def cursor_def

lemma terminal_putchar_ok: "terminal_ok t \<Longrightarrow> terminal_ok (terminal_putchar c t)"
  by (simp add: terminal_defs Let_def)

lemma terminal_write_ok: "terminal_ok t \<Longrightarrow> terminal_ok (terminal_write s n t)"
proof -
  have "terminal_ok t \<Longrightarrow> terminal_ok (fold terminal_putchar xs t)" for xs
    by (induction xs arbitrary: t) (simp_all add: terminal_putchar_ok)
  then show "terminal_ok t \<Longrightarrow> terminal_ok (terminal_write s n t)"
    by (simp add: terminal_write_def)
qed

lemma terminal_writestring_ok: "terminal_ok t \<Longrightarrow> terminal_ok (terminal_writestring s t)"
  by (simp add: terminal_writestring_def terminal_write_ok)

lemma terminal_color_putchar [simp]: "terminal_color (terminal_putchar c t) = terminal_color t"
  by (simp add: terminal_defs Let_def)

lemma cursor_putchar:
  assumes "terminal_ok t" "c \<noteq> CHR 0x0A"
  shows "cursor (terminal_putchar c t) = Suc (cursor t) mod 2000"
proof (cases "Suc (terminal_column t) = VGA_WIDTH")
  case False
  with assms have "Suc (cursor t) < 2000" by (simp add: terminal_defs)
  with False assms show ?thesis by (simp add: terminal_defs Let_def)
next
  case True
  show ?thesis
  proof (cases "Suc (terminal_row t) = VGA_HEIGHT")
    case last: True
    with True have "Suc (cursor t) = 2000" by (simp add: cursor_def)
    with last True assms show ?thesis by (simp add: terminal_defs Let_def)
  next
    case False
    with assms have "terminal_row t < 24" by (simp add: terminal_ok_def)
    with True have "Suc (cursor t) < 2000" by (simp add: cursor_def)
    with False True assms show ?thesis by (simp add: terminal_defs Let_def)
  qed
qed

lemma buffer_putchar:
  "c \<noteq> CHR 0x0A \<Longrightarrow> terminal_buffer (terminal_putchar c t) =
    (terminal_buffer t)[cursor t := vga_entry c (terminal_color t)]"
  by (simp add: terminal_defs Let_def)

lemma cursor_less: "terminal_ok t \<Longrightarrow> cursor t < 2000"
  by (simp add: terminal_ok_def cursor_def)


lemma fold_putchar_ok: "terminal_ok t \<Longrightarrow> terminal_ok (fold terminal_putchar xs t)"
  by (induction xs arbitrary: t) (simp_all add: terminal_putchar_ok)

lemma fold_putchar_color [simp]: "terminal_color (fold terminal_putchar xs t) = terminal_color t"
  by (induction xs arbitrary: t) simp_all

text \<open>A run of characters without a newline fills consecutive cells, modulo the screen size.\<close>

lemma fold_putchar_cells:
  assumes "terminal_ok t" "CHR 0x0A \<notin> set xs" "length xs \<le> 2000"
  shows "cursor (fold terminal_putchar xs t) = (cursor t + length xs) mod 2000 \<and>
    (\<forall>i < length xs. terminal_buffer (fold terminal_putchar xs t) ! ((cursor t + i) mod 2000) =
        vga_entry (xs ! i) (terminal_color t)) \<and>
    (\<forall>k < 2000. (\<forall>i < length xs. (cursor t + i) mod 2000 \<noteq> k) \<longrightarrow>
        terminal_buffer (fold terminal_putchar xs t) ! k = terminal_buffer t ! k)"
  using assms(2,3)
proof (induction xs rule: rev_induct)
  case Nil
  then show ?case using cursor_less [OF assms(1)] by simp
next
  case (snoc x xs)
  let ?u = "fold terminal_putchar xs t"
  have IH: "cursor ?u = (cursor t + length xs) mod 2000"
    "\<forall>i < length xs. terminal_buffer ?u ! ((cursor t + i) mod 2000) = vga_entry (xs ! i) (terminal_color t)"
    "\<forall>k < 2000. (\<forall>i < length xs. (cursor t + i) mod 2000 \<noteq> k) \<longrightarrow> terminal_buffer ?u ! k = terminal_buffer t ! k"
    using snoc by auto
  have ok: "terminal_ok ?u" "length (terminal_buffer ?u) = 2000"
    using fold_putchar_ok [OF assms(1)] by (auto simp: terminal_ok_def)
  have x: "x \<noteq> CHR 0x0A" using snoc.prems by auto
  have buf: "terminal_buffer (terminal_putchar x ?u) =
      (terminal_buffer ?u)[(cursor t + length xs) mod 2000 := vga_entry x (terminal_color t)]"
    using buffer_putchar [OF x, of ?u] IH(1) by simp
  have distinct: "(cursor t + i) mod 2000 \<noteq> (cursor t + length xs) mod 2000" if "i < length xs" for i
    using that snoc.prems(2) mod_add_inj [of i 2000 "length xs" "cursor t"] by simp
  have "cursor (terminal_putchar x ?u) = (cursor t + length (xs @ [x])) mod 2000"
    using cursor_putchar [OF ok(1) x] IH(1) by (simp add: mod_Suc_eq)
  moreover have "terminal_buffer (terminal_putchar x ?u) ! ((cursor t + i) mod 2000) =
      vga_entry ((xs @ [x]) ! i) (terminal_color t)" if "i < length (xs @ [x])" for i
    using that IH(2) ok(2) distinct [of i] by (auto simp: buf nth_append nth_list_update less_Suc_eq)
  moreover have "terminal_buffer (terminal_putchar x ?u) ! k = terminal_buffer t ! k"
    if "k < 2000" "\<forall>i < length (xs @ [x]). (cursor t + i) mod 2000 \<noteq> k" for k
    using that IH(3) by (auto simp: buf nth_list_update)
  ultimately show ?case by simp
qed

section \<open>Properties\<close>

text \<open>Printing a string without newline and NUL, of at most one screen, writes its characters in
  the current colour into consecutive screen cells from the cursor on (wrapping from the last cell
  to the first), leaves every other cell alone, and leaves the cursor behind the last character
  and on the screen.\<close>

theorem terminal_writestring_cells:
  assumes "terminal_ok t" "CHR 0x0A \<notin> set s" "NUL \<notin> set s" "length s \<le> 2000"
  shows "terminal_ok (terminal_writestring s t) \<and>
    cursor (terminal_writestring s t) = (cursor t + length s) mod 2000 \<and>
    (\<forall>i < length s. terminal_buffer (terminal_writestring s t) ! ((cursor t + i) mod 2000) =
        vga_entry (s ! i) (terminal_color t)) \<and>
    (\<forall>k < 2000. (\<forall>i < length s. (cursor t + i) mod 2000 \<noteq> k) \<longrightarrow>
        terminal_buffer (terminal_writestring s t) ! k = terminal_buffer t ! k)"
  using fold_putchar_cells [OF assms(1,2,4)] fold_putchar_ok [OF assms(1), of s]
  by (simp add: terminal_writestring_def terminal_write_def strlen_no_nul [OF assms(3)])

definition blank_terminal :: terminal where
  "blank_terminal = \<lparr>terminal_row = 0, terminal_column = 0, terminal_color = 7,
     terminal_buffer = replicate 2000 0\<rparr>"

lemma blank_terminal_ok: "terminal_ok blank_terminal"
  by (simp add: terminal_ok_def blank_terminal_def)

theorem terminal_writestring_cells_witness:
  "terminal_buffer (terminal_writestring ''ok'' blank_terminal) ! 1 = vga_entry (CHR ''k'') 7"
proof -
  have "\<forall>i < length ''ok''. terminal_buffer (terminal_writestring ''ok'' blank_terminal) !
      ((cursor blank_terminal + i) mod 2000) = vga_entry (''ok'' ! i) (terminal_color blank_terminal)"
    using terminal_writestring_cells [OF blank_terminal_ok, of "''ok''"] by simp
  from this [rule_format, of 1] show ?thesis by (simp add: cursor_def blank_terminal_def)
qed

text \<open>The terminal has no control characters but the newline: a backspace or a carriage return, which
  the shell prints to move the cursor back, is drawn as a glyph and moves the cursor forward.\<close>

theorem terminal_putchar_no_control:
  assumes "terminal_ok t" "c = CHR 0x08 \<or> c = CHR 0x0D"
  shows "terminal_buffer (terminal_putchar c t) ! cursor t = vga_entry c (terminal_color t) \<and>
    cursor (terminal_putchar c t) = Suc (cursor t) mod 2000"
proof -
  have "c \<noteq> CHR 0x0A" using assms(2) by auto
  moreover have "cursor t < length (terminal_buffer t)"
    using cursor_less [OF assms(1)] assms(1) by (simp add: terminal_ok_def)
  ultimately show ?thesis using buffer_putchar cursor_putchar [OF assms(1)] by simp
qed

theorem terminal_putchar_no_control_witness:
  "cursor (terminal_putchar (CHR 0x08) blank_terminal) = 1"
  using terminal_putchar_no_control [OF blank_terminal_ok, of "CHR 0x08"]
  by (simp add: cursor_def blank_terminal_def)

end
