(* ===== verification/Memory.thy ===== *)
theory Memory
  imports Prelude
begin

text \<open>
  The kernel heap of \<open>memory.c\<close>: a linked list of block headers that starts at \<open>MEMORY_START\<close>.
  The headers live in memory, so the model keeps them in a store from addresses to headers and
  follows the \<open>next\<close> pointers as the code does; a null pointer is the address 0. The two list
  walks are \<open>partial_function\<close>s: \<^const>\<open>None\<close> means that the walk never ends or reads a header
  that is not there. The second half relates the pointer code to a list of adjacent blocks.
\<close>

record memory_block =
  mb_size :: u64
  mb_is_free :: u8
  mb_next :: u64

record heap =
  memory_start :: u64
  memory_initialized :: u8
  mblocks :: "u64 \<Rightarrow> memory_block option"

abbreviation MEMORY_START :: nat where "MEMORY_START \<equiv> 0x100000"
abbreviation MEMORY_SIZE :: nat where "MEMORY_SIZE \<equiv> 0x100000"
abbreviation BLOCK_SIZE :: nat where "BLOCK_SIZE \<equiv> 4096"

text \<open>\<open>sizeof(memory_block_t)\<close> on x86-64: 8 + 1 + 7 bytes of padding + 8.\<close>

definition HEADER :: nat where "HEADER = 24"

lemma HEADER_pos [simp]: "0 < HEADER" and HEADER_dvd [simp]: "8 dvd HEADER"
  by (simp_all add: HEADER_def)

definition memory_init :: "heap \<Rightarrow> heap" where
  "memory_init h =
     (if memory_initialized h \<noteq> 0 then h
      else h\<lparr>memory_start := of_nat MEMORY_START,
             mblocks := (mblocks h)(of_nat MEMORY_START \<mapsto>
               \<lparr>mb_size = of_nat MEMORY_SIZE - of_nat HEADER, mb_is_free = 1, mb_next = 0\<rparr>),
             memory_initialized := 1\<rparr>)"

definition split_block ::
  "u64 \<Rightarrow> u64 \<Rightarrow> memory_block \<Rightarrow> (u64 \<Rightarrow> memory_block option) \<Rightarrow> (u64 \<Rightarrow> memory_block option)" where
  "split_block sz current b m =
     (let new_block = current + of_nat HEADER + sz
      in m(new_block \<mapsto> \<lparr>mb_size = mb_size b - sz - of_nat HEADER, mb_is_free = 1, mb_next = mb_next b\<rparr>,
           current \<mapsto> \<lparr>mb_size = sz, mb_is_free = 0, mb_next = new_block\<rparr>))"

partial_function (option) kmalloc_loop :: "u64 \<Rightarrow> u64 \<Rightarrow> heap \<Rightarrow> (u64 \<times> heap) option" where
  "kmalloc_loop sz current h =
     (if current = 0 then Some (0, h)
      else case mblocks h current of
        None \<Rightarrow> None
      | Some b \<Rightarrow>
          if mb_is_free b \<noteq> 0 \<and> mb_size b \<ge> sz then
            Some (current + of_nat HEADER,
              h\<lparr>mblocks :=
                (if mb_size b > sz + of_nat HEADER + of_nat BLOCK_SIZE
                 then split_block sz current b (mblocks h)
                 else (mblocks h)(current \<mapsto> b\<lparr>mb_is_free := 0\<rparr>))\<rparr>)
          else kmalloc_loop sz (mb_next b) h)"

definition align8 :: "u64 \<Rightarrow> u64" where
  "align8 sz = (if sz mod 8 \<noteq> 0 then sz + (8 - sz mod 8) else sz)"

definition kmalloc :: "u64 \<Rightarrow> heap \<Rightarrow> (u64 \<times> heap) option" where
  "kmalloc sz h0 =
     (let h = (if memory_initialized h0 = 0 then memory_init h0 else h0)
      in if sz = 0 then Some (0, h) else kmalloc_loop (align8 sz) (memory_start h) h)"

partial_function (option) kfree_loop :: "u64 \<Rightarrow> heap \<Rightarrow> heap option" where
  "kfree_loop current h =
     (if current = 0 then Some h
      else case mblocks h current of
        None \<Rightarrow> None
      | Some b \<Rightarrow>
          if mb_next b = 0 then Some h
          else case mblocks h (mb_next b) of
            None \<Rightarrow> None
          | Some nb \<Rightarrow>
              if mb_is_free b \<noteq> 0 \<and> mb_is_free nb \<noteq> 0 then
                kfree_loop current
                  (h\<lparr>mblocks := (mblocks h)(current \<mapsto>
                      b\<lparr>mb_size := mb_size b + of_nat HEADER + mb_size nb, mb_next := mb_next nb\<rparr>)\<rparr>)
              else kfree_loop (mb_next b) h)"

definition kfree :: "u64 \<Rightarrow> heap \<Rightarrow> heap option" where
  "kfree ptr h =
     (if ptr = 0 \<or> memory_initialized h = 0 then Some h
      else let block = ptr - of_nat HEADER
           in case mblocks h block of
                None \<Rightarrow> None
              | Some b \<Rightarrow>
                  kfree_loop (memory_start h)
                    (h\<lparr>mblocks := (mblocks h)(block \<mapsto> b\<lparr>mb_is_free := 1\<rparr>)\<rparr>))"

section \<open>The heap as a list of adjacent blocks\<close>

text \<open>
  A block is its payload size and whether it is free; its address is the end of the block before
  it. \<open>blocks_at m a bs\<close>: the header chain that starts at address \<open>a\<close> is \<open>bs\<close>.
\<close>

type_synonym block_list = "(nat \<times> bool) list"

fun blocks_at :: "(u64 \<Rightarrow> memory_block option) \<Rightarrow> nat \<Rightarrow> block_list \<Rightarrow> bool" where
  "blocks_at m a [] = False"
| "blocks_at m a ((n, f) # bs) =
     (case m (of_nat a) of
        None \<Rightarrow> False
      | Some b \<Rightarrow> unat (mb_size b) = n \<and> (mb_is_free b \<noteq> 0) = f \<and>
          (if bs = [] then mb_next b = 0
           else mb_next b = of_nat (a + HEADER + n) \<and> blocks_at m (a + HEADER + n) bs))"

definition extent :: "block_list \<Rightarrow> nat" where
  "extent bs = sum_list (map (\<lambda>(n, f). HEADER + n) bs)"

lemma extent_simps [simp]: "extent [] = 0" "extent ((n, f) # bs) = HEADER + n + extent bs"
  by (simp_all add: extent_def)

fun aligned :: "block_list \<Rightarrow> bool" where
  "aligned [] = True"
| "aligned ((n, f) # bs) = (8 dvd n \<and> aligned bs)"

definition heap_rep :: "heap \<Rightarrow> block_list \<Rightarrow> bool" where
  "heap_rep h bs \<longleftrightarrow> memory_initialized h \<noteq> 0 \<and> memory_start h = of_nat MEMORY_START \<and>
     blocks_at (mblocks h) MEMORY_START bs \<and> extent bs = MEMORY_SIZE \<and>
     aligned bs"

text \<open>First fit with splitting, and marking followed by one coalescing pass.\<close>

fun alloc :: "nat \<Rightarrow> nat \<Rightarrow> block_list \<Rightarrow> nat option \<times> block_list" where
  "alloc n a [] = (None, [])"
| "alloc n a ((k, f) # bs) =
     (if f \<and> n \<le> k then
        (Some (a + HEADER),
         if n + HEADER + BLOCK_SIZE < k then (n, False) # (k - n - HEADER, True) # bs
         else (k, False) # bs)
      else let (r, bs') = alloc n (a + HEADER + k) bs in (r, (k, f) # bs'))"

fun release :: "nat \<Rightarrow> nat \<Rightarrow> block_list \<Rightarrow> block_list" where
  "release p a [] = []"
| "release p a ((k, f) # bs) = (k, f \<or> a = p) # release p (a + HEADER + k) bs"

fun coalesce :: "block_list \<Rightarrow> block_list" where
  "coalesce [] = []"
| "coalesce [b] = [b]"
| "coalesce ((n, f) # (k, g) # bs) =
     (if f \<and> g then coalesce ((n + HEADER + k, True) # bs) else (n, f) # coalesce ((k, g) # bs))"

lemma extent_alloc: "alloc n a bs = (r, bs') \<Longrightarrow> extent bs' = extent bs"
  by (induction n a bs arbitrary: r bs' rule: alloc.induct) (auto split: if_splits prod.splits)

lemma extent_release [simp]: "extent (release p a bs) = extent bs"
  by (induction p a bs rule: release.induct) auto

lemma extent_coalesce [simp]: "extent (coalesce bs) = extent bs"
  by (induction bs rule: coalesce.induct) auto

lemma alloc_Nil_iff: "alloc n a bs = (r, bs') \<Longrightarrow> bs' = [] \<longleftrightarrow> bs = []"
  by (cases bs) (auto split: if_splits prod.splits)

lemma aligned_alloc:
  "alloc n a bs = (r, bs') \<Longrightarrow> 8 dvd n \<Longrightarrow> aligned bs \<Longrightarrow> aligned bs'"
proof (induction n a bs arbitrary: r bs' rule: alloc.induct)
  case (2 n a k f bs)
  obtain r2 bs2 where rec: "alloc n (a + HEADER + k) bs = (r2, bs2)" by fastforce
  from "2.prems" have "8 dvd k - n - HEADER" by (auto intro!: dvd_diff_nat)
  moreover have "\<not> (f \<and> n \<le> k) \<Longrightarrow> aligned bs2"
    using "2.IH" [OF _ rec] "2.prems"(2,3) by simp
  ultimately show ?case using "2.prems" rec by (auto split: if_splits)
qed simp

lemma aligned_release: "aligned bs \<Longrightarrow> aligned (release p a bs)"
  by (induction p a bs rule: release.induct) auto

lemma aligned_coalesce: "aligned bs \<Longrightarrow> aligned (coalesce bs)"
  by (induction bs rule: coalesce.induct) auto

section \<open>Frame of the chain\<close>

lemma of_nat_eq_u64: "x < 2 ^ 64 \<Longrightarrow> y < 2 ^ 64 \<Longrightarrow> (of_nat x :: u64) = of_nat y \<longleftrightarrow> x = y"
  by (simp add: word_of_nat_eq_iff take_bit_nat_eq_self)

lemma unat_of_nat_u64: "x < 2 ^ 64 \<Longrightarrow> unat (of_nat x :: u64) = x"
  by (simp add: unat_of_nat take_bit_nat_eq_self)

lemma less_of_nat_sum:
  assumes "n \<le> k" "k < 2 ^ 63"
  shows "(of_nat n + of_nat HEADER + of_nat BLOCK_SIZE < (of_nat k :: u64)) = (n + HEADER + BLOCK_SIZE < k)"
proof -
  have "(of_nat n + of_nat HEADER + of_nat BLOCK_SIZE :: u64) = of_nat (n + HEADER + BLOCK_SIZE)"
    by simp
  moreover have "unat (of_nat (n + HEADER + BLOCK_SIZE) :: u64) = n + HEADER + BLOCK_SIZE"
    using assms by (intro unat_of_nat_u64) (simp add: HEADER_def)
  moreover have "unat (of_nat k :: u64) = k" using assms by (intro unat_of_nat_u64) simp
  ultimately show ?thesis by (simp only: word_less_nat_alt)
qed

lemma blocks_at_upd_outside:
  "blocks_at m a bs \<Longrightarrow> c < a \<or> a + extent bs \<le> c \<Longrightarrow> c < 2 ^ 64 \<Longrightarrow> a + extent bs \<le> 2 ^ 64 \<Longrightarrow>
    blocks_at (m(of_nat c \<mapsto> b)) a bs"
proof (induction m a bs rule: blocks_at.induct)
  case (2 m a n f bs)
  have "(of_nat a :: u64) \<noteq> of_nat c"
    using 2(3-5) HEADER_pos by (subst of_nat_eq_u64) (auto simp del: HEADER_pos)
  with 2 show ?case
    by (auto split: option.splits if_splits)
qed simp

lemma blocks_at_headD:
  "blocks_at m a ((n, f) # bs) \<Longrightarrow>
    \<exists>b. m (of_nat a) = Some b \<and> unat (mb_size b) = n \<and> (mb_is_free b \<noteq> 0) = f \<and>
      (bs = [] \<longrightarrow> mb_next b = 0) \<and>
      (bs \<noteq> [] \<longrightarrow> mb_next b = of_nat (a + HEADER + n) \<and> blocks_at m (a + HEADER + n) bs)"
  by (auto split: option.splits if_splits)

section \<open>The allocator implements first fit\<close>

lemma blocks_atI:
  "m (of_nat a) = Some b \<Longrightarrow> unat (mb_size b) = n \<Longrightarrow> (mb_is_free b \<noteq> 0) = f \<Longrightarrow>
    (bs = [] \<Longrightarrow> mb_next b = 0) \<Longrightarrow>
    (bs \<noteq> [] \<Longrightarrow> mb_next b = of_nat (a + HEADER + n) \<and> blocks_at m (a + HEADER + n) bs) \<Longrightarrow>
    blocks_at m a ((n, f) # bs)"
  by (cases bs) simp_all

lemma split_block_chain:
  assumes chain: "blocks_at m a ((k, True) # bs)" and b: "m (of_nat a) = Some b"
    and fits: "n + HEADER + BLOCK_SIZE < k" and bound: "a + HEADER + k + extent bs \<le> 2 ^ 63"
  shows "blocks_at (split_block (of_nat n) (of_nat a) b m) a ((n, False) # (k - n - HEADER, True) # bs)"
proof -
  let ?m = "split_block (of_nat n) (of_nat a) b m"
  let ?nb = "a + HEADER + n"
  let ?b1 = "\<lparr>mb_size = of_nat n, mb_is_free = 0, mb_next = of_nat ?nb\<rparr>"
  let ?b2 = "\<lparr>mb_size = mb_size b - of_nat n - of_nat HEADER, mb_is_free = 1, mb_next = mb_next b\<rparr>"
  have hd: "unat (mb_size b) = k" "bs = [] \<longrightarrow> mb_next b = 0"
    "bs \<noteq> [] \<longrightarrow> mb_next b = of_nat (a + HEADER + k) \<and> blocks_at m (a + HEADER + k) bs"
    using blocks_at_headD [OF chain] b by auto
  then have size: "mb_size b = of_nat k" by auto
  have "mb_size b = of_nat ((k - n - HEADER) + n + HEADER)" using fits size by simp
  then have rest': "mb_size b - of_nat n - of_nat HEADER = of_nat (k - n - HEADER)"
    by (simp only: of_nat_add) simp
  have rest: "unat (mb_size b - of_nat n - of_nat HEADER) = k - n - HEADER"
    unfolding rest' using bound by (intro unat_of_nat_u64) simp
  have n: "unat (of_nat n :: u64) = n" using fits bound by (intro unat_of_nat_u64) auto
  have neq: "(of_nat ?nb :: u64) \<noteq> of_nat a" using fits bound by (subst of_nat_eq_u64) auto
  have m: "?m = m(of_nat ?nb \<mapsto> ?b2, of_nat a \<mapsto> ?b1)" by (simp add: split_block_def Let_def)
  have m_a: "?m (of_nat a) = Some ?b1" and m_nb: "?m (of_nat ?nb) = Some ?b2"
    unfolding m using neq by simp_all
  have next': "?nb + HEADER + (k - n - HEADER) = a + HEADER + k" using fits by simp
  have tail: "blocks_at ?m (a + HEADER + k) bs" if "bs \<noteq> []"
    unfolding m using hd(3) that fits bound by (intro blocks_at_upd_outside) auto
  have "blocks_at ?m ?nb ((k - n - HEADER, True) # bs)"
    using blocks_atI [of ?m ?nb ?b2 "k - n - HEADER" True bs, OF m_nb] hd(2,3) tail rest
    unfolding next' by simp
  then show ?thesis
    using blocks_atI [of ?m a ?b1 n False "(k - n - HEADER, True) # bs", OF m_a] n by simp
qed

text \<open>The first block is free and large enough: it is split or taken as it is.\<close>

lemma kmalloc_loop_fit:
  assumes ch: "blocks_at (mblocks h) a ((k, True) # bs)" and a: "0 < a" "a + extent ((k, True) # bs) \<le> 2 ^ 63" and n: "n \<le> k"
    and al: "alloc n a ((k, True) # bs) = (r, bs')"
  shows "\<exists>m'. kmalloc_loop (of_nat n) (of_nat a) h =
        Some (case r of None \<Rightarrow> 0 | Some p \<Rightarrow> of_nat p, h\<lparr>mblocks := m'\<rparr>) \<and>
      blocks_at m' a bs' \<and> dom (mblocks h) \<subseteq> dom m' \<and>
      (\<forall>c < a. m' (of_nat c) = mblocks h (of_nat c))"
proof -
  obtain b where b: "mblocks h (of_nat a) = Some b" "unat (mb_size b) = k" "mb_is_free b \<noteq> 0" "bs = [] \<Longrightarrow> mb_next b = 0"
    "bs \<noteq> [] \<Longrightarrow> mb_next b = of_nat (a + HEADER + k) \<and> blocks_at (mblocks h) (a + HEADER + k) bs"
    using blocks_at_headD [OF ch] by blast
  have a0: "(of_nat a :: u64) \<noteq> 0" using a of_nat_eq_u64 [of a 0] by simp
  have below: "c < a \<Longrightarrow> (of_nat c :: u64) \<noteq> of_nat a" for c using a by (subst of_nat_eq_u64) auto
  have size: "mb_size b = of_nat k" using b(2) by auto
  have le: "mb_size b \<ge> of_nat n" using a n by (simp add: size word_le_nat_alt unat_of_nat_u64)
  show ?thesis
  proof (cases "n + HEADER + BLOCK_SIZE < k")
    case True
    let ?m = "split_block (of_nat n) (of_nat a) b (mblocks h)"
    have gt: "mb_size b > of_nat n + of_nat HEADER + of_nat BLOCK_SIZE"
      using True a(2) less_of_nat_sum [of n k] HEADER_pos unfolding size by simp
    have "bs' = (n, False) # (k - n - HEADER, True) # bs" using True al by simp
    then have "blocks_at ?m a bs'"
      using split_block_chain [of "mblocks h" a k bs b n] True ch a b(1) by simp
    moreover have "c < a \<Longrightarrow> ?m (of_nat c) = mblocks h (of_nat c)" for c
      using below [of c] a True of_nat_eq_u64 [of c "a + HEADER + n"]
      by (auto simp: split_block_def Let_def)
    ultimately show ?thesis using gt n al b(1,3) le a0 True
      by (subst kmalloc_loop.simps) (auto simp: split_block_def Let_def)
  next
    case False
    let ?m = "(mblocks h)(of_nat a \<mapsto> b\<lparr>mb_is_free := 0\<rparr>)"
    have gt: "\<not> mb_size b > of_nat n + of_nat HEADER + of_nat BLOCK_SIZE"
      using False n a(2) less_of_nat_sum [of n k] HEADER_pos unfolding size by simp
    have "bs \<noteq> [] \<Longrightarrow> blocks_at ?m (a + HEADER + k) bs"
      using b(5) a by (intro blocks_at_upd_outside) auto
    then have "blocks_at ?m a ((k, False) # bs)" using b by auto
    then show ?thesis using gt n al b(1,3) le a0 False below
      by (subst kmalloc_loop.simps) auto
  qed
qed

lemma kmalloc_loop_alloc:
  assumes "blocks_at (mblocks h) a bs" "0 < a" "a + extent bs \<le> 2 ^ 63" "n < 2 ^ 64"
    and "alloc n a bs = (r, bs')"
  shows "\<exists>m'. kmalloc_loop (of_nat n) (of_nat a) h =
        Some (case r of None \<Rightarrow> 0 | Some p \<Rightarrow> of_nat p, h\<lparr>mblocks := m'\<rparr>) \<and>
      blocks_at m' a bs' \<and> dom (mblocks h) \<subseteq> dom m' \<and>
      (\<forall>c < a. m' (of_nat c) = mblocks h (of_nat c))"
  using assms
proof (induction n a bs arbitrary: r bs' rule: alloc.induct)
  case (1 n a)
  then show ?case by simp
next
  case (2 n a k f bs)
  obtain b where b: "mblocks h (of_nat a) = Some b" "unat (mb_size b) = k" "(mb_is_free b \<noteq> 0) = f"
    "bs = [] \<Longrightarrow> mb_next b = 0"
    "bs \<noteq> [] \<Longrightarrow> mb_next b = of_nat (a + HEADER + k) \<and> blocks_at (mblocks h) (a + HEADER + k) bs"
    using blocks_at_headD [OF "2.prems"(1)] by blast
  have a0: "(of_nat a :: u64) \<noteq> 0"
    using "2.prems" of_nat_eq_u64 [of a 0] by simp
  have size: "mb_size b = of_nat k" using b(2) by auto
  have le: "(mb_size b \<ge> of_nat n) = (n \<le> k)"
    using "2.prems" by (simp add: size word_le_nat_alt unat_of_nat_u64)
  show ?case
  proof (cases "f \<and> n \<le> k")
    case fit: True
    then show ?thesis
      using kmalloc_loop_fit [of h a k bs n r bs'] "2.prems" by simp
  next
    case False
    obtain r2 bs2 where rec: "alloc n (a + HEADER + k) bs = (r2, bs2)" by fastforce
    have skip: "kmalloc_loop (of_nat n) (of_nat a) h = kmalloc_loop (of_nat n) (mb_next b) h"
      using False b le a0 by (subst kmalloc_loop.simps) auto
    have res: "r = r2" "bs' = (k, f) # bs2" using False "2.prems"(5) rec by auto
    show ?thesis
    proof (cases "bs = []")
      case True
      then have "kmalloc_loop (of_nat n) (of_nat a) h = Some (0, h)"
        using skip b(4) by (simp add: kmalloc_loop.simps [of _ 0])
      with True res rec "2.prems"(1) show ?thesis by (intro exI [of _ "mblocks h"]) auto
    next
      case ne: False
      from "2.IH" [OF False _ _ _ _ rec] obtain m' where
        m': "kmalloc_loop (of_nat n) (mb_next b) h =
            Some (case r2 of None \<Rightarrow> 0 | Some p \<Rightarrow> of_nat p, h\<lparr>mblocks := m'\<rparr>)"
          "blocks_at m' (a + HEADER + k) bs2" "dom (mblocks h) \<subseteq> dom m'"
          "\<forall>c < a + HEADER + k. m' (of_nat c) = mblocks h (of_nat c)"
        using "2.prems" b(5) ne by auto
      have "bs2 \<noteq> []" using alloc_Nil_iff [OF rec] ne by simp
      moreover have "m' (of_nat a) = Some b" using m'(4) b(1) by simp
      ultimately have "blocks_at m' a bs'" using res m'(2) b ne by auto
      with m' res skip show ?thesis by (intro exI [of _ m']) auto
    qed
  qed
qed

section \<open>Freeing marks the block and coalesces\<close>

lemma coalesce_Nil_iff [simp]: "coalesce bs = [] \<longleftrightarrow> bs = []"
  by (induction bs rule: coalesce.induct) auto

lemma release_Nil_iff [simp]: "release p a bs = [] \<longleftrightarrow> bs = []"
  by (cases bs) auto

text \<open>Two free neighbours become one block, which the loop looks at again.\<close>

lemma kfree_loop_merge:
  assumes ch: "blocks_at (mblocks h) a ((n, True) # (k, True) # bs)" and a: "0 < a" "a + extent ((n, True) # (k, True) # bs) \<le> 2 ^ 63"
  obtains b where "mblocks h (of_nat a) \<noteq> None"
    "kfree_loop (of_nat a) h = kfree_loop (of_nat a) (h\<lparr>mblocks := (mblocks h)(of_nat a \<mapsto> b)\<rparr>)"
    "blocks_at ((mblocks h)(of_nat a \<mapsto> b)) a ((n + HEADER + k, True) # bs)"
proof -
  let ?a2 = "a + HEADER + n"
  have a0: "(of_nat a :: u64) \<noteq> 0" "(of_nat ?a2 :: u64) \<noteq> 0" using a of_nat_eq_u64 [of a 0] of_nat_eq_u64 [of ?a2 0] by simp_all
  obtain b where b: "mblocks h (of_nat a) = Some b" "unat (mb_size b) = n" "mb_is_free b \<noteq> 0"
    "mb_next b = of_nat ?a2" "blocks_at (mblocks h) ?a2 ((k, True) # bs)"
    using blocks_at_headD [OF ch] by blast
  obtain nb where nb: "mblocks h (of_nat ?a2) = Some nb" "unat (mb_size nb) = k"
    "mb_is_free nb \<noteq> 0" "bs = [] \<longrightarrow> mb_next nb = 0"
    "bs \<noteq> [] \<longrightarrow> mb_next nb = of_nat (?a2 + HEADER + k) \<and> blocks_at (mblocks h) (?a2 + HEADER + k) bs"
    using blocks_at_headD [OF b(5)] by blast
  let ?b = "b\<lparr>mb_size := mb_size b + of_nat HEADER + mb_size nb, mb_next := mb_next nb\<rparr>"
  let ?m = "(mblocks h)(of_nat a \<mapsto> ?b)"
  have "mb_size b + of_nat HEADER + mb_size nb = of_nat (n + HEADER + k)"
    using b(2) nb(2) by auto
  moreover have "unat (of_nat (n + HEADER + k) :: u64) = n + HEADER + k"
    using a(2) by (intro unat_of_nat_u64) simp
  ultimately have size: "unat (mb_size ?b) = n + HEADER + k"
    by (simp only: memory_block.simps memory_block.update_convs memory_block.select_convs)
       (simp del: of_nat_add)
  have addr: "?a2 + HEADER + k = a + HEADER + (n + HEADER + k)" by simp
  have "bs \<noteq> [] \<Longrightarrow> blocks_at ?m (a + HEADER + (n + HEADER + k)) bs"
    using nb(5) a(2) blocks_at_upd_outside [of "mblocks h" "?a2 + HEADER + k" bs a ?b]
    unfolding addr by simp
  then have "blocks_at ?m a ((n + HEADER + k, True) # bs)"
    using blocks_atI [of ?m a ?b "n + HEADER + k" True bs] b(3) nb(4,5) size
    unfolding addr by simp
  then show thesis using b nb a0 by (intro that [of ?b]) (simp, subst kfree_loop.simps, simp)
qed

lemma kfree_loop_coalesce:
  assumes "blocks_at (mblocks h) a bs" "0 < a" "a + extent bs \<le> 2 ^ 63"
  shows "\<exists>m'. kfree_loop (of_nat a) h = Some (h\<lparr>mblocks := m'\<rparr>) \<and> blocks_at m' a (coalesce bs) \<and>
    dom m' = dom (mblocks h) \<and> (\<forall>c < a. m' (of_nat c) = mblocks h (of_nat c))"
  using assms
proof (induction bs arbitrary: a h rule: coalesce.induct)
  case 1
  then show ?case by simp
next
  case (2 x a h)
  obtain n f where x: "x = (n, f)" by force
  have "(of_nat a :: u64) \<noteq> 0" using "2.prems" of_nat_eq_u64 [of a 0] by simp
  with blocks_at_headD [OF "2.prems"(1) [unfolded x]] "2.prems"(1) x
  show ?case by (subst kfree_loop.simps) (auto intro!: exI [of _ "mblocks h"])
next
  case (3 n f k g bs a h)
  have a0: "(of_nat a :: u64) \<noteq> 0" using "3.prems" of_nat_eq_u64 [of a 0] by simp
  let ?a2 = "a + HEADER + n"
  have a20: "(of_nat ?a2 :: u64) \<noteq> 0" using "3.prems" of_nat_eq_u64 [of ?a2 0] by simp
  have below: "c < a \<Longrightarrow> (of_nat c :: u64) \<noteq> of_nat a" for c
    using "3.prems" by (subst of_nat_eq_u64) auto
  obtain b where b: "mblocks h (of_nat a) = Some b" "unat (mb_size b) = n" "(mb_is_free b \<noteq> 0) = f"
    "mb_next b = of_nat ?a2" "blocks_at (mblocks h) ?a2 ((k, g) # bs)"
    using blocks_at_headD [OF "3.prems"(1)] by blast
  obtain nb where nb: "mblocks h (of_nat ?a2) = Some nb" "unat (mb_size nb) = k"
    "(mb_is_free nb \<noteq> 0) = g" "bs = [] \<longrightarrow> mb_next nb = 0"
    "bs \<noteq> [] \<longrightarrow> mb_next nb = of_nat (?a2 + HEADER + k) \<and> blocks_at (mblocks h) (?a2 + HEADER + k) bs"
    using blocks_at_headD [OF b(5)] by blast
  show ?case
  proof (cases "f \<and> g")
    case True
    then obtain b' where b': "mblocks h (of_nat a) \<noteq> None"
      "kfree_loop (of_nat a) h = kfree_loop (of_nat a) (h\<lparr>mblocks := (mblocks h)(of_nat a \<mapsto> b')\<rparr>)"
      "blocks_at ((mblocks h)(of_nat a \<mapsto> b')) a ((n + HEADER + k, True) # bs)"
      using kfree_loop_merge [of h a n k bs] "3.prems" by auto
    let ?h = "h\<lparr>mblocks := (mblocks h)(of_nat a \<mapsto> b')\<rparr>"
    have ext: "a + extent ((n + HEADER + k, True) # bs) \<le> 2 ^ 63" using "3.prems"(3) by simp
    have "blocks_at (mblocks ?h) a ((n + HEADER + k, True) # bs)" using b'(3) by (simp del: blocks_at.simps)
    from "3.IH"(1) [OF True this "3.prems"(2) ext] obtain m' where
      "kfree_loop (of_nat a) ?h = Some (?h\<lparr>mblocks := m'\<rparr>)"
      "blocks_at m' a (coalesce ((n + HEADER + k, True) # bs))" "dom m' = dom (mblocks ?h)"
      "\<forall>c < a. m' (of_nat c) = mblocks ?h (of_nat c)" by blast
    with b'(1,2) True below show ?thesis by (intro exI [of _ m']) auto
  next
    case False
    have step: "kfree_loop (of_nat a) h = kfree_loop (of_nat ?a2) h"
      using False b nb a0 a20 by (subst kfree_loop.simps) auto
    from "3.IH"(2) [OF False b(5)] "3.prems" obtain m' where
      m': "kfree_loop (of_nat ?a2) h = Some (h\<lparr>mblocks := m'\<rparr>)"
        "blocks_at m' ?a2 (coalesce ((k, g) # bs))" "dom m' = dom (mblocks h)"
        "\<forall>c < ?a2. m' (of_nat c) = mblocks h (of_nat c)" by auto
    then have "blocks_at m' a ((n, f) # coalesce ((k, g) # bs))"
      using b by (intro blocks_atI [of m' a b n f]) auto
    with step m' False show ?thesis by (intro exI [of _ m']) auto
  qed
qed

lemma blocks_at_release:
  assumes "blocks_at m a bs" "m (of_nat p) = Some b" "p < 2 ^ 64" "a + extent bs \<le> 2 ^ 63"
    and m': "m' (of_nat p) = Some (b\<lparr>mb_is_free := 1\<rparr>)" "\<And>x. x \<noteq> of_nat p \<Longrightarrow> m' x = m x"
  shows "blocks_at m' a (release p a bs)"
  using assms(1,4)
proof (induction bs arbitrary: a)
  case Nil
  then show ?case by simp
next
  case (Cons x bs)
  obtain n f where x: "x = (n, f)" by force
  obtain c where c: "m (of_nat a) = Some c" "unat (mb_size c) = n" "(mb_is_free c \<noteq> 0) = f"
    "bs = [] \<longrightarrow> mb_next c = 0"
    "bs \<noteq> [] \<longrightarrow> mb_next c = of_nat (a + HEADER + n) \<and> blocks_at m (a + HEADER + n) bs"
    using blocks_at_headD [OF Cons.prems(1) [unfolded x]] by blast
  have same: "(of_nat a :: u64) = of_nat p \<longleftrightarrow> a = p"
    using Cons.prems assms(3) by (intro of_nat_eq_u64) auto
  have tail: "bs \<noteq> [] \<Longrightarrow> blocks_at m' (a + HEADER + n) (release p (a + HEADER + n) bs)"
    using Cons.IH c Cons.prems x by simp
  have "m' (of_nat a) = Some (if a = p then c\<lparr>mb_is_free := 1\<rparr> else c)"
    using same c(1) assms(2) m' by auto
  from blocks_atI [of m' a, OF this, of n "f \<or> a = p" "release p (a + HEADER + n) bs"]
  show ?case unfolding release.simps x
    using c tail by (cases "a = p") (simp_all del: blocks_at.simps)
qed

section \<open>Contract of the allocator\<close>

text \<open>The allocated blocks, as pairs of payload address and payload size.\<close>

fun live :: "nat \<Rightarrow> block_list \<Rightarrow> (nat \<times> nat) list" where
  "live a [] = []"
| "live a ((n, f) # bs) = (if f then [] else [(a + HEADER, n)]) @ live (a + HEADER + n) bs"

abbreviation live_blocks :: "block_list \<Rightarrow> (nat \<times> nat) set" where
  "live_blocks bs \<equiv> set (live MEMORY_START bs)"

fun coalesced :: "block_list \<Rightarrow> bool" where
  "coalesced ((n, f) # (k, g) # bs) = (\<not> (f \<and> g) \<and> coalesced ((k, g) # bs))"
| "coalesced bs = True"

lemma live_range: "(p, k) \<in> set (live a bs) \<Longrightarrow> a + HEADER \<le> p \<and> p + k \<le> a + extent bs"
  by (induction a bs rule: live.induct) (fastforce split: if_splits)+

lemma live_above: "(p, k) \<in> set (live a bs) \<Longrightarrow> a < p"
  using live_range [of p k a bs] HEADER_pos by linarith

lemma live_disjoint:
  "(p, k) \<in> set (live a bs) \<Longrightarrow> (q, l) \<in> set (live a bs) \<Longrightarrow> (p, k) \<noteq> (q, l) \<Longrightarrow>
    p + k + HEADER \<le> q \<or> q + l + HEADER \<le> p"
proof (induction a bs rule: live.induct)
  case (2 a n f bs)
  then show ?case by (auto split: if_splits dest: live_range)
qed simp

lemma alloc_live:
  "alloc n a bs = (r, bs') \<Longrightarrow>
    (case r of
       None \<Rightarrow> bs' = bs \<and> (\<forall>(k, f) \<in> set bs. f \<longrightarrow> k < n)
     | Some p \<Rightarrow> \<exists>k \<ge> n. set (live a bs') = insert (p, k) (set (live a bs)) \<and>
         p \<notin> fst ` set (live a bs))"
proof (induction n a bs arbitrary: r bs' rule: alloc.induct)
  case (2 n a k f bs)
  show ?case
  proof (cases "f \<and> n \<le> k")
    case True
    have addr: "a + HEADER + n + HEADER + (k - n - HEADER) = a + HEADER + k"
      if "n + HEADER + BLOCK_SIZE < k" using that by simp
    have "a + HEADER \<notin> fst ` set (live (a + HEADER + k) bs)"
      using live_above [of "a + HEADER" _ "a + HEADER + k" bs] by auto
    moreover have "set (live a bs') = insert (a + HEADER, if n + HEADER + BLOCK_SIZE < k then n else k)
        (set (live (a + HEADER + k) bs))"
      using True "2.prems" addr by (cases "n + HEADER + BLOCK_SIZE < k") (auto simp: add.assoc)
    ultimately show ?thesis using True "2.prems" by auto
  next
    case False
    obtain r2 bs2 where rec: "alloc n (a + HEADER + k) bs = (r2, bs2)" by fastforce
    have res: "r = r2" "bs' = (k, f) # bs2" using False "2.prems" rec by auto
    show ?thesis
    proof (cases r2)
      case None
      with "2.IH" [OF False rec] res False show ?thesis by auto
    next
      case (Some p)
      from "2.IH" [OF False rec] Some obtain l where l: "n \<le> l"
        "set (live (a + HEADER + k) bs2) = insert (p, l) (set (live (a + HEADER + k) bs))"
        "p \<notin> fst ` set (live (a + HEADER + k) bs)" by auto
      have "a + HEADER + k < p" using live_above [of p l "a + HEADER + k" bs2] l(2) by simp
      with l res Some show ?thesis by (auto intro!: exI [of _ l])
    qed
  qed
qed simp

lemma set_live_release:
  "set (live a (release p a bs)) = set (live a bs) - {(q, k). q = p + HEADER}"
proof (induction p a bs rule: release.induct)
  case (2 p a k f bs)
  have "set (live (a + HEADER + k) bs) - {(q, k). q = p + HEADER} = set (live (a + HEADER + k) bs)"
    if "a = p" using that live_above [of "p + HEADER" _ "a + HEADER + k" bs] by auto
  with 2 show ?case by (cases "a = p"; cases f) (simp_all add: insert_Diff_if)
qed simp

lemma set_live_coalesce: "set (live a (coalesce bs)) = set (live a bs)"
proof (induction bs arbitrary: a rule: coalesce.induct)
  case (3 n f k g bs)
  from 3 show ?case by (cases f; cases g) (simp_all add: add.assoc)
qed simp_all

lemma coalesce_head: "\<exists>k' r. coalesce ((k, g) # bs) = (k', g) # r"
proof (induction bs arbitrary: k)
  case (Cons b bs)
  obtain l h where "b = (l, h)" by force
  with Cons.IH [of "k + HEADER + l"] show ?case by (cases "g \<and> h") auto
qed simp

lemma coalesced_coalesce: "coalesced (coalesce bs)"
proof (induction bs rule: coalesce.induct)
  case (3 n f k g bs)
  then show ?case using coalesce_head [of k g bs] by (cases "f \<and> g") auto
qed simp_all

lemma coalesce_id: "coalesced bs \<Longrightarrow> coalesce bs = bs"
  by (induction bs rule: coalesced.induct) auto

definition heap_ok :: "heap \<Rightarrow> bool" where
  "heap_ok h \<longleftrightarrow> memory_initialized h = 0 \<or> (\<exists>bs. heap_rep h bs)"

definition initial_blocks :: block_list where
  "initial_blocks = [(MEMORY_SIZE - HEADER, True)]"

definition empty_heap :: heap where
  "empty_heap = \<lparr>memory_start = 0, memory_initialized = 0, mblocks = Map.empty\<rparr>"

lemma memory_init_rep: "memory_initialized h = 0 \<Longrightarrow> heap_rep (memory_init h) initial_blocks"
  by (simp add: memory_init_def heap_rep_def initial_blocks_def HEADER_def)

lemma unat_u64_less: "unat (w :: u64) < 2 ^ 64"
  using unsigned_less [of w, where 'a = nat] by simp

lemma round_up8: "x mod 8 \<noteq> 0 \<Longrightarrow> x + (8 - x mod 8) = (x + 7) div 8 * 8" for x :: nat
proof -
  assume "x mod 8 \<noteq> 0"
  then obtain r where r: "x mod 8 = Suc r" by (cases "x mod 8") auto
  have eq: "x = x div 8 * 8 + Suc r" using div_mult_mod_eq [of x 8] r by linarith
  have "r < 8" using mod_less_divisor [of 8 x] r by linarith
  have eq7: "x + 7 = r + Suc (x div 8) * 8" using eq unfolding mult_Suc by linarith
  have "(x + 7) div 8 = Suc (x div 8)" unfolding eq7 using \<open>r < 8\<close> by simp
  with eq r \<open>r < 8\<close> show ?thesis unfolding mult_Suc by linarith
qed

lemma align8_unat:
  assumes "unat sz + 7 < 2 ^ 64"
  shows "unat (align8 sz) = (unat sz + 7) div 8 * 8"
proof (cases "unat sz mod 8 = 0")
  case True
  then have "unat (sz mod 8) = 0" by (simp add: unat_mod)
  then have "sz mod 8 = 0" by (simp only: unsigned_eq_0_iff)
  with True show ?thesis by (auto simp: align8_def)
next
  case False
  have m: "unat (sz mod 8) = unat sz mod 8" by (simp add: unat_mod)
  have "unat (8 - sz mod 8) = 8 - unat sz mod 8"
    using m by (subst unat_sub) (auto simp: word_le_nat_alt)
  then have "unat (sz + (8 - sz mod 8)) = (unat sz + (8 - unat sz mod 8)) mod 2 ^ 64"
    by (simp add: unat_word_ariths)
  also have "\<dots> = unat sz + (8 - unat sz mod 8)" using assms False by simp
  also have "\<dots> = (unat sz + 7) div 8 * 8" using False by (rule round_up8)
  finally have "unat (sz + (8 - sz mod 8)) = (unat sz + 7) div 8 * 8" .
  moreover have "sz mod 8 \<noteq> 0" using False m by (metis unsigned_0)
  ultimately show ?thesis by (simp only: align8_def if_True not_False_eq_True simp_thms)
qed

lemma kmalloc_alloc:
  assumes rep: "heap_rep h bs" and sz: "sz \<noteq> 0" and n: "unat (align8 sz) = n" "8 dvd n"
    and alloc: "alloc n MEMORY_START bs = (r, bs')"
  obtains h' where "kmalloc sz h = Some (case r of None \<Rightarrow> 0 | Some p \<Rightarrow> of_nat p, h')"
    "heap_rep h' bs'" "dom (mblocks h) \<subseteq> dom (mblocks h')"
proof -
  have n': "align8 sz = of_nat n" using n by auto
  have ext: "extent bs = MEMORY_SIZE" using rep by (simp add: heap_rep_def)
  have "blocks_at (mblocks h) MEMORY_START bs" "(0 :: nat) < MEMORY_START"
    "MEMORY_START + extent bs \<le> 2 ^ 63" "n < 2 ^ 64"
    using rep ext unat_u64_less [of "align8 sz"] n(1) by (simp_all add: heap_rep_def)
  from kmalloc_loop_alloc [OF this alloc] obtain m' where
    m': "kmalloc_loop (of_nat n) (of_nat MEMORY_START) h =
      Some (case r of None \<Rightarrow> 0 | Some p \<Rightarrow> of_nat p, h\<lparr>mblocks := m'\<rparr>)"
    "blocks_at m' MEMORY_START bs'" "dom (mblocks h) \<subseteq> dom m'" by blast
  have "heap_rep (h\<lparr>mblocks := m'\<rparr>) bs'"
    using rep m'(2) extent_alloc [OF alloc] aligned_alloc [OF alloc n(2)]
    by (simp add: heap_rep_def)
  moreover have "kmalloc sz h = Some (case r of None \<Rightarrow> 0 | Some p \<Rightarrow> of_nat p, h\<lparr>mblocks := m'\<rparr>)"
    using rep sz m'(1) by (simp add: kmalloc_def heap_rep_def n' Let_def del: of_nat_numeral)
  moreover have "dom (mblocks h) \<subseteq> dom (mblocks (h\<lparr>mblocks := m'\<rparr>))" using m'(3) by simp
  ultimately show ?thesis using that by blast
qed

text \<open>An address of the region survives the trip through a machine word.\<close>

lemma alloc_address:
  assumes "alloc n MEMORY_START bs = (Some p, bs')" "extent bs = MEMORY_SIZE"
  obtains k where "n \<le> k" "live_blocks bs' = insert (p, k) (live_blocks bs)"
    "p \<notin> fst ` live_blocks bs" "unat (of_nat p :: u64) = p" "p \<noteq> 0"
    "MEMORY_START + HEADER \<le> p" "p + k \<le> MEMORY_START + MEMORY_SIZE"
proof -
  from alloc_live [OF assms(1)] obtain k where k: "n \<le> k"
    "live_blocks bs' = insert (p, k) (live_blocks bs)" "p \<notin> fst ` live_blocks bs" by auto
  then have range: "MEMORY_START + HEADER \<le> p" "p + k \<le> MEMORY_START + MEMORY_SIZE"
    using live_range [of p k MEMORY_START bs'] extent_alloc [OF assms(1)] assms(2) by auto
  then have "unat (of_nat p :: u64) = p" by (intro unat_of_nat_u64) simp
  with k range show ?thesis by (intro that [of k]) auto
qed

lemma kfree_coalesce:
  assumes rep: "heap_rep h bs" and ptr: "ptr \<noteq> 0" "mblocks h (ptr - of_nat HEADER) \<noteq> None"
  obtains h' where "kfree ptr h = Some h'"
    "heap_rep h' (coalesce (release (unat (ptr - of_nat HEADER)) MEMORY_START bs))"
    "dom (mblocks h') = dom (mblocks h)"
proof -
  let ?p = "unat (ptr - of_nat HEADER)"
  let ?bs = "release ?p MEMORY_START bs"
  obtain b where b: "mblocks h (ptr - of_nat HEADER) = Some b" using ptr(2) by auto
  let ?m = "(mblocks h)(ptr - of_nat HEADER \<mapsto> b\<lparr>mb_is_free := 1\<rparr>)"
  have ext: "extent bs = MEMORY_SIZE" using rep by (simp add: heap_rep_def)
  have "blocks_at ?m MEMORY_START ?bs"
    using rep b ext unsigned_less [of "ptr - of_nat HEADER"]
    by (intro blocks_at_release [of "mblocks h" _ bs ?p b]) (auto simp: heap_rep_def)
  then obtain m' where m': "kfree_loop (of_nat MEMORY_START) (h\<lparr>mblocks := ?m\<rparr>) =
      Some (h\<lparr>mblocks := m'\<rparr>)" "blocks_at m' MEMORY_START (coalesce ?bs)" "dom m' = dom ?m"
    using kfree_loop_coalesce [of "h\<lparr>mblocks := ?m\<rparr>" MEMORY_START ?bs] ext
    by (auto simp del: of_nat_numeral)
  have "heap_rep (h\<lparr>mblocks := m'\<rparr>) (coalesce ?bs)"
    using rep m'(2) ext by (simp add: heap_rep_def aligned_coalesce aligned_release)
  moreover have "kfree ptr h = Some (h\<lparr>mblocks := m'\<rparr>)"
    using rep ptr b m'(1) by (simp add: kfree_def heap_rep_def Let_def del: of_nat_numeral)
  moreover have "dom (mblocks (h\<lparr>mblocks := m'\<rparr>)) = dom (mblocks h)" using m'(3) b by auto
  ultimately show ?thesis using that by blast
qed

lemma release_below: "p < a \<Longrightarrow> release p a bs = bs"
  by (induction p a bs rule: release.induct) auto

text \<open>Freeing what was just allocated restores a coalesced heap.\<close>

lemma release_alloc:
  "alloc n a bs = (Some p, bs') \<Longrightarrow> coalesced bs \<Longrightarrow>
    coalesce (release (p - HEADER) a bs') = bs \<and> a \<le> p - HEADER \<and>
    (bs \<noteq> [] \<longrightarrow> \<not> snd (hd bs) \<longrightarrow> hd (release (p - HEADER) a bs') = hd bs)"
proof (induction n a bs arbitrary: bs' rule: alloc.induct)
  case (2 n a k f bs)
  show ?case
  proof (cases "f \<and> n \<le> k")
    case True
    then have p: "p = a + HEADER" using "2.prems"(1) by simp
    have merge: "n + HEADER + (k - n - HEADER) = k" if "n + HEADER + BLOCK_SIZE < k" using that by simp
    have "coalesce ((k, True) # bs) = (k, True) # bs" using True "2.prems"(2) by (simp add: coalesce_id)
    with True "2.prems"(1) p merge show ?thesis
      by (auto simp: release_below split: if_splits)
  next
    case False
    obtain r2 bs2 where rec: "alloc n (a + HEADER + k) bs = (r2, bs2)" by fastforce
    with False "2.prems" have eqs: "r2 = Some p" "bs' = (k, f) # bs2" by auto
    have co: "coalesced bs" using "2.prems"(2) by (cases bs) auto
    from "2.IH" [OF False rec [unfolded eqs(1)] co]
    have IH: "coalesce (release (p - HEADER) (a + HEADER + k) bs2) = bs" "a + HEADER + k \<le> p - HEADER"
      "bs \<noteq> [] \<longrightarrow> \<not> snd (hd bs) \<longrightarrow> hd (release (p - HEADER) (a + HEADER + k) bs2) = hd bs" by auto
    have "a \<noteq> p - HEADER" using IH(2) HEADER_pos by linarith
    then have rel: "release (p - HEADER) a bs' = (k, f) # release (p - HEADER) (a + HEADER + k) bs2"
      using eqs(2) by simp
    have ne: "release (p - HEADER) (a + HEADER + k) bs2 \<noteq> []"
      using rec eqs(1) by (cases bs) (auto split: if_splits prod.splits)
    then obtain k2 g2 X where X: "release (p - HEADER) (a + HEADER + k) bs2 = (k2, g2) # X"
      by (metis list.exhaust surj_pair)
    have "\<not> (f \<and> g2)"
    proof
      assume fg: "f \<and> g2"
      have "bs \<noteq> []" using IH(1) ne by auto
      with "2.prems"(2) fg have "\<not> snd (hd bs)" by (cases bs) auto
      with IH(3) X \<open>bs \<noteq> []\<close> have "hd bs = (k2, g2)" by simp
      with \<open>\<not> snd (hd bs)\<close> fg show False by simp
    qed
    with IH(1,2) rel X show ?thesis by auto
  qed
qed simp

lemma live_aligned: "(p, k) \<in> set (live a bs) \<Longrightarrow> aligned bs \<Longrightarrow> 8 dvd a \<Longrightarrow> 8 dvd p"
  by (induction a bs rule: live.induct) (auto split: if_splits)

lemma aligned_below: "(k, f) \<in> set bs \<Longrightarrow> aligned bs \<Longrightarrow> k < (x + 7) div 8 * 8 \<Longrightarrow> k < x"
proof -
  assume "(k, f) \<in> set bs" "aligned bs" and less: "k < (x + 7) div 8 * 8"
  then have "8 dvd k" by (induction bs rule: aligned.induct) auto
  then obtain j where j: "k = 8 * j" by blast
  with less have "Suc j \<le> (x + 7) div 8" by simp
  then have "Suc j * 8 \<le> x + 7" by (metis div_times_less_eq_dividend le_trans mult_le_mono1)
  with j show "k < x" by simp
qed

lemma empty_heap_rep: "heap_rep (memory_init empty_heap) initial_blocks"
  by (rule memory_init_rep) (simp add: empty_heap_def)

lemma live_header:
  "blocks_at m a bs \<Longrightarrow> (p, k) \<in> set (live a bs) \<Longrightarrow> m (of_nat (p - HEADER)) \<noteq> None"
proof (induction bs arbitrary: a)
  case (Cons x bs)
  obtain n f where x: "x = (n, f)" by force
  show ?case
    using Cons blocks_at_headD [OF Cons.prems(1) [unfolded x]] x by (cases bs) (auto split: if_splits)
qed simp

text \<open>The address of an allocated block, read back from a word, is past its header.\<close>

lemma live_ptr:
  assumes rep: "heap_rep h bs" and blk: "(unat ptr, k) \<in> live_blocks bs"
  shows "ptr \<noteq> 0" "unat (ptr - of_nat HEADER) = unat ptr - HEADER" "HEADER \<le> unat ptr"
    "mblocks h (ptr - of_nat HEADER) \<noteq> None"
proof -
  show above: "HEADER \<le> unat ptr" "ptr \<noteq> 0" using live_range [OF blk] by auto
  have hdr: "unat (of_nat HEADER :: u64) = HEADER" by (simp add: HEADER_def)
  show sub: "unat (ptr - of_nat HEADER) = unat ptr - HEADER"
    using above by (subst unat_sub) (simp_all add: word_le_nat_alt hdr)
  have "mblocks h (of_nat (unat (ptr - of_nat HEADER))) \<noteq> None"
    using rep live_header [OF _ blk, of "mblocks h"] by (simp only: heap_rep_def sub) blast
  then show "mblocks h (ptr - of_nat HEADER) \<noteq> None" by simp
qed

text \<open>Rounding up a size in the last seven values of \<open>size_t\<close> wraps to 0.\<close>

lemma align8_wraps:
  assumes "2 ^ 64 \<le> unat sz + 7"
  shows "align8 sz = 0"
proof -
  obtain d where d: "unat sz + d = 2 ^ 64" using unat_u64_less [of sz] by (metis le_add_diff_inverse less_imp_le)
  then have range: "1 \<le> d" "d \<le> 7" using assms unat_u64_less [of sz] by linarith+
  have u: "unat sz = 2 ^ 64 - d" using d by simp
  have "d \<in> {1, 2, 3, 4, 5, 6, 7}" using range by auto
  then have m: "unat sz mod 8 = 8 - d" by (auto simp: u)
  have w: "unat (sz mod 8) = 8 - d" using m by (simp add: unat_mod)
  have ne: "sz mod 8 \<noteq> 0"
  proof -
    have "unat (sz mod 8) \<noteq> 0" using w range by linarith
    then show ?thesis by (metis unsigned_0)
  qed
  have "unat (8 - sz mod 8) = d" using w range by (subst unat_sub) (auto simp: word_le_nat_alt)
  then have "unat (sz + (8 - sz mod 8)) = 0" using d by (simp add: unat_word_ariths)
  then show ?thesis using ne by (simp only: align8_def unsigned_eq_0_iff if_True not_False_eq_True simp_thms)
qed

lemma kmalloc_spec:
  assumes rep: "heap_rep h bs" and sz: "sz \<noteq> 0" "unat sz + 7 < 2 ^ 64"
  shows "\<exists>r h' bs'. kmalloc sz h = Some (r, h') \<and> heap_rep h' bs' \<and>
    (if r = 0 then bs' = bs \<and> (\<forall>(k, f) \<in> set bs. f \<longrightarrow> k < unat sz)
     else \<exists>k \<ge> unat sz. live_blocks bs' = insert (unat r, k) (live_blocks bs) \<and>
       unat r \<notin> fst ` live_blocks bs \<and> 8 dvd unat r \<and>
       MEMORY_START + HEADER \<le> unat r \<and> unat r + k \<le> MEMORY_START + MEMORY_SIZE \<and>
       (\<forall>(q, l) \<in> live_blocks bs. unat r + k \<le> q \<or> q + l \<le> unat r))"
proof -
  let ?n = "(unat sz + 7) div 8 * 8"
  obtain r bs' where alloc: "alloc ?n MEMORY_START bs = (r, bs')" by fastforce
  obtain h' where h': "kmalloc sz h = Some (case r of None \<Rightarrow> 0 | Some p \<Rightarrow> of_nat p, h')"
    "heap_rep h' bs'" "dom (mblocks h) \<subseteq> dom (mblocks h')"
    using kmalloc_alloc [OF rep sz(1) align8_unat [OF sz(2)] _ alloc] by (metis dvd_triv_right)
  have ext: "extent bs = MEMORY_SIZE" "aligned bs" using rep by (auto simp: heap_rep_def)
  have ge: "unat sz \<le> ?n" by linarith
  show ?thesis
  proof (cases r)
    case None
    with alloc_live [OF alloc] have none: "bs' = bs" "\<forall>(k, f) \<in> set bs. f \<longrightarrow> k < ?n" by auto
    then have "\<forall>(k, f) \<in> set bs. f \<longrightarrow> k < unat sz" using aligned_below [OF _ ext(2)] by fast
    with h' None none show ?thesis by auto
  next
    case (Some p)
    obtain k where k: "?n \<le> k" "live_blocks bs' = insert (p, k) (live_blocks bs)"
      "p \<notin> fst ` live_blocks bs" "unat (of_nat p :: u64) = p" "p \<noteq> 0"
      "MEMORY_START + HEADER \<le> p" "p + k \<le> MEMORY_START + MEMORY_SIZE"
      using alloc_address [OF alloc [unfolded Some] ext(1)] .
    have "p + k \<le> q \<or> q + l \<le> p" if "(q, l) \<in> live_blocks bs" for q l
    proof -
      have "(q, l) \<noteq> (p, k)" using that k(3) by force
      then show ?thesis using live_disjoint [of p k MEMORY_START bs' q l] that k(2) by auto
    qed
    moreover have "8 dvd p"
      using live_aligned [of p k MEMORY_START bs'] h'(2) k(2) by (simp add: heap_rep_def)
    moreover have "(of_nat p :: u64) \<noteq> 0" using k(4,5) by (metis unsigned_0)
    ultimately have "if (of_nat p :: u64) = 0 then bs' = bs \<and> (\<forall>(k, f) \<in> set bs. f \<longrightarrow> k < unat sz)
       else \<exists>k \<ge> unat sz. live_blocks bs' = insert (unat (of_nat p :: u64), k) (live_blocks bs) \<and>
         unat (of_nat p :: u64) \<notin> fst ` live_blocks bs \<and> 8 dvd unat (of_nat p :: u64) \<and> MEMORY_START + HEADER \<le> unat (of_nat p :: u64) \<and>
         unat (of_nat p :: u64) + k \<le> MEMORY_START + MEMORY_SIZE \<and>
         (\<forall>(q, l) \<in> live_blocks bs. unat (of_nat p :: u64) + k \<le> q \<or> q + l \<le> unat (of_nat p :: u64))"
      using k ge by (auto intro!: exI [of _ k])
    moreover have "kmalloc sz h = Some (of_nat p, h')" using h'(1) Some by simp
    ultimately show ?thesis using h'(2) by blast
  qed
qed

lemma kfree_spec:
  assumes rep: "heap_rep h bs" and blk: "(unat ptr, k) \<in> live_blocks bs"
  shows "\<exists>h' bs'. kfree ptr h = Some h' \<and> heap_rep h' bs' \<and> coalesced bs' \<and>
    live_blocks bs' = live_blocks bs - {(unat ptr, k)}"
proof -
  note ptr = live_ptr [OF rep blk]
  obtain h' where h': "kfree ptr h = Some h'"
    "heap_rep h' (coalesce (release (unat (ptr - of_nat HEADER)) MEMORY_START bs))"
    "dom (mblocks h') = dom (mblocks h)"
    using kfree_coalesce [OF rep ptr(1,4)] .
  have "(q, l) = (unat ptr, k)" if "(q, l) \<in> live_blocks bs" "q = unat ptr" for q l
  proof (rule ccontr)
    assume "(q, l) \<noteq> (unat ptr, k)"
    then have "unat ptr + k + HEADER \<le> q \<or> q + l + HEADER \<le> unat ptr"
      using live_disjoint [OF blk that(1)] by metis
    with that(2) HEADER_pos show False by linarith
  qed
  moreover have "unat ptr - HEADER + HEADER = unat ptr" using ptr(3) by simp
  ultimately have "live_blocks bs - {(q, l). q = unat ptr - HEADER + HEADER} =
      live_blocks bs - {(unat ptr, k)}" by fastforce
  then have "live_blocks (coalesce (release (unat ptr - HEADER) MEMORY_START bs)) =
      live_blocks bs - {(unat ptr, k)}"
    by (simp only: set_live_coalesce set_live_release)
  with h'(1,2) coalesced_coalesce show ?thesis unfolding ptr(2) by blast
qed

section \<open>The allocator as an interface\<close>

text \<open>
  What the rest of the kernel relies on: \<open>malloc\<close> hands out a block nobody owns, \<open>free\<close> takes back an
  owned one, and both keep the representation. The client lemmas are about a table of owned
  pointers, with 0 for none, as the process table keeps its stacks.
\<close>

definition holds :: "(nat \<times> nat) set \<Rightarrow> nat \<Rightarrow> u64 list \<Rightarrow> bool" where
  "holds blks n ptrs \<longleftrightarrow> (\<forall>p \<in> set ptrs. p \<noteq> 0 \<longrightarrow> (\<exists>k \<ge> n. (unat p, k) \<in> blks)) \<and>
     (\<forall>i < length ptrs. \<forall>j < length ptrs. ptrs ! i \<noteq> 0 \<longrightarrow> ptrs ! i = ptrs ! j \<longrightarrow> i = j)"

locale allocator =
  fixes rep :: "'h \<Rightarrow> 'b \<Rightarrow> bool" and owned :: "'b \<Rightarrow> (nat \<times> nat) set"
    and malloc :: "u64 \<Rightarrow> 'h \<Rightarrow> (u64 \<times> 'h) option" and free :: "u64 \<Rightarrow> 'h \<Rightarrow> 'h option"
  assumes malloc_law: "rep h b \<Longrightarrow> sz \<noteq> 0 \<Longrightarrow> unat sz + 7 < 2 ^ 64 \<Longrightarrow>
      \<exists>r h' b'. malloc sz h = Some (r, h') \<and> rep h' b' \<and>
        (if r = 0 then b' = b
         else \<exists>k \<ge> unat sz. owned b' = insert (unat r, k) (owned b) \<and> unat r \<notin> fst ` owned b)"
    and free_law: "rep h b \<Longrightarrow> (unat p, k) \<in> owned b \<Longrightarrow>
      \<exists>h' b'. free p h = Some h' \<and> rep h' b' \<and> owned b' = owned b - {(unat p, k)}"
begin

lemma holds_malloc:
  assumes "rep h b" "holds (owned b) n ptrs" "i < length ptrs" "ptrs ! i = 0" "n = unat sz" "sz \<noteq> 0"
    "unat sz + 7 < 2 ^ 64"
  obtains r h' b' where "malloc sz h = Some (r, h')" "rep h' b'" "holds (owned b') n (ptrs[i := r])"
proof -
  obtain r h' b' where m: "malloc sz h = Some (r, h')" "rep h' b'" and
    r: "if r = 0 then b' = b else \<exists>k \<ge> unat sz. owned b' = insert (unat r, k) (owned b) \<and>
      unat r \<notin> fst ` owned b"
    using malloc_law assms by metis
  have "holds (owned b') n (ptrs[i := r])"
  proof (cases "r = 0")
    case True
    with r assms(4) have "ptrs[i := r] = ptrs" by (metis list_update_id)
    with True r assms(2) show ?thesis by simp
  next
    case False
    with r obtain k where k: "k \<ge> unat sz" "owned b' = insert (unat r, k) (owned b)"
      "unat r \<notin> fst ` owned b" by auto
    have fresh: "r \<notin> set ptrs"
      using assms(2) k(3) False by (force simp: holds_def)
    have "\<exists>l \<ge> n. (unat p, l) \<in> owned b'" if "p \<in> set (ptrs[i := r])" "p \<noteq> 0" for p
    proof -
      have "p = r \<or> p \<in> set ptrs" using that(1) set_update_subset_insert [of ptrs i r] by auto
      then show ?thesis using that(2) k(1,2) assms(2,5) by (auto simp: holds_def)
    qed
    moreover have "j = l" if "j < length ptrs" "l < length ptrs" "ptrs[i := r] ! j \<noteq> 0"
      "ptrs[i := r] ! j = ptrs[i := r] ! l" for j l
      using that fresh assms(2) by (cases "j = i"; cases "l = i") (auto simp: holds_def dest: nth_mem)
    ultimately show ?thesis by (auto simp: holds_def)
  qed
  with m that show ?thesis by blast
qed

lemma holds_free:
  assumes "rep h b" "holds (owned b) n ptrs" "i < length ptrs" "ptrs ! i \<noteq> 0"
  obtains h' b' where "free (ptrs ! i) h = Some h'" "rep h' b'" "holds (owned b') n (ptrs[i := 0])"
proof -
  obtain k where k: "(unat (ptrs ! i), k) \<in> owned b" using assms by (force simp: holds_def)
  obtain h' b' where f: "free (ptrs ! i) h = Some h'" "rep h' b'"
    "owned b' = owned b - {(unat (ptrs ! i), k)}" using free_law [OF assms(1) k] by metis
  have "\<exists>l \<ge> n. (unat p, l) \<in> owned b'" if p: "p \<in> set (ptrs[i := 0])" "p \<noteq> 0" for p
  proof -
    obtain j where j: "j < length ptrs" "p = ptrs[i := 0] ! j" using p(1) by (auto simp: in_set_conv_nth)
    with p(2) have "j \<noteq> i" using assms(3) by auto
    with j have "p = ptrs ! j" by simp
    then have ne: "p \<noteq> ptrs ! i" and mem: "p \<in> set ptrs"
      using assms(2-4) j(1) \<open>j \<noteq> i\<close> by (auto simp: holds_def)
    from mem obtain l where "l \<ge> n" "(unat p, l) \<in> owned b" using assms(2) p(2) by (auto simp: holds_def)
    moreover have "unat p \<noteq> unat (ptrs ! i)" using ne by (metis word_eq_iff_unsigned)
    ultimately show ?thesis by (auto simp: f(3))
  qed
  moreover have "j = l" if "j < length ptrs" "l < length ptrs" "ptrs[i := 0] ! j \<noteq> 0"
    "ptrs[i := 0] ! j = ptrs[i := 0] ! l" for j l
    using that assms(2) by (cases "j = i"; cases "l = i") (auto simp: holds_def)
  ultimately have "holds (owned b') n (ptrs[i := 0])" by (auto simp: holds_def)
  with f that show ?thesis by blast
qed

end

interpretation kernel_heap: allocator heap_rep live_blocks kmalloc kfree
proof
  fix h b and sz :: u64
  assume "heap_rep h b" "sz \<noteq> 0" "unat sz + 7 < 2 ^ 64"
  from kmalloc_spec [OF this]
  show "\<exists>r h' b'. kmalloc sz h = Some (r, h') \<and> heap_rep h' b' \<and>
      (if r = 0 then b' = b
       else \<exists>k \<ge> unat sz. live_blocks b' = insert (unat r, k) (live_blocks b) \<and> unat r \<notin> fst ` live_blocks b)"
    (is "\<exists>r h' b'. ?P r h' b'")
  proof (elim exE conjE)
    fix r h' b'
    assume m: "kmalloc sz h = Some (r, h')" "heap_rep h' b'"
      "if r = 0 then b' = b \<and> (\<forall>(k, f) \<in> set b. f \<longrightarrow> k < unat sz)
       else \<exists>k \<ge> unat sz. live_blocks b' = insert (unat r, k) (live_blocks b) \<and>
         unat r \<notin> fst ` live_blocks b \<and> 8 dvd unat r \<and>
         MEMORY_START + HEADER \<le> unat r \<and> unat r + k \<le> MEMORY_START + MEMORY_SIZE \<and>
         (\<forall>(q, l) \<in> live_blocks b. unat r + k \<le> q \<or> q + l \<le> unat r)"
    then have "?P r h' b'" by (cases "r = 0") auto
    then show ?thesis by blast
  qed
next
  fix h b and p :: u64 and k
  assume "heap_rep h b" "(unat p, k) \<in> live_blocks b"
  from kfree_spec [OF this] show "\<exists>h' b'. kfree p h = Some h' \<and> heap_rep h' b' \<and>
      live_blocks b' = live_blocks b - {(unat p, k)}" by blast
qed

lemma malloc_free_rep:
  assumes rep: "heap_rep h bs" and co: "coalesced bs" and sz: "sz \<noteq> 0" "unat sz + 7 < 2 ^ 64"
    and ok: "kmalloc sz h = Some (r, h')" "r \<noteq> 0"
  shows "\<exists>h''. kfree r h' = Some h'' \<and> heap_rep h'' bs"
proof -
  let ?n = "(unat sz + 7) div 8 * 8"
  obtain q bs' where alloc: "alloc ?n MEMORY_START bs = (q, bs')" by fastforce
  obtain h1 where h1: "kmalloc sz h = Some (case q of None \<Rightarrow> 0 | Some p \<Rightarrow> of_nat p, h1)"
    "heap_rep h1 bs'" "dom (mblocks h) \<subseteq> dom (mblocks h1)"
    using kmalloc_alloc [OF rep sz(1) align8_unat [OF sz(2)] _ alloc] by (metis dvd_triv_right)
  with ok obtain p where p: "q = Some p" "r = of_nat p" "h1 = h'" by (cases q) auto
  obtain k where k: "live_blocks bs' = insert (p, k) (live_blocks bs)" "unat r = p"
    using alloc_address [OF alloc [unfolded p(1)]] rep p(2) by (metis heap_rep_def)
  note ptr = live_ptr [OF h1(2), of r k]
  have "(unat r, k) \<in> live_blocks bs'" using k by simp
  with ptr have r: "r \<noteq> 0" "unat (r - of_nat HEADER) = p - HEADER" "mblocks h1 (r - of_nat HEADER) \<noteq> None"
    using k(2) by auto
  obtain h2 where "kfree r h1 = Some h2"
    "heap_rep h2 (coalesce (release (unat (r - of_nat HEADER)) MEMORY_START bs'))"
    "dom (mblocks h2) = dom (mblocks h1)"
    using kfree_coalesce [OF h1(2) r(1,3)] .
  with release_alloc [OF alloc [unfolded p(1)] co] r(2) p(3) show ?thesis by auto
qed

section \<open>Properties\<close>

text \<open>C4: On a well-formed heap \<open>kmalloc\<close> always returns. Either it answers NULL, leaves the heap as
  it was, and no free block has room for the request; or it answers an 8-byte aligned address of
  the heap region whose block holds at least the requested bytes, was not allocated before, and
  does not overlap any block allocated before. The heap stays well-formed.\<close>

theorem kmalloc_fresh_block:
  assumes rep: "heap_rep h bs" and sz: "sz \<noteq> 0" "unat sz + 7 < 2 ^ 64"
  shows "\<exists>r h' bs'. kmalloc sz h = Some (r, h') \<and> heap_rep h' bs' \<and>
    (if r = 0 then bs' = bs \<and> (\<forall>(k, f) \<in> set bs. f \<longrightarrow> k < unat sz)
     else \<exists>k \<ge> unat sz. live_blocks bs' = insert (unat r, k) (live_blocks bs) \<and>
       unat r \<notin> fst ` live_blocks bs \<and> 8 dvd unat r \<and>
       MEMORY_START + HEADER \<le> unat r \<and> unat r + k \<le> MEMORY_START + MEMORY_SIZE \<and>
       (\<forall>(q, l) \<in> live_blocks bs. unat r + k \<le> q \<or> q + l \<le> unat r))"
  by (rule kmalloc_spec [OF assms])

theorem kmalloc_fresh_block_witness:
  "\<exists>r h' bs'. kmalloc 100 (memory_init empty_heap) = Some (r, h') \<and> heap_rep h' bs' \<and>
    (if r = 0 then bs' = initial_blocks \<and> (\<forall>(k, f) \<in> set initial_blocks. f \<longrightarrow> k < unat (100 :: u64))
     else \<exists>k \<ge> unat (100 :: u64). live_blocks bs' = insert (unat r, k) (live_blocks initial_blocks) \<and>
       unat r \<notin> fst ` live_blocks initial_blocks \<and> 8 dvd unat r \<and> MEMORY_START + HEADER \<le> unat r \<and> unat r + k \<le> MEMORY_START + MEMORY_SIZE \<and>
       (\<forall>(q, l) \<in> live_blocks initial_blocks. unat r + k \<le> q \<or> q + l \<le> unat r))"
  by (rule kmalloc_fresh_block [OF empty_heap_rep]) simp_all

text \<open>C5: \<open>kfree\<close> of the address of an allocated block always returns; exactly that block is no longer
  allocated, the heap stays well-formed, and no two neighbouring blocks are both free.\<close>

theorem kfree_releases:
  assumes rep: "heap_rep h bs" and blk: "(unat ptr, k) \<in> live_blocks bs"
  shows "\<exists>h' bs'. kfree ptr h = Some h' \<and> heap_rep h' bs' \<and> coalesced bs' \<and>
    live_blocks bs' = live_blocks bs - {(unat ptr, k)}"
  by (rule kfree_spec [OF assms])

text \<open>C27: Round trip: on a heap without neighbouring free blocks, freeing the block a successful
  \<open>kmalloc\<close> has just returned gives back exactly the blocks there were before, so the allocator
  loses no memory.\<close>

theorem kmalloc_kfree_roundtrip:
  assumes rep: "heap_rep h bs" and co: "coalesced bs" and sz: "sz \<noteq> 0" "unat sz + 7 < 2 ^ 64"
    and ok: "kmalloc sz h = Some (r, h')" "r \<noteq> 0"
  shows "\<exists>h''. kfree r h' = Some h'' \<and> heap_rep h'' bs"
  using assms by (rule malloc_free_rep)

text \<open>The rounding of the request to a multiple of 8 wraps around: a request for more than
  \<open>2 ^ 64 - 8\<close> bytes becomes a request for none, and \<open>kmalloc\<close> answers it with a block that is
  smaller than the request whenever any block is free.\<close>

theorem kmalloc_huge_request:
  assumes rep: "heap_rep h bs" and free: "(k, True) \<in> set bs" and sz: "2 ^ 64 \<le> unat sz + 7"
  shows "\<exists>r h' bs' l. kmalloc sz h = Some (r, h') \<and> r \<noteq> 0 \<and> heap_rep h' bs' \<and>
    (unat r, l) \<in> live_blocks bs' \<and> l < unat sz"
proof -
  have zero: "align8 sz = 0" by (rule align8_wraps [OF sz])
  have "sz \<noteq> 0" using sz by (cases "sz = 0") simp_all
  obtain q bs' where alloc: "alloc 0 MEMORY_START bs = (q, bs')" by fastforce
  obtain h' where h': "kmalloc sz h = Some (case q of None \<Rightarrow> 0 | Some p \<Rightarrow> of_nat p, h')"
    "heap_rep h' bs'" "dom (mblocks h) \<subseteq> dom (mblocks h')"
    using kmalloc_alloc [OF rep \<open>sz \<noteq> 0\<close> _ _ alloc] zero by (metis dvd_0_right unsigned_0)
  obtain p where p: "q = Some p" using alloc_live [OF alloc] free by (cases q) auto
  have ext: "extent bs = MEMORY_SIZE" using rep by (simp add: heap_rep_def)
  obtain l where l: "live_blocks bs' = insert (p, l) (live_blocks bs)" "unat (of_nat p :: u64) = p"
    "p \<noteq> 0" "p + l \<le> MEMORY_START + MEMORY_SIZE"
    using alloc_address [OF alloc [unfolded p] ext] by metis
  have "(of_nat p :: u64) \<noteq> 0" using l(2,3) by (metis unsigned_0)
  moreover have "l < unat sz" using l(4) sz by simp
  moreover have "kmalloc sz h = Some (of_nat p, h')" using h'(1) p by simp
  moreover have "(unat (of_nat p :: u64), l) \<in> live_blocks bs'" using l by simp
  ultimately show ?thesis using h'(2) by blast
qed

theorem kfree_releases_witness:
  "\<exists>h' bs'. kfree (of_nat (MEMORY_START + HEADER))
      \<lparr>memory_start = of_nat MEMORY_START, memory_initialized = 1,
       mblocks = [of_nat MEMORY_START \<mapsto> \<lparr>mb_size = of_nat (MEMORY_SIZE - HEADER), mb_is_free = 0, mb_next = 0\<rparr>]\<rparr>
      = Some h' \<and> heap_rep h' bs' \<and> coalesced bs' \<and> live_blocks bs' =
      live_blocks [(MEMORY_SIZE - HEADER, False)] -
      {(unat (of_nat (MEMORY_START + HEADER) :: u64), MEMORY_SIZE - HEADER)}"
  by (rule kfree_releases) (simp_all add: heap_rep_def HEADER_def)

theorem kmalloc_kfree_roundtrip_witness:
  "\<exists>r h' h''. kmalloc 100 (memory_init empty_heap) = Some (r, h') \<and> r \<noteq> 0 \<and>
    kfree r h' = Some h'' \<and> heap_rep h'' initial_blocks"
proof -
  have k: "kmalloc 100 (memory_init empty_heap) = Some (of_nat (MEMORY_START + HEADER),
      (memory_init empty_heap)\<lparr>mblocks := split_block 104 (of_nat MEMORY_START)
        \<lparr>mb_size = of_nat MEMORY_SIZE - of_nat HEADER, mb_is_free = 1, mb_next = 0\<rparr>
        (mblocks (memory_init empty_heap))\<rparr>)" (is "_ = Some (?r, ?h)")
    by (simp add: kmalloc_def memory_init_def empty_heap_def kmalloc_loop.simps align8_def HEADER_def)
  have r: "?r \<noteq> 0" by (simp add: HEADER_def)
  have "\<exists>h''. kfree ?r ?h = Some h'' \<and> heap_rep h'' initial_blocks"
    by (rule kmalloc_kfree_roundtrip [OF empty_heap_rep _ _ _ k r])
       (simp_all add: initial_blocks_def)
  with k r show ?thesis by blast
qed

theorem kmalloc_huge_request_witness:
  "\<exists>r h' bs' l. kmalloc (- 1) (memory_init empty_heap) = Some (r, h') \<and> r \<noteq> 0 \<and> heap_rep h' bs' \<and>
    (unat r, l) \<in> live_blocks bs' \<and> l < unat (- 1 :: u64)"
proof (rule kmalloc_huge_request [OF empty_heap_rep])
  show "(MEMORY_SIZE - HEADER, True) \<in> set initial_blocks" by (simp add: initial_blocks_def)
  show "2 ^ 64 \<le> unat (- 1 :: u64) + 7" by (simp add: unsigned_minus_1_eq_mask mask_eq_exp_minus_1)
qed


end
