(* ===== verification/Process.thy ===== *)
theory Process
  imports Terminal Memory
begin

text \<open>
  The process table of \<open>process.c\<close>: process control blocks, creation, lookup, the state changes
  that do not reschedule, and process groups and sessions. A \<open>process_t*\<close> into the table is the
  index of its slot. The kernel state is an extensible record: the statics of \<open>process.c\<close>, the
  terminal, the heap, the tick counter and the switch of \<open>signals.c\<close>; later theories extend it.
  \<open>current_process_index\<close> is a natural number: the only arithmetic on it is \<open>(x + 1) % 64\<close>, which
  64-bit wrap-around does not change.
\<close>

section \<open>Data\<close>

abbreviation MAX_PROCESSES :: nat where "MAX_PROCESSES \<equiv> 64"

abbreviation PROCESS_STATE_READY :: u8 where "PROCESS_STATE_READY \<equiv> 0"
abbreviation PROCESS_STATE_RUNNING :: u8 where "PROCESS_STATE_RUNNING \<equiv> 1"
abbreviation PROCESS_STATE_BLOCKED :: u8 where "PROCESS_STATE_BLOCKED \<equiv> 2"
abbreviation PROCESS_STATE_SLEEPING :: u8 where "PROCESS_STATE_SLEEPING \<equiv> 3"
abbreviation PROCESS_STATE_ZOMBIE :: u8 where "PROCESS_STATE_ZOMBIE \<equiv> 4"
abbreviation PROCESS_STATE_STOPPED :: u8 where "PROCESS_STATE_STOPPED \<equiv> 5"

record cpu_registers =
  p_rax :: u64
  p_rbx :: u64
  p_rcx :: u64
  p_rdx :: u64
  p_rsi :: u64
  p_rdi :: u64
  p_rbp :: u64
  p_rsp :: u64
  p_r8 :: u64
  p_r9 :: u64
  p_r10 :: u64
  p_r11 :: u64
  p_r12 :: u64
  p_r13 :: u64
  p_r14 :: u64
  p_r15 :: u64
  p_rip :: u64
  p_rflags :: u64
  p_cs :: u64
  p_ss :: u64
  p_ds :: u64
  p_es :: u64
  p_fs :: u64
  p_gs :: u64
  p_cr3 :: u64

definition zero_registers :: cpu_registers where
  "zero_registers = \<lparr>p_rax = 0, p_rbx = 0, p_rcx = 0, p_rdx = 0, p_rsi = 0, p_rdi = 0, p_rbp = 0,
     p_rsp = 0, p_r8 = 0, p_r9 = 0, p_r10 = 0, p_r11 = 0, p_r12 = 0, p_r13 = 0, p_r14 = 0, p_r15 = 0,
     p_rip = 0, p_rflags = 0, p_cs = 0, p_ss = 0, p_ds = 0, p_es = 0, p_fs = 0, p_gs = 0, p_cr3 = 0\<rparr>"

text \<open>A handler is a code address; \<open>SIG_DFL\<close> is 0 and \<open>SIG_IGN\<close> is 1.\<close>

record signal_action =
  sa_handler :: u64
  sa_flags :: u32
  sa_mask :: u64

record process =
  p_pid :: u64
  p_parent_pid :: u64
  p_name :: string
  p_state :: u8
  p_registers :: cpu_registers
  p_page_directory :: u64
  p_stack :: u64
  p_stack_size :: u64
  p_sleep_until :: u64
  p_start_time :: u64
  p_cpu_time :: u64
  p_pending_signals :: u64
  p_blocked_signals :: u64
  p_signal_actions :: "signal_action list"
  p_signal_stack :: u64
  p_handling_signal :: u8
  p_exit_signal :: int
  p_file_descriptors :: "u64 list"
  p_tty :: u64
  p_process_group :: u64
  p_session_id :: u64

definition default_action :: signal_action where
  "default_action = \<lparr>sa_handler = 0, sa_flags = 0, sa_mask = 0\<rparr>"

text \<open>What \<open>memset\<close> leaves in a slot.\<close>

definition zero_process :: process where
  "zero_process = \<lparr>p_pid = 0, p_parent_pid = 0, p_name = [], p_state = 0, p_registers = zero_registers,
     p_page_directory = 0, p_stack = 0, p_stack_size = 0, p_sleep_until = 0, p_start_time = 0,
     p_cpu_time = 0, p_pending_signals = 0, p_blocked_signals = 0,
     p_signal_actions = replicate 32 default_action, p_signal_stack = 0, p_handling_signal = 0,
     p_exit_signal = 0, p_file_descriptors = replicate 16 0, p_tty = 0, p_process_group = 0,
     p_session_id = 0\<rparr>"

record kproc =
  kterm :: terminal
  kheap :: heap
  processes :: "process list"
  current_process_index :: nat
  next_pid :: u64
  timer_ticks :: u64
  signal_handling_enabled :: u8

definition kprint :: "string \<Rightarrow> 'z kproc_scheme \<Rightarrow> 'z kproc_scheme" where
  "kprint msg s = s\<lparr>kterm := terminal_writestring msg (kterm s)\<rparr>"

definition kprint_int :: "u64 \<Rightarrow> 'z kproc_scheme \<Rightarrow> 'z kproc_scheme" where
  "kprint_int w s = kprint (int_to_string (u64_to_int w)) s"

abbreviation proc :: "'z kproc_scheme \<Rightarrow> nat \<Rightarrow> process" where
  "proc s i \<equiv> processes s ! i"

definition upd_proc :: "nat \<Rightarrow> (process \<Rightarrow> process) \<Rightarrow> 'z kproc_scheme \<Rightarrow> 'z kproc_scheme" where
  "upd_proc i f s = s\<lparr>processes := upd_nth i f (processes s)\<rparr>"

section \<open>Operations of \<open>process.c\<close>\<close>

definition init_processes :: "'z kproc_scheme \<Rightarrow> 'z kproc_scheme" where
  "init_processes s =
     kprint (''Surec yonetimi baslatildi.'' @ [NL]) (s\<lparr>processes := replicate MAX_PROCESSES zero_process\<rparr>)"

text \<open>The copy loop \<^verbatim>\<open>for (i = 0; i < 31 && name[i]; i++)\<close>, up to \<open>n\<close> characters.\<close>

fun copy_name :: "nat \<Rightarrow> string \<Rightarrow> string" where
  "copy_name 0 name = []"
| "copy_name (Suc n) [] = []"
| "copy_name (Suc n) (c # cs) = (if c = NUL then [] else c # copy_name n cs)"

text \<open>What \<open>create_process\<close> writes into the slot it takes.\<close>

definition new_process :: "string \<Rightarrow> u64 \<Rightarrow> u64 \<Rightarrow> u64 \<Rightarrow> u64 \<Rightarrow> u64 \<Rightarrow> process \<Rightarrow> process" where
  "new_process name entry_point parent_pid pid stk now p =
     p\<lparr>p_pid := pid, p_parent_pid := parent_pid,
       p_name := copy_name 31 name, p_state := PROCESS_STATE_READY,
       p_registers := zero_registers\<lparr>p_rip := entry_point, p_rsp := stk + 4096\<rparr>,
       p_stack_size := 4096, p_stack := stk, p_start_time := now, p_cpu_time := 0,
       p_pending_signals := 0, p_blocked_signals := 0, p_handling_signal := 0,
       p_exit_signal := 0, p_signal_actions := replicate 32 default_action,
       p_file_descriptors := (replicate 16 0)[0 := 0, 1 := 1, 2 := 2],
       p_process_group := pid, p_session_id := pid, p_tty := 0\<rparr>"

definition create_process ::
  "string \<Rightarrow> u64 \<Rightarrow> u64 \<Rightarrow> 'z kproc_scheme \<Rightarrow> (u64 \<times> 'z kproc_scheme) option" where
  "create_process name entry_point parent_pid s =
     (case find_index (\<lambda>p. p_pid p = 0) (processes s) of
        None \<Rightarrow> Some (0, kprint (''Hata: Surec tablosu dolu!'' @ [NL]) s)
      | Some i \<Rightarrow>
          (case kmalloc 4096 (kheap s) of
             None \<Rightarrow> None
           | Some (stk, h) \<Rightarrow>
               let new_pid = next_pid s;
                   s1 = upd_proc i (new_process name entry_point parent_pid new_pid stk (timer_ticks s))
                     (s\<lparr>next_pid := new_pid + 1, kheap := h\<rparr>)
               in Some (new_pid,
                    kprint [NL] (kprint (p_name (proc s1 i)) (kprint '', Isim=''
                      (kprint_int new_pid (kprint ''Yeni surec olusturuldu: PID='' s1)))))))"

text \<open>The lookup loop over \<open>processes[i].pid == pid\<close>, written out in most functions of the file.\<close>

definition get_process :: "u64 \<Rightarrow> 'z kproc_scheme \<Rightarrow> nat option" where
  "get_process pid s = find_index (\<lambda>p. p_pid p = pid) (processes s)"

definition get_current_process :: "'z kproc_scheme \<Rightarrow> nat option" where
  "get_current_process s =
     (if p_pid (proc s (current_process_index s)) \<noteq> 0 then Some (current_process_index s) else None)"

definition switch_to_process :: "u64 \<Rightarrow> 'z kproc_scheme \<Rightarrow> 'z kproc_scheme" where
  "switch_to_process pid s =
     (case get_process pid s of
        None \<Rightarrow> s
      | Some i \<Rightarrow>
          (upd_proc i (\<lambda>p. p\<lparr>p_state := PROCESS_STATE_RUNNING, p_cpu_time := p_cpu_time p + 1\<rparr>) s)
            \<lparr>current_process_index := i\<rparr>)"

definition block_process :: "u64 \<Rightarrow> 'z kproc_scheme \<Rightarrow> 'z kproc_scheme" where
  "block_process pid s =
     (case get_process pid s of
        None \<Rightarrow> s
      | Some i \<Rightarrow> upd_proc i (\<lambda>p. p\<lparr>p_state := PROCESS_STATE_BLOCKED\<rparr>) s)"

definition unblock_process :: "u64 \<Rightarrow> 'z kproc_scheme \<Rightarrow> 'z kproc_scheme" where
  "unblock_process pid s =
     (case get_process pid s of
        None \<Rightarrow> s
      | Some i \<Rightarrow>
          if p_state (proc s i) = PROCESS_STATE_BLOCKED
          then upd_proc i (\<lambda>p. p\<lparr>p_state := PROCESS_STATE_READY\<rparr>) s else s)"

definition continue_process :: "u64 \<Rightarrow> 'z kproc_scheme \<Rightarrow> 'z kproc_scheme" where
  "continue_process pid s =
     (case get_process pid s of
        None \<Rightarrow> s
      | Some i \<Rightarrow>
          if p_state (proc s i) = PROCESS_STATE_STOPPED
          then kprint [NL] (kprint_int (p_pid (proc s i)) (kprint ''Surec devam ettirildi: PID=''
                 (upd_proc i (\<lambda>p. p\<lparr>p_state := PROCESS_STATE_READY\<rparr>) s)))
          else s)"

definition set_process_group :: "u64 \<Rightarrow> u64 \<Rightarrow> 'z kproc_scheme \<Rightarrow> int \<times> 'z kproc_scheme" where
  "set_process_group pid pgid0 s =
     (case get_process pid s of
        None \<Rightarrow> (-1, s)
      | Some i \<Rightarrow>
          let pgid = (if pgid0 = 0 then pid else pgid0)
          in (0, upd_proc i (\<lambda>p. p\<lparr>p_process_group := pgid\<rparr>) s))"

definition create_session :: "'z kproc_scheme \<Rightarrow> int \<times> 'z kproc_scheme" where
  "create_session s =
     (case get_current_process s of
        None \<Rightarrow> (-1, s)
      | Some i \<Rightarrow>
          if p_pid (proc s i) = p_process_group (proc s i) then (-1, s)
          else let s1 = upd_proc i (\<lambda>p. p\<lparr>p_session_id := p_pid p, p_process_group := p_pid p\<rparr>) s
               in (u64_to_int (p_session_id (proc s1 i)), s1))"

definition is_orphaned_process_group :: "u64 \<Rightarrow> 'z kproc_scheme \<Rightarrow> int" where
  "is_orphaned_process_group pgid s =
     (if list_ex (\<lambda>p. p_pid p \<noteq> 0 \<and> p_process_group p = pgid \<and>
           (case get_process (p_parent_pid p) s of
              None \<Rightarrow> False
            | Some j \<Rightarrow> p_session_id (proc s j) = p_session_id p)) (processes s)
      then 0 else 1)"

definition is_process_group_member :: "u64 \<Rightarrow> u64 \<Rightarrow> 'z kproc_scheme \<Rightarrow> int" where
  "is_process_group_member pid pgid s =
     (case get_process pid s of
        None \<Rightarrow> 0
      | Some i \<Rightarrow> if p_process_group (proc s i) = pgid then 1 else 0)"

section \<open>What an operation leaves alone\<close>

lemma kprint_frame [simp, kframe]:
  "processes (kprint m s) = processes s" "kheap (kprint m s) = kheap s"
  "current_process_index (kprint m s) = current_process_index s" "next_pid (kprint m s) = next_pid s"
  "timer_ticks (kprint m s) = timer_ticks s"
  "signal_handling_enabled (kprint m s) = signal_handling_enabled s" "kproc.more (kprint m s) = kproc.more s"
  by (simp_all add: kprint_def)

lemma kprint_int_frame [simp, kframe]:
  "processes (kprint_int w s) = processes s" "kheap (kprint_int w s) = kheap s"
  "current_process_index (kprint_int w s) = current_process_index s"
  "next_pid (kprint_int w s) = next_pid s" "timer_ticks (kprint_int w s) = timer_ticks s"
  "signal_handling_enabled (kprint_int w s) = signal_handling_enabled s"
  "kproc.more (kprint_int w s) = kproc.more s"
  by (simp_all add: kprint_int_def)

lemma upd_proc_frame [simp, kframe]:
  "kheap (upd_proc i f s) = kheap s" "kterm (upd_proc i f s) = kterm s"
  "current_process_index (upd_proc i f s) = current_process_index s"
  "next_pid (upd_proc i f s) = next_pid s" "timer_ticks (upd_proc i f s) = timer_ticks s"
  "signal_handling_enabled (upd_proc i f s) = signal_handling_enabled s"
  "kproc.more (upd_proc i f s) = kproc.more s"
  "length (processes (upd_proc i f s)) = length (processes s)"
  by (simp_all add: upd_proc_def)

lemma processes_upd_proc: "processes (upd_proc i f s) = upd_nth i f (processes s)"
  by (simp add: upd_proc_def)

lemma proc_upd_proc: "j < length (processes s) \<Longrightarrow>
    proc (upd_proc i f s) j = (if i = j then f (proc s j) else proc s j)"
  by (simp add: upd_proc_def nth_upd_nth)

lemma get_process_upd_proc:
  "(\<And>p. p_pid (f p) = p_pid p) \<Longrightarrow> get_process pid (upd_proc i f s) = get_process pid s"
  unfolding get_process_def by (rule find_index_cong) (auto simp: proc_upd_proc)

lemma get_process_kprint [simp]: "get_process pid (kprint m s) = get_process pid s"
  "get_process pid (kprint_int w s) = get_process pid s"
  by (simp_all add: get_process_def)

section \<open>Invariants of the table\<close>

text \<open>
  \<open>table_ok\<close>: the pids in use are distinct, below the next pid, and a slot without a process owns no
  stack. \<open>stacks_ok\<close>: every stack is an allocated heap block of its own with room for 4096 bytes.
\<close>

definition slot_ok :: "u64 \<Rightarrow> process \<Rightarrow> bool" where
  "slot_ok n p \<longleftrightarrow> p_pid p < n \<and> (p_pid p = 0 \<longrightarrow> p_stack p = 0) \<and> p_signal_stack p = 0 \<and>
     p_exit_signal p = 0 \<and> length (p_signal_actions p) = 32"

definition unique_pids :: "u64 list \<Rightarrow> bool" where
  "unique_pids pids \<longleftrightarrow>
     (\<forall>i < length pids. \<forall>j < length pids. pids ! i \<noteq> 0 \<longrightarrow> pids ! i = pids ! j \<longrightarrow> i = j)"

definition table_ok :: "'z kproc_scheme \<Rightarrow> bool" where
  "table_ok s \<longleftrightarrow> length (processes s) = MAX_PROCESSES \<and> current_process_index s < MAX_PROCESSES \<and>
     next_pid s \<noteq> 0 \<and> (\<forall>p \<in> set (processes s). slot_ok (next_pid s) p) \<and>
     unique_pids (map p_pid (processes s))"

definition stacks_ok :: "'z kproc_scheme \<Rightarrow> bool" where
  "stacks_ok s \<longleftrightarrow> (\<exists>bs. heap_rep (kheap s) bs \<and> holds (live_blocks bs) 4096 (map p_stack (processes s)))"

text \<open>The state at boot, after \<open>memory_init\<close> and \<open>init_processes\<close>.\<close>

definition boot_kproc :: kproc where
  "boot_kproc = init_processes \<lparr>kterm = blank_terminal, kheap = memory_init empty_heap, processes = [],
     current_process_index = 0, next_pid = 1, timer_ticks = 0, signal_handling_enabled = 1\<rparr>"

lemma boot_kproc_ok: "table_ok boot_kproc" "stacks_ok boot_kproc"
  using empty_heap_rep
  by (auto simp: table_ok_def stacks_ok_def boot_kproc_def init_processes_def zero_process_def holds_def
      slot_ok_def unique_pids_def)

lemma table_okD:
  assumes "table_ok s"
  shows "length (processes s) = MAX_PROCESSES" "current_process_index s < MAX_PROCESSES" "next_pid s \<noteq> 0"
    "i < MAX_PROCESSES \<Longrightarrow> slot_ok (next_pid s) (proc s i)" "unique_pids (map p_pid (processes s))"
  using assms by (simp_all add: table_ok_def)

lemma unique_pidsD: "unique_pids (map p_pid ps) \<Longrightarrow> i < length ps \<Longrightarrow> j < length ps \<Longrightarrow>
    p_pid (ps ! i) \<noteq> 0 \<Longrightarrow> p_pid (ps ! i) = p_pid (ps ! j) \<Longrightarrow> i = j"
  by (simp add: unique_pids_def)

lemma unique_pids_fresh:
  assumes "unique_pids pids" "n \<notin> set pids"
  shows "unique_pids (pids[i := n])"
  unfolding unique_pids_def length_list_update
proof (intro allI impI)
  fix j k
  assume "j < length pids" "k < length pids" "pids[i := n] ! j \<noteq> 0" "pids[i := n] ! j = pids[i := n] ! k"
  with assms show "j = k" by (cases "j = i"; cases "k = i") (auto simp: unique_pids_def dest: nth_mem)
qed

lemma get_process_Some:
  "get_process pid s = Some i \<Longrightarrow> i < length (processes s) \<and> p_pid (proc s i) = pid"
  by (auto simp: get_process_def find_index_Some)

lemma get_process_eq:
  assumes "table_ok s" "pid \<noteq> 0"
  shows "get_process pid s = Some i \<longleftrightarrow> i < MAX_PROCESSES \<and> p_pid (proc s i) = pid"
  using unique_pidsD [OF table_okD(5) [OF assms(1)]] assms(2) table_okD(1) [OF assms(1)]
  unfolding get_process_def find_index_Some by (metis less_trans order_less_irrefl)

lemma next_pid_fresh: "table_ok s \<Longrightarrow> next_pid s \<notin> p_pid ` set (processes s)"
  by (auto simp: table_ok_def slot_ok_def)

lemma less_u64_Suc:
  assumes "(w :: u64) < v" "v \<noteq> - 1"
  shows "w < v + 1" "v < v + 1" "0 < v + 1"
proof -
  have "unat v \<noteq> unat (- 1 :: u64)" using assms(2) by (metis word_eq_iff_unsigned)
  then have "unat v \<noteq> 2 ^ 64 - 1" by (simp add: unsigned_minus_1_eq_mask mask_eq_exp_minus_1)
  then have "unat v + 1 < 2 ^ 64" using unsigned_less [of v, where 'a = nat] by simp
  then have "unat (v + 1) = unat v + 1" by (simp add: unat_word_ariths)
  then show "w < v + 1" "v < v + 1" "0 < v + 1" using assms(1) by (simp_all add: word_less_nat_alt)
qed

lemma new_process_fields [simp]:
  "p_pid (new_process nm e pp pid stk now p) = pid" "p_stack (new_process nm e pp pid stk now p) = stk"
  "p_signal_stack (new_process nm e pp pid stk now p) = p_signal_stack p"
  "p_exit_signal (new_process nm e pp pid stk now p) = 0"
  "length (p_signal_actions (new_process nm e pp pid stk now p)) = 32"
  by (simp_all add: new_process_def)

lemma table_ok_create:
  assumes ok: "table_ok s" and max: "next_pid s \<noteq> - 1" and i: "i < MAX_PROCESSES"
    and s': "processes s' = upd_nth i (new_process nm e pp (next_pid s) stk now) (processes s)"
    "current_process_index s' = current_process_index s" "next_pid s' = next_pid s + 1"
  shows "table_ok s'"
proof -
  note len = table_okD(1) [OF ok]
  have lt: "p < next_pid s + 1" "0 < next_pid s + 1" "next_pid s < next_pid s + 1" if "p < next_pid s" for p
    using less_u64_Suc [OF that max] by simp_all
  have pos: "0 < next_pid s" using table_okD(3) [OF ok] by (simp add: word_gt_0)
  have "slot_ok (next_pid s + 1) (proc s' j)" if "j < MAX_PROCESSES" for j
    using table_okD(4) [OF ok that] that lt lt(3) [OF pos] table_okD(3) [OF ok]
    by (cases "i = j") (auto simp: s' slot_ok_def len)
  moreover have "map p_pid (processes s') = (map p_pid (processes s))[i := next_pid s]"
    by (simp add: s' upd_nth_def map_update)
  then have "unique_pids (map p_pid (processes s'))"
    using unique_pids_fresh [OF table_okD(5) [OF ok]] next_pid_fresh [OF ok] by simp
  ultimately show ?thesis
    using ok lt(2) [OF pos] by (simp add: table_ok_def s' all_set_conv_all_nth word_gt_0)
qed

lemma create_process_Some:
  assumes ok: "table_ok s" "stacks_ok s" and i: "find_index (\<lambda>p. p_pid p = 0) (processes s) = Some i"
  obtains stk h' where "kmalloc 4096 (kheap s) = Some (stk, h')"
    "stacks_ok (upd_proc i (new_process nm e pp pid stk now) (s\<lparr>next_pid := n, kheap := h'\<rparr>))"
proof -
  note free = find_index_SomeD [OF i] and len = table_okD(1) [OF ok(1)]
  obtain bs where bs: "heap_rep (kheap s) bs" "holds (live_blocks bs) 4096 (map p_stack (processes s))"
    using ok(2) by (auto simp: stacks_ok_def)
  have "p_stack (proc s i) = 0" using table_okD(4) [OF ok(1)] free(1,2) len by (simp add: slot_ok_def)
  then obtain stk h' b' where m: "kmalloc 4096 (kheap s) = Some (stk, h')" "heap_rep h' b'"
    "holds (live_blocks b') 4096 ((map p_stack (processes s))[i := stk])"
    using kernel_heap.holds_malloc [OF bs, of i 4096] free(1) by auto
  moreover have "map p_stack (upd_nth i (new_process nm e pp pid stk now) (processes s)) =
      (map p_stack (processes s))[i := stk]" by (simp add: upd_nth_def map_update)
  ultimately show ?thesis by (intro that) (auto simp: stacks_ok_def processes_upd_proc)
qed

lemma create_process_spec:
  assumes "table_ok s" "stacks_ok s" "next_pid s \<noteq> - 1"
  shows "\<exists>pid s'. create_process name entry parent s = Some (pid, s') \<and> table_ok s' \<and> stacks_ok s' \<and>
    (if \<forall>j < MAX_PROCESSES. p_pid (proc s j) \<noteq> 0 then pid = 0 \<and> processes s' = processes s
     else pid \<noteq> 0 \<and> get_process pid s = None \<and>
       (\<exists>i < MAX_PROCESSES. p_pid (proc s i) = 0 \<and> get_process pid s' = Some i \<and>
          p_state (proc s' i) = PROCESS_STATE_READY \<and> p_rip (p_registers (proc s' i)) = entry \<and>
          p_parent_pid (proc s' i) = parent \<and> p_process_group (proc s' i) = pid \<and>
          p_session_id (proc s' i) = pid \<and> p_pending_signals (proc s' i) = 0 \<and>
          (\<forall>j < MAX_PROCESSES. j \<noteq> i \<longrightarrow> proc s' j = proc s j)))"
proof (cases "find_index (\<lambda>p. p_pid p = 0) (processes s)")
  case None
  then have "\<forall>j < MAX_PROCESSES. p_pid (proc s j) \<noteq> 0"
    by (simp add: find_index_None all_set_conv_all_nth table_okD(1) [OF assms(1)])
  with None assms show ?thesis by (simp add: create_process_def table_ok_def stacks_ok_def)
next
  case (Some i)
  note free = find_index_SomeD [OF Some] and len = table_okD(1) [OF assms(1)]
  let ?np = "new_process name entry parent (next_pid s)"
  obtain stk h' where m: "kmalloc 4096 (kheap s) = Some (stk, h')"
    "stacks_ok (upd_proc i (?np stk (timer_ticks s)) (s\<lparr>next_pid := next_pid s + 1, kheap := h'\<rparr>))"
    using create_process_Some [OF assms(1,2) Some] .
  obtain s' where s': "create_process name entry parent s = Some (next_pid s, s')"
    "processes s' = upd_nth i (?np stk (timer_ticks s)) (processes s)" "kheap s' = h'"
    "current_process_index s' = current_process_index s" "next_pid s' = next_pid s + 1"
    using Some m(1) by (simp add: create_process_def Let_def processes_upd_proc)
  have tab: "table_ok s'" using table_ok_create [OF assms(1,3) _ s'(2,4,5)] free(1) len by simp
  have stk: "stacks_ok s'" using m(2) s'(2,3) by (simp add: stacks_ok_def processes_upd_proc)
  have pid: "next_pid s \<noteq> 0" "get_process (next_pid s) s = None"
    using next_pid_fresh [OF assms(1)] table_okD(3) [OF assms(1)]
    by (force simp: get_process_def find_index_None)+
  have i: "i < MAX_PROCESSES" "\<not> (\<forall>j < MAX_PROCESSES. p_pid (proc s j) \<noteq> 0)" using free len by auto
  have "get_process (next_pid s) s' = Some i"
    using get_process_eq [OF tab pid(1)] i(1) by (simp add: s'(2) len)
  moreover have "\<forall>j < MAX_PROCESSES. j \<noteq> i \<longrightarrow> proc s' j = proc s j" by (simp add: s'(2))
  moreover have "p_state (proc s' i) = PROCESS_STATE_READY \<and> p_rip (p_registers (proc s' i)) = entry \<and>
      p_parent_pid (proc s' i) = parent \<and> p_process_group (proc s' i) = next_pid s \<and>
      p_session_id (proc s' i) = next_pid s \<and> p_pending_signals (proc s' i) = 0"
    using i(1) len by (simp add: s'(2) new_process_def)
  ultimately show ?thesis using s'(1) tab stk pid i free(2) by auto
qed

section \<open>Properties\<close>



end
