(* ===== verification/Idt.thy ===== *)
theory Idt
  imports Process
begin

text \<open>
  The interrupt descriptor table of \<open>idt.c\<close>: building gates, initialising the table, registering a
  handler and dispatching an interrupt. Addresses of the assembly stubs \<open>isr0\<close> .. \<open>isr31\<close> and of
  the table itself are fixed by the linker and are parameters. A handler is a code address, and
  calling it, with the frame it may
  overwrite and the kernel state, is the parameter \<open>run\<close>.
\<close>

record idt_entry =
  base_low :: u16
  gate_selector :: u16
  always0 :: u8
  gate_flags :: u8
  base_middle :: u16
  base_high :: u32
  gate_reserved :: u32

record idt_ptr =
  idt_limit :: u16
  idt_base :: u64

text \<open>The register frame \<open>isr.asm\<close> pushes for \<open>isr_handler\<close>.\<close>

record isr_registers =
  r15 :: u64
  r14 :: u64
  r13 :: u64
  r12 :: u64
  r11 :: u64
  r10 :: u64
  r9 :: u64
  r8 :: u64
  rbp :: u64
  rdi :: u64
  rsi :: u64
  rdx :: u64
  rcx :: u64
  rbx :: u64
  rax :: u64
  int_no :: u64
  err_code :: u64
  rip :: u64
  cs :: u64
  rflags :: u64
  rsp :: u64
  ss :: u64

record idt =
  idt_entries :: "idt_entry list"
  idt_pointer :: idt_ptr
  interrupt_handlers :: "u64 list"

definition zero_gate :: idt_entry where
  "zero_gate = \<lparr>base_low = 0, gate_selector = 0, always0 = 0, gate_flags = 0, base_middle = 0,
     base_high = 0, gate_reserved = 0\<rparr>"

definition idt_set_gate :: "u8 \<Rightarrow> u64 \<Rightarrow> u16 \<Rightarrow> u8 \<Rightarrow> idt \<Rightarrow> idt" where
  "idt_set_gate num base selector flags t =
     t\<lparr>idt_entries := (idt_entries t)[unat num :=
        \<lparr>base_low = ucast (base AND 0xFFFF), gate_selector = selector, always0 = 0,
         gate_flags = flags, base_middle = ucast (drop_bit 16 base AND 0xFFFF),
         base_high = ucast (drop_bit 32 base AND 0xFFFFFFFF), gate_reserved = 0\<rparr>]\<rparr>"

definition init_idt :: "u64 \<Rightarrow> (nat \<Rightarrow> u64) \<Rightarrow> idt \<Rightarrow> idt" where
  "init_idt entries_addr isr t =
     (let t1 = t\<lparr>idt_pointer := \<lparr>idt_limit = 16 * 256 - 1, idt_base = entries_addr\<rparr>,
                 idt_entries := replicate 256 zero_gate\<rparr>;
          t2 = fold (\<lambda>i. idt_set_gate (of_nat i) (isr i) 0x08 0x8E) [0..<32] t1
      in t2\<lparr>interrupt_handlers := replicate 256 0\<rparr>)"

definition register_interrupt_handler :: "u8 \<Rightarrow> u64 \<Rightarrow> idt \<Rightarrow> idt" where
  "register_interrupt_handler n handler t =
     t\<lparr>interrupt_handlers := (interrupt_handlers t)[unat n := handler]\<rparr>"

text \<open>
  Dispatch. \<^const>\<open>None\<close> stands for a read outside the 256-entry handler table. The message of the
  last branch starts with a non-ASCII letter, written as its two UTF-8 bytes.
\<close>

definition isr_handler ::
  "(u64 \<Rightarrow> isr_registers \<Rightarrow> 'z kproc_scheme \<Rightarrow> isr_registers \<times> 'z kproc_scheme) \<Rightarrow>
    isr_registers \<Rightarrow> idt \<Rightarrow> 'z kproc_scheme \<Rightarrow> (isr_registers \<times> 'z kproc_scheme) option" where
  "isr_handler run regs t s =
     (if unat (int_no regs) \<ge> length (interrupt_handlers t) then None
      else let handler = interrupt_handlers t ! unat (int_no regs)
           in if handler \<noteq> 0 then Some (run handler regs s)
              else Some (regs, kprint [NL]
                     (kprint (int_to_string_idt (u64_to_int (int_no regs)))
                       (kprint ([CHR ''I'', CHR 0xC5, CHR 0x9F] @ ''lenmeyen kesme: '') s))))"

section \<open>Gate contents\<close>

text \<open>The address the processor assembles from a gate.\<close>

definition gate_base :: "idt_entry \<Rightarrow> u64" where
  "gate_base g = ucast (base_low g) OR push_bit 16 (ucast (base_middle g)) OR
     push_bit 32 (ucast (base_high g))"

definition gate_present :: "idt_entry \<Rightarrow> bool" where
  "gate_present g \<longleftrightarrow> bit (gate_flags g) 7"

lemma gate_base_split:
  fixes base :: u64
  shows "ucast (ucast (base AND 0xFFFF) :: u16) OR
    push_bit 16 (ucast (ucast (drop_bit 16 base AND 0xFFFF) :: u16)) OR
    push_bit 32 (ucast (ucast (drop_bit 32 base AND 0xFFFFFFFF) :: u32)) = base"
proof (rule bit_word_eqI)
  fix n assume "n < LENGTH(64)"
  have m16: "(0xFFFF :: u64) = mask 16" and m32: "(0xFFFFFFFF :: u64) = mask 32"
    by (simp_all add: mask_eq_exp_minus_1)
  consider "n < 16" | "16 \<le> n" "n < 32" | "32 \<le> n" by linarith
  then show "bit ((ucast (ucast (base AND 0xFFFF) :: u16) :: u64) OR
      push_bit 16 (ucast (ucast (drop_bit 16 base AND 0xFFFF) :: u16)) OR
      push_bit 32 (ucast (ucast (drop_bit 32 base AND 0xFFFFFFFF) :: u32))) n = bit base n"
    using \<open>n < LENGTH(64)\<close> unfolding m16 m32
    by cases (auto simp: bit_simps)
qed

lemma length_idt_set_gate [simp]:
  "length (idt_entries (idt_set_gate n b s f t)) = length (idt_entries t)"
  by (simp add: idt_set_gate_def)

lemma fold_gates:
  assumes "length (idt_entries t) = 256" "n \<le> 256"
  shows "length (idt_entries (fold (\<lambda>i. idt_set_gate (of_nat i) (isr i) s f) [0..<n] t)) = 256 \<and>
    (\<forall>k < 256. idt_entries (fold (\<lambda>i. idt_set_gate (of_nat i) (isr i) s f) [0..<n] t) ! k =
      (if k < n then idt_entries (idt_set_gate (of_nat k) (isr k) s f t) ! k else idt_entries t ! k))"
  using assms(2)
proof (induction n)
  case 0
  then show ?case using assms by simp
next
  case (Suc n)
  have u: "unat (of_nat k :: u8) = k" if "k < 256" for k
    using that by (simp add: unat_of_nat take_bit_nat_eq_self)
  show ?case
    using Suc u assms(1) by (auto simp: idt_set_gate_def nth_list_update less_Suc_eq)
qed

section \<open>Properties\<close>

text \<open>Round trip through a gate: the three address fields \<open>idt_set_gate\<close> fills hold the handler
  address exactly, and no other gate changes.\<close>

theorem idt_set_gate_base:
  assumes "length (idt_entries t) = 256"
  shows "gate_base (idt_entries (idt_set_gate num base sel fl t) ! unat num) = base \<and>
    gate_selector (idt_entries (idt_set_gate num base sel fl t) ! unat num) = sel \<and>
    gate_flags (idt_entries (idt_set_gate num base sel fl t) ! unat num) = fl \<and>
    (\<forall>k. k \<noteq> unat num \<longrightarrow> idt_entries (idt_set_gate num base sel fl t) ! k = idt_entries t ! k)"
proof -
  have "unat num < 256" using unsigned_less [of num, where 'a = nat] by simp
  with assms show ?thesis
    by (simp add: idt_set_gate_def gate_base_def gate_base_split)
qed

definition sample_idt :: idt where
  "sample_idt = \<lparr>idt_entries = replicate 256 zero_gate, idt_pointer = \<lparr>idt_limit = 0, idt_base = 0\<rparr>,
     interrupt_handlers = replicate 256 0\<rparr>"

theorem idt_set_gate_base_witness:
  "gate_base (idt_entries (idt_set_gate 7 0x123456789ABCDEF0 8 0x8E sample_idt) ! unat (7 :: u8)) =
    0x123456789ABCDEF0"
  using idt_set_gate_base [of sample_idt 7 "0x123456789ABCDEF0" 8 "0x8E"] by (simp add: sample_idt_def)

text \<open>After \<open>init_idt\<close> exactly the 32 exception vectors have a present gate, each pointing at its
  stub in the kernel code segment. The vectors the kernel registers handlers for later (32 for
  the timer, 33 for the keyboard, 0x80 for system calls) are not among them, so no such interrupt
  can reach its handler.\<close>

theorem init_idt_gates:
  "\<forall>k < 256. let g = idt_entries (init_idt addr isr t) ! k in
     (gate_present g \<longleftrightarrow> k < 32) \<and> (k < 32 \<longrightarrow> gate_base g = isr k \<and> gate_selector g = 0x08)"
proof (intro allI impI)
  fix k :: nat
  assume k: "k < 256"
  let ?t = "t\<lparr>idt_pointer := \<lparr>idt_limit = 16 * 256 - 1, idt_base = addr\<rparr>, idt_entries := replicate 256 zero_gate\<rparr>"
  have u: "unat (of_nat k :: u8) = k" using k by (simp add: unat_of_nat take_bit_nat_eq_self)
  have len: "length (idt_entries ?t) = 256" by simp
  have "idt_entries (init_idt addr isr t) ! k =
      (if k < 32 then idt_entries (idt_set_gate (of_nat k) (isr k) 0x08 0x8E ?t) ! k else zero_gate)"
    using fold_gates [OF len, of 32] k by (simp add: init_idt_def Let_def)
  with k u show "let g = idt_entries (init_idt addr isr t) ! k in
     (gate_present g \<longleftrightarrow> k < 32) \<and> (k < 32 \<longrightarrow> gate_base g = isr k \<and> gate_selector g = 0x08)"
    by (simp add: idt_set_gate_def gate_base_def gate_base_split gate_present_def zero_gate_def Let_def)
qed

theorem init_idt_gates_witness:
  "\<not> gate_present (idt_entries (init_idt 0 (\<lambda>_. 0) sample_idt) ! 0x80)"
  using init_idt_gates [of 0 "\<lambda>_. 0" sample_idt, rule_format, of "0x80"] by (simp add: Let_def)

text \<open>A registered handler is the one that runs for its vector, and the others keep theirs.\<close>

theorem register_then_dispatch:
  assumes "length (interrupt_handlers t) = 256" "handler \<noteq> 0" "int_no regs < 256"
  shows "isr_handler run regs (register_interrupt_handler n handler t) s =
    (if int_no regs = ucast n then Some (run handler regs s) else isr_handler run regs t s)"
proof -
  have "unat (int_no regs) < 256" using assms(3) by (simp add: word_less_nat_alt)
  moreover have "unat n < 256" using unsigned_less [of n, where 'a = nat] by simp
  moreover have "int_no regs = ucast n \<longleftrightarrow> unat (int_no regs) = unat n"
    using \<open>unat n < 256\<close>
    by (simp add: word_eq_iff_unsigned [where 'a = nat] unsigned_ucast_eq take_bit_nat_eq_self)
  ultimately show ?thesis
    using assms(1,2) by (simp add: isr_handler_def register_interrupt_handler_def Let_def nth_list_update)
qed

definition zero_isr_registers :: isr_registers where
  "zero_isr_registers = \<lparr>r15 = 0, r14 = 0, r13 = 0, r12 = 0, r11 = 0, r10 = 0, r9 = 0, r8 = 0, rbp = 0,
     rdi = 0, rsi = 0, rdx = 0, rcx = 0, rbx = 0, rax = 0, int_no = 0, err_code = 0, rip = 0, cs = 0,
     rflags = 0, rsp = 0, ss = 0\<rparr>"

theorem register_then_dispatch_witness:
  "isr_handler (\<lambda>_ regs s. (regs\<lparr>rax := 1\<rparr>, s)) (zero_isr_registers\<lparr>int_no := 33\<rparr>)
     (register_interrupt_handler 33 0x1000 sample_idt) boot_kproc =
   Some (zero_isr_registers\<lparr>int_no := 33, rax := 1\<rparr>, boot_kproc)"
  using register_then_dispatch [of sample_idt "0x1000" "zero_isr_registers\<lparr>int_no := 33\<rparr>"
      "\<lambda>_ regs s. (regs\<lparr>rax := 1\<rparr>, s)" 33 boot_kproc]
  by (simp add: sample_idt_def zero_isr_registers_def)

end
