(* ===== verification/Scheduler.thy ===== *)
theory Scheduler
  imports Process "HOL-Library.Monad_Syntax"
begin

text \<open>
  Scheduling, termination and signal delivery. \<open>schedule\<close>, \<open>exit_process\<close> and \<open>stop_process\<close> of
  \<open>process.c\<close> and \<open>signal_send\<close> and \<open>signal_handle_pending\<close> of \<open>signals.c\<close> call each other, so they
  are one mutual recursion. Its first argument \<open>H\<close> is the effect of calling a signal handler the
  process has installed, given its address and the signal (\<^const>\<open>None\<close> when it does not return). The
  second is the depth of C calls left; \<^const>\<open>None\<close> is the result when it runs out, when a handler
  does not return, or when \<open>kfree\<close> faults. A \<open>process_t*\<close> argument is the index of the slot, or
  \<^const>\<open>None\<close> for a null pointer.
\<close>

section \<open>Signals\<close>

abbreviation MAX_SIGNALS :: nat where "MAX_SIGNALS \<equiv> 32"
abbreviation SIGKILL :: int where "SIGKILL \<equiv> 9"
abbreviation SIGTERM :: int where "SIGTERM \<equiv> 15"
abbreviation SIGCHLD :: int where "SIGCHLD \<equiv> 17"
abbreviation SIGCONT :: int where "SIGCONT \<equiv> 18"
abbreviation SIGSTOP :: int where "SIGSTOP \<equiv> 19"
abbreviation SIG_DFL :: u64 where "SIG_DFL \<equiv> 0"
abbreviation SIG_IGN :: u64 where "SIG_IGN \<equiv> 1"

definition default_signal_actions :: "int list" where
  "default_signal_actions =
     [0,
      SIGTERM, SIGTERM, SIGTERM OR 0x80, SIGTERM OR 0x80, SIGTERM OR 0x80, SIGTERM OR 0x80,
      SIGTERM OR 0x80, SIGTERM OR 0x80, SIGTERM, SIGTERM, SIGTERM OR 0x80, SIGTERM, SIGTERM,
      SIGTERM, SIGTERM, SIGTERM,
      0, 1, 2, 2, 2, 2, 0,
      SIGTERM, SIGTERM, SIGTERM, SIGTERM, 0, SIGTERM, SIGTERM, SIGTERM OR 0x80]"

definition sigbit :: "nat \<Rightarrow> u64" where
  "sigbit signum = push_bit signum 1"

definition signal_add_pending :: "nat option \<Rightarrow> int \<Rightarrow> 'z kproc_scheme \<Rightarrow> int \<times> 'z kproc_scheme" where
  "signal_add_pending process signum s =
     (case process of
        None \<Rightarrow> (-1, s)
      | Some i \<Rightarrow>
          if signum \<le> 0 \<or> signum \<ge> int MAX_SIGNALS then (-1, s)
          else if signum = SIGKILL \<or> signum = SIGSTOP then
            (0, upd_proc i (\<lambda>p. p\<lparr>p_pending_signals := p_pending_signals p OR sigbit (nat signum)\<rparr>) s)
          else if p_blocked_signals (proc s i) AND sigbit (nat signum) = 0 then
            (0, upd_proc i (\<lambda>p. p\<lparr>p_pending_signals := p_pending_signals p OR sigbit (nat signum)\<rparr>) s)
          else (0, s))"

section \<open>The search for a runnable process\<close>

definition runnable :: "process \<Rightarrow> bool" where
  "runnable p \<longleftrightarrow> p_pid p \<noteq> 0 \<and> (p_state p = PROCESS_STATE_READY \<or> p_state p = PROCESS_STATE_RUNNING)"

text \<open>The \<open>while\<close> loop of \<open>schedule\<close>: the index it stops at and how many slots it has checked.\<close>

function sched_scan :: "process list \<Rightarrow> nat \<Rightarrow> nat \<Rightarrow> nat \<times> nat" where
  "sched_scan ps cur checked =
     (if checked < MAX_PROCESSES
      then let cur' = (cur + 1) mod MAX_PROCESSES; checked' = checked + 1
           in if runnable (ps ! cur') then (cur', checked') else sched_scan ps cur' checked'
      else (cur, checked))"
  by pat_completeness auto
termination by (relation "measure (\<lambda>(ps, cur, checked). MAX_PROCESSES - checked)") auto

declare sched_scan.simps [simp del]

section \<open>The straight-line parts of \<open>exit_process\<close>\<close>

definition free_stack :: "nat \<Rightarrow> 'z kproc_scheme \<Rightarrow> 'z kproc_scheme option" where
  "free_stack i s =
     (if p_stack (proc s i) \<noteq> 0
      then do { h \<leftarrow> kfree (p_stack (proc s i)) (kheap s);
                Some (upd_proc i (\<lambda>p. p\<lparr>p_stack := 0\<rparr>) (s\<lparr>kheap := h\<rparr>)) }
      else Some s)"

definition free_signal_stack :: "nat \<Rightarrow> 'z kproc_scheme \<Rightarrow> 'z kproc_scheme option" where
  "free_signal_stack i s =
     (if p_signal_stack (proc s i) \<noteq> 0
      then do { h \<leftarrow> kfree (p_signal_stack (proc s i)) (kheap s);
                Some (upd_proc i (\<lambda>p. p\<lparr>p_signal_stack := 0\<rparr>) (s\<lparr>kheap := h\<rparr>)) }
      else Some s)"

definition reparent :: "u64 \<Rightarrow> 'z kproc_scheme \<Rightarrow> 'z kproc_scheme" where
  "reparent pid s =
     s\<lparr>processes := map (\<lambda>p. if p_pid p \<noteq> 0 \<and> p_parent_pid p = pid then p\<lparr>p_parent_pid := 1\<rparr> else p)
        (processes s)\<rparr>"

definition mark_zombie :: "nat \<Rightarrow> u64 \<Rightarrow> 'z kproc_scheme \<Rightarrow> 'z kproc_scheme" where
  "mark_zombie i exit_code s =
     upd_proc i (\<lambda>p. p\<lparr>p_state := PROCESS_STATE_ZOMBIE\<rparr>)
       (kprint [NL] (kprint_int exit_code (kprint '', Cikis kodu=''
         (kprint_int (p_pid (proc s i)) (kprint ''Surec sonlandirildi: PID='' s)))))"

definition mark_stopped :: "nat \<Rightarrow> 'z kproc_scheme \<Rightarrow> 'z kproc_scheme" where
  "mark_stopped i s =
     kprint [NL] (kprint_int (p_pid (proc s i)) (kprint ''Surec durduruldu: PID=''
       (upd_proc i (\<lambda>p. p\<lparr>p_state := PROCESS_STATE_STOPPED\<rparr>) s)))"

section \<open>The mutual recursion\<close>

type_synonym 's handler = "u64 \<Rightarrow> int \<Rightarrow> 's \<Rightarrow> 's option"

function (sequential)
  schedule :: "'z kproc_scheme handler \<Rightarrow> nat \<Rightarrow> 'z kproc_scheme \<Rightarrow> 'z kproc_scheme option" and
  signal_handle_pending ::
    "'z kproc_scheme handler \<Rightarrow> nat \<Rightarrow> nat option \<Rightarrow> 'z kproc_scheme \<Rightarrow> (int \<times> 'z kproc_scheme) option" and
  pending_loop ::
    "'z kproc_scheme handler \<Rightarrow> nat \<Rightarrow> nat list \<Rightarrow> nat \<Rightarrow> 'z kproc_scheme \<Rightarrow> (int \<times> 'z kproc_scheme) option" and
  exit_process ::
    "'z kproc_scheme handler \<Rightarrow> nat \<Rightarrow> u64 \<Rightarrow> u64 \<Rightarrow> 'z kproc_scheme \<Rightarrow> 'z kproc_scheme option" and
  stop_process :: "'z kproc_scheme handler \<Rightarrow> nat \<Rightarrow> u64 \<Rightarrow> 'z kproc_scheme \<Rightarrow> 'z kproc_scheme option" and
  signal_send ::
    "'z kproc_scheme handler \<Rightarrow> nat \<Rightarrow> nat option \<Rightarrow> int \<Rightarrow> 'z kproc_scheme \<Rightarrow> (int \<times> 'z kproc_scheme) option"
where
  "schedule H 0 s = None"
| "schedule H (Suc n) s =
     (let prev = current_process_index s;
          (cur, checked) = sched_scan (processes s) prev 0
      in if checked = MAX_PROCESSES then Some (s\<lparr>current_process_index := prev\<rparr>)
         else let s1 = s\<lparr>current_process_index := cur\<rparr>
              in if p_pid (proc s1 cur) \<noteq> 0 then
                   do { (r, s2) \<leftarrow> signal_handle_pending H n (Some cur)
                          (upd_proc cur (\<lambda>p. p\<lparr>p_state := PROCESS_STATE_RUNNING\<rparr>) s1);
                        Some (switch_to_process (p_pid (proc s2 (current_process_index s2))) s2) }
                 else Some s1)"
| "signal_handle_pending H n None s = Some (0, s)"
| "signal_handle_pending H n (Some i) s =
     (if signal_handling_enabled s = 0 then Some (0, s)
      else if p_handling_signal (proc s i) \<noteq> 0 then Some (0, s)
      else pending_loop H n [1..<MAX_SIGNALS] i s)"
| "pending_loop H n [] i s = Some (0, s)"
| "pending_loop H n (signum # signums) i s =
     (if p_pending_signals (proc s i) AND sigbit signum \<noteq> 0 \<and>
         p_blocked_signals (proc s i) AND sigbit signum = 0
      then let s1 = upd_proc i (\<lambda>p. p\<lparr>p_pending_signals := p_pending_signals p AND NOT (sigbit signum)\<rparr>) s;
               handler = sa_handler (p_signal_actions (proc s1 i) ! signum)
           in if handler = SIG_DFL then
                let action = default_signal_actions ! signum
                in if action AND SIGTERM \<noteq> 0 then
                     do { s2 \<leftarrow> exit_process H n (p_pid (proc s1 i)) (128 + of_nat signum) s1; Some (1, s2) }
                   else if action = 0 then pending_loop H n signums i s1
                   else if action = 1 then
                     pending_loop H n signums i
                       (if p_state (proc s1 i) = PROCESS_STATE_STOPPED
                        then continue_process (p_pid (proc s1 i)) s1 else s1)
                   else if action = 2 then
                     do { s2 \<leftarrow> stop_process H n (p_pid (proc s1 i)) s1; Some (1, s2) }
                   else pending_loop H n signums i s1
              else if handler = SIG_IGN then pending_loop H n signums i s1
              else do { s2 \<leftarrow> H handler (int signum) (upd_proc i (\<lambda>p. p\<lparr>p_handling_signal := 1\<rparr>) s1);
                        Some (1, upd_proc i (\<lambda>p. p\<lparr>p_handling_signal := 0\<rparr>) s2) }
      else pending_loop H n signums i s)"
| "exit_process H 0 pid exit_code s = None"
| "exit_process H (Suc n) pid exit_code s =
     (case get_process pid s of
        None \<Rightarrow> Some s
      | Some i \<Rightarrow>
          do { s1 \<leftarrow> (if p_exit_signal (proc s i) \<noteq> 0
                 then (case get_process (p_parent_pid (proc s i)) s of
                         None \<Rightarrow> Some s
                       | Some j \<Rightarrow> do { (r, t) \<leftarrow> signal_send H n (Some j) (p_exit_signal (proc s i)) s; Some t })
                 else Some s);
               s2 \<leftarrow> (if p_parent_pid (proc s1 i) \<noteq> 0
                 then (case get_process (p_parent_pid (proc s1 i)) s1 of
                         None \<Rightarrow> Some s1
                       | Some j \<Rightarrow> do { (r, t) \<leftarrow> signal_send H n (Some j) SIGCHLD s1; Some t })
                 else Some s1);
               s3 \<leftarrow> free_stack i s2;
               s4 \<leftarrow> free_signal_stack i s3;
               schedule H n (mark_zombie i exit_code (reparent pid s4)) })"
| "stop_process H 0 pid s = None"
| "stop_process H (Suc n) pid s =
     (case get_process pid s of
        None \<Rightarrow> Some s
      | Some i \<Rightarrow> schedule H n (mark_stopped i s))"
| "signal_send H n None signum s = Some (-1, s)"
| "signal_send H n (Some i) signum s =
     (if signum \<le> 0 \<or> signum \<ge> int MAX_SIGNALS then Some (-1, s)
      else if signum = SIGKILL then
        do { s1 \<leftarrow> exit_process H n (p_pid (proc s i)) (of_int (128 + signum)) s; Some (0, s1) }
      else if signum = SIGSTOP then
        do { s1 \<leftarrow> stop_process H n (p_pid (proc s i)) s; Some (0, s1) }
      else if signum = SIGCONT then
        Some (0, if p_state (proc s i) = PROCESS_STATE_STOPPED
                 then continue_process (p_pid (proc s i)) s else s)
      else Some (signal_add_pending (Some i) signum s))"
  by pat_completeness auto


text \<open>
  Every call to \<open>schedule\<close>, \<open>exit_process\<close> or \<open>stop_process\<close> uses up depth; calls at the same depth go
  down in the order \<open>signal_send\<close> and \<open>signal_handle_pending\<close>, then the loop, then the rest, and the loop
  shortens its list of signals.
\<close>

termination
  by (relation "measures
    [case_sum (case_sum (\<lambda>(H, n, s). n) (case_sum (\<lambda>(H, n, p, s). n) (\<lambda>(H, n, l, i, s). n)))
       (case_sum (\<lambda>(H, n, pid, c, s). n) (case_sum (\<lambda>(H, n, pid, s). n) (\<lambda>(H, n, p, g, s). n))),
     case_sum (case_sum (\<lambda>_. 0) (case_sum (\<lambda>_. 2) (\<lambda>_. 1))) (case_sum (\<lambda>_. 0) (case_sum (\<lambda>_. 0) (\<lambda>_. 2))),
     case_sum (case_sum (\<lambda>_. 0) (case_sum (\<lambda>_. 0) (\<lambda>(H, n, l, i, s). length l))) (\<lambda>_. 0)]")
    (simp_all only: wf_measures in_measures sum.case prod.case list.size lessI zero_less_one zero_less_numeral
       one_less_numeral_iff semiring_norm(76) less_add_Suc1 add_Suc_right add_0_right simp_thms)

section \<open>Operations that reschedule\<close>

definition sleep_process ::
  "'z kproc_scheme handler \<Rightarrow> nat \<Rightarrow> u64 \<Rightarrow> u64 \<Rightarrow> 'z kproc_scheme \<Rightarrow> 'z kproc_scheme option" where
  "sleep_process H n pid ms s =
     (case get_process pid s of
        None \<Rightarrow> Some s
      | Some i \<Rightarrow>
          schedule H n (upd_proc i (\<lambda>p. p\<lparr>p_sleep_until := timer_ticks s + ms,
            p_state := PROCESS_STATE_SLEEPING\<rparr>) s))"

fun send_group_loop ::
  "'z kproc_scheme handler \<Rightarrow> nat \<Rightarrow> u64 \<Rightarrow> int \<Rightarrow> nat list \<Rightarrow> int \<Rightarrow> 'z kproc_scheme \<Rightarrow>
    (int \<times> 'z kproc_scheme) option" where
  "send_group_loop H n pgid signum [] sent s = Some (sent, s)"
| "send_group_loop H n pgid signum (i # is) sent s =
     (if p_pid (proc s i) \<noteq> 0 \<and> p_process_group (proc s i) = pgid
      then do { (r, s1) \<leftarrow> signal_send H n (Some i) signum s;
                send_group_loop H n pgid signum is (if r = 0 then sent + 1 else sent) s1 }
      else send_group_loop H n pgid signum is sent s)"

definition send_signal_to_process_group ::
  "'z kproc_scheme handler \<Rightarrow> nat \<Rightarrow> u64 \<Rightarrow> int \<Rightarrow> 'z kproc_scheme \<Rightarrow> (int \<times> 'z kproc_scheme) option" where
  "send_signal_to_process_group H n pgid signum s = send_group_loop H n pgid signum [0..<MAX_PROCESSES] 0 s"

definition wait_for_process_group ::
  "'z kproc_scheme handler \<Rightarrow> nat \<Rightarrow> u64 \<Rightarrow> 'z kproc_scheme \<Rightarrow> (int \<times> 'z kproc_scheme) option" where
  "wait_for_process_group H n pgid s =
     (case get_current_process s of
        None \<Rightarrow> Some (-1, s)
      | Some c \<Rightarrow>
          let active_processes = length (filter (\<lambda>p. p_pid p \<noteq> 0 \<and> p_process_group p = pgid \<and>
                p_parent_pid p = p_pid (proc s c) \<and> p_state p \<noteq> PROCESS_STATE_ZOMBIE) (processes s))
          in if active_processes = 0 then Some (0, s)
             else do { s1 \<leftarrow> schedule H n (upd_proc c (\<lambda>p. p\<lparr>p_state := PROCESS_STATE_BLOCKED\<rparr>) s);
                       Some (0, s1) })"

end
