(* ===== verification/Scheduling.thy ===== *)
theory Scheduling
  imports Scheduler
begin

text \<open>
  Properties of the scheduler and of signal delivery, over an abstract description of both: the
  next runnable slot in cyclic order, and the first signal that has an effect on a process.
\<close>

section \<open>The slot the scheduler picks\<close>

text \<open>The first runnable slot after \<open>cur\<close> in cyclic order; \<open>cur\<close> itself is not considered.\<close>

definition next_runnable :: "process list \<Rightarrow> nat \<Rightarrow> nat option" where
  "next_runnable ps cur =
     map_option (\<lambda>m. (cur + 1 + m) mod MAX_PROCESSES)
       (find_index (\<lambda>k. runnable (ps ! ((cur + 1 + k) mod MAX_PROCESSES))) [0..<MAX_PROCESSES - 1])"

lemma sched_scan_find:
  assumes "checked \<le> MAX_PROCESSES"
  shows "sched_scan ps cur checked =
    (case find_index (\<lambda>k. runnable (ps ! ((cur + 1 + k) mod MAX_PROCESSES))) [0..<MAX_PROCESSES - checked] of
       None \<Rightarrow> (if checked = MAX_PROCESSES then cur else (cur + (MAX_PROCESSES - checked)) mod MAX_PROCESSES, MAX_PROCESSES)
     | Some m \<Rightarrow> ((cur + 1 + m) mod MAX_PROCESSES, checked + 1 + m))"
  using assms
proof (induction ps cur checked rule: sched_scan.induct)
  case (1 ps cur checked)
  show ?case
  proof (cases "checked < MAX_PROCESSES")
    case True
    then obtain n where n: "MAX_PROCESSES - checked = Suc n" "MAX_PROCESSES - (checked + 1) = n"
      by (metis Suc_diff_Suc add.commute plus_1_eq_Suc)
    have shift: "((cur + 1) mod MAX_PROCESSES + 1 + k) mod MAX_PROCESSES =
        (cur + 1 + Suc k) mod MAX_PROCESSES" for k
      by (metis add.assoc mod_add_left_eq plus_1_eq_Suc)
    have final: "((cur + 1) mod MAX_PROCESSES + n) mod MAX_PROCESSES = (cur + Suc n) mod MAX_PROCESSES"
      by (metis add.assoc mod_add_left_eq plus_1_eq_Suc)
    let ?P = "\<lambda>k. runnable (ps ! ((cur + 1 + k) mod MAX_PROCESSES))"
    have list: "find_index ?P [0..<MAX_PROCESSES - checked] =
        (if ?P 0 then Some 0 else map_option Suc (find_index (?P \<circ> Suc) [0..<n]))"
      unfolding n(1) upt_Suc_Cons by (simp add: find_index_map)
    show ?thesis
    proof (cases "?P 0")
      case True
      with \<open>checked < MAX_PROCESSES\<close> show ?thesis
        unfolding list by (subst sched_scan.simps) (simp add: Let_def)
    next
      case False
      have IH: "sched_scan ps ((cur + 1) mod MAX_PROCESSES) (checked + 1) =
          (case find_index (?P \<circ> Suc) [0..<n] of
             None \<Rightarrow> (if checked + 1 = MAX_PROCESSES then (cur + 1) mod MAX_PROCESSES
                else ((cur + 1) mod MAX_PROCESSES + n) mod MAX_PROCESSES, MAX_PROCESSES)
           | Some m \<Rightarrow> (((cur + 1) mod MAX_PROCESSES + 1 + m) mod MAX_PROCESSES, checked + 1 + 1 + m))"
        using "1.IH" [OF \<open>checked < MAX_PROCESSES\<close> refl refl] False \<open>checked < MAX_PROCESSES\<close>
        unfolding n(2) shift comp_def by simp
      have "sched_scan ps cur checked = sched_scan ps ((cur + 1) mod MAX_PROCESSES) (checked + 1)"
        using \<open>checked < MAX_PROCESSES\<close> False by (subst sched_scan.simps) (simp add: Let_def)
      with IH False n \<open>checked < MAX_PROCESSES\<close> show ?thesis
        unfolding list shift final by (auto split: option.split)
    qed
  next
    case False
    with 1 show ?thesis by (simp add: sched_scan.simps)
  qed
qed

text \<open>A runnable slot found at the last of the 64 checks counts as not found.\<close>

lemma sched_scan_next:
  obtains (none) "next_runnable ps cur = None" "snd (sched_scan ps cur 0) = MAX_PROCESSES"
  | (found) j c where "next_runnable ps cur = Some j" "sched_scan ps cur 0 = (j, c)" "c \<noteq> MAX_PROCESSES"
proof -
  let ?P = "\<lambda>k. runnable (ps ! ((cur + 1 + k) mod MAX_PROCESSES))"
  have scan: "sched_scan ps cur 0 = (case find_index ?P [0..<MAX_PROCESSES] of
      None \<Rightarrow> ((cur + MAX_PROCESSES) mod MAX_PROCESSES, MAX_PROCESSES)
    | Some m \<Rightarrow> ((cur + 1 + m) mod MAX_PROCESSES, 1 + m))"
    using sched_scan_find [of 0 ps cur] by (simp split: option.split)
  show thesis
  proof (cases "find_index ?P [0..<MAX_PROCESSES - 1]")
    case None
    then have "m = MAX_PROCESSES - 1" if "find_index ?P [0..<MAX_PROCESSES] = Some m" for m
      using that by (auto simp: find_index_None find_index_upt less_Suc_eq)
    then have "snd (sched_scan ps cur 0) = MAX_PROCESSES"
      unfolding scan by (auto split: option.split)
    with None none show thesis by (simp add: next_runnable_def)
  next
    case (Some m)
    then have "find_index ?P [0..<MAX_PROCESSES] = Some m" "m < MAX_PROCESSES - 1"
      by (auto simp: find_index_upt)
    with Some found [of "(cur + 1 + m) mod MAX_PROCESSES" "1 + m"] show thesis
      by (simp add: scan next_runnable_def)
  qed
qed

lemma next_runnable_Some:
  assumes "next_runnable ps cur = Some j" "cur < MAX_PROCESSES"
  shows "j < MAX_PROCESSES" "runnable (ps ! j)" "j \<noteq> cur"
proof -
  obtain m where m: "m < MAX_PROCESSES - 1" "j = (cur + 1 + m) mod MAX_PROCESSES" "runnable (ps ! j)"
    using assms(1) by (auto simp: next_runnable_def find_index_upt)
  then show "j < MAX_PROCESSES" "runnable (ps ! j)" by simp_all
  show "j \<noteq> cur"
    using m(1,2) assms(2) mod_add_inj [of "1 + m" MAX_PROCESSES 0 cur] by (auto simp: add.assoc)
qed

lemma next_runnable_None:
  assumes "next_runnable ps cur = None" "cur < MAX_PROCESSES" "j < MAX_PROCESSES" "j \<noteq> cur"
  shows "\<not> runnable (ps ! j)"
proof -
  define m where "m = (j + MAX_PROCESSES - cur - 1) mod MAX_PROCESSES"
  have m: "m < MAX_PROCESSES - 1" "(cur + 1 + m) mod MAX_PROCESSES = j"
    using assms(2-4) by (auto simp: m_def mod_if)
  then show ?thesis
    using assms(1) by (auto simp: next_runnable_def find_index_None)
qed

section \<open>One call of \<open>schedule\<close>\<close>

definition dispatch :: "nat \<Rightarrow> 'z kproc_scheme \<Rightarrow> 'z kproc_scheme" where
  "dispatch j s = upd_proc j (\<lambda>p. p\<lparr>p_state := PROCESS_STATE_RUNNING\<rparr>) (s\<lparr>current_process_index := j\<rparr>)"

lemma schedule_next:
  "schedule H (Suc n) s =
     (case next_runnable (processes s) (current_process_index s) of
        None \<Rightarrow> Some s
      | Some j \<Rightarrow>
          do { (r, s') \<leftarrow> signal_handle_pending H n (Some j) (dispatch j s);
               Some (switch_to_process (p_pid (proc s' (current_process_index s'))) s') })"
proof (cases rule: sched_scan_next [of "processes s" "current_process_index s"])
  case none
  then show ?thesis by (simp add: Let_def case_prod_unfold)
next
  case (found j c)
  then have "p_pid (proc s j) \<noteq> 0"
    by (auto simp: next_runnable_def find_index_upt runnable_def)
  with found show ?thesis by (simp add: dispatch_def Let_def)
qed

section \<open>Delivery\<close>

text \<open>
  What pending signals do to a process: nothing, end it, or run a handler. The signals in front of
  the first one with an effect are taken off the pending set without effect.
\<close>

datatype delivery = Quiet | Terminate nat | Run_handler u64 nat

definition deliverable :: "process \<Rightarrow> nat \<Rightarrow> bool" where
  "deliverable p signum \<longleftrightarrow> bit (p_pending_signals p) signum \<and> \<not> bit (p_blocked_signals p) signum"

definition clear_pending :: "nat \<Rightarrow> process \<Rightarrow> process" where
  "clear_pending signum p = p\<lparr>p_pending_signals := p_pending_signals p AND NOT (sigbit signum)\<rparr>"

fun deliver :: "nat list \<Rightarrow> process \<Rightarrow> delivery \<times> process" where
  "deliver [] p = (Quiet, p)"
| "deliver (signum # signums) p =
     (if deliverable p signum
      then let p' = clear_pending signum p; handler = sa_handler (p_signal_actions p ! signum)
           in if handler = SIG_DFL
              then if signum \<in> {17, 23, 28} then deliver signums p' else (Terminate signum, p')
              else if handler = SIG_IGN then deliver signums p'
              else (Run_handler handler signum, p')
      else deliver signums p)"

lemma bit_sigbit: "bit (sigbit signum) k \<longleftrightarrow> k = signum \<and> signum < 64"
  by (auto simp: sigbit_def bit_simps)

lemma and_sigbit: "signum < 64 \<Longrightarrow> w AND sigbit signum \<noteq> 0 \<longleftrightarrow> bit w signum" for w :: u64
  by (simp add: sigbit_def push_bit_eq_mult and_exp_eq_0_iff_not_bit)

lemma deliverable_code: "signum < 64 \<Longrightarrow>
    p_pending_signals p AND sigbit signum \<noteq> 0 \<and> p_blocked_signals p AND sigbit signum = 0 \<longleftrightarrow>
    deliverable p signum"
  using and_sigbit by (auto simp: deliverable_def)

text \<open>
  \<open>action & SIGTERM\<close> tests bits, and \<open>SIGTERM\<close> is 15: it is true of the actions 1 (continue) and
  2 (stop) too, so that only the ignored signals do not end the process.
\<close>

lemma default_action_bits:
  assumes "signum < MAX_SIGNALS"
  shows "default_signal_actions ! signum AND SIGTERM = 0 \<longleftrightarrow> signum \<in> {0, 17, 23, 28}"
    "signum \<in> {0, 17, 23, 28} \<Longrightarrow> default_signal_actions ! signum = 0"
proof -
  have "\<forall>k \<in> set [0..<MAX_SIGNALS]. (default_signal_actions ! k AND SIGTERM = 0 \<longleftrightarrow> k \<in> {0, 17, 23, 28}) \<and>
      (k \<in> {0, 17, 23, 28} \<longrightarrow> default_signal_actions ! k = 0)" by code_simp
  moreover have "signum \<in> set [0..<MAX_SIGNALS]" unfolding set_upt using assms by simp
  ultimately show "default_signal_actions ! signum AND SIGTERM = 0 \<longleftrightarrow> signum \<in> {0, 17, 23, 28}"
    "signum \<in> {0, 17, 23, 28} \<Longrightarrow> default_signal_actions ! signum = 0" by blast+
qed

definition after_delivery ::
  "'z kproc_scheme handler \<Rightarrow> nat \<Rightarrow> nat \<Rightarrow> delivery \<times> process \<Rightarrow> 'z kproc_scheme \<Rightarrow> (int \<times> 'z kproc_scheme) option" where
  "after_delivery H n i dp s =
     (let s1 = upd_proc i (\<lambda>_. snd dp) s
      in case fst dp of
           Quiet \<Rightarrow> Some (0, s1)
         | Terminate signum \<Rightarrow>
             do { s2 \<leftarrow> exit_process H n (p_pid (snd dp)) (128 + of_nat signum) s1; Some (1, s2) }
         | Run_handler handler signum \<Rightarrow>
             do { s2 \<leftarrow> H handler (int signum) (upd_proc i (\<lambda>p. p\<lparr>p_handling_signal := 1\<rparr>) s1);
                  Some (1, upd_proc i (\<lambda>p. p\<lparr>p_handling_signal := 0\<rparr>) s2) })"

lemma upd_proc_upd_proc: "i < length (processes s) \<Longrightarrow> upd_proc i f (upd_proc i g s) = upd_proc i (f \<circ> g) s"
  by (simp add: upd_proc_def upd_nth_def)

lemma upd_proc_same: "i < length (processes s) \<Longrightarrow> f (proc s i) = p \<Longrightarrow> upd_proc i f s = upd_proc i (\<lambda>_. p) s"
  by (simp add: upd_proc_def upd_nth_def)

lemma upd_proc_id: "upd_proc i (\<lambda>_. proc s i) s = s"
  by (simp add: upd_proc_def upd_nth_def)

lemma clear_pending_frame [simp]:
  "p_pid (clear_pending signum p) = p_pid p" "p_state (clear_pending signum p) = p_state p"
  "p_stack (clear_pending signum p) = p_stack p" "p_signal_stack (clear_pending signum p) = p_signal_stack p"
  "p_exit_signal (clear_pending signum p) = p_exit_signal p"
  "p_signal_actions (clear_pending signum p) = p_signal_actions p"
  "p_blocked_signals (clear_pending signum p) = p_blocked_signals p"
  by (simp_all add: clear_pending_def)

text \<open>One turn of the loop, with the branches \<open>action & SIGTERM\<close> makes unreachable left out.\<close>

lemma pending_loop_step:
  assumes "signum < MAX_SIGNALS" "signum \<noteq> 0" "i < length (processes s)" "deliverable (proc s i) signum"
  defines "s1 \<equiv> upd_proc i (clear_pending signum) s"
  shows "pending_loop H n (signum # signums) i s =
    (let handler = sa_handler (p_signal_actions (proc s i) ! signum)
     in if handler = SIG_DFL then
          (if signum \<in> {17, 23, 28} then pending_loop H n signums i s1
           else do { s2 \<leftarrow> exit_process H n (p_pid (proc s i)) (128 + of_nat signum) s1; Some (1, s2) })
        else if handler = SIG_IGN then pending_loop H n signums i s1
        else do { s2 \<leftarrow> H handler (int signum) (upd_proc i (\<lambda>p. p\<lparr>p_handling_signal := 1\<rparr>) s1);
                  Some (1, upd_proc i (\<lambda>p. p\<lparr>p_handling_signal := 0\<rparr>) s2) })"
proof -
  have p: "proc s1 i = clear_pending signum (proc s i)"
    using assms(3) by (simp add: s1_def proc_upd_proc)
  have s1: "upd_proc i (\<lambda>p. p\<lparr>p_pending_signals := p_pending_signals p AND NOT (sigbit signum)\<rparr>) s = s1"
    by (simp add: s1_def clear_pending_def [abs_def])
  have guard: "p_pending_signals (proc s i) AND sigbit signum \<noteq> 0 \<and>
      p_blocked_signals (proc s i) AND sigbit signum = 0"
    using deliverable_code [of signum "proc s i"] assms(1,4) by simp
  note bits = default_action_bits [OF assms(1)]
  show ?thesis
    unfolding pending_loop.simps s1 if_P [OF guard] Let_def p
    using bits assms(2) by (cases "signum \<in> {17, 23, 28}") simp_all
qed

lemma pending_loop_deliver:
  assumes "set signums \<subseteq> {1..<MAX_SIGNALS}" "i < length (processes s)"
  shows "pending_loop H n signums i s = after_delivery H n i (deliver signums (proc s i)) s"
  using assms
proof (induction signums arbitrary: s)
  case Nil
  then show ?case by (simp add: after_delivery_def upd_proc_id)
next
  case (Cons signum signums)
  let ?s1 = "upd_proc i (clear_pending signum) s"
  have sig: "signum < MAX_SIGNALS" "signum < 64" "signum \<noteq> 0" using Cons.prems by auto
  have s1: "i < length (processes ?s1)" "proc ?s1 i = clear_pending signum (proc s i)"
    using Cons.prems(2) by (simp_all add: proc_upd_proc)
  have rest: "pending_loop H n signums i ?s1 =
      after_delivery H n i (deliver signums (clear_pending signum (proc s i))) s"
    using Cons.IH [OF _ s1(1)] Cons.prems
    by (simp add: s1(2) after_delivery_def upd_proc_upd_proc comp_def)
  show ?case
  proof (cases "deliverable (proc s i) signum")
    case False
    with Cons.IH [OF _ Cons.prems(2)] Cons.prems(1) show ?thesis
      by (simp only: pending_loop.simps deliverable_code [OF sig(2)] if_False deliver.simps) simp
  next
    case True
    have code: "pending_loop H n (signum # signums) i s =
       (let handler = sa_handler (p_signal_actions (proc s i) ! signum)
        in if handler = SIG_DFL then
             (if signum \<in> {17, 23, 28} then pending_loop H n signums i ?s1
              else do { s2 \<leftarrow> exit_process H n (p_pid (proc s i)) (128 + of_nat signum) ?s1; Some (1, s2) })
           else if handler = SIG_IGN then pending_loop H n signums i ?s1
           else do { s2 \<leftarrow> H handler (int signum) (upd_proc i (\<lambda>p. p\<lparr>p_handling_signal := 1\<rparr>) ?s1);
                     Some (1, upd_proc i (\<lambda>p. p\<lparr>p_handling_signal := 0\<rparr>) s2) })"
      using pending_loop_step [OF sig(1,3) Cons.prems(2) True] .
    show ?thesis
      unfolding code rest
      using True Cons.prems(2)
      by (simp add: Let_def after_delivery_def upd_proc_same [of i s "clear_pending signum"])
  qed
qed

section \<open>What every step keeps\<close>

definition kernel_inv :: "'z kproc_scheme \<Rightarrow> bool" where
  "kernel_inv s \<longleftrightarrow> table_ok s \<and> stacks_ok s"

text \<open>A change of a slot that the invariants do not see.\<close>

definition benign :: "process \<Rightarrow> process \<Rightarrow> bool" where
  "benign p q \<longleftrightarrow> p_pid q = p_pid p \<and> p_stack q = p_stack p \<and> p_signal_stack q = p_signal_stack p \<and>
     p_exit_signal q = p_exit_signal p \<and> length (p_signal_actions q) = length (p_signal_actions p)"

lemma benign_refl [simp]: "benign p p"
  by (simp add: benign_def)

lemma benign_maps:
  assumes "list_all2 benign ps qs"
  shows "map p_pid qs = map p_pid ps" "map p_stack qs = map p_stack ps"
    "(\<forall>q \<in> set qs. slot_ok n q) = (\<forall>p \<in> set ps. slot_ok n p)"
  using assms by (induction rule: list_all2_induct) (auto simp: benign_def slot_ok_def)

lemma kernel_inv_frame:
  assumes "kernel_inv s" "list_all2 benign (processes s) (processes s')" "kheap s' = kheap s"
    "next_pid s' = next_pid s" "current_process_index s' < MAX_PROCESSES"
  shows "kernel_inv s'"
  using assms benign_maps [OF assms(2)] list_all2_lengthD [OF assms(2)]
  by (simp add: kernel_inv_def table_ok_def stacks_ok_def)

lemma list_all2_benign_refl [simp]: "list_all2 benign ps ps"
  by (simp add: list_all2_same)

lemma list_all2_benign_upd:
  "benign (ps ! i) (f (ps ! i)) \<Longrightarrow> list_all2 benign ps (upd_nth i f ps)"
  by (auto simp: list_all2_conv_all_nth nth_upd_nth)

lemma kernel_invD:
  assumes "kernel_inv s"
  shows "length (processes s) = MAX_PROCESSES" "current_process_index s < MAX_PROCESSES"
    "i < MAX_PROCESSES \<Longrightarrow> p_signal_stack (proc s i) = 0"
    "i < MAX_PROCESSES \<Longrightarrow> p_exit_signal (proc s i) = 0"
  using assms table_okD [of s] by (auto simp: kernel_inv_def slot_ok_def)

lemma kernel_inv_upd_proc:
  "kernel_inv s \<Longrightarrow> (\<And>p. benign p (f p)) \<Longrightarrow> kernel_inv (upd_proc i f s)"
  by (rule kernel_inv_frame) (auto simp: processes_upd_proc kernel_invD intro: list_all2_benign_upd)

lemma kernel_inv_kprint [simp]: "kernel_inv (kprint m s) = kernel_inv s" "kernel_inv (kprint_int w s) = kernel_inv s"
  by (simp_all add: kernel_inv_def table_ok_def stacks_ok_def)

lemma kernel_inv_current: "kernel_inv s \<Longrightarrow> i < MAX_PROCESSES \<Longrightarrow> kernel_inv (s\<lparr>current_process_index := i\<rparr>)"
  by (rule kernel_inv_frame [of s]) simp_all

lemma kernel_inv_reparent: "kernel_inv s \<Longrightarrow> kernel_inv (reparent pid s)"
  by (rule kernel_inv_frame)
     (auto simp: reparent_def kernel_invD list_all2_conv_all_nth benign_def)

lemma kernel_inv_dispatch: "kernel_inv s \<Longrightarrow> i < MAX_PROCESSES \<Longrightarrow> kernel_inv (dispatch i s)"
  unfolding dispatch_def by (rule kernel_inv_upd_proc [OF kernel_inv_current]) (simp_all add: benign_def)

lemma kernel_inv_switch: "kernel_inv s \<Longrightarrow> kernel_inv (switch_to_process pid s)"
  unfolding switch_to_process_def
  by (auto split: option.split dest!: get_process_Some simp: kernel_invD
      intro!: kernel_inv_current kernel_inv_upd_proc simp: benign_def)

lemma kernel_inv_add_pending: "kernel_inv s \<Longrightarrow> kernel_inv (snd (signal_add_pending p signum s))"
  by (auto simp: signal_add_pending_def benign_def intro!: kernel_inv_upd_proc split: option.split)

lemma deliver_frame: "\<exists>m. snd (deliver signums p) = p\<lparr>p_pending_signals := m\<rparr>"
proof (induction signums arbitrary: p)
  case Nil
  show ?case by (rule exI [of _ "p_pending_signals p"]) simp
next
  case (Cons signum signums)
  have "\<exists>m. snd (deliver signums (clear_pending signum p)) = p\<lparr>p_pending_signals := m\<rparr>"
    using Cons.IH [of "clear_pending signum p"] by (simp add: clear_pending_def)
  moreover have "\<exists>m. clear_pending signum p = p\<lparr>p_pending_signals := m\<rparr>"
    by (auto simp: clear_pending_def)
  ultimately show ?case using Cons.IH [of p] by (simp add: Let_def)
qed

text \<open>Freeing a stack never faults, and leaves all other stacks allocated.\<close>

lemma free_stack_ok:
  assumes inv: "kernel_inv s" and i: "i < MAX_PROCESSES"
  obtains s' where "free_stack i s = Some s'" "kernel_inv s'"
    "processes s' = upd_nth i (\<lambda>p. p\<lparr>p_stack := 0\<rparr>) (processes s)"
    "current_process_index s' = current_process_index s"
    "signal_handling_enabled s' = signal_handling_enabled s"
proof (cases "p_stack (proc s i) = 0")
  case True
  then have "upd_nth i (\<lambda>p. p\<lparr>p_stack := 0\<rparr>) (processes s) = processes s"
    by (intro upd_nth_id) (metis process.surjective process.update_convs(7))
  with True inv that [of s] show thesis by (simp add: free_stack_def)
next
  case False
  note len = kernel_invD(1) [OF inv]
  obtain bs where bs: "heap_rep (kheap s) bs" "holds (live_blocks bs) 4096 (map p_stack (processes s))"
    using inv by (auto simp: kernel_inv_def stacks_ok_def)
  obtain h' b' where h': "kfree (p_stack (proc s i)) (kheap s) = Some h'" "heap_rep h' b'"
    "holds (live_blocks b') 4096 ((map p_stack (processes s))[i := 0])"
    using kernel_heap.holds_free [OF bs, of i] False i len by (metis length_map nth_map)
  let ?s' = "upd_proc i (\<lambda>p. p\<lparr>p_stack := 0\<rparr>) (s\<lparr>kheap := h'\<rparr>)"
  have "slot_ok (next_pid s) (proc ?s' j)" if "j < MAX_PROCESSES" for j
    using table_okD(4) [of s j] inv that len by (auto simp: proc_upd_proc kernel_inv_def slot_ok_def)
  moreover have "map p_pid (processes ?s') = map p_pid (processes s)"
    by (simp add: processes_upd_proc map_upd_nth_same)
  ultimately have "table_ok ?s'"
    using inv len by (simp add: kernel_inv_def table_ok_def all_set_conv_all_nth)
  moreover have "map p_stack (processes ?s') = (map p_stack (processes s))[i := 0]"
    by (simp add: processes_upd_proc upd_nth_def map_update)
  then have "stacks_ok ?s'" using h'(2,3) by (auto simp: stacks_ok_def)
  ultimately show thesis
    using that [of ?s'] h'(1) False by (simp add: free_stack_def kernel_inv_def processes_upd_proc)
qed

text \<open>The clock and the state of the other subsystems.\<close>

definition same_rest :: "'z kproc_scheme \<Rightarrow> 'z kproc_scheme \<Rightarrow> bool" where
  "same_rest s s' \<longleftrightarrow> timer_ticks s' = timer_ticks s \<and> kproc.more s' = kproc.more s"

lemma same_rest_simps [simp]:
  "same_rest s s" "same_rest s (upd_proc i f s') = same_rest s s'" "same_rest s (kprint m s') = same_rest s s'"
  "same_rest s (kprint_int w s') = same_rest s s'" "same_rest s (reparent pid s') = same_rest s s'"
  "same_rest s (s'\<lparr>current_process_index := c\<rparr>) = same_rest s s'" "same_rest s (s'\<lparr>kheap := h\<rparr>) = same_rest s s'"
  "same_rest (upd_proc i f s) s' = same_rest s s'" "same_rest (s\<lparr>current_process_index := c\<rparr>) s' = same_rest s s'"
  by (simp_all add: same_rest_def reparent_def)

lemma same_rest_free_stack: "free_stack i s = Some s' \<Longrightarrow> same_rest s s'"
  by (auto simp: free_stack_def bind_eq_Some_conv split: if_splits)

section \<open>One call of \<open>exit_process\<close>\<close>

text \<open>The \<open>SIGCHLD\<close> part; the exit signal is 0 for every process the kernel creates.\<close>

definition notify_parent :: "nat \<Rightarrow> 'z kproc_scheme \<Rightarrow> 'z kproc_scheme" where
  "notify_parent i s =
     (if p_parent_pid (proc s i) \<noteq> 0
      then (case get_process (p_parent_pid (proc s i)) s of
              None \<Rightarrow> s
            | Some j \<Rightarrow> snd (signal_add_pending (Some j) SIGCHLD s))
      else s)"

lemma exit_process_notify:
  assumes "kernel_inv s" "get_process pid s = Some i"
  shows "exit_process H (Suc n) pid exit_code s =
    do { s3 \<leftarrow> free_stack i (notify_parent i s); s4 \<leftarrow> free_signal_stack i s3;
         schedule H n (mark_zombie i exit_code (reparent pid s4)) }"
proof -
  have "p_exit_signal (proc s i) = 0"
    using kernel_invD(1,4) [OF assms(1)] get_process_Some [OF assms(2)] by simp
  then show ?thesis
    using assms(2) by (simp add: notify_parent_def case_prod_unfold split: option.split)
qed

lemma notify_parent_frame:
  "current_process_index (notify_parent i s) = current_process_index s"
  "length (processes (notify_parent i s)) = length (processes s)"
  "j < length (processes s) \<Longrightarrow> \<exists>m. proc (notify_parent i s) j = proc s j\<lparr>p_pending_signals := m\<rparr>"
  "signal_handling_enabled (notify_parent i s) = signal_handling_enabled s"
  by (auto simp: notify_parent_def signal_add_pending_def proc_upd_proc split: option.split)
     (metis process.surjective process.update_convs(12))+

lemma same_rest_notify: "same_rest s (notify_parent i s)"
  by (auto simp: notify_parent_def signal_add_pending_def split: option.split)

lemma kernel_inv_notify: "kernel_inv s \<Longrightarrow> kernel_inv (notify_parent i s)"
  using kernel_inv_add_pending [of s] by (auto simp: notify_parent_def split: option.split)

lemma reparent_frame [simp]:
  "length (processes (reparent pid s)) = length (processes s)"
  "j < length (processes s) \<Longrightarrow> p_pid (proc (reparent pid s) j) = p_pid (proc s j)"
  "j < length (processes s) \<Longrightarrow> p_stack (proc (reparent pid s) j) = p_stack (proc s j)"
  "j < length (processes s) \<Longrightarrow> p_state (proc (reparent pid s) j) = p_state (proc s j)"
  "current_process_index (reparent pid s) = current_process_index s"
  "signal_handling_enabled (reparent pid s) = signal_handling_enabled s"
  by (simp_all add: reparent_def)

lemma exit_process_effect:
  assumes inv: "kernel_inv s" and pid: "get_process pid s = Some i"
  obtains s' where "exit_process H (Suc n) pid exit_code s = schedule H n s'" "kernel_inv s'"
    "current_process_index s' = current_process_index s"
    "signal_handling_enabled s' = signal_handling_enabled s"
    "p_state (proc s' i) = PROCESS_STATE_ZOMBIE" "p_stack (proc s' i) = 0"
    "\<And>j. j < MAX_PROCESSES \<Longrightarrow> p_pid (proc s' j) = p_pid (proc s j)"
    "\<And>j. j < MAX_PROCESSES \<Longrightarrow> j \<noteq> i \<Longrightarrow> p_state (proc s' j) = p_state (proc s j) \<and> p_stack (proc s' j) = p_stack (proc s j)"
    "same_rest s s'"
proof -
  note len = kernel_invD(1) [OF inv]
  have i: "i < MAX_PROCESSES" using get_process_Some [OF pid] len by simp
  let ?s2 = "notify_parent i s"
  obtain s3 where s3: "free_stack i ?s2 = Some s3" "kernel_inv s3"
    "processes s3 = upd_nth i (\<lambda>p. p\<lparr>p_stack := 0\<rparr>) (processes ?s2)"
    "current_process_index s3 = current_process_index ?s2"
    "signal_handling_enabled s3 = signal_handling_enabled ?s2"
    using free_stack_ok [OF kernel_inv_notify [OF inv] i] .
  let ?s' = "mark_zombie i exit_code (reparent pid s3)"
  have slot: "p_pid (proc ?s' j) = p_pid (proc s j)"
      "p_stack (proc ?s' j) = (if j = i then 0 else p_stack (proc s j))"
      "p_state (proc ?s' j) = (if j = i then PROCESS_STATE_ZOMBIE else p_state (proc s j))"
    if j: "j < MAX_PROCESSES" for j
  proof -
    obtain m where m: "proc ?s2 j = proc s j\<lparr>p_pending_signals := m\<rparr>"
      using notify_parent_frame(3) [of j s i] j len by auto
    show "p_pid (proc ?s' j) = p_pid (proc s j)"
      "p_stack (proc ?s' j) = (if j = i then 0 else p_stack (proc s j))"
      "p_state (proc ?s' j) = (if j = i then PROCESS_STATE_ZOMBIE else p_state (proc s j))"
      using j len notify_parent_frame(2) [of i s] m
      by (auto simp: mark_zombie_def proc_upd_proc s3(3) nth_upd_nth)
  qed
  have exit: "exit_process H (Suc n) pid exit_code s = schedule H n ?s'"
    using kernel_invD(3) [OF s3(2) i]
    unfolding exit_process_notify [OF inv pid] s3(1) by (simp add: free_signal_stack_def)
  have inv': "kernel_inv ?s'"
    unfolding mark_zombie_def
    by (rule kernel_inv_upd_proc) (simp_all add: kernel_inv_reparent [OF s3(2)] benign_def)
  show thesis
  proof (rule that [OF exit inv'])
    show "current_process_index ?s' = current_process_index s"
      "signal_handling_enabled ?s' = signal_handling_enabled s"
      by (simp_all add: mark_zombie_def s3(4,5) notify_parent_frame)
    show "p_state (proc ?s' i) = PROCESS_STATE_ZOMBIE" "p_stack (proc ?s' i) = 0" using slot [OF i] by auto
    have "same_rest ?s2 s3" by (rule same_rest_free_stack [OF s3(1)])
    with same_rest_notify [of s i] show "same_rest s ?s'" by (simp add: mark_zombie_def) (simp add: same_rest_def)
    fix j assume j: "j < MAX_PROCESSES"
    show "p_pid (proc ?s' j) = p_pid (proc s j)" using slot [OF j] by auto
    assume "j \<noteq> i"
    then show "p_state (proc ?s' j) = p_state (proc s j) \<and> p_stack (proc ?s' j) = p_stack (proc s j)"
      using slot [OF j] by auto
  qed
qed

section \<open>One call of \<open>signal_handle_pending\<close>\<close>

lemma handle_pending_cases:
  assumes "i < length (processes s)"
  obtains (quiet) m where "signal_handle_pending H n (Some i) s =
      Some (0, upd_proc i (\<lambda>p. p\<lparr>p_pending_signals := m\<rparr>) s)"
  | (exit) m g where "signal_handle_pending H n (Some i) s =
      do { s' \<leftarrow> exit_process H n (p_pid (proc s i)) (128 + of_nat g)
             (upd_proc i (\<lambda>p. p\<lparr>p_pending_signals := m\<rparr>) s); Some (1, s') }"
  | (handler) m h g where "signal_handle_pending H n (Some i) s =
      do { s' \<leftarrow> H h (int g) (upd_proc i (\<lambda>p. p\<lparr>p_pending_signals := m, p_handling_signal := 1\<rparr>) s);
           Some (1, upd_proc i (\<lambda>p. p\<lparr>p_handling_signal := 0\<rparr>) s') }"
proof -
  have idle: "Some (0, s) = Some (0, upd_proc i (\<lambda>p. p\<lparr>p_pending_signals := p_pending_signals (proc s i)\<rparr>) s)"
    by (simp add: upd_proc_def upd_nth_def)
  obtain m where m: "snd (deliver [1..<MAX_SIGNALS] (proc s i)) = proc s i\<lparr>p_pending_signals := m\<rparr>"
    using deliver_frame by blast
  have upd: "upd_proc i (\<lambda>_. proc s i\<lparr>p_pending_signals := m\<rparr>) s = upd_proc i (\<lambda>p. p\<lparr>p_pending_signals := m\<rparr>) s"
    by (rule upd_proc_same [OF assms refl, symmetric])
  have loop: "pending_loop H n [1..<MAX_SIGNALS] i s =
      after_delivery H n i (deliver [1..<MAX_SIGNALS] (proc s i)) s"
    by (rule pending_loop_deliver [OF _ assms]) (simp only: set_upt subset_refl)
  note code = after_delivery_def Let_def m upd
  show thesis
  proof (cases "signal_handling_enabled s = 0 \<or> p_handling_signal (proc s i) \<noteq> 0")
    case True
    then have "signal_handle_pending H n (Some i) s = Some (0, s)"
      by (auto simp del: pending_loop.simps)
    with idle quiet show thesis by metis
  next
    case False
    then have eq: "signal_handle_pending H n (Some i) s = pending_loop H n [1..<MAX_SIGNALS] i s"
      by (simp only: signal_handle_pending.simps) simp
    show thesis
    proof (cases "fst (deliver [1..<MAX_SIGNALS] (proc s i))")
      case Quiet
      with quiet show thesis unfolding eq loop code by simp
    next
      case (Terminate g)
      with exit [of g m] show thesis unfolding eq loop code by simp
    next
      case (Run_handler h g)
      with handler [of h g m] assms show thesis unfolding eq loop code
        by (simp add: upd_proc_upd_proc comp_def)
    qed
  qed
qed

section \<open>Termination, and what survives a call\<close>

text \<open>
  The contract of installed handlers: a call returns, and keeps the invariant. A \<open>quiet_handler\<close>
  does not change the process table at all.
\<close>

definition handler_ok :: "'z kproc_scheme handler \<Rightarrow> bool" where
  "handler_ok H \<longleftrightarrow> (\<forall>h g s. kernel_inv s \<longrightarrow> (\<exists>s'. H h g s = Some s' \<and> kernel_inv s'))"

definition quiet_handler :: "'z kproc_scheme handler \<Rightarrow> bool" where
  "quiet_handler H \<longleftrightarrow> (\<forall>h g s s'. H h g s = Some s' \<longrightarrow> processes s' = processes s \<and>
     current_process_index s' = current_process_index s \<and> kheap s' = kheap s \<and> next_pid s' = next_pid s \<and>
     same_rest s s')"

definition runnables :: "'z kproc_scheme \<Rightarrow> nat set" where
  "runnables s = {j. j < MAX_PROCESSES \<and> runnable (proc s j)}"

lemma runnables_dispatch:
  assumes "length (processes s) = MAX_PROCESSES" "j \<in> runnables s"
  shows "runnables (dispatch j s) = runnables s"
  using assms by (auto simp: runnables_def dispatch_def proc_upd_proc runnable_def split: if_splits)

lemma finite_runnables [simp]: "finite (runnables s)" "card (runnables s) \<le> MAX_PROCESSES"
proof -
  have sub: "runnables s \<subseteq> {..<MAX_PROCESSES}" by (auto simp: runnables_def)
  then show "finite (runnables s)" by (rule finite_subset) simp
  show "card (runnables s) \<le> MAX_PROCESSES" using card_mono [OF _ sub] by simp
qed

lemma next_runnable_idle:
  assumes "kernel_inv s" "runnables s = {}"
  shows "next_runnable (processes s) (current_process_index s) = None"
proof (rule ccontr)
  assume "next_runnable (processes s) (current_process_index s) \<noteq> None"
  then obtain j where "next_runnable (processes s) (current_process_index s) = Some j" by auto
  from next_runnable_Some(1,2) [OF this kernel_invD(2) [OF assms(1)]] assms(2)
  show False by (auto simp: runnables_def)
qed

lemma get_process_slot:
  assumes "kernel_inv s" "i < MAX_PROCESSES" "p_pid (proc s i) \<noteq> 0"
  shows "get_process (p_pid (proc s i)) s = Some i"
  using get_process_eq [of s "p_pid (proc s i)" i] assms by (simp add: kernel_inv_def)

lemma switch_to_slot:
  assumes "kernel_inv s" "i < MAX_PROCESSES" "p_pid (proc s i) \<noteq> 0"
  shows "switch_to_process (p_pid (proc s i)) s =
    (upd_proc i (\<lambda>p. p\<lparr>p_state := PROCESS_STATE_RUNNING, p_cpu_time := p_cpu_time p + 1\<rparr>) s)
      \<lparr>current_process_index := i\<rparr>"
  by (simp add: switch_to_process_def get_process_slot [OF assms])

lemma exit_process_runnables:
  assumes "kernel_inv s" "i < MAX_PROCESSES" "p_pid (proc s i) \<noteq> 0"
  obtains s' where "exit_process H (Suc n) (p_pid (proc s i)) exit_code s = schedule H n s'"
    "kernel_inv s'" "runnables s' = runnables s - {i}" "current_process_index s' = current_process_index s"
    "\<And>j. j < MAX_PROCESSES \<Longrightarrow> p_pid (proc s' j) = p_pid (proc s j)"
    "\<And>j. j < MAX_PROCESSES \<Longrightarrow> j \<noteq> i \<Longrightarrow>
       p_state (proc s' j) = p_state (proc s j) \<and> p_stack (proc s' j) = p_stack (proc s j)"
    "p_state (proc s' i) = PROCESS_STATE_ZOMBIE" "p_stack (proc s' i) = 0" "same_rest s s'"
proof (rule exit_process_effect [OF assms(1) get_process_slot [OF assms]])
  fix s'
  assume s': "exit_process H (Suc n) (p_pid (proc s i)) exit_code s = schedule H n s'" "kernel_inv s'"
    "current_process_index s' = current_process_index s"
    "signal_handling_enabled s' = signal_handling_enabled s"
    "p_state (proc s' i) = PROCESS_STATE_ZOMBIE" "p_stack (proc s' i) = 0"
    "\<And>j. j < MAX_PROCESSES \<Longrightarrow> p_pid (proc s' j) = p_pid (proc s j)"
    "\<And>j. j < MAX_PROCESSES \<Longrightarrow> j \<noteq> i \<Longrightarrow>
       p_state (proc s' j) = p_state (proc s j) \<and> p_stack (proc s' j) = p_stack (proc s j)" "same_rest s s'"
  have "runnable (proc s' j) \<longleftrightarrow> j \<noteq> i \<and> runnable (proc s j)" if "j < MAX_PROCESSES" for j
    using s'(5) s'(7,8) [OF that] by (cases "j = i") (auto simp: runnable_def)
  then have "runnables s' = runnables s - {i}" by (auto simp: runnables_def)
  from that [OF s'(1,2) this s'(3,7,8,5,6,9)] show thesis .
qed

lemma upd_pending_frame:
  assumes "kernel_inv s" "i \<in> runnables s"
  shows "kernel_inv (upd_proc i (\<lambda>p. p\<lparr>p_pending_signals := m\<rparr>) s)"
    "runnables (upd_proc i (\<lambda>p. p\<lparr>p_pending_signals := m\<rparr>) s) = runnables s"
    "p_pid (proc (upd_proc i (\<lambda>p. p\<lparr>p_pending_signals := m\<rparr>) s) i) = p_pid (proc s i)"
    "i < MAX_PROCESSES" "p_pid (proc s i) \<noteq> 0" "i < length (processes s)"
proof -
  note len = kernel_invD(1) [OF assms(1)]
  show "kernel_inv (upd_proc i (\<lambda>p. p\<lparr>p_pending_signals := m\<rparr>) s)"
    by (rule kernel_inv_upd_proc [OF assms(1)]) (simp add: benign_def)
  have "runnable (proc (upd_proc i (\<lambda>p. p\<lparr>p_pending_signals := m\<rparr>) s) l) = runnable (proc s l)"
    if "l < MAX_PROCESSES" for l using that len by (simp add: proc_upd_proc runnable_def)
  then show "runnables (upd_proc i (\<lambda>p. p\<lparr>p_pending_signals := m\<rparr>) s) = runnables s"
    by (auto simp: runnables_def)
  show "p_pid (proc (upd_proc i (\<lambda>p. p\<lparr>p_pending_signals := m\<rparr>) s) i) = p_pid (proc s i)"
    "i < MAX_PROCESSES" "p_pid (proc s i) \<noteq> 0" "i < length (processes s)"
    using assms(2) len by (auto simp: runnables_def runnable_def proc_upd_proc)
qed

lemma handle_pending_returns:
  assumes H: "handler_ok H" and inv: "kernel_inv s" and i: "i \<in> runnables s"
    and rec: "\<And>s'. kernel_inv s' \<Longrightarrow> runnables s' = runnables s - {i} \<Longrightarrow>
      \<exists>s''. schedule H n s' = Some s'' \<and> kernel_inv s''"
  shows "\<exists>r s'. signal_handle_pending H (Suc n) (Some i) s = Some (r, s') \<and> kernel_inv s'"
proof (cases rule: handle_pending_cases [OF upd_pending_frame(6) [OF inv i], of H "Suc n"])
  case (1 m)
  then show ?thesis using upd_pending_frame(1) [OF inv i] by blast
next
  case (2 m g)
  note s2 = upd_pending_frame(1-3) [OF inv i, of m] upd_pending_frame(4-6) [OF inv i]
  obtain s3 where s3: "exit_process H (Suc n) (p_pid (proc s i)) (128 + of_nat g)
      (upd_proc i (\<lambda>p. p\<lparr>p_pending_signals := m\<rparr>) s) = schedule H n s3"
    "kernel_inv s3" "runnables s3 = runnables s - {i}"
    using exit_process_runnables [OF s2(1,4), of H n "128 + of_nat g"] unfolding s2(2,3) using s2(5) by metis
  then obtain s4 where "schedule H n s3 = Some s4" "kernel_inv s4" using rec by blast
  with 2 s3(1) show ?thesis by simp
next
  case (3 m h g)
  let ?s2 = "upd_proc i (\<lambda>p. p\<lparr>p_pending_signals := m, p_handling_signal := 1\<rparr>) s"
  have "kernel_inv ?s2" by (rule kernel_inv_upd_proc [OF inv]) (simp add: benign_def)
  then obtain s3 where "H h (int g) ?s2 = Some s3" "kernel_inv s3"
    using H unfolding handler_ok_def by blast
  then show ?thesis unfolding 3 by (simp add: kernel_inv_upd_proc benign_def)
qed

lemma schedule_returns:
  assumes "handler_ok H" "kernel_inv s" "2 * card (runnables s) < n"
  shows "\<exists>s'. schedule H n s = Some s' \<and> kernel_inv s'"
  using assms(2,3)
proof (induction n arbitrary: s rule: less_induct)
  case (less n)
  obtain k where n: "n = Suc k" using less.prems(2) by (cases n) auto
  note cur = kernel_invD(2) [OF less.prems(1)] and len = kernel_invD(1) [OF less.prems(1)]
  show ?case
  proof (cases "next_runnable (processes s) (current_process_index s)")
    case None
    with less.prems(1) show ?thesis by (simp only: n schedule_next option.case) blast
  next
    case (Some j)
    note j = next_runnable_Some [OF Some cur]
    have jr: "j \<in> runnables s" using j by (simp add: runnables_def)
    have run: "runnables (dispatch j s) = runnables s" by (rule runnables_dispatch [OF len jr])
    have card: "card (runnables s - {j}) = card (runnables s) - 1" "card (runnables s) > 0"
      using jr by (auto simp: card_gt_0_iff)
    then obtain l where k: "k = Suc l" using less.prems(2) n by (cases k) auto
    have "\<exists>r s'. signal_handle_pending H (Suc l) (Some j) (dispatch j s) = Some (r, s') \<and> kernel_inv s'"
    proof (rule handle_pending_returns [OF assms(1) kernel_inv_dispatch [OF less.prems(1) j(1)]])
      show "j \<in> runnables (dispatch j s)" using jr run by simp
      fix s' :: "'a kproc_scheme" assume s': "kernel_inv s'" "runnables s' = runnables (dispatch j s) - {j}"
      then have "2 * card (runnables s') < l" using card less.prems(2) run n k by simp
      then show "\<exists>s''. schedule H l s' = Some s'' \<and> kernel_inv s''"
        using less.IH [of l s'] s'(1) n k by simp
    qed
    then obtain r s2 where s2: "signal_handle_pending H k (Some j) (dispatch j s) = Some (r, s2)" "kernel_inv s2"
      unfolding k by blast
    then show ?thesis
      using kernel_inv_switch [OF s2(2)] by (simp only: n schedule_next Some option.case) simp
  qed
qed

text \<open>
  What a call of the scheduler leaves alone: the pids, the state and the stack of every process
  that was not runnable, and the current process unless it picks a runnable one.
\<close>

definition survives :: "'z kproc_scheme \<Rightarrow> 'z kproc_scheme \<Rightarrow> bool" where
  "survives s s' \<longleftrightarrow> kernel_inv s' \<and>
     (\<forall>j < MAX_PROCESSES. p_pid (proc s' j) = p_pid (proc s j) \<and>
        (j \<notin> runnables s \<longrightarrow> p_state (proc s' j) = p_state (proc s j) \<and> p_stack (proc s' j) = p_stack (proc s j))) \<and>
     (current_process_index s' = current_process_index s \<or> current_process_index s' \<in> runnables s) \<and>
     same_rest s s'"

lemma survives_upd_proc:
  assumes "survives s s'" "i \<in> runnables s" "\<And>p. benign p (f p)"
  shows "survives s (upd_proc i f s')"
proof -
  have inv: "kernel_inv s'" using assms(1) by (simp add: survives_def)
  have "proc (upd_proc i f s') j = (if i = j then f (proc s' j) else proc s' j)" if "j < MAX_PROCESSES" for j
    using that kernel_invD(1) [OF inv] by (simp add: proc_upd_proc)
  then show ?thesis
    using assms kernel_inv_upd_proc [OF inv, of f i] by (auto simp: survives_def benign_def)
qed

lemma survives_refl: "kernel_inv s \<Longrightarrow> survives s s"
  by (simp add: survives_def)

lemma survives_current:
  "survives s s' \<Longrightarrow> i \<in> runnables s \<Longrightarrow> survives s (s'\<lparr>current_process_index := i\<rparr>)"
  using kernel_inv_current [of s' i] by (auto simp: survives_def runnables_def)

lemma survives_switch:
  assumes "survives s s'" "current_process_index s' \<in> runnables s"
  shows "survives s (switch_to_process (p_pid (proc s' (current_process_index s'))) s')"
proof -
  let ?c = "current_process_index s'"
  have c: "kernel_inv s'" "?c < MAX_PROCESSES" "p_pid (proc s' ?c) \<noteq> 0"
    using assms by (auto simp: survives_def runnables_def runnable_def)
  show ?thesis
    unfolding switch_to_slot [OF c]
    by (intro survives_current survives_upd_proc assms) (simp add: benign_def)
qed

lemma quiet_handlerD:
  assumes "quiet_handler H" "H h g s = Some s'" "survives t s"
  shows "survives t s'"
proof -
  have eq: "processes s' = processes s" "current_process_index s' = current_process_index s"
    "kheap s' = kheap s" "next_pid s' = next_pid s" "same_rest s s'"
    using assms(1,2) unfolding quiet_handler_def by blast+
  have "kernel_inv s" using assms(3) by (simp add: survives_def)
  then have "kernel_inv s'" using eq by (simp add: kernel_inv_def table_ok_def stacks_ok_def)
  with assms(3) eq show ?thesis by (simp add: survives_def same_rest_def)
qed

lemma survives_exit:
  assumes inv: "kernel_inv s" and i: "i \<in> runnables s" and cur: "current_process_index s = i"
    and rec: "\<And>l s' s''. n = Suc l \<Longrightarrow> kernel_inv s' \<Longrightarrow> schedule H l s' = Some s'' \<Longrightarrow> survives s' s''"
    and exit: "exit_process H n (p_pid (proc s i)) code s = Some s'"
  shows "survives s s'"
proof (cases n)
  case 0
  with exit show ?thesis by simp
next
  case (Suc l)
  note pos = upd_pending_frame(4,5) [OF inv i]
  obtain t where t: "exit_process H (Suc l) (p_pid (proc s i)) code s = schedule H l t"
    "kernel_inv t" "runnables t = runnables s - {i}" "current_process_index t = current_process_index s"
    "\<And>j. j < MAX_PROCESSES \<Longrightarrow> p_pid (proc t j) = p_pid (proc s j)"
    "\<And>j. j < MAX_PROCESSES \<Longrightarrow> j \<noteq> i \<Longrightarrow>
       p_state (proc t j) = p_state (proc s j) \<and> p_stack (proc t j) = p_stack (proc s j)"
    "p_state (proc t i) = PROCESS_STATE_ZOMBIE" "p_stack (proc t i) = 0" "same_rest s t"
    using exit_process_runnables [OF inv pos, of H l code] by blast
  have "survives t s'" using rec [OF Suc t(2)] exit t(1) Suc by simp
  then show ?thesis using t(3-6,9) i by (auto simp: survives_def same_rest_def)
qed

lemma survives_handle_pending:
  assumes H: "quiet_handler H" and inv: "kernel_inv s" and i: "i \<in> runnables s"
    and cur: "current_process_index s = i"
    and rec: "\<And>l s' s''. n = Suc l \<Longrightarrow> kernel_inv s' \<Longrightarrow> schedule H l s' = Some s'' \<Longrightarrow> survives s' s''"
    and call: "signal_handle_pending H n (Some i) s = Some (r, s')"
  shows "survives s s'"
proof (cases rule: handle_pending_cases [OF upd_pending_frame(6) [OF inv i], of H n])
  case (1 m)
  then show ?thesis
    using call survives_upd_proc [OF survives_refl [OF inv] i] by (auto simp: benign_def)
next
  case (2 m g)
  let ?t = "upd_proc i (\<lambda>p. p\<lparr>p_pending_signals := m\<rparr>) s"
  note t = upd_pending_frame(1-3) [OF inv i, of m]
  have "exit_process H n (p_pid (proc ?t i)) (128 + of_nat g) ?t = Some s'"
    using 2 call t(3) by (auto simp: bind_eq_Some_conv)
  then have "survives ?t s'" using survives_exit [OF t(1) _ _ rec] i t(2) cur by simp
  moreover have "survives s ?t" using survives_upd_proc [OF survives_refl [OF inv] i] by (simp add: benign_def)
  ultimately show ?thesis using t(2) by (simp add: survives_def same_rest_def)
next
  case (3 m h g)
  let ?t = "upd_proc i (\<lambda>p. p\<lparr>p_pending_signals := m, p_handling_signal := 1\<rparr>) s"
  obtain t' where t': "H h (int g) ?t = Some t'" "s' = upd_proc i (\<lambda>p. p\<lparr>p_handling_signal := 0\<rparr>) t'"
    using 3 call by (auto simp: bind_eq_Some_conv)
  have "survives s ?t" by (rule survives_upd_proc [OF survives_refl [OF inv] i]) (simp add: benign_def)
  from quiet_handlerD [OF H t'(1) this] show ?thesis
    unfolding t'(2) by (rule survives_upd_proc [OF _ i]) (simp add: benign_def)
qed

lemma schedule_survives:
  assumes "quiet_handler H" "kernel_inv s" "schedule H n s = Some s'"
  shows "survives s s'"
  using assms(2,3)
proof (induction n arbitrary: s s' rule: less_induct)
  case (less n)
  obtain k where n: "n = Suc k" using less.prems(2) by (cases n) auto
  note cur = kernel_invD(2) [OF less.prems(1)] and len = kernel_invD(1) [OF less.prems(1)]
  show ?case
  proof (cases "next_runnable (processes s) (current_process_index s)")
    case None
    with less.prems show ?thesis by (simp add: n schedule_next survives_refl del: schedule.simps)
  next
    case (Some j)
    note j = next_runnable_Some [OF Some cur]
    have jr: "j \<in> runnables s" using j by (simp add: runnables_def)
    note run = runnables_dispatch [OF len jr] and inv = kernel_inv_dispatch [OF less.prems(1) j(1)]
    obtain r t where t: "signal_handle_pending H k (Some j) (dispatch j s) = Some (r, t)"
      "s' = switch_to_process (p_pid (proc t (current_process_index t))) t"
      using less.prems(2) by (auto simp: n schedule_next Some bind_eq_Some_conv simp del: schedule.simps)
    have "survives (dispatch j s) t"
    proof (rule survives_handle_pending [OF assms(1) inv _ _ _ t(1)])
      show "j \<in> runnables (dispatch j s)" "current_process_index (dispatch j s) = j"
        using jr run by (simp_all add: dispatch_def)
      show "survives s1 s2" if "k = Suc l" "kernel_inv s1" "schedule H l s1 = Some s2" for l s1 s2
        using less.IH [OF _ that(2,3)] that(1) n by simp
    qed
    moreover have "survives s (dispatch j s)"
      unfolding dispatch_def
      by (intro survives_upd_proc survives_current survives_refl less.prems jr) (simp add: benign_def)
    ultimately have "survives s t" "current_process_index t \<in> runnables s"
      using run jr by (auto simp: survives_def dispatch_def same_rest_def)
    then show ?thesis unfolding t(2) by (rule survives_switch)
  qed
qed

lemma schedule_total:
  assumes "handler_ok H" "quiet_handler H" "kernel_inv s" "2 * MAX_PROCESSES < n"
  obtains s' where "schedule H n s = Some s'" "survives s s'"
proof -
  have "2 * card (runnables s) < n" using finite_runnables(2) [of s] assms(4) by linarith
  then obtain s' where "schedule H n s = Some s'" using schedule_returns [OF assms(1,3)] by blast
  with schedule_survives [OF assms(2,3)] that show thesis by blast
qed

lemma exit_process_total:
  assumes "handler_ok H" "quiet_handler H" "kernel_inv s" "2 * MAX_PROCESSES + 1 < n"
    "get_process pid s = Some i"
  shows "\<exists>s'. exit_process H n pid code s = Some s' \<and> kernel_inv s' \<and>
    p_state (proc s' i) = PROCESS_STATE_ZOMBIE \<and> p_stack (proc s' i) = 0 \<and>
    (\<forall>j < MAX_PROCESSES. j \<noteq> i \<longrightarrow> \<not> runnable (proc s j) \<longrightarrow>
       p_state (proc s' j) = p_state (proc s j) \<and> p_stack (proc s' j) = p_stack (proc s j))"
proof -
  obtain l where n: "n = Suc l" "2 * MAX_PROCESSES < l" using assms(4) by (cases n) auto
  have i: "i < MAX_PROCESSES" using get_process_Some [OF assms(5)] kernel_invD(1) [OF assms(3)] by simp
  obtain t where t: "exit_process H (Suc l) pid code s = schedule H l t" "kernel_inv t"
    "p_state (proc t i) = PROCESS_STATE_ZOMBIE" "p_stack (proc t i) = 0"
    "\<And>j. j < MAX_PROCESSES \<Longrightarrow> p_pid (proc t j) = p_pid (proc s j)"
    "\<And>j. j < MAX_PROCESSES \<Longrightarrow> j \<noteq> i \<Longrightarrow>
       p_state (proc t j) = p_state (proc s j) \<and> p_stack (proc t j) = p_stack (proc s j)"
    by (rule exit_process_effect [OF assms(3,5), of H l code]) blast
  obtain s' where s': "schedule H l t = Some s'" "survives t s'"
    using schedule_total [OF assms(1,2) t(2) n(2)] .
  have "i \<notin> runnables t" using t(3) by (simp add: runnables_def runnable_def)
  moreover have "j \<notin> runnables t" if "j < MAX_PROCESSES" "j \<noteq> i" "\<not> runnable (proc s j)" for j
    using that t(5,6) [of j] by (auto simp: runnables_def runnable_def)
  ultimately show ?thesis
    using s' t i unfolding n(1) by (auto simp: survives_def simp del: exit_process.simps)
qed

lemma no_handlers: "handler_ok (\<lambda>_ _. Some)" "quiet_handler (\<lambda>_ _. Some)"
  by (auto simp: handler_ok_def quiet_handler_def)

lemma boot_kernel_inv: "kernel_inv boot_kproc"
  using boot_kproc_ok by (simp add: kernel_inv_def)

text \<open>A process no pending signal disturbs; the scheduler then only moves on.\<close>

definition undisturbed :: "process \<Rightarrow> bool" where
  "undisturbed p \<longleftrightarrow> (\<forall>signum \<in> {1..<MAX_SIGNALS}. \<not> deliverable p signum)"

lemma deliver_undisturbed: "\<forall>signum \<in> set signums. \<not> deliverable p signum \<Longrightarrow> deliver signums p = (Quiet, p)"
  by (induction signums) auto

lemma handle_pending_undisturbed:
  assumes "i < length (processes s)" "undisturbed (proc s i)"
  shows "signal_handle_pending H n (Some i) s = Some (0, s)"
proof -
  have "deliver [1..<MAX_SIGNALS] (proc s i) = (Quiet, proc s i)"
    by (rule deliver_undisturbed) (use assms(2) in \<open>simp only: undisturbed_def set_upt\<close>)
  then have "pending_loop H n [1..<MAX_SIGNALS] i s = Some (0, s)"
    using pending_loop_deliver [OF _ assms(1), of "[1..<MAX_SIGNALS]" H n]
    by (simp add: after_delivery_def upd_proc_id del: upt_rec_numeral pending_loop.simps)
  then show ?thesis by (simp only: signal_handle_pending.simps) simp
qed

lemma schedule_quiet:
  assumes inv: "kernel_inv s" and quiet: "\<forall>j < MAX_PROCESSES. undisturbed (proc s j)"
  shows "schedule H (Suc n) s = (case next_runnable (processes s) (current_process_index s) of
      None \<Rightarrow> Some s
    | Some j \<Rightarrow> Some ((upd_proc j (\<lambda>p. p\<lparr>p_state := PROCESS_STATE_RUNNING, p_cpu_time := p_cpu_time p + 1\<rparr>) s)
               \<lparr>current_process_index := j\<rparr>))"
proof (cases "next_runnable (processes s) (current_process_index s)")
  case None
  then show ?thesis by (simp only: schedule_next option.case)
next
  case (Some j)
  note j = next_runnable_Some [OF Some kernel_invD(2) [OF inv]] and len = kernel_invD(1) [OF inv]
  note inv1 = kernel_inv_dispatch [OF inv j(1)]
  have p: "proc (dispatch j s) j = proc s j\<lparr>p_state := PROCESS_STATE_RUNNING\<rparr>"
    "current_process_index (dispatch j s) = j" using j(1) len by (simp_all add: dispatch_def proc_upd_proc)
  then have "undisturbed (proc (dispatch j s) j)"
    using quiet j(1) by (simp add: undisturbed_def deliverable_def)
  then have "signal_handle_pending H n (Some j) (dispatch j s) = Some (0, dispatch j s)"
    using j(1) kernel_invD(1) [OF inv1] by (intro handle_pending_undisturbed) simp_all
  moreover have "p_pid (proc (dispatch j s) j) \<noteq> 0" using p(1) j(2) by (simp add: runnable_def)
  ultimately show ?thesis
    unfolding schedule_next Some
    using p(2) switch_to_slot [OF inv1 j(1)] j(1) len
    by (simp add: dispatch_def upd_proc_def upd_nth_def)
qed

lemma next_index_neq:
  assumes "1 \<le> k" "k < MAX_PROCESSES" "cur < MAX_PROCESSES"
  shows "(cur + k) mod MAX_PROCESSES \<noteq> cur"
  using mod_add_inj [of k MAX_PROCESSES 0 cur] assms by auto

lemma next_runnable_least:
  assumes "next_runnable ps cur = Some j"
  obtains k where "1 \<le> k" "k < MAX_PROCESSES" "j = (cur + k) mod MAX_PROCESSES" "runnable (ps ! j)"
    "\<And>l. 1 \<le> l \<Longrightarrow> l < k \<Longrightarrow> \<not> runnable (ps ! ((cur + l) mod MAX_PROCESSES))"
proof -
  obtain m where m: "m < MAX_PROCESSES - 1" "j = (cur + 1 + m) mod MAX_PROCESSES" "runnable (ps ! j)"
    "\<forall>l < m. \<not> runnable (ps ! ((cur + 1 + l) mod MAX_PROCESSES))"
    using assms by (auto simp: next_runnable_def find_index_upt)
  have "\<not> runnable (ps ! ((cur + l) mod MAX_PROCESSES))" if "1 \<le> l" "l < m + 1" for l
    using m(4) [rule_format, of "l - 1"] that by (cases l) simp_all
  with m that [of "m + 1"] show thesis by (simp add: add.assoc)
qed

text \<open>Two ready processes, for the concrete instances below.\<close>

definition sample_kproc :: kproc where
  "sample_kproc = boot_kproc\<lparr>next_pid := 3, processes :=
     zero_process\<lparr>p_pid := 1\<rparr> # zero_process\<lparr>p_pid := 2, p_parent_pid := 1\<rparr> # replicate 62 zero_process\<rparr>"

lemma unique_pids_two: "a \<noteq> b \<Longrightarrow> unique_pids (a # b # replicate n 0)"
  by (auto simp: unique_pids_def nth_Cons split: nat.splits)

lemma sample_kernel_inv: "kernel_inv sample_kproc"
proof -
  have "table_ok sample_kproc"
    using unique_pids_two [of 1 2 62]
    by (auto simp: table_ok_def sample_kproc_def slot_ok_def zero_process_def boot_kproc_def init_processes_def)
  moreover have "p \<noteq> 0 \<Longrightarrow> p \<notin> set (map p_stack (processes sample_kproc))" for p
    by (auto simp: sample_kproc_def zero_process_def)
  then have "holds (live_blocks bs) 4096 (map p_stack (processes sample_kproc))" for bs
    unfolding holds_def by (metis nth_mem)
  moreover have "kheap sample_kproc = kheap boot_kproc" by (simp add: sample_kproc_def)
  ultimately show ?thesis
    using boot_kproc_ok(2) by (auto simp: kernel_inv_def stacks_ok_def)
qed

lemma sample_slot:
  "get_process 2 sample_kproc = Some 1" "proc sample_kproc 1 = zero_process\<lparr>p_pid := 2, p_parent_pid := 1\<rparr>"
  by (simp_all add: get_process_def sample_kproc_def zero_process_def)

lemma undisturbed_none: "p_pending_signals p = 0 \<Longrightarrow> undisturbed p"
  by (simp add: undisturbed_def deliverable_def)

lemma sample_undisturbed: "\<forall>j < MAX_PROCESSES. undisturbed (proc sample_kproc j)"
  by (intro allI impI undisturbed_none) (auto simp: sample_kproc_def zero_process_def nth_Cons split: nat.split)

text \<open>A process whose only pending signal has its default action.\<close>

definition doomed :: "nat \<Rightarrow> process \<Rightarrow> bool" where
  "doomed g p \<longleftrightarrow> p_handling_signal p = 0 \<and> p_pending_signals p = sigbit g \<and>
     \<not> bit (p_blocked_signals p) g \<and> sa_handler (p_signal_actions p ! g) = SIG_DFL"

lemma deliver_doomed:
  assumes "doomed g p" "g < MAX_SIGNALS" "g \<notin> {17, 23, 28}" "g \<in> set signums"
  shows "deliver signums p = (Terminate g, clear_pending g p)"
proof -
  have "deliverable p l \<longleftrightarrow> l = g" for l
    using assms(1,2) by (auto simp: doomed_def deliverable_def bit_sigbit)
  with assms(1,3,4) show ?thesis by (induction signums) (auto simp: doomed_def Let_def)
qed

lemma handle_pending_doomed:
  assumes "i < length (processes s)" "signal_handling_enabled s \<noteq> 0" "doomed g (proc s i)"
    "1 \<le> g" "g < MAX_SIGNALS" "g \<notin> {17, 23, 28}"
  shows "signal_handle_pending H n (Some i) s =
    do { s' \<leftarrow> exit_process H n (p_pid (proc s i)) (128 + of_nat g) (upd_proc i (clear_pending g) s); Some (1, s') }"
proof -
  have "signal_handle_pending H n (Some i) s = pending_loop H n [1..<MAX_SIGNALS] i s"
    using assms(2,3) by (simp only: signal_handle_pending.simps doomed_def) simp
  also have "\<dots> = after_delivery H n i (deliver [1..<MAX_SIGNALS] (proc s i)) s"
    by (rule pending_loop_deliver [OF _ assms(1)]) (simp only: set_upt subset_refl)
  also have "deliver [1..<MAX_SIGNALS] (proc s i) = (Terminate g, clear_pending g (proc s i))"
    by (rule deliver_doomed [OF assms(3,5,6)]) (use assms(4,5) in \<open>simp only: set_upt atLeastLessThan_iff\<close>)
  finally show ?thesis
    using upd_proc_same [OF assms(1), of "clear_pending g"] by (simp add: after_delivery_def)
qed

text \<open>The second process has signal \<open>g\<close> pending while the first waits.\<close>

definition sample_doomed :: "nat \<Rightarrow> kproc" where
  "sample_doomed g = upd_proc 0 (\<lambda>p. p\<lparr>p_state := PROCESS_STATE_BLOCKED\<rparr>)
     (upd_proc 1 (\<lambda>p. p\<lparr>p_pending_signals := sigbit g\<rparr>) sample_kproc)"

lemma sample_doomed:
  assumes "g < MAX_SIGNALS"
  shows "kernel_inv (sample_doomed g)" "signal_handling_enabled (sample_doomed g) \<noteq> 0"
    "doomed g (proc (sample_doomed g) 1)" "runnables (sample_doomed g) = {1}"
    "1 \<noteq> current_process_index (sample_doomed g)" "1 < length (processes (sample_doomed g))"
proof -
  show "kernel_inv (sample_doomed g)"
    unfolding sample_doomed_def by (intro kernel_inv_upd_proc sample_kernel_inv) (simp_all add: benign_def)
  have procs: "processes (sample_doomed g) = zero_process\<lparr>p_pid := 1, p_state := PROCESS_STATE_BLOCKED\<rparr> #
      zero_process\<lparr>p_pid := 2, p_parent_pid := 1, p_pending_signals := sigbit g\<rparr> # replicate 62 zero_process"
    by (simp add: sample_doomed_def sample_kproc_def upd_proc_def upd_nth_def)
  show "signal_handling_enabled (sample_doomed g) \<noteq> 0" "1 \<noteq> current_process_index (sample_doomed g)"
    by (simp_all add: sample_doomed_def sample_kproc_def boot_kproc_def init_processes_def)
  show "doomed g (proc (sample_doomed g) 1)" "1 < length (processes (sample_doomed g))"
    using assms by (simp_all add: procs doomed_def zero_process_def default_action_def)
  have "runnable (proc (sample_doomed g) j) \<longleftrightarrow> j = 1" if j: "j < MAX_PROCESSES" for j
  proof (cases "j < 2")
    case True
    then have "j = 0 \<or> j = 1" by auto
    then show ?thesis by (auto simp: procs runnable_def zero_process_def)
  next
    case False
    then obtain k where "j = Suc (Suc k)" "k < 62" using j
      by (cases j; cases "j - 1") auto
    then show ?thesis by (simp add: procs runnable_def zero_process_def)
  qed
  then show "runnables (sample_doomed g) = {1}" by (auto simp: runnables_def)
qed

section \<open>Repeated calls\<close>

fun schedule_times :: "'z kproc_scheme handler \<Rightarrow> nat \<Rightarrow> nat \<Rightarrow> 'z kproc_scheme \<Rightarrow> 'z kproc_scheme option" where
  "schedule_times H n 0 s = Some s"
| "schedule_times H n (Suc k) s = do { s' \<leftarrow> schedule H n s; schedule_times H n k s' }"

text \<open>How far slot \<open>i\<close> is ahead of the current one.\<close>

definition schedule_gap :: "nat \<Rightarrow> 'z kproc_scheme \<Rightarrow> nat" where
  "schedule_gap i s = (i + MAX_PROCESSES - current_process_index s) mod MAX_PROCESSES"

lemma schedule_gap_less: "schedule_gap i s < MAX_PROCESSES"
  by (simp add: schedule_gap_def)

lemma ring_diff: "((x + d) mod n + n - x) mod n = d" if "x < n" "d < n" for x d n :: nat
proof (cases "x + d < n")
  case False
  then have "(x + d) mod n = x + d - n" using that by (simp add: le_mod_geq)
  with False that show ?thesis by simp
qed (use that in simp)

lemma ring_gap:
  fixes i c k :: nat
  assumes "(c + g) mod n = i" "g < n" "k \<le> g"
  shows "(i + n - (c + k) mod n) mod n = g - k"
proof -
  have "((c + k) mod n + (g - k)) mod n = i"
    using assms(1,3) by (metis add.assoc le_add_diff_inverse mod_add_left_eq)
  with ring_diff [of "(c + k) mod n" n "g - k"] assms(2) show ?thesis by simp
qed

lemma schedule_closer:
  assumes inv: "kernel_inv s" and quiet: "\<forall>j < MAX_PROCESSES. undisturbed (proc s j)"
    and i: "i < MAX_PROCESSES" "runnable (proc s i)" "current_process_index s \<noteq> i"
  obtains s' where "schedule H (Suc n) s = Some s'" "schedule_gap i s' < schedule_gap i s" "kernel_inv s'"
    "\<forall>j < MAX_PROCESSES. undisturbed (proc s' j)" "runnable (proc s' i)"
proof -
  let ?c = "current_process_index s"
  note c = kernel_invD(2) [OF inv] and len = kernel_invD(1) [OF inv]
  have "next_runnable (processes s) ?c \<noteq> None"
    using next_runnable_None [OF _ c i(1)] i(2,3) by auto
  then obtain j where j: "next_runnable (processes s) ?c = Some j" by auto
  note jr = next_runnable_Some [OF j c]
  obtain k where k: "1 \<le> k" "k < MAX_PROCESSES" "j = (?c + k) mod MAX_PROCESSES"
    "\<And>l. 1 \<le> l \<Longrightarrow> l < k \<Longrightarrow> \<not> runnable (proc s ((?c + l) mod MAX_PROCESSES))"
    using next_runnable_least [OF j] by blast
  let ?g = "schedule_gap i s"
  have g: "(?c + ?g) mod MAX_PROCESSES = i" "1 \<le> ?g" "?g < MAX_PROCESSES"
  proof -
    have "(?c + ?g) mod MAX_PROCESSES = (?c + (i + MAX_PROCESSES - ?c)) mod MAX_PROCESSES"
      unfolding schedule_gap_def by (rule mod_add_right_eq)
    then show g: "(?c + ?g) mod MAX_PROCESSES = i" using c i(1) by simp
    show "1 \<le> ?g" using g c i(3) by (cases "?g = 0") auto
    show "?g < MAX_PROCESSES" by (rule schedule_gap_less)
  qed
  have "k \<le> ?g" using g(1,2) k(4) [of ?g] i(2) by (metis not_le)
  from ring_gap [OF g(1,3) this]
  have gap: "(i + MAX_PROCESSES - j) mod MAX_PROCESSES < ?g" using k(1) g(2) by (simp add: k(3))
  let ?s' = "(upd_proc j (\<lambda>p. p\<lparr>p_state := PROCESS_STATE_RUNNING, p_cpu_time := p_cpu_time p + 1\<rparr>) s)
      \<lparr>current_process_index := j\<rparr>"
  show thesis
  proof (rule that)
    show "schedule H (Suc n) s = Some ?s'" using schedule_quiet [OF inv quiet, of H n] j by simp
    show "schedule_gap i ?s' < ?g" using gap unfolding schedule_gap_def [of i ?s'] by simp
    show "kernel_inv ?s'"
      by (intro kernel_inv_current kernel_inv_upd_proc inv jr(1)) (simp add: benign_def)
    show "\<forall>l < MAX_PROCESSES. undisturbed (proc ?s' l)"
      using quiet len by (auto simp: upd_proc_def nth_upd_nth undisturbed_def deliverable_def)
    show "runnable (proc ?s' i)"
      using i(1,2) len by (auto simp: upd_proc_def nth_upd_nth runnable_def)
  qed
qed

lemma schedule_reaches:
  assumes "kernel_inv s" "\<forall>j < MAX_PROCESSES. undisturbed (proc s j)"
    "i < MAX_PROCESSES" "runnable (proc s i)"
  shows "\<exists>k \<le> schedule_gap i s. \<exists>s'. schedule_times H (Suc n) k s = Some s' \<and> current_process_index s' = i"
  using assms
proof (induction "schedule_gap i s" arbitrary: s rule: less_induct)
  case less
  show ?case
  proof (cases "current_process_index s = i")
    case True
    then show ?thesis by (intro exI [of _ 0]) simp
  next
    case False
    obtain t where t: "schedule H (Suc n) s = Some t" "schedule_gap i t < schedule_gap i s" "kernel_inv t"
      "\<forall>j < MAX_PROCESSES. undisturbed (proc t j)" "runnable (proc t i)"
      by (rule schedule_closer [OF less.prems False, of H n]) (rule that)
    obtain k s' where "k \<le> schedule_gap i t" "schedule_times H (Suc n) k t = Some s'" "current_process_index s' = i"
      using less.hyps [OF t(2,3,4) less.prems(3) t(5)] by blast
    with t(1,2) show ?thesis
      by (intro exI [of _ "Suc k"]) (auto simp del: schedule.simps)
  qed
qed

section \<open>Properties\<close>

text \<open>C3: \<open>schedule\<close> always returns: whatever signals are pending, the chain of processes that end while it
  picks the next one is bounded, so 129 nested calls are enough for the 64 slots. Afterwards the
  process table is still well-formed and every stack is still a heap block of its own. Signal
  handlers are assumed to return and to keep the same invariant.\<close>

theorem schedule_terminates:
  assumes "handler_ok H" "kernel_inv s" "129 \<le> n"
  shows "\<exists>s'. schedule H n s = Some s' \<and> kernel_inv s'"
proof -
  have "2 * card (runnables s) < n" using finite_runnables(2) [of s] assms(3) by linarith
  from schedule_returns [OF assms(1,2) this] show ?thesis .
qed

theorem schedule_terminates_witness:
  "\<exists>s'. schedule (\<lambda>_ _. Some) 129 boot_kproc = Some s' \<and> kernel_inv s'"
  by (rule schedule_terminates [OF no_handlers(1) boot_kernel_inv order_refl])



text \<open>C25: \<open>SIGKILL\<close> and \<open>SIGSTOP\<close> take effect at once, whatever the process blocks, ignores or handles: the
  one leaves it a zombie, the other stopped, and both calls return.\<close>

theorem signal_send_unblockable:
  assumes "handler_ok H" "quiet_handler H" "kernel_inv s" "130 \<le> n" "i < MAX_PROCESSES"
    "p_pid (proc s i) \<noteq> 0"
  shows "\<exists>s1 s2. signal_send H n (Some i) SIGKILL s = Some (0, s1) \<and> kernel_inv s1 \<and>
      p_state (proc s1 i) = PROCESS_STATE_ZOMBIE \<and>
    signal_send H n (Some i) SIGSTOP s = Some (0, s2) \<and> kernel_inv s2 \<and>
      p_state (proc s2 i) = PROCESS_STATE_STOPPED"
proof -
  note pid = get_process_slot [OF assms(3,5,6)]
  obtain s1 where s1: "exit_process H n (p_pid (proc s i)) 137 s = Some s1" "kernel_inv s1"
    "p_state (proc s1 i) = PROCESS_STATE_ZOMBIE"
    using exit_process_total [OF assms(1-3) _ pid, of n 137] assms(4) by auto
  obtain l where n: "n = Suc l" "2 * MAX_PROCESSES < l" using assms(4) by (cases n) auto
  let ?t = "mark_stopped i s"
  have inv: "kernel_inv ?t" using kernel_inv_upd_proc [OF assms(3)] by (simp add: mark_stopped_def benign_def)
  have st: "p_state (proc ?t i) = PROCESS_STATE_STOPPED"
    using assms(5) kernel_invD(1) [OF assms(3)] by (simp add: mark_stopped_def proc_upd_proc)
  obtain s2 where s2: "schedule H l ?t = Some s2" "survives ?t s2"
    using schedule_total [OF assms(1,2) inv n(2)] .
  have "stop_process H n (p_pid (proc s i)) s = Some s2" using pid s2(1) by (simp add: n(1))
  moreover have "i \<notin> runnables ?t" using st by (simp add: runnables_def runnable_def)
  then have "p_state (proc s2 i) = PROCESS_STATE_STOPPED" "kernel_inv s2"
    using s2(2) st assms(5) by (auto simp: survives_def)
  ultimately show ?thesis using s1 by (simp del: exit_process.simps stop_process.simps)
qed

theorem signal_send_unblockable_witness:
  "\<exists>s1 s2. signal_send (\<lambda>_ _. Some) 130 (Some 1) SIGKILL sample_kproc = Some (0, s1) \<and> kernel_inv s1 \<and>
      p_state (proc s1 1) = PROCESS_STATE_ZOMBIE \<and>
    signal_send (\<lambda>_ _. Some) 130 (Some 1) SIGSTOP sample_kproc = Some (0, s2) \<and> kernel_inv s2 \<and>
      p_state (proc s2 1) = PROCESS_STATE_STOPPED"
  by (rule signal_send_unblockable [OF no_handlers sample_kernel_inv order_refl])
     (simp_all only: sample_slot, simp_all add: zero_process_def)

text \<open>C7: Without deliverable signals the scheduler is round robin: it picks the first runnable process
  after the current one in cyclic order, marks it running, makes it current and charges it one
  tick, and changes nothing else. When no other process is runnable it changes nothing at all, also
  not the current process.\<close>

theorem schedule_round_robin:
  assumes inv: "kernel_inv s" and quiet: "\<forall>j < MAX_PROCESSES. undisturbed (proc s j)"
  shows "schedule H (Suc n) s =
    (if \<forall>k \<in> {1..<MAX_PROCESSES}. \<not> runnable (proc s ((current_process_index s + k) mod MAX_PROCESSES)) then Some s
     else let k = (LEAST k. 1 \<le> k \<and> runnable (proc s ((current_process_index s + k) mod MAX_PROCESSES)));
              j = (current_process_index s + k) mod MAX_PROCESSES
          in Some ((upd_proc j (\<lambda>p. p\<lparr>p_state := PROCESS_STATE_RUNNING, p_cpu_time := p_cpu_time p + 1\<rparr>) s)
               \<lparr>current_process_index := j\<rparr>))"
proof (cases "next_runnable (processes s) (current_process_index s)")
  case None
  then have "\<not> runnable (proc s ((current_process_index s + k) mod MAX_PROCESSES))"
    if "1 \<le> k" "k < MAX_PROCESSES" for k
    using that next_runnable_None [OF None kernel_invD(2) [OF inv]] next_index_neq [OF that kernel_invD(2) [OF inv]]
    by simp
  then show ?thesis using schedule_quiet [OF inv quiet, of H n] None by (simp del: schedule.simps)
next
  case (Some j)
  obtain k where k: "1 \<le> k" "k < MAX_PROCESSES" "j = (current_process_index s + k) mod MAX_PROCESSES"
    "runnable (proc s j)" "\<And>l. 1 \<le> l \<Longrightarrow> l < k \<Longrightarrow>
       \<not> runnable (proc s ((current_process_index s + l) mod MAX_PROCESSES))"
    using next_runnable_least [OF Some] by blast
  have least: "(LEAST k. 1 \<le> k \<and> runnable (proc s ((current_process_index s + k) mod MAX_PROCESSES))) = k"
  proof (rule Least_equality)
    show "1 \<le> k \<and> runnable (proc s ((current_process_index s + k) mod MAX_PROCESSES))" using k(1,3,4) by simp
    show "k \<le> l" if "1 \<le> l \<and> runnable (proc s ((current_process_index s + l) mod MAX_PROCESSES))" for l
      using that k(5) by (meson not_le)
  qed
  have "\<not> (\<forall>k \<in> {1..<MAX_PROCESSES}. \<not> runnable (proc s ((current_process_index s + k) mod MAX_PROCESSES)))"
    using k(1-4) by auto
  then show ?thesis
    unfolding if_not_P [OF \<open>\<not> _\<close>] least Let_def
    using schedule_quiet [OF inv quiet, of H n] Some by (simp add: k(3) del: schedule.simps)
qed

theorem schedule_round_robin_witness:
  "schedule (\<lambda>_ _. Some) (Suc 0) sample_kproc =
    (if \<forall>k \<in> {1..<MAX_PROCESSES}. \<not> runnable (proc sample_kproc
          ((current_process_index sample_kproc + k) mod MAX_PROCESSES)) then Some sample_kproc
     else let k = (LEAST k. 1 \<le> k \<and> runnable (proc sample_kproc
                ((current_process_index sample_kproc + k) mod MAX_PROCESSES)));
              j = (current_process_index sample_kproc + k) mod MAX_PROCESSES
          in Some ((upd_proc j (\<lambda>p. p\<lparr>p_state := PROCESS_STATE_RUNNING, p_cpu_time := p_cpu_time p + 1\<rparr>)
               sample_kproc)\<lparr>current_process_index := j\<rparr>))"
  by (rule schedule_round_robin [OF sample_kernel_inv sample_undisturbed])



text \<open>The stop signals of job control end a process: with \<open>SIGTSTP\<close>, \<open>SIGTTIN\<close> or \<open>SIGTTOU\<close> pending
  under its default action (stop), \<open>signal_handle_pending\<close> calls \<open>exit_process\<close>, since
  \<open>action & SIGTERM\<close> holds for the stop action too.\<close>

theorem stop_signals_terminate:
  assumes "i < length (processes s)" "signal_handling_enabled s \<noteq> 0" "g \<in> {20, 21, 22}" "doomed g (proc s i)"
  shows "default_signal_actions ! g = 2 \<and> signal_handle_pending H n (Some i) s =
    do { s' \<leftarrow> exit_process H n (p_pid (proc s i)) (128 + of_nat g) (upd_proc i (clear_pending g) s); Some (1, s') }"
proof
  show "default_signal_actions ! g = 2" using assms(3) by (auto simp: default_signal_actions_def)
  show "signal_handle_pending H n (Some i) s =
    do { s' \<leftarrow> exit_process H n (p_pid (proc s i)) (128 + of_nat g) (upd_proc i (clear_pending g) s); Some (1, s') }"
    by (rule handle_pending_doomed [OF assms(1,2,4)]) (use assms(3) in auto)
qed

theorem stop_signals_terminate_witness:
  "default_signal_actions ! 20 = 2 \<and> signal_handle_pending (\<lambda>_ _. Some) 9 (Some 1) (sample_doomed 20) =
    do { s' \<leftarrow> exit_process (\<lambda>_ _. Some) 9 (p_pid (proc (sample_doomed 20) 1)) (128 + of_nat 20)
           (upd_proc 1 (clear_pending 20) (sample_doomed 20)); Some (1, s') }"
  by (rule stop_signals_terminate [OF sample_doomed(6) sample_doomed(2) _ sample_doomed(3)]) simp_all

text \<open>A process that a pending signal ends while the scheduler switches to it, when no other process is
  runnable, comes back: its stack is freed, but the outer \<open>schedule\<close> still switches to the current
  slot and marks it running.\<close>

theorem schedule_revives_zombie:
  assumes inv: "kernel_inv s" and "signal_handling_enabled s \<noteq> 0"
    and only: "runnables s = {i}" "i \<noteq> current_process_index s"
    and sig: "doomed g (proc s i)" "1 \<le> g" "g < MAX_SIGNALS" "g \<notin> {17, 23, 28}"
  shows "\<exists>s'. schedule H (Suc (Suc (Suc n))) s = Some s' \<and> p_stack (proc s' i) = 0 \<and>
    p_state (proc s' i) = PROCESS_STATE_RUNNING \<and> current_process_index s' = i"
proof -
  note len = kernel_invD(1) [OF inv] and cur = kernel_invD(2) [OF inv]
  have i: "i < MAX_PROCESSES" "runnable (proc s i)" using only by (auto simp: runnables_def)
  obtain j where j: "next_runnable (processes s) (current_process_index s) = Some j"
    using next_runnable_None [OF _ cur i(1) only(2)] i(2) by (cases "next_runnable (processes s) (current_process_index s)") auto
  have "j = i" using next_runnable_Some [OF j cur] only(1) by (auto simp: runnables_def)
  let ?d = "dispatch i s" and ?t = "upd_proc i (clear_pending g) (dispatch i s)"
  have d: "kernel_inv ?d" "i < length (processes ?d)" "proc ?d i = proc s i\<lparr>p_state := PROCESS_STATE_RUNNING\<rparr>"
    "signal_handling_enabled ?d \<noteq> 0"
    using kernel_inv_dispatch [OF inv i(1)] i(1) len assms(2) by (simp_all add: dispatch_def proc_upd_proc)
  have "doomed g (proc ?d i)" using sig(1) d(3) by (simp add: doomed_def)
  note handle = handle_pending_doomed [OF d(2,4) this sig(2-4), of H "Suc (Suc n)"]
  have t: "kernel_inv ?t" "p_pid (proc ?t i) = p_pid (proc ?d i)" "p_pid (proc ?t i) \<noteq> 0"
    "current_process_index ?t = i"
    using kernel_inv_upd_proc [OF d(1)] d(2,3) i(2) by (simp_all add: benign_def proc_upd_proc runnable_def dispatch_def)
  have "runnable (proc ?t l) = runnable (proc ?d l)" if "l < MAX_PROCESSES" for l
    using that kernel_invD(1) [OF d(1)] by (simp add: proc_upd_proc runnable_def)
  then have "runnables ?t = runnables ?d" by (auto simp: runnables_def)
  then have run: "runnables ?t = {i}" using runnables_dispatch [OF len] only(1) by simp
  obtain u where u: "exit_process H (Suc (Suc n)) (p_pid (proc ?t i)) (128 + of_nat g) ?t = schedule H (Suc n) u"
    "kernel_inv u" "runnables u = runnables ?t - {i}" "current_process_index u = current_process_index ?t"
    "p_pid (proc u i) = p_pid (proc ?t i)" "p_stack (proc u i) = 0"
    by (rule exit_process_runnables [OF t(1) i(1) t(3), of H "Suc n" "128 + of_nat g"]) (simp add: i(1))
  have "next_runnable (processes u) (current_process_index u) = None"
    by (rule next_runnable_idle [OF u(2)]) (simp add: u(3) run)
  then have "schedule H (Suc n) u = Some u" by (simp only: schedule_next option.case)
  with handle u(1) t(2) have "signal_handle_pending H (Suc (Suc n)) (Some i) ?d = Some (1, u)" by simp
  then have "schedule H (Suc (Suc (Suc n))) s = Some (switch_to_process (p_pid (proc u i)) u)"
    using j \<open>j = i\<close> u(4) t(4) by (simp only: schedule_next option.case) simp
  moreover have "p_pid (proc u i) \<noteq> 0" using u(5) t(3) by simp
  ultimately show ?thesis
    using switch_to_slot [OF u(2) i(1)] u(6) i(1) kernel_invD(1) [OF u(2)] by (simp add: proc_upd_proc)
qed

theorem schedule_revives_zombie_witness:
  "\<exists>s'. schedule (\<lambda>_ _. Some) (Suc (Suc (Suc 0))) (sample_doomed 15) = Some s' \<and> p_stack (proc s' 1) = 0 \<and>
    p_state (proc s' 1) = PROCESS_STATE_RUNNING \<and> current_process_index s' = 1"
  by (rule schedule_revives_zombie [OF sample_doomed(1,2,4,5,3)]) simp_all

end
