(* ===== verification/Signals.thy ===== *)
theory Signals
  imports Scheduling
begin

text \<open>
  The rest of \<open>signals.c\<close>: starting the signal system, installing handlers and actions, and the
  masks of the current process. An \<open>out\<close> pointer is a \<open>bool\<close> telling whether it is non-null,
  and what is stored through it is part of the result.
\<close>

definition signal_init :: "'z kproc_scheme \<Rightarrow> int \<times> 'z kproc_scheme" where
  "signal_init s = (0, kprint (''Sinyal sistemi baslatildi.'' @ [NL]) (s\<lparr>signal_handling_enabled := 1\<rparr>))"

definition set_action :: "nat \<Rightarrow> (signal_action \<Rightarrow> signal_action) \<Rightarrow> process \<Rightarrow> process" where
  "set_action signum f p = p\<lparr>p_signal_actions := upd_nth signum f (p_signal_actions p)\<rparr>"

text \<open>The old handler is returned as an \<open>int\<close>: its low 32 bits.\<close>

definition signal_set_handler :: "int \<Rightarrow> u64 \<Rightarrow> 'z kproc_scheme \<Rightarrow> int \<times> 'z kproc_scheme" where
  "signal_set_handler signum handler s =
     (if signum \<le> 0 \<or> signum \<ge> int MAX_SIGNALS then (-1, s)
      else case get_current_process s of
        None \<Rightarrow> (-1, s)
      | Some c \<Rightarrow>
          if signum = SIGKILL \<or> signum = SIGSTOP then (-1, s)
          else (u64_to_int (sa_handler (p_signal_actions (proc s c) ! nat signum)),
                upd_proc c (set_action (nat signum) (\<lambda>a. a\<lparr>sa_handler := handler\<rparr>)) s))"

text \<open>The second component of the result is what is stored through \<open>oldact\<close>, if anything is.\<close>

definition signal_set_action ::
  "int \<Rightarrow> signal_action option \<Rightarrow> bool \<Rightarrow> 'z kproc_scheme \<Rightarrow> int \<times> signal_action option \<times> 'z kproc_scheme" where
  "signal_set_action signum act oldact s =
     (if signum \<le> 0 \<or> signum \<ge> int MAX_SIGNALS then (-1, None, s)
      else case get_current_process s of
        None \<Rightarrow> (-1, None, s)
      | Some c \<Rightarrow>
          if signum = SIGKILL \<or> signum = SIGSTOP then (-1, None, s)
          else (0, if oldact then Some (p_signal_actions (proc s c) ! nat signum) else None,
                case act of
                  None \<Rightarrow> s
                | Some a \<Rightarrow> upd_proc c (set_action (nat signum) (\<lambda>_. a)) s))"

definition unblockable :: u64 where
  "unblockable = sigbit (nat SIGKILL) OR sigbit (nat SIGSTOP)"

definition signal_block :: "u64 \<Rightarrow> 'z kproc_scheme \<Rightarrow> int \<times> 'z kproc_scheme" where
  "signal_block mask0 s =
     (case get_current_process s of
        None \<Rightarrow> (-1, s)
      | Some c \<Rightarrow>
          let mask = mask0 AND NOT unblockable
          in (u64_to_int (p_blocked_signals (proc s c)),
              upd_proc c (\<lambda>p. p\<lparr>p_blocked_signals := p_blocked_signals p OR mask\<rparr>) s))"

definition signal_unblock :: "u64 \<Rightarrow> 'z kproc_scheme \<Rightarrow> int \<times> 'z kproc_scheme" where
  "signal_unblock msk s =
     (case get_current_process s of
        None \<Rightarrow> (-1, s)
      | Some c \<Rightarrow>
          (u64_to_int (p_blocked_signals (proc s c)),
           upd_proc c (\<lambda>p. p\<lparr>p_blocked_signals := p_blocked_signals p AND NOT msk\<rparr>) s))"

definition signal_set_mask :: "u64 \<Rightarrow> bool \<Rightarrow> 'z kproc_scheme \<Rightarrow> int \<times> u64 option \<times> 'z kproc_scheme" where
  "signal_set_mask mask0 oldmask s =
     (case get_current_process s of
        None \<Rightarrow> (-1, None, s)
      | Some c \<Rightarrow>
          let mask = mask0 AND NOT unblockable
          in (0, if oldmask then Some (p_blocked_signals (proc s c)) else None,
              upd_proc c (\<lambda>p. p\<lparr>p_blocked_signals := mask\<rparr>) s))"

definition signal_proc_mask ::
  "int \<Rightarrow> u64 option \<Rightarrow> bool \<Rightarrow> 'z kproc_scheme \<Rightarrow> int \<times> u64 option \<times> 'z kproc_scheme" where
  "signal_proc_mask how set_ptr oldset s =
     (case get_current_process s of
        None \<Rightarrow> (-1, None, s)
      | Some c \<Rightarrow>
          let old = (if oldset then Some (p_blocked_signals (proc s c)) else None)
          in case set_ptr of
               None \<Rightarrow> (0, old, s)
             | Some mask0 \<Rightarrow>
                 let mask = mask0 AND NOT unblockable
                 in if how = 0 then
                      (0, old, upd_proc c (\<lambda>p. p\<lparr>p_blocked_signals := p_blocked_signals p OR mask\<rparr>) s)
                    else if how = 1 then
                      (0, old, upd_proc c (\<lambda>p. p\<lparr>p_blocked_signals := p_blocked_signals p AND NOT mask\<rparr>) s)
                    else if how = 2 then
                      (0, old, upd_proc c (\<lambda>p. p\<lparr>p_blocked_signals := mask\<rparr>) s)
                    else (-1, old, s))"

text \<open>
  The kernel-side part of \<open>sys_sigsuspend\<close>, after the mask was copied from user memory: block with
  the new mask, reschedule, and restore the mask of the same process.
\<close>

definition sigsuspend_core ::
  "'z kproc_scheme handler \<Rightarrow> nat \<Rightarrow> u64 \<Rightarrow> nat \<Rightarrow> 'z kproc_scheme \<Rightarrow> (u64 \<times> 'z kproc_scheme) option" where
  "sigsuspend_core H n msk c s =
     (let old_mask = p_blocked_signals (proc s c);
          s1 = upd_proc c (\<lambda>p. p\<lparr>p_blocked_signals := msk AND NOT unblockable\<rparr>) s
      in do { s2 \<leftarrow> schedule H n (block_process (p_pid (proc s1 c)) s1);
              Some (- 1, upd_proc c (\<lambda>p. p\<lparr>p_blocked_signals := old_mask\<rparr>) s2) })"

section \<open>\<open>SIGKILL\<close> and \<open>SIGSTOP\<close> are out of reach\<close>

definition masks_ok :: "'z kproc_scheme \<Rightarrow> bool" where
  "masks_ok s \<longleftrightarrow> (\<forall>p \<in> set (processes s). p_blocked_signals p AND unblockable = 0 \<and>
     sa_handler (p_signal_actions p ! 9) = SIG_DFL \<and> sa_handler (p_signal_actions p ! 19) = SIG_DFL)"

lemma masks_ok_upd_proc:
  assumes "masks_ok s" "\<And>p. p_blocked_signals p AND unblockable = 0 \<Longrightarrow> p_blocked_signals (f p) AND unblockable = 0"
    "\<And>p. sa_handler (p_signal_actions (f p) ! 9) = sa_handler (p_signal_actions p ! 9)"
    "\<And>p. sa_handler (p_signal_actions (f p) ! 19) = sa_handler (p_signal_actions p ! 19)"
  shows "masks_ok (upd_proc i f s)"
proof (cases "i < length (processes s)")
  case True
  with assms show ?thesis
    by (auto simp: masks_ok_def processes_upd_proc upd_nth_def dest!: set_update_subset_insert [THEN subsetD])
next
  case False
  with assms(1) show ?thesis by (simp add: masks_ok_def processes_upd_proc upd_nth_def list_update_beyond)
qed

lemma unblockable_masks:
  "b AND unblockable = 0 \<Longrightarrow> (b OR (m AND NOT unblockable)) AND unblockable = 0"
  "b AND unblockable = 0 \<Longrightarrow> (b AND NOT m) AND unblockable = 0"
  "(m AND NOT unblockable) AND unblockable = 0"
  "b AND unblockable = 0 \<Longrightarrow> (b AND (NOT m OR unblockable)) AND unblockable = 0" for b m :: u64
  by (auto simp: bit_eq_iff bit_simps)

lemma set_action_other: "signum \<noteq> k \<Longrightarrow> p_signal_actions (set_action signum f p) ! k = p_signal_actions p ! k"
  "p_blocked_signals (set_action signum f p) = p_blocked_signals p"
  by (simp_all add: set_action_def)

lemma unblockable_bits: "b AND unblockable = 0 \<longleftrightarrow> \<not> bit b 9 \<and> \<not> bit b 19" for b :: u64
proof
  assume "b AND unblockable = 0"
  then have "\<And>k. k < 64 \<Longrightarrow> \<not> (bit b k \<and> bit unblockable k)" by (metis bit_0_eq bit_and_iff bot_apply bot_bool_def)
  from this [of 9] this [of 19] show "\<not> bit b 9 \<and> \<not> bit b 19"
    by (simp add: unblockable_def bit_or_iff bit_sigbit)
next
  assume "\<not> bit b 9 \<and> \<not> bit b 19"
  then show "b AND unblockable = 0"
    by (intro bit_word_eqI) (auto simp: unblockable_def bit_or_iff bit_and_iff bit_sigbit)
qed

lemmas mask_intros = masks_ok_upd_proc unblockable_masks

text \<open>The calls a process can make to change its handlers and masks.\<close>

inductive signal_call :: "'z kproc_scheme \<Rightarrow> 'z kproc_scheme \<Rightarrow> bool" where
  call_set_handler: "signal_call s (snd (signal_set_handler signum h s))"
| call_set_action: "signal_call s (snd (snd (signal_set_action signum act b s)))"
| call_block: "signal_call s (snd (signal_block m s))"
| call_unblock: "signal_call s (snd (signal_unblock m s))"
| call_set_mask: "signal_call s (snd (snd (signal_set_mask m b s)))"
| call_proc_mask: "signal_call s (snd (snd (signal_proc_mask how st b s)))"

lemma signal_call_masks_ok: "signal_call s s' \<Longrightarrow> masks_ok s \<Longrightarrow> masks_ok s'"
proof (induction rule: signal_call.induct)
  case (call_set_handler s signum h)
  then show ?case by (auto simp: signal_set_handler_def set_action_other intro!: mask_intros split: option.split)
next
  case (call_set_action s signum act b)
  then show ?case by (auto simp: signal_set_action_def set_action_other intro!: mask_intros split: option.split)
next
  case (call_proc_mask s how st b)
  then show ?case by (auto simp: signal_proc_mask_def Let_def intro!: mask_intros split: option.split)
qed (auto simp: signal_block_def signal_unblock_def signal_set_mask_def Let_def
      intro!: mask_intros split: option.split)

section \<open>Properties\<close>

text \<open>C26: No sequence of calls of \<open>signal_set_handler\<close>, \<open>signal_set_action\<close>, \<open>signal_block\<close>,
  \<open>signal_unblock\<close>, \<open>signal_set_mask\<close> and \<open>signal_proc_mask\<close>, with any arguments, lets a process block
  \<open>SIGKILL\<close> or \<open>SIGSTOP\<close> or install a handler for them.\<close>

theorem signals_unblockable:
  assumes "masks_ok s" "signal_call\<^sup>*\<^sup>* s s'"
  shows "\<forall>p \<in> set (processes s'). \<not> bit (p_blocked_signals p) 9 \<and> \<not> bit (p_blocked_signals p) 19 \<and>
    sa_handler (p_signal_actions p ! 9) = SIG_DFL \<and> sa_handler (p_signal_actions p ! 19) = SIG_DFL"
proof -
  have "masks_ok s'"
    using assms(2,1) by (induction rule: rtranclp_induct) (auto intro: signal_call_masks_ok)
  then show ?thesis by (auto simp: masks_ok_def unblockable_bits)
qed

theorem signals_unblockable_witness:
  "\<not> bit (p_blocked_signals (proc (snd (signal_block 0xFFFFFFFF sample_kproc)) 0)) 9 \<and>
   sa_handler (p_signal_actions (proc (snd (signal_block 0xFFFFFFFF sample_kproc)) 0) ! 9) = SIG_DFL"
proof -
  let ?s = "snd (signal_block 0xFFFFFFFF sample_kproc)"
  have "masks_ok sample_kproc"
    by (auto simp: masks_ok_def sample_kproc_def zero_process_def default_action_def)
  from signals_unblockable [OF this r_into_rtranclp [of signal_call, OF call_block]]
  have "\<forall>p \<in> set (processes ?s). \<not> bit (p_blocked_signals p) 9 \<and> sa_handler (p_signal_actions p ! 9) = SIG_DFL"
    by blast
  moreover have "proc ?s 0 \<in> set (processes ?s)"
    using kernel_invD(1) [OF sample_kernel_inv]
    by (intro nth_mem) (simp add: signal_block_def Let_def del: length_greater_0_conv split: option.split)
  ultimately show ?thesis by blast
qed

text \<open>What \<open>signal_proc_mask\<close> does to the mask of the current process, signal by signal: \<open>how\<close> 0 adds the
  given set, 1 removes it, 2 replaces the mask by it, always without the two unblockable signals;
  any other \<open>how\<close> is an error and changes nothing. The old mask is handed back in every case.\<close>

theorem signal_proc_mask_bits:
  assumes "get_current_process s = Some c" "c < length (processes s)" "k < 64"
  defines "old \<equiv> p_blocked_signals (proc s c)"
  shows "case signal_proc_mask how (Some m) True s of (r, out, s') \<Rightarrow>
    out = Some old \<and> r = (if how \<in> {0, 1, 2} then 0 else -1) \<and>
    (bit (p_blocked_signals (proc s' c)) k \<longleftrightarrow>
      (if how = 0 then bit old k \<or> bit m k \<and> k \<notin> {9, 19}
       else if how = 1 then bit old k \<and> (\<not> bit m k \<or> k \<in> {9, 19})
       else if how = 2 then bit m k \<and> k \<notin> {9, 19}
       else bit old k))"
  using assms(1-3)
  by (auto simp: signal_proc_mask_def Let_def proc_upd_proc bit_simps old_def unblockable_def bit_sigbit)

theorem signal_proc_mask_bits_witness:
  "case signal_proc_mask 2 (Some 0xFFFFFFFF) True sample_kproc of (r, out, s') \<Rightarrow>
    out = Some 0 \<and> r = 0 \<and> \<not> bit (p_blocked_signals (proc s' 0)) 9"
  using signal_proc_mask_bits [of sample_kproc 0 9 2 "0xFFFFFFFF"]
  by (auto simp: get_current_process_def sample_kproc_def zero_process_def boot_kproc_def init_processes_def)

end
