(* ===== verification/Timer.thy ===== *)
theory Timer
  imports Scheduling Idt
begin

text \<open>
  The programmable interval timer of \<open>timer.c\<close>. The kernel state grows by the interrupt table, the
  bytes written to I/O ports in the order they were written, and the statics of \<open>timer.c\<close>. The
  callback is a code address, and \<open>CB\<close> is the effect of calling it with the tick. A \<open>hlt\<close> waits for an
  interrupt: \<open>tick\<close> is the effect of the interrupts that end it. \<^const>\<open>None\<close> is the result where the
  processor faults, where a called function does, and where a wait does not end.
\<close>

abbreviation PIT_DATA_PORT0 :: u16 where "PIT_DATA_PORT0 \<equiv> 0x40"
abbreviation PIT_COMMAND_PORT :: u16 where "PIT_COMMAND_PORT \<equiv> 0x43"
abbreviation PIT_BASE_FREQ :: u32 where "PIT_BASE_FREQ \<equiv> 1193182"
abbreviation IRQ0 :: u8 where "IRQ0 \<equiv> 32"

record kdev = kproc +
  kidt :: idt
  ports :: "(u16 \<times> u8) list"
  timer_frequency :: u32
  timer_callback :: u64

definition outb :: "u16 \<Rightarrow> u8 \<Rightarrow> 'z kdev_scheme \<Rightarrow> 'z kdev_scheme" where
  "outb port v s = s\<lparr>ports := ports s @ [(port, v)]\<rparr>"

definition timer_init :: "u64 \<Rightarrow> u32 \<Rightarrow> 'z kdev_scheme \<Rightarrow> 'z kdev_scheme" where
  "timer_init handler_addr frequency0 s =
     (let f1 = (if frequency0 < 1 then 1 else frequency0);
          frequency = (if f1 > 1193 then 1193 else f1);
          s1 = s\<lparr>timer_frequency := frequency\<rparr>;
          divisor = PIT_BASE_FREQ div frequency;
          s2 = outb PIT_COMMAND_PORT (0x00 OR 0x30 OR 0x06 OR 0x00) s1;
          s3 = outb PIT_DATA_PORT0 (ucast (divisor AND 0xFF)) s2;
          s4 = outb PIT_DATA_PORT0 (ucast (drop_bit 8 divisor AND 0xFF)) s3;
          s5 = s4\<lparr>kidt := register_interrupt_handler IRQ0 handler_addr (kidt s4)\<rparr>;
          s6 = s5\<lparr>timer_ticks := 0\<rparr>
      in kprint ('' Hz'' @ [NL]) (kprint (int_to_string (uint frequency))
           (kprint ''PIT zamanlayicisi baslatildi: '' s6)))"

text \<open>The loop over \<open>get_process(i)\<close> for \<open>i < MAX_PROCESSES\<close>: the index is used as a pid.\<close>

definition wake_pid :: "nat \<Rightarrow> 'z kproc_scheme \<Rightarrow> 'z kproc_scheme" where
  "wake_pid i s =
     (case get_process (of_nat i) s of
        None \<Rightarrow> s
      | Some j \<Rightarrow>
          if p_state (proc s j) = PROCESS_STATE_SLEEPING \<and> timer_ticks s \<ge> p_sleep_until (proc s j)
          then upd_proc j (\<lambda>p. p\<lparr>p_state := PROCESS_STATE_READY\<rparr>) s else s)"

definition wake_sleepers :: "'z kproc_scheme \<Rightarrow> 'z kproc_scheme" where
  "wake_sleepers s = fold wake_pid [0..<MAX_PROCESSES] s"

definition timer_handler ::
  "'z kdev_scheme handler \<Rightarrow> (u64 \<Rightarrow> u64 \<Rightarrow> 'z kdev_scheme \<Rightarrow> 'z kdev_scheme option) \<Rightarrow> nat \<Rightarrow>
    'z kdev_scheme \<Rightarrow> 'z kdev_scheme option" where
  "timer_handler H CB n s =
     (let s1 = s\<lparr>timer_ticks := timer_ticks s + 1\<rparr>
      in do { s2 \<leftarrow> (if timer_callback s1 \<noteq> 0 then CB (timer_callback s1) (timer_ticks s1) s1 else Some s1);
              let s3 = wake_sleepers s2;
              if timer_frequency s3 div 100 = 0 then None
              else if timer_ticks s3 mod ucast (timer_frequency s3 div 100) = 0 then schedule H n s3
              else Some s3 })"

definition timer_register_callback :: "u64 \<Rightarrow> 'z kdev_scheme \<Rightarrow> 'z kdev_scheme" where
  "timer_register_callback callback s = s\<lparr>timer_callback := callback\<rparr>"

definition timer_get_ticks :: "'z kproc_scheme \<Rightarrow> u64" where
  "timer_get_ticks s = timer_ticks s"

partial_function (option) timer_wait ::
  "('z kdev_scheme \<Rightarrow> 'z kdev_scheme option) \<Rightarrow> u64 \<Rightarrow> 'z kdev_scheme \<Rightarrow> 'z kdev_scheme option" where
  "timer_wait tick target_ticks s =
     (if timer_ticks s < target_ticks
      then do { s' \<leftarrow> tick s; timer_wait tick target_ticks s' }
      else Some s)"

text \<open>The product of frequency and milliseconds is a 32-bit product and wraps.\<close>

definition ms_to_ticks :: "u32 \<Rightarrow> 'z kdev_scheme \<Rightarrow> u64" where
  "ms_to_ticks ms s = ucast ((timer_frequency s * ms) div 1000)"

definition timer_sleep ::
  "('z kdev_scheme \<Rightarrow> 'z kdev_scheme option) \<Rightarrow> u32 \<Rightarrow> 'z kdev_scheme \<Rightarrow> 'z kdev_scheme option" where
  "timer_sleep tick ms s =
     (let ticks0 = ms_to_ticks ms s; ticks = (if ticks0 = 0 then 1 else ticks0)
      in timer_wait tick (timer_ticks s + ticks) s)"

definition process_sleep ::
  "'z kdev_scheme handler \<Rightarrow> nat \<Rightarrow> ('z kdev_scheme \<Rightarrow> 'z kdev_scheme option) \<Rightarrow> u32 \<Rightarrow>
    'z kdev_scheme \<Rightarrow> 'z kdev_scheme option" where
  "process_sleep H n tick ms s =
     (case get_current_process s of
        Some c \<Rightarrow>
          if p_pid (proc s c) \<noteq> 0
          then schedule H n (upd_proc c (\<lambda>p. p\<lparr>p_sleep_until := timer_ticks s + ms_to_ticks ms s,
                 p_state := PROCESS_STATE_SLEEPING\<rparr>) s)
          else timer_sleep tick ms s
      | None \<Rightarrow> timer_sleep tick ms s)"

section \<open>Waking\<close>

lemma wake_pid_frame:
  "length (processes (wake_pid i s)) = length (processes s)" "timer_ticks (wake_pid i s) = timer_ticks s"
  "current_process_index (wake_pid i s) = current_process_index s" "kproc.more (wake_pid i s) = kproc.more s"
  "get_process pid (wake_pid i s) = get_process pid s"
  by (auto simp: wake_pid_def get_process_upd_proc split: option.split)

lemma kernel_inv_wake_pid: "kernel_inv s \<Longrightarrow> kernel_inv (wake_pid i s)"
  by (auto simp: wake_pid_def benign_def intro!: kernel_inv_upd_proc split: option.split)

definition awake :: "u64 \<Rightarrow> process \<Rightarrow> process" where
  "awake now p = (if p_state p = PROCESS_STATE_SLEEPING \<and> p_sleep_until p \<le> now
     then p\<lparr>p_state := PROCESS_STATE_READY\<rparr> else p)"

lemma awake_idem [simp]: "awake now (awake now p) = awake now p"
  by (simp add: awake_def)

lemma awake_pid [simp]: "p_pid (awake now p) = p_pid p"
  by (simp add: awake_def)

lemma wake_pid_proc:
  assumes "kernel_inv s" "j < MAX_PROCESSES" "p_pid (proc s j) \<noteq> 0" "i < MAX_PROCESSES"
  shows "proc (wake_pid i s) j = (if p_pid (proc s j) = of_nat i then awake (timer_ticks s) (proc s j) else proc s j)"
proof (cases "get_process (of_nat i) s")
  case None
  then have "p_pid (proc s j) \<noteq> of_nat i"
    using assms(2) kernel_invD(1) [OF assms(1)] by (auto simp: get_process_def find_index_None)
  with None show ?thesis by (simp add: wake_pid_def)
next
  case (Some k)
  note len = kernel_invD(1) [OF assms(1)]
  have k: "k < MAX_PROCESSES" "p_pid (proc s k) = of_nat i" using get_process_Some [OF Some] len by auto
  have "p_pid (proc s j) = of_nat i \<longleftrightarrow> k = j"
    using k get_process_slot [OF assms(1-3)] Some by auto
  with Some len k(1) assms(2) show ?thesis
    by (auto simp: wake_pid_def proc_upd_proc awake_def)
qed

lemma wake_sleepers_ok:
  assumes "kernel_inv s"
  shows "kernel_inv (wake_sleepers s)" "timer_ticks (wake_sleepers s) = timer_ticks s"
    "current_process_index (wake_sleepers s) = current_process_index s"
    "kproc.more (wake_sleepers s) = kproc.more s"
proof -
  have "kernel_inv (fold wake_pid is s) \<and> timer_ticks (fold wake_pid is s) = timer_ticks s \<and>
      current_process_index (fold wake_pid is s) = current_process_index s \<and>
      kproc.more (fold wake_pid is s) = kproc.more s" for "is"
    using assms by (induction "is" arbitrary: s) (simp_all add: kernel_inv_wake_pid wake_pid_frame)
  then show "kernel_inv (wake_sleepers s)" "timer_ticks (wake_sleepers s) = timer_ticks s"
    "current_process_index (wake_sleepers s) = current_process_index s"
    "kproc.more (wake_sleepers s) = kproc.more s" by (simp_all add: wake_sleepers_def)
qed

lemma wake_fold_proc:
  assumes "kernel_inv s" "j < MAX_PROCESSES" "p_pid (proc s j) \<noteq> 0" "set is \<subseteq> {..<MAX_PROCESSES}"
  shows "proc (fold wake_pid is s) j =
    (if p_pid (proc s j) \<in> of_nat ` set is then awake (timer_ticks s) (proc s j) else proc s j)"
  using assms
proof (induction "is" arbitrary: s)
  case (Cons i "is")
  note step = wake_pid_proc [OF Cons.prems(1-3), of i]
  have "kernel_inv (wake_pid i s)" using Cons.prems(1) by (rule kernel_inv_wake_pid)
  moreover have "p_pid (proc (wake_pid i s) j) = p_pid (proc s j)" using step Cons.prems(4) by simp
  ultimately show ?case
    using Cons.IH [of "wake_pid i s"] Cons.prems step by (auto simp: wake_pid_frame)
qed simp

section \<open>Ticks\<close>

lemma kdev_more:
  assumes "kproc.more s' = kproc.more s"
  shows "kidt s' = kidt s" "ports s' = ports s" "timer_frequency s' = timer_frequency s"
    "timer_callback s' = timer_callback s" "kdev.more s' = kdev.more s"
  using assms by (cases s; cases s'; simp)+

lemma kernel_inv_ticks [simp]: "kernel_inv (s\<lparr>timer_ticks := t\<rparr>) = kernel_inv s"
  by (simp add: kernel_inv_def table_ok_def stacks_ok_def)

lemma timer_handler_step:
  assumes H: "handler_ok H" "quiet_handler H" and inv: "kernel_inv s" and n: "129 \<le> n"
    and f: "100 \<le> timer_frequency s" and cb: "timer_callback s = 0"
  obtains s' where "timer_handler H CB n s = Some s'" "kernel_inv s'" "timer_ticks s' = timer_ticks s + 1"
    "kproc.more s' = kproc.more s"
proof -
  let ?s1 = "s\<lparr>timer_ticks := timer_ticks s + 1\<rparr>"
  have inv1: "kernel_inv ?s1" using inv by simp
  note w = wake_sleepers_ok [OF inv1]
  have rest: "timer_frequency (wake_sleepers ?s1) = timer_frequency s" "timer_callback ?s1 = 0"
    using kdev_more(3) [OF w(4)] cb by simp_all
  have "timer_frequency s div 100 \<noteq> 0"
    using f by (simp add: div_eq_0_iff word_le_nat_alt unat_div unsigned_eq_0_iff [where 'a = nat, symmetric])
  then have code: "timer_handler H CB n s =
      (if timer_ticks (wake_sleepers ?s1) mod ucast (timer_frequency s div 100) = 0
       then schedule H n (wake_sleepers ?s1) else Some (wake_sleepers ?s1))"
    using rest cb by (simp add: timer_handler_def Let_def)
  obtain s2 where s2: "schedule H n (wake_sleepers ?s1) = Some s2" "survives (wake_sleepers ?s1) s2"
    by (rule schedule_total [OF H w(1), of n]) (use n in simp)
  show thesis
  proof (cases "timer_ticks (wake_sleepers ?s1) mod ucast (timer_frequency s div 100) = 0")
    case True
    with code s2(1) have "timer_handler H CB n s = Some s2" by simp
    with s2(2) w that [of s2] show thesis by (simp add: survives_def same_rest_def)
  next
    case False
    with code w that [of "wake_sleepers ?s1"] show thesis by simp
  qed
qed

lemma unat_u64_add1: "(w :: u64) < v \<Longrightarrow> unat (w + 1) = unat w + 1"
proof -
  assume "w < v"
  then have "unat w + 1 < 2 ^ 64" using unsigned_less [of v, where 'a = nat] by (simp add: word_less_nat_alt)
  then show ?thesis by (simp add: unat_word_ariths)
qed

lemma timer_wait_reaches:
  assumes H: "handler_ok H" "quiet_handler H" and n: "129 \<le> n"
    and "kernel_inv s" "100 \<le> timer_frequency s" "timer_callback s = 0" "timer_ticks s \<le> target"
  shows "\<exists>s'. timer_wait (timer_handler H CB n) target s = Some s' \<and> kernel_inv s' \<and> timer_ticks s' = target"
  using assms(4-7)
proof (induction "unat target - unat (timer_ticks s)" arbitrary: s rule: less_induct)
  case less
  show ?case
  proof (cases "timer_ticks s < target")
    case True
    obtain t where t: "timer_handler H CB n s = Some t" "kernel_inv t" "timer_ticks t = timer_ticks s + 1"
      "kproc.more t = kproc.more s"
      using timer_handler_step [OF H less.prems(1) n less.prems(2,3)] .
    have u: "unat (timer_ticks t) = unat (timer_ticks s) + 1" using unat_u64_add1 [OF True] t(3) by simp
    have "unat target - unat (timer_ticks t) < unat target - unat (timer_ticks s)" "timer_ticks t \<le> target"
      using True u by (simp_all add: word_less_nat_alt word_le_nat_alt)
    from less.hyps [OF this(1) t(2) _ _ this(2)] kdev_more(3,4) [OF t(4)] less.prems(2,3)
    obtain s' where "timer_wait (timer_handler H CB n) target t = Some s'" "kernel_inv s'" "timer_ticks s' = target"
      by auto
    with True t(1) show ?thesis by (subst timer_wait.simps) simp
  next
    case False
    with less.prems show ?thesis by (subst timer_wait.simps) auto
  qed
qed

text \<open>A concrete state: the two sample processes, the timer at 1000 Hz.\<close>

lemma kernel_inv_extend: "kernel_inv (kproc.extend s e) = kernel_inv s"
  by (simp add: kernel_inv_def table_ok_def stacks_ok_def kproc.defs)

definition sample_kdev :: kdev where
  "sample_kdev = kproc.extend sample_kproc
     \<lparr>kidt = sample_idt, ports = [], timer_frequency = 1000, timer_callback = 0\<rparr>"

lemma sample_kdev:
  "kernel_inv sample_kdev" "timer_frequency sample_kdev = 1000" "timer_callback sample_kdev = 0"
  "timer_ticks sample_kdev = 0"
  using sample_kernel_inv unfolding sample_kdev_def
  by (simp_all add: kernel_inv_extend) (simp_all add: kproc.defs sample_kproc_def boot_kproc_def init_processes_def)

lemma byte_split: "unat (ucast (d AND 0xFF) :: u8) + 256 * unat (ucast (drop_bit 8 d AND 0xFF) :: u8) =
    unat (d :: u32) mod 65536"
proof -
  have m: "(0xFF :: u32) = mask 8" by (simp add: mask_eq_exp_minus_1)
  have "unat (ucast (w AND 0xFF) :: u8) = unat w mod 256" for w :: u32
    unfolding m by (simp add: take_bit_eq_mask [symmetric] unsigned_ucast_eq unsigned_take_bit_eq take_bit_eq_mod unat_mod)
  then show ?thesis
    using mod_mult2_eq [of "unat d" 256 256] by (simp add: drop_bit_eq_div unat_div)
qed

section \<open>Properties\<close>

text \<open>A timer tick wakes a sleeping process exactly when its wake-up time has come, and changes no other
  process: but it looks processes up by pids 0 to 63, so a process with a pid of 64 or more sleeps on
  for ever.\<close>

theorem wake_sleepers_exact:
  assumes "kernel_inv s" "j < MAX_PROCESSES" "p_pid (proc s j) \<noteq> 0"
  shows "proc (wake_sleepers s) j =
    (if p_pid (proc s j) < 64 \<and> p_state (proc s j) = PROCESS_STATE_SLEEPING \<and> p_sleep_until (proc s j) \<le> timer_ticks s
     then proc s j\<lparr>p_state := PROCESS_STATE_READY\<rparr> else proc s j)"
proof -
  have "set [0..<MAX_PROCESSES] \<subseteq> {..<MAX_PROCESSES}" by (simp only: set_upt) auto
  note fold = wake_fold_proc [OF assms this]
  have "p_pid (proc s j) \<in> of_nat ` set [0..<MAX_PROCESSES] \<longleftrightarrow> p_pid (proc s j) < 64"
  proof
    assume "p_pid (proc s j) \<in> of_nat ` set [0..<MAX_PROCESSES]"
    then obtain k where "p_pid (proc s j) = of_nat k" "k < 64" by (auto simp only: set_upt atLeastLessThan_iff)
    then show "p_pid (proc s j) < 64" by (simp add: word_less_nat_alt unsigned_of_nat take_bit_nat_eq_self)
  next
    assume "p_pid (proc s j) < 64"
    then have "unat (p_pid (proc s j)) < 64" by (simp add: word_less_nat_alt)
    then have "p_pid (proc s j) = of_nat (unat (p_pid (proc s j)))" "unat (p_pid (proc s j)) \<in> set [0..<MAX_PROCESSES]"
      by (simp_all only: set_upt) simp_all
    then show "p_pid (proc s j) \<in> of_nat ` set [0..<MAX_PROCESSES]" by blast
  qed
  with fold show ?thesis unfolding wake_sleepers_def by (auto simp: awake_def)
qed

theorem wake_sleepers_exact_witness:
  "p_state (proc (wake_sleepers (upd_proc 1 (\<lambda>p. p\<lparr>p_state := PROCESS_STATE_SLEEPING\<rparr>) sample_kproc)) 1) =
    PROCESS_STATE_READY"
proof -
  let ?s = "upd_proc 1 (\<lambda>p. p\<lparr>p_state := PROCESS_STATE_SLEEPING\<rparr>) sample_kproc"
  have inv: "kernel_inv ?s" by (rule kernel_inv_upd_proc [OF sample_kernel_inv]) (simp add: benign_def)
  have p: "proc ?s 1 = zero_process\<lparr>p_pid := 2, p_parent_pid := 1, p_state := PROCESS_STATE_SLEEPING\<rparr>"
    using sample_slot(2) kernel_invD(1) [OF sample_kernel_inv] by (simp add: proc_upd_proc)
  show ?thesis
    using wake_sleepers_exact [OF inv, of 1, unfolded p] by (simp add: zero_process_def)
qed

text \<open>The timer interrupt handler faults exactly when the frequency is below 100 Hz: \<open>timer_frequency / 100\<close>
  is then 0 and the remainder divides by it, although \<open>timer_init\<close> accepts frequencies from 1 Hz. From
  100 Hz on it returns, advances the clock by one and keeps the process table well-formed.\<close>

theorem timer_handler_faults:
  assumes "handler_ok H" "quiet_handler H" "kernel_inv s" "129 \<le> n" "timer_callback s = 0"
  shows "if timer_frequency s < 100 then timer_handler H CB n s = None
    else \<exists>s'. timer_handler H CB n s = Some s' \<and> kernel_inv s' \<and> timer_ticks s' = timer_ticks s + 1"
proof (cases "timer_frequency s < 100")
  case True
  let ?s1 = "s\<lparr>timer_ticks := timer_ticks s + 1\<rparr>"
  have "timer_frequency (wake_sleepers ?s1) = timer_frequency s"
    using kdev_more(3) [OF wake_sleepers_ok(4), of ?s1] assms(3) by simp
  moreover have "timer_frequency s div 100 = 0"
    using True by (simp add: word_less_nat_alt unsigned_eq_0_iff [where 'a = nat, symmetric] unat_div)
  ultimately show ?thesis using True assms(5) by (simp add: timer_handler_def Let_def)
next
  case False
  then have "100 \<le> timer_frequency s" by simp
  from timer_handler_step [OF assms(1-4) this assms(5)] False show ?thesis by metis
qed

theorem timer_handler_faults_witness:
  "timer_handler (\<lambda>_ _. Some) (\<lambda>_ _. Some) 129 (sample_kdev\<lparr>timer_frequency := 18\<rparr>) = None"
proof -
  have inv: "kernel_inv (sample_kdev\<lparr>timer_frequency := 18\<rparr>)"
    using sample_kdev(1) by (simp add: kernel_inv_def table_ok_def stacks_ok_def)
  show ?thesis
    using timer_handler_faults [OF no_handlers inv order_refl, of "\<lambda>_ _. Some"] sample_kdev(3) by simp
qed

text \<open>\<open>timer_sleep\<close> returns when the timer ticks: it waits for exactly \<open>frequency * ms / 1000\<close> ticks, at
  least one, where the product is taken modulo \<open>2 ^ 32\<close>.\<close>

theorem timer_sleep_ticks:
  assumes "handler_ok H" "quiet_handler H" "129 \<le> n" "kernel_inv s" "100 \<le> timer_frequency s"
    "timer_callback s = 0" "unat (timer_ticks s) + 2 ^ 32 < 2 ^ 64"
  shows "\<exists>s'. timer_sleep (timer_handler H CB n) ms s = Some s' \<and> kernel_inv s' \<and>
    unat (timer_ticks s') = unat (timer_ticks s) +
      max 1 (unat (timer_frequency s) * unat ms mod 2 ^ 32 div 1000)"
proof -
  define k where "k = unat (timer_frequency s) * unat ms mod 2 ^ 32 div 1000"
  have k: "unat (ms_to_ticks ms s) = k" "k < 2 ^ 32"
  proof -
    have "unat ((timer_frequency s * ms) div 1000) = k"
      by (simp add: k_def unat_div unat_word_ariths)
    then show "k < 2 ^ 32" using unsigned_less [of "(timer_frequency s * ms) div 1000", where 'a = nat] by simp
    with \<open>unat _ = k\<close> show "unat (ms_to_ticks ms s) = k"
      by (simp add: ms_to_ticks_def unsigned_ucast_eq take_bit_nat_eq_self)
  qed
  let ?t = "if ms_to_ticks ms s = 0 then 1 else ms_to_ticks ms s"
  have t: "unat ?t = max 1 k"
    using k(1) by (auto simp: unsigned_eq_0_iff [where 'a = nat, symmetric] max_def)
  have sum: "unat (timer_ticks s + ?t) = unat (timer_ticks s) + max 1 k"
    using assms(7) k(2) t by (simp add: unat_word_ariths max_def)
  have "timer_ticks s \<le> timer_ticks s + ?t" by (simp only: word_le_nat_alt sum)
  from timer_wait_reaches [OF assms(1-6) this]
  show ?thesis unfolding timer_sleep_def Let_def k_def [symmetric] using sum by metis
qed

theorem timer_sleep_ticks_witness:
  "\<exists>s'. timer_sleep (timer_handler (\<lambda>_ _. Some) (\<lambda>_ _. Some) 129) 5 sample_kdev = Some s' \<and> kernel_inv s' \<and>
    unat (timer_ticks s') = 5"
  using timer_sleep_ticks [OF no_handlers order_refl sample_kdev(1), of "\<lambda>_ _. Some" 5]
  by (simp add: sample_kdev(2-4))

text \<open>\<open>timer_init\<close> clamps the frequency to 1..1193 Hz and sends the two bytes of the divisor, low byte
  first. They are the divisor exactly from 19 Hz on; below, the divisor has more than 16 bits and its
  high bits are lost, so the timer runs at another rate than the one reported.\<close>

theorem timer_init_divisor:
  defines "freq \<equiv> \<lambda>f. max 1 (min 1193 (unat (f :: u32)))"
  shows "unat (timer_frequency (timer_init h f s)) = freq f \<and>
    (\<exists>lo hi. ports (timer_init h f s) =
       ports s @ [(PIT_COMMAND_PORT, 0x36), (PIT_DATA_PORT0, lo), (PIT_DATA_PORT0, hi)] \<and>
       (unat lo + 256 * unat hi = 1193182 div freq f \<longleftrightarrow> 19 \<le> freq f))"
proof -
  define g where "g = timer_frequency (timer_init h f s)"
  have g: "unat g = freq f"
    by (auto simp: g_def freq_def timer_init_def Let_def outb_def kprint_def word_less_nat_alt max_def min_def)
  let ?d = "PIT_BASE_FREQ div g"
  let ?lo = "ucast (?d AND 0xFF) :: u8" and ?hi = "ucast (drop_bit 8 ?d AND 0xFF) :: u8"
  have "ports (timer_init h f s) = ports s @ [(PIT_COMMAND_PORT, 0x36), (PIT_DATA_PORT0, ?lo), (PIT_DATA_PORT0, ?hi)]"
    by (simp add: g_def timer_init_def Let_def outb_def kprint_def)
  moreover have "unat ?lo + 256 * unat ?hi = 1193182 div freq f mod 65536"
    using byte_split [of ?d] g by (simp add: unat_div)
  moreover have "1193182 div freq f mod 65536 = 1193182 div freq f \<longleftrightarrow> 19 \<le> freq f"
  proof
    assume "1193182 div freq f mod 65536 = 1193182 div freq f"
    then have "1193182 div freq f < 65536" by (metis mod_less_divisor zero_less_numeral)
    then show "19 \<le> freq f" using div_le_mono2 [of "freq f" 18 1193182] by (fastforce simp: freq_def)
  next
    assume "19 \<le> freq f"
    then have "1193182 div freq f \<le> 1193182 div 19" by (intro div_le_mono2) simp_all
    then show "1193182 div freq f mod 65536 = 1193182 div freq f" by simp
  qed
  ultimately show ?thesis using g g_def by metis
qed

end
