(* ===== verification/Ring.thy ===== *)
theory Ring
  imports Prelude
begin

text \<open>
  The interface the kernel's two ring buffers share (the pipe buffer and the keyboard buffer): what
  is put in comes out in the same order, as long as the writer respects the capacity. The client
  lemmas are about arbitrary interleavings of writes and reads.
\<close>

section \<open>Contents of a ring\<close>

text \<open>The \<open>n\<close> elements from position \<open>start\<close> on, cyclically.\<close>

definition ring_slice :: "'a list \<Rightarrow> nat \<Rightarrow> nat \<Rightarrow> 'a list" where
  "ring_slice xs start n = map (\<lambda>i. xs ! ((start + i) mod length xs)) [0..<n]"

lemma length_ring_slice [simp]: "length (ring_slice xs start n) = n"
  by (simp add: ring_slice_def)

lemma ring_slice_0 [simp]: "ring_slice xs start 0 = []"
  by (simp add: ring_slice_def)

lemma ring_slice_snoc: "ring_slice xs start (Suc n) = ring_slice xs start n @ [xs ! ((start + n) mod length xs)]"
  by (simp add: ring_slice_def)

lemma ring_slice_Cons:
  "ring_slice xs start (Suc n) = xs ! (start mod length xs) # ring_slice xs ((start + 1) mod length xs) n"
proof -
  have "((start + 1) mod length xs + i) mod length xs = (start + Suc i) mod length xs" for i
    by (metis add.assoc mod_add_left_eq plus_1_eq_Suc)
  then show ?thesis unfolding ring_slice_def upt_Suc_Cons by (simp add: comp_def)
qed

text \<open>Writing the slot behind the last element does not change the elements.\<close>

lemma ring_slice_update:
  assumes "n < length xs"
  shows "ring_slice (xs[(start + n) mod length xs := y]) start n = ring_slice xs start n"
proof -
  have "(start + n) mod length xs \<noteq> (start + i) mod length xs" if "i < n" for i
    using that assms mod_add_inj [of n "length xs" i start] by auto
  then show ?thesis by (auto simp: ring_slice_def)
qed

lemma ring_slice_put:
  assumes "n < length xs" "pos = (start + n) mod length xs"
  shows "ring_slice (xs[pos := y]) start (Suc n) = ring_slice xs start n @ [y]"
proof -
  have "pos < length xs" using assms by (metis mod_less_divisor not_less_zero not_gr_zero)
  then show ?thesis using assms ring_slice_update [OF assms(1)] by (simp add: ring_slice_snoc)
qed

lemma take_ring_slice: "n \<le> m \<Longrightarrow> take n (ring_slice xs start m) = ring_slice xs start n"
  by (simp add: ring_slice_def take_map)

lemma drop_ring_slice:
  "n \<le> m \<Longrightarrow> drop n (ring_slice xs start m) = ring_slice xs ((start + n) mod length xs) (m - n)"
proof (rule nth_equalityI)
  fix i assume "n \<le> m" "i < length (drop n (ring_slice xs start m))"
  then have "n + i < m" "i < m - n" by simp_all
  then show "drop n (ring_slice xs start m) ! i = ring_slice xs ((start + n) mod length xs) (m - n) ! i"
    by (simp add: ring_slice_def mod_add_left_eq add.assoc)
qed simp

section \<open>The interface\<close>

datatype 'a ring_op = Put "'a list" | Get nat

locale ring =
  fixes invar :: "'q \<Rightarrow> bool" and contents :: "'q \<Rightarrow> 'a list" and capacity :: nat
    and put :: "'a list \<Rightarrow> 'q \<Rightarrow> 'q" and get :: "nat \<Rightarrow> 'q \<Rightarrow> 'a list \<times> 'q"
  assumes bounded: "invar q \<Longrightarrow> length (contents q) \<le> capacity"
    and put_invar: "invar q \<Longrightarrow> length (contents q) + length xs \<le> capacity \<Longrightarrow> invar (put xs q)"
    and put_contents: "invar q \<Longrightarrow> length (contents q) + length xs \<le> capacity \<Longrightarrow>
      contents (put xs q) = contents q @ xs"
    and get_data: "invar q \<Longrightarrow> n \<le> length (contents q) \<Longrightarrow> fst (get n q) = take n (contents q)"
    and get_invar: "invar q \<Longrightarrow> n \<le> length (contents q) \<Longrightarrow> invar (snd (get n q))"
    and get_contents: "invar q \<Longrightarrow> n \<le> length (contents q) \<Longrightarrow> contents (snd (get n q)) = drop n (contents q)"
begin

lemma put_get:
  "invar q \<Longrightarrow> contents q = [] \<Longrightarrow> length xs \<le> capacity \<Longrightarrow>
    fst (get (length xs) (put xs q)) = xs \<and> contents (snd (get (length xs) (put xs q))) = []"
  by (simp add: put_contents put_invar get_data get_contents)

text \<open>
  A run of writes and reads, with the data written and the data read; an operation that does not
  fit, or reads more than there is, is cut down to what is possible.
\<close>

fun run :: "'a ring_op list \<Rightarrow> 'q \<Rightarrow> 'a list \<times> 'a list \<times> 'q" where
  "run [] q = ([], [], q)"
| "run (Put xs # ops) q =
     (let ys = take (capacity - length (contents q)) xs; (i, out, q') = run ops (put ys q)
      in (ys @ i, out, q'))"
| "run (Get n # ops) q =
     (let (ys, q1) = get (min n (length (contents q))) q; (i, out, q') = run ops q1
      in (i, ys @ out, q'))"

lemma run_fifo:
  "invar q \<Longrightarrow> run ops q = (i, out, q') \<Longrightarrow> invar q' \<and> contents q @ i = out @ contents q'"
proof (induction ops arbitrary: q i out q')
  case Nil
  then show ?case by simp
next
  case (Cons opr ops)
  show ?case
  proof (cases opr)
    case (Put xs)
    let ?ys = "take (capacity - length (contents q)) xs"
    obtain i' where i': "run ops (put ?ys q) = (i', out, q')" "i = ?ys @ i'"
      using Cons.prems(2) Put by (auto simp: Let_def split: prod.splits)
    have room: "length (contents q) + length ?ys \<le> capacity" using bounded [OF Cons.prems(1)] by simp
    show ?thesis
      using Cons.IH [OF put_invar [OF Cons.prems(1) room] i'(1)] put_contents [OF Cons.prems(1) room] i'(2)
      by simp
  next
    case (Get n)
    let ?n = "min n (length (contents q))"
    obtain out' where o: "run ops (snd (get ?n q)) = (i, out', q')" "out = fst (get ?n q) @ out'"
      using Cons.prems(2) Get by (auto simp: Let_def split: prod.splits)
    have le: "?n \<le> length (contents q)" by simp
    show ?thesis
      using Cons.IH [OF get_invar [OF Cons.prems(1) le] o(1)] o(2)
      by (simp add: get_data [OF Cons.prems(1) le] get_contents [OF Cons.prems(1) le])
         (metis append_assoc append_take_drop_id)
  qed
qed

end

end
