(* ===== verification/Pipe.thy ===== *)
theory Pipe
  imports Timer Ring
begin

text \<open>
  Pipes (\<open>pipe.c\<close>): a table of 64 ring buffers of 4096 bytes. The kernel state grows by the table and
  the next id. A \<open>pipe_t*\<close> is the index of its slot. Sizes and positions are natural numbers: they
  stay below 4096, and a byte count below \<open>2 ^ 64\<close>. The waits are \<open>partial_function\<close>s, so that a wait
  that never ends is \<^const>\<open>None\<close>, as is a null pointer read through \<open>current\<close>.
\<close>

abbreviation PIPE_BUFFER_SIZE :: nat where "PIPE_BUFFER_SIZE \<equiv> 4096"
abbreviation MAX_PIPES :: nat where "MAX_PIPES \<equiv> 64"
abbreviation PIPE_FLAG_READABLE :: u64 where "PIPE_FLAG_READABLE \<equiv> 1"
abbreviation PIPE_FLAG_WRITABLE :: u64 where "PIPE_FLAG_WRITABLE \<equiv> 2"
abbreviation PIPE_FLAG_NONBLOCK :: u8 where "PIPE_FLAG_NONBLOCK \<equiv> 4"
abbreviation PIPE_SUCCESS :: int where "PIPE_SUCCESS \<equiv> 0"
abbreviation PIPE_ERROR_FULL :: int where "PIPE_ERROR_FULL \<equiv> -1"
abbreviation PIPE_ERROR_EMPTY :: int where "PIPE_ERROR_EMPTY \<equiv> -2"
abbreviation PIPE_ERROR_CLOSED :: int where "PIPE_ERROR_CLOSED \<equiv> -3"

record pipe =
  pipe_id :: u64
  pipe_buffer :: "u8 list"
  read_pos :: nat
  write_pos :: nat
  data_size :: nat
  pipe_flags :: u8
  reader_pid :: u64
  writer_pid :: u64
  reader_open :: u8
  writer_open :: u8

definition zero_pipe :: pipe where
  "zero_pipe = \<lparr>pipe_id = 0, pipe_buffer = replicate PIPE_BUFFER_SIZE 0, read_pos = 0, write_pos = 0,
     data_size = 0, pipe_flags = 0, reader_pid = 0, writer_pid = 0, reader_open = 0, writer_open = 0\<rparr>"

record kpipe = kdev +
  pipes :: "pipe list"
  next_pipe_id :: u64

abbreviation pipe_at :: "'z kpipe_scheme \<Rightarrow> nat \<Rightarrow> pipe" where
  "pipe_at s k \<equiv> pipes s ! k"

definition upd_pipe :: "nat \<Rightarrow> (pipe \<Rightarrow> pipe) \<Rightarrow> 'z kpipe_scheme \<Rightarrow> 'z kpipe_scheme" where
  "upd_pipe k f s = s\<lparr>pipes := upd_nth k f (pipes s)\<rparr>"

definition pipe_init :: "'z kpipe_scheme \<Rightarrow> int \<times> 'z kpipe_scheme" where
  "pipe_init s = (PIPE_SUCCESS,
     kprint (''Pipe yonetimi baslatildi.'' @ [NL]) (s\<lparr>pipes := replicate MAX_PIPES zero_pipe\<rparr>))"

text \<open>The two descriptors of the result are what is stored through \<open>read_fd\<close> and \<open>write_fd\<close>.\<close>

definition pipe_create :: "'z kpipe_scheme \<Rightarrow> int \<times> (u64 \<times> u64) option \<times> 'z kpipe_scheme" where
  "pipe_create s =
     (case find_index (\<lambda>p. pipe_id p = 0) (pipes s) of
        None \<Rightarrow> (PIPE_ERROR_FULL, None, s)
      | Some k \<Rightarrow>
          let s1 = s\<lparr>next_pipe_id := next_pipe_id s + 1\<rparr>;
              s2 = upd_pipe k (\<lambda>p. p\<lparr>pipe_id := next_pipe_id s, read_pos := 0, write_pos := 0, data_size := 0,
                     pipe_flags := 0, reader_open := 1, writer_open := 1\<rparr>) s1;
              s3 = (case get_current_process s2 of
                      None \<Rightarrow> s2
                    | Some c \<Rightarrow> upd_pipe k (\<lambda>p. p\<lparr>reader_pid := p_pid (proc s2 c), writer_pid := p_pid (proc s2 c)\<rparr>) s2)
          in (PIPE_SUCCESS,
              Some (push_bit 3 (pipe_id (pipe_at s3 k)) OR PIPE_FLAG_READABLE,
                    push_bit 3 (pipe_id (pipe_at s3 k)) OR PIPE_FLAG_WRITABLE), s3))"

definition pipe_get_by_fd :: "u64 \<Rightarrow> 'z kpipe_scheme \<Rightarrow> nat option" where
  "pipe_get_by_fd fd s = find_index (\<lambda>p. pipe_id p = drop_bit 3 fd) (pipes s)"

definition close_end :: "u64 \<Rightarrow> pipe \<Rightarrow> pipe" where
  "close_end fd p =
     (let p1 = (if fd AND PIPE_FLAG_READABLE \<noteq> 0 then p\<lparr>reader_open := 0\<rparr> else p);
          p2 = (if fd AND PIPE_FLAG_WRITABLE \<noteq> 0 then p1\<lparr>writer_open := 0\<rparr> else p1)
      in if reader_open p2 = 0 \<and> writer_open p2 = 0 then p2\<lparr>pipe_id := 0\<rparr> else p2)"

definition pipe_close :: "u64 \<Rightarrow> 'z kpipe_scheme \<Rightarrow> int \<times> 'z kpipe_scheme" where
  "pipe_close fd s =
     (case pipe_get_by_fd fd s of
        None \<Rightarrow> (PIPE_ERROR_CLOSED, s)
      | Some k \<Rightarrow> (PIPE_SUCCESS, upd_pipe k (close_end fd) s))"

text \<open>The copy loop of \<open>pipe_read\<close>, and of \<open>pipe_write\<close>; each is followed by one update of \<open>data_size\<close>.\<close>

fun read_loop :: "nat \<Rightarrow> pipe \<Rightarrow> u8 list \<times> pipe" where
  "read_loop 0 p = ([], p)"
| "read_loop (Suc n) p =
     (let b = pipe_buffer p ! read_pos p;
          (bs, p') = read_loop n (p\<lparr>read_pos := (read_pos p + 1) mod PIPE_BUFFER_SIZE\<rparr>)
      in (b # bs, p'))"

fun write_loop :: "u8 list \<Rightarrow> pipe \<Rightarrow> pipe" where
  "write_loop [] p = p"
| "write_loop (b # bs) p =
     write_loop bs (p\<lparr>pipe_buffer := (pipe_buffer p)[write_pos p := b],
                      write_pos := (write_pos p + 1) mod PIPE_BUFFER_SIZE\<rparr>)"

definition pipe_get :: "nat \<Rightarrow> pipe \<Rightarrow> u8 list \<times> pipe" where
  "pipe_get n p = (let (bs, p') = read_loop n p in (bs, p'\<lparr>data_size := data_size p' - n\<rparr>))"

definition pipe_put :: "u8 list \<Rightarrow> pipe \<Rightarrow> pipe" where
  "pipe_put bs p = (let p' = write_loop bs p in p'\<lparr>data_size := data_size p' + length bs\<rparr>)"

partial_function (option) pipe_read_wait ::
  "'z kpipe_scheme handler \<Rightarrow> nat \<Rightarrow> nat \<Rightarrow> nat \<Rightarrow> 'z kpipe_scheme \<Rightarrow> 'z kpipe_scheme option" where
  "pipe_read_wait H n k c s =
     (if data_size (pipe_at s k) = 0 \<and> writer_open (pipe_at s k) \<noteq> 0
      then do { s1 \<leftarrow> schedule H n (block_process (p_pid (proc s c)) s); pipe_read_wait H n k c s1 }
      else Some s)"

definition pipe_read_data :: "nat \<Rightarrow> nat \<Rightarrow> 'z kpipe_scheme \<Rightarrow> int \<times> u8 list \<times> 'z kpipe_scheme" where
  "pipe_read_data k cnt s =
     (let bytes_to_read = (if cnt < data_size (pipe_at s k) then cnt else data_size (pipe_at s k));
          (bs, p') = pipe_get bytes_to_read (pipe_at s k);
          s1 = upd_pipe k (\<lambda>_. p') s;
          s2 = (if writer_pid (pipe_at s1 k) \<noteq> 0 then unblock_process (writer_pid (pipe_at s1 k)) s1 else s1)
      in (int bytes_to_read, bs, s2))"

definition pipe_read ::
  "'z kpipe_scheme handler \<Rightarrow> nat \<Rightarrow> u64 \<Rightarrow> nat \<Rightarrow> 'z kpipe_scheme \<Rightarrow> (int \<times> u8 list \<times> 'z kpipe_scheme) option" where
  "pipe_read H n fd cnt s =
     (case pipe_get_by_fd fd s of
        None \<Rightarrow> Some (PIPE_ERROR_CLOSED, [], s)
      | Some k \<Rightarrow>
          if reader_open (pipe_at s k) = 0 \<or> fd AND PIPE_FLAG_READABLE = 0 then Some (PIPE_ERROR_CLOSED, [], s)
          else if data_size (pipe_at s k) = 0 then
            (if pipe_flags (pipe_at s k) AND PIPE_FLAG_NONBLOCK \<noteq> 0 then Some (PIPE_ERROR_EMPTY, [], s)
             else if writer_open (pipe_at s k) = 0 then Some (0, [], s)
             else do { c \<leftarrow> get_current_process s;
                       s1 \<leftarrow> pipe_read_wait H n k c s;
                       if data_size (pipe_at s1 k) = 0 then Some (0, [], s1)
                       else Some (pipe_read_data k cnt s1) })
          else Some (pipe_read_data k cnt s))"

definition pipe_write_chunk :: "nat \<Rightarrow> u8 list \<Rightarrow> nat \<Rightarrow> 'z kpipe_scheme \<Rightarrow> nat \<times> 'z kpipe_scheme" where
  "pipe_write_chunk k buf bytes_written s =
     (let space_available = PIPE_BUFFER_SIZE - data_size (pipe_at s k);
          bytes_to_write = (if length buf - bytes_written < space_available then length buf - bytes_written
                            else space_available);
          s1 = upd_pipe k (pipe_put (take bytes_to_write (drop bytes_written buf))) s;
          s2 = (if reader_pid (pipe_at s1 k) \<noteq> 0 then unblock_process (reader_pid (pipe_at s1 k)) s1 else s1)
      in (bytes_written + bytes_to_write, s2))"

partial_function (option) pipe_write_loop ::
  "'z kpipe_scheme handler \<Rightarrow> nat \<Rightarrow> nat \<Rightarrow> u8 list \<Rightarrow> nat \<Rightarrow> 'z kpipe_scheme \<Rightarrow> (int \<times> 'z kpipe_scheme) option" where
  "pipe_write_loop H n k buf bytes_written s =
     (if bytes_written < length buf then
        (if data_size (pipe_at s k) = PIPE_BUFFER_SIZE then
           (if pipe_flags (pipe_at s k) AND PIPE_FLAG_NONBLOCK \<noteq> 0
            then Some (if bytes_written > 0 then wrap32 (int bytes_written) else PIPE_ERROR_FULL, s)
            else do { c \<leftarrow> get_current_process s;
                      s1 \<leftarrow> schedule H n (block_process (p_pid (proc s c)) s);
                      if reader_open (pipe_at s1 k) = 0 then Some (PIPE_ERROR_CLOSED, s1)
                      else case pipe_write_chunk k buf bytes_written s1 of
                             (written, s2) \<Rightarrow> pipe_write_loop H n k buf written s2 })
         else case pipe_write_chunk k buf bytes_written s of
                (written, s2) \<Rightarrow> pipe_write_loop H n k buf written s2)
      else Some (wrap32 (int bytes_written), s))"

definition pipe_write ::
  "'z kpipe_scheme handler \<Rightarrow> nat \<Rightarrow> u64 \<Rightarrow> u8 list \<Rightarrow> 'z kpipe_scheme \<Rightarrow> (int \<times> 'z kpipe_scheme) option" where
  "pipe_write H n fd buf s =
     (case pipe_get_by_fd fd s of
        None \<Rightarrow> Some (PIPE_ERROR_CLOSED, s)
      | Some k \<Rightarrow>
          if writer_open (pipe_at s k) = 0 \<or> fd AND PIPE_FLAG_WRITABLE = 0 then Some (PIPE_ERROR_CLOSED, s)
          else if reader_open (pipe_at s k) = 0 then Some (PIPE_ERROR_CLOSED, s)
          else pipe_write_loop H n k buf 0 s)"

definition pipe_set_flags :: "u64 \<Rightarrow> u8 \<Rightarrow> 'z kpipe_scheme \<Rightarrow> int \<times> 'z kpipe_scheme" where
  "pipe_set_flags fd flags s =
     (case pipe_get_by_fd fd s of
        None \<Rightarrow> (PIPE_ERROR_CLOSED, s)
      | Some k \<Rightarrow>
          (PIPE_SUCCESS, upd_pipe k (\<lambda>p. p\<lparr>pipe_flags :=
             (pipe_flags p AND NOT PIPE_FLAG_NONBLOCK) OR (flags AND PIPE_FLAG_NONBLOCK)\<rparr>) s))"

section \<open>The ring buffer\<close>

definition pipe_ok :: "pipe \<Rightarrow> bool" where
  "pipe_ok p \<longleftrightarrow> length (pipe_buffer p) = PIPE_BUFFER_SIZE \<and> read_pos p < PIPE_BUFFER_SIZE \<and>
     data_size p \<le> PIPE_BUFFER_SIZE \<and> write_pos p = (read_pos p + data_size p) mod PIPE_BUFFER_SIZE"

definition pipe_contents :: "pipe \<Rightarrow> u8 list" where
  "pipe_contents p = ring_slice (pipe_buffer p) (read_pos p) (data_size p)"

lemma read_loop_slice:
  "length (pipe_buffer p) = PIPE_BUFFER_SIZE \<Longrightarrow> read_pos p < PIPE_BUFFER_SIZE \<Longrightarrow>
    read_loop n p = (ring_slice (pipe_buffer p) (read_pos p) n,
      p\<lparr>read_pos := (read_pos p + n) mod PIPE_BUFFER_SIZE\<rparr>)"
proof (induction n arbitrary: p)
  case (Suc n)
  let ?p = "p\<lparr>read_pos := (read_pos p + 1) mod PIPE_BUFFER_SIZE\<rparr>"
  have "((read_pos p + 1) mod PIPE_BUFFER_SIZE + n) mod PIPE_BUFFER_SIZE = (read_pos p + Suc n) mod PIPE_BUFFER_SIZE"
    by (metis add.assoc mod_add_left_eq plus_1_eq_Suc)
  with Suc.IH [of ?p] Suc.prems show ?case by (simp add: ring_slice_Cons)
qed simp

text \<open>The writing loop keeps the ring while there is room; \<open>m\<close> counts what is in it.\<close>

lemma write_loop_slice:
  assumes "length (pipe_buffer p) = PIPE_BUFFER_SIZE" "m + length bs \<le> PIPE_BUFFER_SIZE"
    "write_pos p = (start + m) mod PIPE_BUFFER_SIZE"
  shows "ring_slice (pipe_buffer (write_loop bs p)) start (m + length bs) = ring_slice (pipe_buffer p) start m @ bs \<and>
    length (pipe_buffer (write_loop bs p)) = PIPE_BUFFER_SIZE \<and>
    write_pos (write_loop bs p) = (start + (m + length bs)) mod PIPE_BUFFER_SIZE"
  using assms
proof (induction bs arbitrary: p m)
  case (Cons b bs)
  let ?p = "p\<lparr>pipe_buffer := (pipe_buffer p)[write_pos p := b], write_pos := (write_pos p + 1) mod PIPE_BUFFER_SIZE\<rparr>"
  have pos: "write_pos ?p = (start + Suc m) mod PIPE_BUFFER_SIZE"
    using Cons.prems(3) by (simp add: mod_Suc_eq)
  have "ring_slice (pipe_buffer ?p) start (Suc m) = ring_slice (pipe_buffer p) start m @ [b]"
    using ring_slice_put [of m "pipe_buffer p" "write_pos p" start b] Cons.prems by simp
  with Cons.IH [of ?p "Suc m"] Cons.prems(1,2) pos show ?case by simp
qed simp

lemma write_loop_frame:
  "read_pos (write_loop bs p) = read_pos p" "data_size (write_loop bs p) = data_size p"
  by (induction bs p rule: write_loop.induct) simp_all

lemma write_loop_keeps:
  "pipe_flags (write_loop bs p) = pipe_flags p" "reader_open (write_loop bs p) = reader_open p"
  "writer_open (write_loop bs p) = writer_open p" "pipe_id (write_loop bs p) = pipe_id p"
  by (induction bs p rule: write_loop.induct) simp_all

interpretation pipe_ring: ring pipe_ok pipe_contents PIPE_BUFFER_SIZE pipe_put pipe_get
proof
  fix q :: pipe and xs :: "u8 list" and n :: nat
  assume q: "pipe_ok q"
  show "length (pipe_contents q) \<le> PIPE_BUFFER_SIZE" using q by (simp add: pipe_contents_def pipe_ok_def)
  {
    assume "length (pipe_contents q) + length xs \<le> PIPE_BUFFER_SIZE"
    then have "data_size q + length xs \<le> PIPE_BUFFER_SIZE" by (simp add: pipe_contents_def)
    note w = write_loop_slice [of q "data_size q" xs "read_pos q"] this
    show "pipe_ok (pipe_put xs q)" "pipe_contents (pipe_put xs q) = pipe_contents q @ xs"
      using w q by (simp_all add: pipe_ok_def pipe_put_def pipe_contents_def write_loop_frame Let_def)
  }
  {
    assume n: "n \<le> length (pipe_contents q)"
    then have le: "n \<le> data_size q" by (simp add: pipe_contents_def)
    have r: "read_loop n q = (ring_slice (pipe_buffer q) (read_pos q) n,
        q\<lparr>read_pos := (read_pos q + n) mod PIPE_BUFFER_SIZE\<rparr>)"
      using q by (intro read_loop_slice) (simp_all add: pipe_ok_def)
    show "fst (pipe_get n q) = take n (pipe_contents q)"
      using le by (simp add: pipe_get_def r pipe_contents_def take_ring_slice)
    show "pipe_contents (snd (pipe_get n q)) = drop n (pipe_contents q)"
      using le q by (simp add: pipe_get_def r pipe_contents_def drop_ring_slice pipe_ok_def)
    have "((read_pos q + n) mod PIPE_BUFFER_SIZE + (data_size q - n)) mod PIPE_BUFFER_SIZE =
        (read_pos q + data_size q) mod PIPE_BUFFER_SIZE"
      using le by (metis add.assoc le_add_diff_inverse mod_add_left_eq)
    then show "pipe_ok (snd (pipe_get n q))"
      using le q by (auto simp: pipe_get_def r pipe_ok_def)
  }
qed

section \<open>The table\<close>

definition pipes_ok :: "'z kpipe_scheme \<Rightarrow> bool" where
  "pipes_ok s \<longleftrightarrow> length (pipes s) = MAX_PIPES \<and> (\<forall>p \<in> set (pipes s). pipe_ok p \<and> pipe_id p < next_pipe_id s) \<and>
     unique_pids (map pipe_id (pipes s)) \<and> next_pipe_id s \<noteq> 0"

lemma pipes_okD:
  assumes "pipes_ok s" "k < MAX_PIPES"
  shows "pipe_ok (pipe_at s k)" "k < length (pipes s)"
  using assms by (auto simp: pipes_ok_def)

lemma upd_pipe_frame [simp]:
  "processes (upd_pipe k f s) = processes s" "kheap (upd_pipe k f s) = kheap s"
  "current_process_index (upd_pipe k f s) = current_process_index s" "next_pid (upd_pipe k f s) = next_pid s"
  "next_pipe_id (upd_pipe k f s) = next_pipe_id s" "length (pipes (upd_pipe k f s)) = length (pipes s)"
  "pipes (upd_pipe k f s) = upd_nth k f (pipes s)"
  by (simp_all add: upd_pipe_def)

lemma upd_proc_pipes [simp]: "pipes (upd_proc i f s) = pipes s" "next_pipe_id (upd_proc i f s) = next_pipe_id s"
  by (simp_all add: upd_proc_def)

lemma unblock_process_pipes [simp]: "pipes (unblock_process pid s) = pipes s"
  "next_pipe_id (unblock_process pid s) = next_pipe_id s"
  by (simp_all add: unblock_process_def split: option.split)

lemma block_process_pipes [simp]: "pipes (block_process pid s) = pipes s"
  "next_pipe_id (block_process pid s) = next_pipe_id s"
  by (simp_all add: block_process_def split: option.split)

lemma kpipe_more:
  assumes "kproc.more s' = kproc.more s"
  shows "pipes s' = pipes s" "next_pipe_id s' = next_pipe_id s"
  using assms by (cases s; cases s'; simp)+

lemma kernel_inv_block: "kernel_inv s \<Longrightarrow> kernel_inv (block_process pid s)"
  by (auto simp: block_process_def benign_def intro!: kernel_inv_upd_proc split: option.split)

lemma pipe_get_by_fd_Some:
  "pipe_get_by_fd fd s = Some k \<Longrightarrow> k < length (pipes s) \<and> pipe_id (pipe_at s k) = drop_bit 3 fd"
  by (auto simp: pipe_get_by_fd_def find_index_Some)

section \<open>Reading and writing\<close>

lemma pipe_write_chunk_fits:
  assumes "k < length (pipes s)" "pipe_ok (pipe_at s k)" "w \<le> length buf"
  defines "m \<equiv> min (length buf - w) (PIPE_BUFFER_SIZE - data_size (pipe_at s k))"
  obtains s' where "pipe_write_chunk k buf w s = (w + m, s')" "length (pipes s') = length (pipes s)"
    "pipe_ok (pipe_at s' k)" "pipe_contents (pipe_at s' k) = pipe_contents (pipe_at s k) @ take m (drop w buf)"
    "\<And>j. j \<noteq> k \<Longrightarrow> pipe_at s' j = pipe_at s j" "pipe_flags (pipe_at s' k) = pipe_flags (pipe_at s k)"
    "reader_open (pipe_at s' k) = reader_open (pipe_at s k)" "pipe_id (pipe_at s' k) = pipe_id (pipe_at s k)"
proof -
  let ?bs = "take m (drop w buf)"
  have len: "length ?bs = m" by (simp add: m_def)
  have room: "length (pipe_contents (pipe_at s k)) + length ?bs \<le> PIPE_BUFFER_SIZE"
    using assms(2) unfolding len by (auto simp: m_def pipe_contents_def pipe_ok_def min_def)
  have if_min: "(if length buf - w < PIPE_BUFFER_SIZE - data_size (pipe_at s k) then length buf - w
      else PIPE_BUFFER_SIZE - data_size (pipe_at s k)) = m" by (simp add: m_def)
  let ?s1 = "upd_pipe k (pipe_put ?bs) s"
  let ?s2 = "if reader_pid (pipe_at ?s1 k) \<noteq> 0 then unblock_process (reader_pid (pipe_at ?s1 k)) ?s1 else ?s1"
  have p: "pipes ?s2 = upd_nth k (pipe_put ?bs) (pipes s)" by simp
  have fl: "pipe_flags (pipe_put bs p) = pipe_flags p" "reader_open (pipe_put bs p) = reader_open p"
    "pipe_id (pipe_put bs p) = pipe_id p" for bs p
    by (simp_all add: pipe_put_def Let_def write_loop_keeps)
  show thesis
  proof (rule that [of ?s2])
    show "pipe_write_chunk k buf w s = (w + m, ?s2)" unfolding pipe_write_chunk_def Let_def if_min ..
    show "pipe_ok (pipe_at ?s2 k)"
      "pipe_contents (pipe_at ?s2 k) = pipe_contents (pipe_at s k) @ take m (drop w buf)"
      unfolding p using assms(1) pipe_ring.put_invar [OF assms(2) room] pipe_ring.put_contents [OF assms(2) room]
      by simp_all
  qed (use assms(1) in \<open>simp_all add: p fl\<close>)
qed

lemma pipe_write_loop_fits:
  assumes "k < length (pipes s)" "pipe_ok (pipe_at s k)" "data_size (pipe_at s k) + length buf \<le> PIPE_BUFFER_SIZE"
    "buf \<noteq> []"
  obtains s' where "pipe_write_loop H n k buf 0 s = Some (int (length buf), s')" "length (pipes s') = length (pipes s)"
    "pipe_ok (pipe_at s' k)" "pipe_contents (pipe_at s' k) = pipe_contents (pipe_at s k) @ buf"
    "\<And>j. j \<noteq> k \<Longrightarrow> pipe_at s' j = pipe_at s j" "reader_open (pipe_at s' k) = reader_open (pipe_at s k)"
    "pipe_id (pipe_at s' k) = pipe_id (pipe_at s k)"
proof -
  have m: "min (length buf - 0) (PIPE_BUFFER_SIZE - data_size (pipe_at s k)) = length buf" using assms(3) by simp
  obtain s' where c: "pipe_write_chunk k buf 0 s = (0 + length buf, s')" "length (pipes s') = length (pipes s)"
    "pipe_ok (pipe_at s' k)" "pipe_contents (pipe_at s' k) = pipe_contents (pipe_at s k) @ take (length buf) (drop 0 buf)"
    "\<And>j. j \<noteq> k \<Longrightarrow> pipe_at s' j = pipe_at s j" "reader_open (pipe_at s' k) = reader_open (pipe_at s k)"
    "pipe_id (pipe_at s' k) = pipe_id (pipe_at s k)"
    using pipe_write_chunk_fits [OF assms(1,2), of 0 buf] unfolding m by blast
  have w: "wrap32 (int (length buf)) = int (length buf)"
    using assms(3) by (intro wrap32_id) simp_all
  have "data_size (pipe_at s k) \<noteq> PIPE_BUFFER_SIZE" using assms(3,4) by (cases buf) auto
  then have "pipe_write_loop H n k buf 0 s = pipe_write_loop H n k buf (length buf) s'"
    using assms(4) c(1) by (subst pipe_write_loop.simps) simp
  also have "\<dots> = Some (int (length buf), s')" by (subst pipe_write_loop.simps) (simp add: w)
  finally show thesis using that c by simp
qed

lemma pipe_read_data_takes:
  fixes cnt :: nat
  assumes "k < length (pipes s)" "pipe_ok (pipe_at s k)"
  defines "m \<equiv> min cnt (data_size (pipe_at s k))"
  obtains s' where "pipe_read_data k cnt s = (int m, take m (pipe_contents (pipe_at s k)), s')"
    "length (pipes s') = length (pipes s)" "pipe_ok (pipe_at s' k)"
    "pipe_contents (pipe_at s' k) = drop m (pipe_contents (pipe_at s k))"
    "\<And>j. j \<noteq> k \<Longrightarrow> pipe_at s' j = pipe_at s j"
proof -
  have le: "m \<le> length (pipe_contents (pipe_at s k))" by (simp add: m_def pipe_contents_def)
  have if_min: "(if cnt < data_size (pipe_at s k) then cnt else data_size (pipe_at s k)) = m" by (simp add: m_def)
  obtain p' where p': "pipe_get m (pipe_at s k) = (take m (pipe_contents (pipe_at s k)), p')" "pipe_ok p'"
    "pipe_contents p' = drop m (pipe_contents (pipe_at s k))"
    using pipe_ring.get_data [OF assms(2) le] pipe_ring.get_invar [OF assms(2) le] pipe_ring.get_contents [OF assms(2) le]
    by (metis prod.collapse)
  let ?s1 = "upd_pipe k (\<lambda>_. p') s"
  let ?s2 = "if writer_pid (pipe_at ?s1 k) \<noteq> 0 then unblock_process (writer_pid (pipe_at ?s1 k)) ?s1 else ?s1"
  have p: "pipes ?s2 = upd_nth k (\<lambda>_. p') (pipes s)" by simp
  show thesis
  proof (rule that [of ?s2])
    show "pipe_read_data k cnt s = (int m, take m (pipe_contents (pipe_at s k)), ?s2)"
      unfolding pipe_read_data_def Let_def if_min p'(1) prod.case ..
  qed (use assms(1) p'(2,3) in \<open>simp_all add: p\<close>)
qed

text \<open>Without a real context switch nothing fills an empty pipe while the reader waits.\<close>

lemma pipe_read_wait_stuck:
  assumes "pipe_read_wait H n k c s = Some s'"
  shows "quiet_handler H \<longrightarrow> kernel_inv s \<longrightarrow>
    pipes s' = pipes s \<and> (data_size (pipe_at s' k) \<noteq> 0 \<or> writer_open (pipe_at s' k) = 0)"
proof (rule pipe_read_wait.raw_induct [OF _ assms, where P = "\<lambda>H n k c s s'. quiet_handler H \<longrightarrow> kernel_inv s \<longrightarrow>
    pipes s' = pipes s \<and> (data_size (pipe_at s' k) \<noteq> 0 \<or> writer_open (pipe_at s' k) = 0)"], intro impI)
  fix f :: "'a kpipe_scheme handler \<Rightarrow> nat \<Rightarrow> nat \<Rightarrow> nat \<Rightarrow> 'a kpipe_scheme \<Rightarrow> 'a kpipe_scheme option"
    and H n k c s s'
  assume rec: "\<And>H n k c s s'. f H n k c s = Some s' \<Longrightarrow> quiet_handler H \<longrightarrow> kernel_inv s \<longrightarrow>
      pipes s' = pipes s \<and> (data_size (pipe_at s' k) \<noteq> 0 \<or> writer_open (pipe_at s' k) = 0)"
    and body: "(if data_size (pipe_at s k) = 0 \<and> writer_open (pipe_at s k) \<noteq> 0
      then do { s1 \<leftarrow> schedule H n (block_process (p_pid (proc s c)) s); f H n k c s1 } else Some s) = Some s'"
    and H: "quiet_handler H" and inv: "kernel_inv s"
  show "pipes s' = pipes s \<and> (data_size (pipe_at s' k) \<noteq> 0 \<or> writer_open (pipe_at s' k) = 0)"
  proof (cases "data_size (pipe_at s k) = 0 \<and> writer_open (pipe_at s k) \<noteq> 0")
    case True
    obtain s1 where s1: "schedule H n (block_process (p_pid (proc s c)) s) = Some s1" "f H n k c s1 = Some s'"
      using body True by (auto simp: bind_eq_Some_conv)
    have "survives (block_process (p_pid (proc s c)) s) s1"
      by (rule schedule_survives [OF H kernel_inv_block [OF inv] s1(1)])
    then have "pipes s1 = pipes s" "kernel_inv s1"
      using kpipe_more(1) [of s1 "block_process (p_pid (proc s c)) s"] by (auto simp: survives_def same_rest_def)
    with rec [OF s1(2)] H show ?thesis by auto
  next
    case False
    with body show ?thesis by auto
  qed
qed

section \<open>Descriptors\<close>

lemma fd_bits:
  fixes w :: u64
  assumes "unat w < 2 ^ 61"
  shows "drop_bit 3 (push_bit 3 w OR 1) = w" "drop_bit 3 (push_bit 3 w OR 2) = w"
    "(push_bit 3 w OR 1) AND 1 \<noteq> 0" "(push_bit 3 w OR 1) AND 2 = 0"
    "(push_bit 3 w OR 2) AND 2 \<noteq> 0" "(push_bit 3 w OR 2) AND 1 = 0"
proof -
  have "take_bit 61 w = w"
    using assms by (simp add: word_eq_iff_unsigned [where 'a = nat] unsigned_take_bit_eq take_bit_nat_eq_self)
  then have high: "n < 61" if "bit w n" for n using that by (metis bit_take_bit_iff)
  have two: "bit (2 :: u64) n \<longleftrightarrow> n = 1" for n using bit_exp_iff [of 1 n] by (auto simp: bit_simps)
  show "drop_bit 3 (push_bit 3 w OR 1) = w" "drop_bit 3 (push_bit 3 w OR 2) = w"
    by (rule bit_word_eqI; use high in \<open>auto simp: bit_simps two not_le\<close>)+
  have "(push_bit 3 w OR 1) AND 1 = 1" "(push_bit 3 w OR 2) AND 2 = 2"
    "(push_bit 3 w OR 1) AND 2 = 0" "(push_bit 3 w OR 2) AND 1 = 0"
    by (rule bit_word_eqI; auto simp: bit_simps two)+
  then show "(push_bit 3 w OR 1) AND 1 \<noteq> 0" "(push_bit 3 w OR 1) AND 2 = 0"
    "(push_bit 3 w OR 2) AND 2 \<noteq> 0" "(push_bit 3 w OR 2) AND 1 = 0" by simp_all
qed

lemma pipe_create_Some:
  assumes "find_index (\<lambda>p. pipe_id p = 0) (pipes s) = Some k"
  obtains q s' where "pipe_create s = (PIPE_SUCCESS,
      Some (push_bit 3 (next_pipe_id s) OR 1, push_bit 3 (next_pipe_id s) OR 2), s')"
    "pipes s' = (pipes s)[k := q]" "next_pipe_id s' = next_pipe_id s + 1" "pipe_id q = next_pipe_id s"
    "data_size q = 0" "length (pipe_buffer q) = length (pipe_buffer (pipe_at s k))" "read_pos q = 0" "write_pos q = 0"
proof -
  note k = find_index_SomeD(1) [OF assms]
  let ?s2 = "upd_pipe k (\<lambda>p. p\<lparr>pipe_id := next_pipe_id s, read_pos := 0, write_pos := 0, data_size := 0,
      pipe_flags := 0, reader_open := 1, writer_open := 1\<rparr>) (s\<lparr>next_pipe_id := next_pipe_id s + 1\<rparr>)"
  show thesis
  proof (cases "get_current_process ?s2")
    case None
    show thesis
      by (rule that [of ?s2 "pipe_at ?s2 k"]) (use k None assms in \<open>simp_all add: pipe_create_def Let_def upd_nth_def\<close>)
  next
    case (Some c)
    let ?s3 = "upd_pipe k (\<lambda>p. p\<lparr>reader_pid := p_pid (proc ?s2 c), writer_pid := p_pid (proc ?s2 c)\<rparr>) ?s2"
    show thesis
      by (rule that [of ?s3 "pipe_at ?s3 k"]) (use k Some assms in \<open>simp_all add: pipe_create_def Let_def upd_nth_def\<close>)
  qed
qed

definition sample_kpipe :: kpipe where
  "sample_kpipe = kdev.extend sample_kdev \<lparr>pipes = zero_pipe\<lparr>pipe_id := 1, reader_open := 1, writer_open := 1\<rparr> #
     replicate 63 zero_pipe, next_pipe_id = 2\<rparr>"

lemma zero_pipe_ok: "pipe_ok zero_pipe" "pipe_ok (zero_pipe\<lparr>pipe_id := i, reader_open := r, writer_open := w\<rparr>)"
  by (simp_all add: pipe_ok_def zero_pipe_def)

lemma sample_kpipe:
  "kernel_inv sample_kpipe" "pipes_ok sample_kpipe" "pipe_get_by_fd 9 sample_kpipe = Some 0"
  "pipe_get_by_fd 10 sample_kpipe = Some 0"
  "pipe_at sample_kpipe 0 = zero_pipe\<lparr>pipe_id := 1, reader_open := 1, writer_open := 1\<rparr>"
proof -
  show "kernel_inv sample_kpipe"
    using sample_kdev(1) by (simp add: sample_kpipe_def kdev.defs kernel_inv_def table_ok_def stacks_ok_def)
  have p: "pipes sample_kpipe = zero_pipe\<lparr>pipe_id := 1, reader_open := 1, writer_open := 1\<rparr> # replicate 63 zero_pipe"
    "next_pipe_id sample_kpipe = 2" by (simp_all add: sample_kpipe_def kdev.defs)
  show "pipes_ok sample_kpipe"
    unfolding pipes_ok_def p using zero_pipe_ok
    by (auto simp: unique_pids_def nth_Cons zero_pipe_def split: nat.splits)
  have "drop_bit 3 (9 :: u64) = 1" "drop_bit 3 (10 :: u64) = 1" by simp_all
  then show "pipe_get_by_fd 9 sample_kpipe = Some 0" "pipe_get_by_fd 10 sample_kpipe = Some 0"
    by (simp_all add: pipe_get_by_fd_def p)
  show "pipe_at sample_kpipe 0 = zero_pipe\<lparr>pipe_id := 1, reader_open := 1, writer_open := 1\<rparr>" by (simp add: p)
qed

section \<open>Properties\<close>

text \<open>C29: A pipe is a queue: over any interleaving of writes and reads, the bytes read so far followed by
  the bytes still in the buffer are the bytes that were in it followed by the bytes written, in
  order, nothing lost or doubled, and the ring stays well-formed.\<close>

theorem pipe_fifo:
  assumes "pipe_ok p" "pipe_ring.run ops p = (written, taken, p')"
  shows "pipe_ok p' \<and> pipe_contents p @ written = taken @ pipe_contents p'"
  using pipe_ring.run_fifo [OF assms] .

theorem pipe_fifo_witness:
  "case pipe_ring.run [Put [1, 2, 3], Get 2] zero_pipe of (written, taken, p') \<Rightarrow>
    pipe_ok p' \<and> pipe_contents zero_pipe @ written = taken @ pipe_contents p'"
  using pipe_fifo [OF zero_pipe_ok(1), of "[Put [1, 2, 3], Get 2]"]
  by (cases "pipe_ring.run [Put [1, 2, 3], Get 2] zero_pipe") blast

text \<open>What \<open>pipe_write\<close> stores, \<open>pipe_read\<close> gives back: writing a non-empty buffer that fits into an empty
  pipe returns its length at once, and reading as many bytes or more from the other end returns the
  same number and exactly these bytes, and leaves the pipe empty. No other pipe changes.\<close>

theorem pipe_write_read_roundtrip:
  assumes ok: "pipes_ok s" and k: "pipe_get_by_fd wfd s = Some k" "drop_bit 3 rfd = drop_bit 3 wfd"
    and fl: "wfd AND PIPE_FLAG_WRITABLE \<noteq> 0" "rfd AND PIPE_FLAG_READABLE \<noteq> 0"
    and op: "writer_open (pipe_at s k) \<noteq> 0" "reader_open (pipe_at s k) \<noteq> 0"
    and e: "data_size (pipe_at s k) = 0" and buf: "buf \<noteq> []" "length buf \<le> PIPE_BUFFER_SIZE" "length buf \<le> cnt"
  shows "\<exists>s1 s2. pipe_write H n wfd buf s = Some (int (length buf), s1) \<and>
    pipe_read H n rfd cnt s1 = Some (int (length buf), buf, s2) \<and>
    data_size (pipe_at s2 k) = 0 \<and> (\<forall>j. j \<noteq> k \<longrightarrow> pipe_at s2 j = pipe_at s j)"
proof -
  have kl: "k < length (pipes s)" using pipe_get_by_fd_Some [OF k(1)] by simp
  have pk: "pipe_ok (pipe_at s k)" using ok kl by (simp add: pipes_ok_def)
  have fits: "data_size (pipe_at s k) + length buf \<le> PIPE_BUFFER_SIZE" using e buf(2) by simp
  obtain s1 where s1: "pipe_write_loop H n k buf 0 s = Some (int (length buf), s1)" "length (pipes s1) = length (pipes s)"
    "pipe_ok (pipe_at s1 k)" "pipe_contents (pipe_at s1 k) = pipe_contents (pipe_at s k) @ buf"
    "\<And>j. j \<noteq> k \<Longrightarrow> pipe_at s1 j = pipe_at s j" "reader_open (pipe_at s1 k) = reader_open (pipe_at s k)"
    "pipe_id (pipe_at s1 k) = pipe_id (pipe_at s k)"
    using pipe_write_loop_fits [OF kl pk fits buf(1), of H n] by blast
  have w: "pipe_write H n wfd buf s = Some (int (length buf), s1)"
    using s1(1) k(1) fl(1) op by (simp add: pipe_write_def)
  have data: "pipe_contents (pipe_at s1 k) = buf" using s1(4) e by (simp add: pipe_contents_def)
  then have size: "data_size (pipe_at s1 k) = length buf" by (metis length_ring_slice pipe_contents_def)
  have "pipe_get_by_fd rfd s1 = pipe_get_by_fd wfd s"
    unfolding pipe_get_by_fd_def using s1(5,7) k(2)
    by (intro find_index_cong) (use s1(2) in simp, metis)
  then have r: "pipe_read H n rfd cnt s1 = Some (pipe_read_data k cnt s1)"
    using k(1) s1(6) op(2) fl(2) size buf(1) by (simp add: pipe_read_def)
  have m: "min cnt (data_size (pipe_at s1 k)) = length buf" using size buf(3) by simp
  have kl1: "k < length (pipes s1)" using kl s1(2) by simp
  obtain s2 where s2: "pipe_read_data k cnt s1 = (int (length buf), take (length buf) (pipe_contents (pipe_at s1 k)), s2)"
    "pipe_contents (pipe_at s2 k) = drop (length buf) (pipe_contents (pipe_at s1 k))"
    "\<And>j. j \<noteq> k \<Longrightarrow> pipe_at s2 j = pipe_at s1 j"
    using pipe_read_data_takes [OF kl1 s1(3), of cnt] unfolding m by blast
  have "data_size (pipe_at s2 k) = 0" using s2(2) data by (metis drop_all length_0_conv length_ring_slice order_refl pipe_contents_def)
  with w r s2 s1(5) data show ?thesis by auto
qed

theorem pipe_write_read_roundtrip_witness:
  "\<exists>s1 s2. pipe_write (\<lambda>_ _. Some) 0 10 [7, 8] sample_kpipe = Some (2, s1) \<and>
    pipe_read (\<lambda>_ _. Some) 0 9 5 s1 = Some (2, [7, 8], s2) \<and> data_size (pipe_at s2 0) = 0"
  using pipe_write_read_roundtrip [OF sample_kpipe(2,4), of 9 "[7, 8]" 5 "\<lambda>_ _. Some" 0]
  by (auto simp: sample_kpipe(5) zero_pipe_def)

text \<open>C30: Reading from an empty pipe whose writer is open, in blocking mode, never returns, although the reader
  marks itself blocked and calls the scheduler: \<open>schedule\<close> only changes which process is current and
  comes back to the reader, so nothing can be written to the pipe meanwhile.\<close>

theorem pipe_read_never_returns:
  assumes "quiet_handler H" "kernel_inv s" "pipe_get_by_fd fd s = Some k" "fd AND PIPE_FLAG_READABLE \<noteq> 0"
    "reader_open (pipe_at s k) \<noteq> 0" "writer_open (pipe_at s k) \<noteq> 0" "data_size (pipe_at s k) = 0"
    "pipe_flags (pipe_at s k) AND PIPE_FLAG_NONBLOCK = 0"
  shows "pipe_read H n fd cnt s = None"
proof (cases "get_current_process s")
  case None
  with assms(3-8) show ?thesis by (simp add: pipe_read_def)
next
  case (Some c)
  have "pipe_read_wait H n k c s = None"
  proof (rule ccontr)
    assume "pipe_read_wait H n k c s \<noteq> None"
    then obtain s' where "pipe_read_wait H n k c s = Some s'" by auto
    from pipe_read_wait_stuck [OF this] assms(1,2,6,7) show False by auto
  qed
  with Some assms(3-8) show ?thesis by (simp add: pipe_read_def)
qed

theorem pipe_read_never_returns_witness:
  "pipe_read (\<lambda>_ _. Some) 200 9 16 sample_kpipe = None"
  by (rule pipe_read_never_returns [OF no_handlers(2) sample_kpipe(1,3)])
     (simp_all only: sample_kpipe(5), simp_all add: zero_pipe_def)

text \<open>Creating a pipe gives two descriptors of the same fresh pipe: with a free slot, both are found by
  \<open>pipe_get_by_fd\<close> in that slot, the one may only be read and the other only written, no other pipe
  changes and ids stay unique; without a free slot it is an error that changes nothing.\<close>

theorem pipe_create_fds:
  assumes ok: "pipes_ok s" and id: "unat (next_pipe_id s) + 1 < 2 ^ 61"
  shows "(case find_index (\<lambda>p. pipe_id p = 0) (pipes s) of
      None \<Rightarrow> pipe_create s = (PIPE_ERROR_FULL, None, s)
    | Some k \<Rightarrow> \<exists>rfd wfd s'. pipe_create s = (PIPE_SUCCESS, Some (rfd, wfd), s') \<and> pipes_ok s' \<and>
        pipe_get_by_fd rfd s = None \<and> pipe_get_by_fd rfd s' = Some k \<and> pipe_get_by_fd wfd s' = Some k \<and>
        rfd AND PIPE_FLAG_READABLE \<noteq> 0 \<and> rfd AND PIPE_FLAG_WRITABLE = 0 \<and>
        wfd AND PIPE_FLAG_WRITABLE \<noteq> 0 \<and> wfd AND PIPE_FLAG_READABLE = 0 \<and>
        pipe_contents (pipe_at s' k) = [] \<and> (\<forall>j. j \<noteq> k \<longrightarrow> pipe_at s' j = pipe_at s j))"
proof (cases "find_index (\<lambda>p. pipe_id p = 0) (pipes s)")
  case None
  then show ?thesis by (simp add: pipe_create_def)
next
  case (Some k)
  note k = find_index_SomeD [OF Some]
  let ?id = "next_pipe_id s"
  let ?new = "\<lambda>p. p\<lparr>pipe_id := ?id, read_pos := 0, write_pos := 0, data_size := 0,
    pipe_flags := 0, reader_open := 1, writer_open := 1\<rparr>"
  obtain q s' where s': "pipe_create s = (PIPE_SUCCESS, Some (push_bit 3 ?id OR 1, push_bit 3 ?id OR 2), s')"
    "pipes s' = (pipes s)[k := q]" "next_pipe_id s' = ?id + 1" "pipe_id q = ?id" "data_size q = 0"
    "length (pipe_buffer q) = length (pipe_buffer (pipe_at s k))" "read_pos q = 0" "write_pos q = 0"
    by (rule pipe_create_Some [OF Some])
  note bits = fd_bits [of ?id]
  have "?id \<noteq> - 1" using id by (auto simp: unsigned_minus_1_eq_mask mask_eq_exp_minus_1)
  then have fresh: "p < ?id + 1" "?id < ?id + 1" "?id + 1 \<noteq> 0" if "p < ?id" for p
    using less_u64_Suc [OF that] by (simp_all add: word_gt_0)
  have uniq: "unique_pids (map pipe_id (pipes s'))"
    unfolding s'(2) map_update s'(4)
    by (rule unique_pids_fresh) (use ok in \<open>auto simp: pipes_ok_def\<close>)
  have qok: "pipe_ok q" using s'(5-8) ok k(1) by (auto simp: pipe_ok_def pipes_ok_def)
  have pos: "0 < ?id" using ok by (simp add: pipes_ok_def word_gt_0)
  have "pipes_ok s'"
    using ok uniq qok fresh(1) fresh(2,3) [OF pos] k(1) s'(4)
    by (auto simp: pipes_ok_def s'(2,3) dest!: set_update_subset_insert [THEN subsetD])
  moreover have "pipe_id (pipe_at s j) \<noteq> ?id" if "j < length (pipes s)" for j
    using ok nth_mem [OF that] by (fastforce simp: pipes_ok_def)
  then have "find_index (\<lambda>p. pipe_id p = ?id) (pipes s') = Some k"
    unfolding find_index_Some using k(1) s'(4) by (simp add: s'(2))
  moreover have "find_index (\<lambda>p. pipe_id p = ?id) (pipes s) = None"
    using ok by (auto simp: find_index_None pipes_ok_def)
  moreover have "pipe_contents (pipe_at s' k) = []" using k(1) s'(5) by (simp add: s'(2) pipe_contents_def)
  ultimately show ?thesis
    using Some s'(1) bits id by (auto simp: pipe_get_by_fd_def s'(2))
qed

theorem pipe_create_fds_witness:
  "\<exists>rfd wfd s'. pipe_create sample_kpipe = (PIPE_SUCCESS, Some (rfd, wfd), s') \<and> pipe_get_by_fd rfd s' = Some 1"
proof -
  have "find_index (\<lambda>p. pipe_id p = 0) (pipes sample_kpipe) = Some 1" "next_pipe_id sample_kpipe = 2"
    unfolding find_index_Some
    by (simp_all add: sample_kpipe_def kdev.defs zero_pipe_def)
  with pipe_create_fds [OF sample_kpipe(2)] show ?thesis by auto
qed

end
