(* ===== verification/Keyboard.thy ===== *)
theory Keyboard
  imports Pipe
begin

text \<open>
  The PS/2 keyboard driver of \<open>keyboard.c\<close>: modifier state, translation of scan codes, the ring buffer
  of 256 characters with one slot unused, and line input. The kernel state grows by the driver's.
  The scan code an interrupt delivers (\<open>inb\<close>) is an argument of the handler. A \<open>hlt\<close> waits for an
  interrupt: \<open>irq\<close> is the effect of the interrupts that end it.
\<close>

abbreviation KEYBOARD_DATA_PORT :: u16 where "KEYBOARD_DATA_PORT \<equiv> 0x60"
abbreviation KEYBOARD_COMMAND_PORT :: u16 where "KEYBOARD_COMMAND_PORT \<equiv> 0x64"
abbreviation KEY_RELEASE :: u8 where "KEY_RELEASE \<equiv> 0x80"
abbreviation KEY_LCTRL :: u8 where "KEY_LCTRL \<equiv> 0x1D"
abbreviation KEY_LSHIFT :: u8 where "KEY_LSHIFT \<equiv> 0x2A"
abbreviation KEY_RSHIFT :: u8 where "KEY_RSHIFT \<equiv> 0x36"
abbreviation KEY_LALT :: u8 where "KEY_LALT \<equiv> 0x38"
abbreviation KEY_CAPSLOCK :: u8 where "KEY_CAPSLOCK \<equiv> 0x3A"
abbreviation KEY_NUMLOCK :: u8 where "KEY_NUMLOCK \<equiv> 0x45"
abbreviation KEY_SCROLLLOCK :: u8 where "KEY_SCROLLLOCK \<equiv> 0x46"
abbreviation KEYMODE_NORMAL :: u8 where "KEYMODE_NORMAL \<equiv> 0"
abbreviation KEYMODE_EXTENDED :: u8 where "KEYMODE_EXTENDED \<equiv> 1"
abbreviation IRQ1 :: u8 where "IRQ1 \<equiv> 33"
abbreviation BS :: char where "BS \<equiv> CHR 0x08"
abbreviation TAB :: char where "TAB \<equiv> CHR 0x09"
abbreviation DQUOTE :: char where "DQUOTE \<equiv> CHR 0x22"
abbreviation QUOTE :: char where "QUOTE \<equiv> CHR 0x27"
abbreviation BACKSLASH :: char where "BACKSLASH \<equiv> CHR 0x5C"
abbreviation BACKTICK :: char where "BACKTICK \<equiv> CHR 0x60"

definition kbd_us_lowercase :: string where
  "kbd_us_lowercase =
     [NUL, NUL] @ ''1234567890-='' @ [BS] @
     [TAB] @ ''qwertyuiop[]'' @ [NL] @
     [NUL] @ ''asdfghjkl;'' @ [QUOTE, BACKTICK] @
     [NUL, BACKSLASH] @ ''zxcvbnm,./'' @ [NUL] @
     ''*'' @ [NUL] @ '' '' @ [NUL, NUL, NUL, NUL, NUL, NUL, NUL, NUL, NUL, NUL, NUL, NUL, NUL, NUL, NUL, NUL, NUL] @
     ''-'' @ [NUL, NUL, NUL] @ ''+'' @ [NUL, NUL, NUL, NUL, NUL, NUL, NUL, NUL, NUL, NUL, NUL] @ replicate 37 NUL"

definition kbd_us_uppercase :: string where
  "kbd_us_uppercase =
     [NUL, NUL] @ ''!@#$%^&*()_+'' @ [BS] @
     [TAB] @ ''QWERTYUIOP{}'' @ [NL] @
     [NUL] @ ''ASDFGHJKL:'' @ [DQUOTE] @ ''~'' @
     [NUL] @ ''|ZXCVBNM<>?'' @ [NUL] @
     ''*'' @ [NUL] @ '' '' @ [NUL, NUL, NUL, NUL, NUL, NUL, NUL, NUL, NUL, NUL, NUL, NUL, NUL, NUL, NUL, NUL, NUL] @
     ''-'' @ [NUL, NUL, NUL] @ ''+'' @ [NUL, NUL, NUL, NUL, NUL, NUL, NUL, NUL, NUL, NUL, NUL] @ replicate 37 NUL"

record keyboard =
  shift_pressed :: u8
  ctrl_pressed :: u8
  alt_pressed :: u8
  caps_lock :: u8
  num_lock :: u8
  scroll_lock :: u8
  kbd_mode :: u8
  kbd_buffer :: string
  buffer_start :: u8
  buffer_end :: u8

definition zero_keyboard :: keyboard where
  "zero_keyboard = \<lparr>shift_pressed = 0, ctrl_pressed = 0, alt_pressed = 0, caps_lock = 0, num_lock = 0,
     scroll_lock = 0, kbd_mode = 0, kbd_buffer = replicate 256 NUL, buffer_start = 0, buffer_end = 0\<rparr>"

record kkbd = kpipe +
  keyboard_state :: keyboard

section \<open>The buffer\<close>

definition keyboard_buffer_empty :: "keyboard \<Rightarrow> bool" where
  "keyboard_buffer_empty k \<longleftrightarrow> buffer_start k = buffer_end k"

definition keyboard_buffer_full :: "keyboard \<Rightarrow> bool" where
  "keyboard_buffer_full k \<longleftrightarrow> (buffer_end k + 1) AND 0xFF = buffer_start k"

definition keyboard_buffer_put :: "char \<Rightarrow> keyboard \<Rightarrow> keyboard" where
  "keyboard_buffer_put c k =
     (if keyboard_buffer_full k then k
      else k\<lparr>kbd_buffer := (kbd_buffer k)[unat (buffer_end k) := c],
             buffer_end := (buffer_end k + 1) AND 0xFF\<rparr>)"

definition keyboard_buffer_get :: "keyboard \<Rightarrow> char \<times> keyboard" where
  "keyboard_buffer_get k =
     (if keyboard_buffer_empty k then (NUL, k)
      else (kbd_buffer k ! unat (buffer_start k), k\<lparr>buffer_start := (buffer_start k + 1) AND 0xFF\<rparr>))"

section \<open>The driver\<close>

definition keyboard_update_leds :: "'z kkbd_scheme \<Rightarrow> 'z kkbd_scheme" where
  "keyboard_update_leds s =
     (let k = keyboard_state s;
          l1 = (if scroll_lock k \<noteq> 0 then 0 OR 1 else 0);
          l2 = (if num_lock k \<noteq> 0 then l1 OR 2 else l1);
          l3 = (if caps_lock k \<noteq> 0 then l2 OR 4 else l2)
      in outb KEYBOARD_DATA_PORT l3 (outb KEYBOARD_COMMAND_PORT 0xED s))"

definition keyboard_init :: "u64 \<Rightarrow> 'z kkbd_scheme \<Rightarrow> 'z kkbd_scheme" where
  "keyboard_init handler_addr s =
     (let s1 = outb KEYBOARD_COMMAND_PORT 0xF4 (s\<lparr>keyboard_state := zero_keyboard\<rparr>);
          s2 = s1\<lparr>kidt := register_interrupt_handler IRQ1 handler_addr (kidt s1)\<rparr>
      in kprint (''Klavye surucusu baslatildi.'' @ [NL]) s2)"

definition upd_kbd :: "(keyboard \<Rightarrow> keyboard) \<Rightarrow> 'z kkbd_scheme \<Rightarrow> 'z kkbd_scheme" where
  "upd_kbd f s = s\<lparr>keyboard_state := f (keyboard_state s)\<rparr>"

definition key_release :: "u8 \<Rightarrow> keyboard \<Rightarrow> keyboard" where
  "key_release scancode k =
     (if scancode = KEY_LSHIFT \<or> scancode = KEY_RSHIFT then k\<lparr>shift_pressed := 0\<rparr>
      else if scancode = KEY_LCTRL then k\<lparr>ctrl_pressed := 0\<rparr>
      else if scancode = KEY_LALT then k\<lparr>alt_pressed := 0\<rparr>
      else k)"

text \<open>The \<open>default\<close> case of a key press: translate and store.\<close>

definition key_char :: "u8 \<Rightarrow> keyboard \<Rightarrow> keyboard" where
  "key_char scancode k =
     (if scancode < 128 then
        let c = (if shift_pressed k XOR caps_lock k \<noteq> 0 then kbd_us_uppercase ! unat scancode
                 else kbd_us_lowercase ! unat scancode)
        in if c \<noteq> NUL then
             keyboard_buffer_put
               (if ctrl_pressed k \<noteq> 0 \<and> of_char c \<ge> (97 :: int) \<and> of_char c \<le> (122 :: int)
                then char_of (of_char c - 97 + 1 :: int) else c) k
           else k
      else k)"

definition c_not :: "u8 \<Rightarrow> u8" where
  "c_not b = (if b = 0 then 1 else 0)"

definition keyboard_handler :: "u8 \<Rightarrow> 'z kkbd_scheme \<Rightarrow> 'z kkbd_scheme" where
  "keyboard_handler scancode s =
     (if scancode = 0xE0 then upd_kbd (\<lambda>k. k\<lparr>kbd_mode := KEYMODE_EXTENDED\<rparr>) s
      else if scancode AND KEY_RELEASE \<noteq> 0 then
        upd_kbd (\<lambda>k. (key_release (scancode AND NOT KEY_RELEASE) k)\<lparr>kbd_mode := KEYMODE_NORMAL\<rparr>) s
      else
        let s1 = (if scancode = KEY_LSHIFT \<or> scancode = KEY_RSHIFT then upd_kbd (\<lambda>k. k\<lparr>shift_pressed := 1\<rparr>) s
                  else if scancode = KEY_LCTRL then upd_kbd (\<lambda>k. k\<lparr>ctrl_pressed := 1\<rparr>) s
                  else if scancode = KEY_LALT then upd_kbd (\<lambda>k. k\<lparr>alt_pressed := 1\<rparr>) s
                  else if scancode = KEY_CAPSLOCK then
                    keyboard_update_leds (upd_kbd (\<lambda>k. k\<lparr>caps_lock := c_not (caps_lock k)\<rparr>) s)
                  else if scancode = KEY_NUMLOCK then
                    keyboard_update_leds (upd_kbd (\<lambda>k. k\<lparr>num_lock := c_not (num_lock k)\<rparr>) s)
                  else if scancode = KEY_SCROLLLOCK then
                    keyboard_update_leds (upd_kbd (\<lambda>k. k\<lparr>scroll_lock := c_not (scroll_lock k)\<rparr>) s)
                  else upd_kbd (key_char scancode) s)
        in upd_kbd (\<lambda>k. k\<lparr>kbd_mode := KEYMODE_NORMAL\<rparr>) s1)"

partial_function (option) keyboard_wait ::
  "('z kkbd_scheme \<Rightarrow> 'z kkbd_scheme option) \<Rightarrow> 'z kkbd_scheme \<Rightarrow> 'z kkbd_scheme option" where
  "keyboard_wait irq s =
     (if keyboard_buffer_empty (keyboard_state s)
      then do { s1 \<leftarrow> irq s; keyboard_wait irq s1 }
      else Some s)"

definition keyboard_getchar ::
  "('z kkbd_scheme \<Rightarrow> 'z kkbd_scheme option) \<Rightarrow> 'z kkbd_scheme \<Rightarrow> (char \<times> 'z kkbd_scheme) option" where
  "keyboard_getchar irq s =
     do { s1 \<leftarrow> keyboard_wait irq s;
          let (c, k) = keyboard_buffer_get (keyboard_state s1);
          Some (c, s1\<lparr>keyboard_state := k\<rparr>) }"

definition keyboard_getchar_nonblock :: "'z kkbd_scheme \<Rightarrow> int \<times> 'z kkbd_scheme" where
  "keyboard_getchar_nonblock s =
     (if keyboard_buffer_empty (keyboard_state s) then (-1, s)
      else let (c, k) = keyboard_buffer_get (keyboard_state s)
           in (sint (of_char c :: u8), s\<lparr>keyboard_state := k\<rparr>))"

definition echo :: "char \<Rightarrow> 'z kproc_scheme \<Rightarrow> 'z kproc_scheme" where
  "echo c s = s\<lparr>kterm := terminal_putchar c (kterm s)\<rparr>"

text \<open>
  The loop of \<open>keyboard_read\<close> at index \<open>i\<close>. A backspace takes \<open>i\<close> back by two (or one at the start),
  which wraps around at 0, and the loop's increment brings it to \<open>i - 1\<close> (or 0): in both cases
  \<open>i - 1\<close> of the natural numbers. The result is the count and the caller's buffer.
\<close>

partial_function (option) keyboard_read_loop ::
  "('z kkbd_scheme \<Rightarrow> 'z kkbd_scheme option) \<Rightarrow> nat \<Rightarrow> nat \<Rightarrow> string \<Rightarrow> 'z kkbd_scheme \<Rightarrow>
    (int \<times> string \<times> 'z kkbd_scheme) option" where
  "keyboard_read_loop irq cnt i buf s =
     (if i < cnt then
        do { (c, s1) \<leftarrow> keyboard_getchar irq s;
             if c = NL then Some (wrap32 (int (i + 1)), buf[i := c], s1)
             else if c = BS then
               keyboard_read_loop irq cnt (i - 1) buf
                 (if i > 0 then echo BS (echo (CHR '' '') (echo BS s1)) else s1)
             else keyboard_read_loop irq cnt (i + 1) (buf[i := c]) (echo c s1) }
      else Some (wrap32 (int i), buf, s))"

definition keyboard_read ::
  "('z kkbd_scheme \<Rightarrow> 'z kkbd_scheme option) \<Rightarrow> string \<Rightarrow> nat \<Rightarrow> 'z kkbd_scheme \<Rightarrow>
    (int \<times> string \<times> 'z kkbd_scheme) option" where
  "keyboard_read irq buf cnt s = keyboard_read_loop irq cnt 0 buf s"

section \<open>The buffer is a queue\<close>

definition kbd_used :: "keyboard \<Rightarrow> nat" where
  "kbd_used k = (unat (buffer_end k) + 256 - unat (buffer_start k)) mod 256"

definition kbd_ok :: "keyboard \<Rightarrow> bool" where
  "kbd_ok k \<longleftrightarrow> length (kbd_buffer k) = 256"

definition kbd_contents :: "keyboard \<Rightarrow> string" where
  "kbd_contents k = ring_slice (kbd_buffer k) (unat (buffer_start k)) (kbd_used k)"

definition keyboard_buffer_puts :: "string \<Rightarrow> keyboard \<Rightarrow> keyboard" where
  "keyboard_buffer_puts xs k = fold keyboard_buffer_put xs k"

fun keyboard_buffer_gets :: "nat \<Rightarrow> keyboard \<Rightarrow> string \<times> keyboard" where
  "keyboard_buffer_gets 0 k = ([], k)"
| "keyboard_buffer_gets (Suc n) k =
     (let (c, k1) = keyboard_buffer_get k; (xs, k2) = keyboard_buffer_gets n k1 in (c # xs, k2))"

lemma u8_less: "unat (w :: u8) < 256"
  using unsigned_less [of w, where 'a = nat] by simp

lemma and_0xFF: "w AND 0xFF = (w :: u8)"
proof -
  have "(0xFF :: u8) = - 1" by simp
  then show ?thesis by (simp only: and.right_neutral)
qed

lemma unat_u8_Suc: "unat ((w + 1) AND 0xFF :: u8) = (unat w + 1) mod 256"
  by (simp only: and_0xFF) (simp add: unat_word_ariths)

lemma kbd_used_less: "kbd_used k < 256"
  by (simp add: kbd_used_def)

lemma buffer_end_used: "unat (buffer_end k) = (unat (buffer_start k) + kbd_used k) mod 256"
proof -
  have "(unat (buffer_start k) + kbd_used k) mod 256 =
      (unat (buffer_start k) + (unat (buffer_end k) + 256 - unat (buffer_start k))) mod 256"
    unfolding kbd_used_def by (rule mod_add_right_eq)
  also have "\<dots> = unat (buffer_end k)" using u8_less [of "buffer_start k"] u8_less [of "buffer_end k"] by simp
  finally show ?thesis ..
qed

lemma kbd_used_eq:
  assumes "unat (buffer_end k) = (unat (buffer_start k) + n) mod 256" "n < 256"
  shows "kbd_used k = n"
  using ring_diff [of "unat (buffer_start k)" 256 n] assms u8_less by (simp add: kbd_used_def)

lemma buffer_empty_used: "keyboard_buffer_empty k \<longleftrightarrow> kbd_used k = 0"
proof
  assume "keyboard_buffer_empty k"
  then show "kbd_used k = 0" by (simp add: keyboard_buffer_empty_def kbd_used_def)
next
  assume "kbd_used k = 0"
  then have "unat (buffer_end k) = unat (buffer_start k)" using buffer_end_used [of k] u8_less [of "buffer_start k"] by simp
  then show "keyboard_buffer_empty k" by (simp add: keyboard_buffer_empty_def word_eq_iff_unsigned [where 'a = nat])
qed

lemma buffer_full_used: "keyboard_buffer_full k \<longleftrightarrow> kbd_used k = 255"
proof -
  have "keyboard_buffer_full k \<longleftrightarrow> (unat (buffer_start k) + (kbd_used k + 1)) mod 256 = unat (buffer_start k)"
    unfolding keyboard_buffer_full_def word_eq_iff_unsigned [where 'a = nat] unat_u8_Suc
    by (simp add: buffer_end_used mod_Suc_eq)
  also have "\<dots> \<longleftrightarrow> (kbd_used k + 1) mod 256 = 0"
    using mod_add_inj [of "(kbd_used k + 1) mod 256" 256 0 "unat (buffer_start k)"] u8_less [of "buffer_start k"]
    by (simp add: mod_add_right_eq)
  also have "\<dots> \<longleftrightarrow> kbd_used k = 255" using kbd_used_less [of k] by (auto simp: mod_Suc)
  finally show ?thesis .
qed

lemma buffer_put_step:
  assumes "kbd_ok k" "kbd_used k < 255"
  shows "kbd_ok (keyboard_buffer_put c k)" "kbd_contents (keyboard_buffer_put c k) = kbd_contents k @ [c]"
    "kbd_used (keyboard_buffer_put c k) = kbd_used k + 1"
proof -
  let ?k = "k\<lparr>kbd_buffer := (kbd_buffer k)[unat (buffer_end k) := c], buffer_end := (buffer_end k + 1) AND 0xFF\<rparr>"
  have put: "keyboard_buffer_put c k = ?k"
    using assms(2) buffer_full_used [of k] by (simp add: keyboard_buffer_put_def)
  have "unat (buffer_end ?k) = (unat (buffer_start ?k) + (kbd_used k + 1)) mod 256"
    by (simp add: unat_u8_Suc buffer_end_used mod_Suc_eq)
  then have used: "kbd_used ?k = kbd_used k + 1" using assms(2) by (intro kbd_used_eq) simp_all
  then show "kbd_used (keyboard_buffer_put c k) = kbd_used k + 1" using put by simp
  show "kbd_ok (keyboard_buffer_put c k)" using assms(1) put by (simp add: kbd_ok_def)
  show "kbd_contents (keyboard_buffer_put c k) = kbd_contents k @ [c]"
    using ring_slice_put [of "kbd_used k" "kbd_buffer k" "unat (buffer_end k)" "unat (buffer_start k)" c]
      assms buffer_end_used [of k] used
    by (simp add: put kbd_contents_def kbd_ok_def)
qed

lemma buffer_get_step:
  assumes "kbd_ok k" "kbd_used k = Suc n"
  obtains k' where "keyboard_buffer_get k = (hd (kbd_contents k), k')" "kbd_ok k'"
    "kbd_contents k' = tl (kbd_contents k)" "kbd_used k' = n" "k' = k\<lparr>buffer_start := buffer_start k'\<rparr>"
proof -
  let ?k = "k\<lparr>buffer_start := (buffer_start k + 1) AND 0xFF\<rparr>"
  have get: "keyboard_buffer_get k = (kbd_buffer k ! unat (buffer_start k), ?k)"
    using assms(2) buffer_empty_used [of k] by (simp add: keyboard_buffer_get_def)
  have "unat (buffer_end ?k) = (unat (buffer_start ?k) + n) mod 256"
    using buffer_end_used [of k] assms(2) by (simp add: unat_u8_Suc mod_add_left_eq)
  then have used: "kbd_used ?k = n" using assms(2) kbd_used_less [of k] by (intro kbd_used_eq) simp_all
  have cons: "kbd_contents k = kbd_buffer k ! unat (buffer_start k) # kbd_contents ?k"
    using ring_slice_Cons [of "kbd_buffer k" "unat (buffer_start k)" n] assms used u8_less [of "buffer_start k"]
    by (simp add: kbd_contents_def kbd_ok_def unat_u8_Suc)
  show thesis by (rule that [of ?k]) (use get cons used assms(1) in \<open>simp_all add: kbd_ok_def\<close>)
qed

lemma length_kbd_contents [simp]: "length (kbd_contents k) = kbd_used k"
  by (simp add: kbd_contents_def)

lemma buffer_puts:
  "kbd_ok k \<Longrightarrow> kbd_used k + length xs \<le> 255 \<Longrightarrow>
    kbd_ok (keyboard_buffer_puts xs k) \<and> kbd_contents (keyboard_buffer_puts xs k) = kbd_contents k @ xs"
proof (induction xs arbitrary: k)
  case (Cons c xs)
  note step = buffer_put_step [OF Cons.prems(1), of c]
  from Cons.IH [of "keyboard_buffer_put c k"] step Cons.prems(2) show ?case
    by (simp add: keyboard_buffer_puts_def)
qed (simp add: keyboard_buffer_puts_def)

lemma buffer_gets:
  "kbd_ok k \<Longrightarrow> n \<le> kbd_used k \<Longrightarrow> kbd_ok (snd (keyboard_buffer_gets n k)) \<and>
    fst (keyboard_buffer_gets n k) = take n (kbd_contents k) \<and>
    kbd_contents (snd (keyboard_buffer_gets n k)) = drop n (kbd_contents k)"
proof (induction n arbitrary: k)
  case (Suc n)
  then obtain m where m: "kbd_used k = Suc m" by (cases "kbd_used k") auto
  obtain k' where k': "keyboard_buffer_get k = (hd (kbd_contents k), k')" "kbd_ok k'"
    "kbd_contents k' = tl (kbd_contents k)" "kbd_used k' = m"
    using buffer_get_step [OF Suc.prems(1) m] by metis
  have "kbd_contents k \<noteq> []" using m by (metis length_kbd_contents list.size(3) nat.distinct(1))
  with Suc.IH [OF k'(2)] Suc.prems(2) m k' show ?case
    by (auto simp: take_Suc drop_Suc split: prod.split)
qed simp

interpretation kbd_ring: ring kbd_ok kbd_contents 255 keyboard_buffer_puts keyboard_buffer_gets
  by unfold_locales (use kbd_used_less buffer_puts buffer_gets in \<open>auto simp: less_Suc_eq_le [symmetric]\<close>)

section \<open>Line input\<close>

text \<open>What a typed line becomes: a backspace removes the character in front of it.\<close>

fun edit_line :: "string \<Rightarrow> string \<Rightarrow> string" where
  "edit_line acc [] = acc"
| "edit_line acc (c # xs) = (if c = BS then edit_line (butlast acc) xs else edit_line (acc @ [c]) xs)"

lemma keyboard_wait_ready: "kbd_used (keyboard_state s) \<noteq> 0 \<Longrightarrow> keyboard_wait irq s = Some s"
  by (subst keyboard_wait.simps) (simp add: buffer_empty_used)

lemma keyboard_getchar_ready:
  assumes "kbd_ok (keyboard_state s)" "kbd_contents (keyboard_state s) = c # xs"
  obtains s' where "keyboard_getchar irq s = Some (c, s')" "kbd_ok (keyboard_state s')"
    "kbd_contents (keyboard_state s') = xs"
proof -
  have n: "kbd_used (keyboard_state s) = Suc (length xs)"
    using assms(2) by (metis length_Cons length_kbd_contents)
  obtain k where k: "keyboard_buffer_get (keyboard_state s) = (c, k)" "kbd_ok k" "kbd_contents k = xs"
    using buffer_get_step [OF assms(1) n] assms(2) by (metis list.sel(1,3))
  have "keyboard_getchar irq s = Some (c, s\<lparr>keyboard_state := k\<rparr>)"
    using keyboard_wait_ready [of s irq] n k(1) by (simp add: keyboard_getchar_def)
  with k that [of "s\<lparr>keyboard_state := k\<rparr>"] show thesis by simp
qed

lemma echo_kbd [simp]: "keyboard_state (echo c s) = keyboard_state s"
  by (simp add: echo_def)

lemma take_update_snoc: "i < length buf \<Longrightarrow> take (Suc i) (buf[i := c]) = take i buf @ [c]"
  by (simp add: take_Suc_conv_app_nth)

lemma butlast_take_pred: "i \<le> length buf \<Longrightarrow> butlast (take i buf) = take (i - 1) buf"
  by (simp add: butlast_take)

lemma keyboard_read_loop_line:
  assumes "kbd_ok (keyboard_state s)" "kbd_contents (keyboard_state s) = xs @ NL # rest" "NL \<notin> set xs"
    "i + length xs < cnt" "cnt \<le> length buf" "cnt < 2 ^ 31"
  shows "\<exists>buf' s'. keyboard_read_loop irq cnt i buf s = Some (int (length (edit_line (take i buf) xs)) + 1, buf', s') \<and>
    take (length (edit_line (take i buf) xs) + 1) buf' = edit_line (take i buf) xs @ [NL] \<and>
    length buf' = length buf \<and> kbd_ok (keyboard_state s') \<and> kbd_contents (keyboard_state s') = rest"
  using assms
proof (induction xs arbitrary: i buf s)
  case Nil
  obtain s1 where s1: "keyboard_getchar irq s = Some (NL, s1)" "kbd_ok (keyboard_state s1)"
    "kbd_contents (keyboard_state s1) = rest"
    using keyboard_getchar_ready [of s NL rest irq] Nil.prems(1,2) by auto
  have w: "wrap32 (int (i + 1)) = int i + 1" using Nil.prems(4,6) by (subst wrap32_id) simp_all
  show ?case
    using s1 Nil.prems(4,5) w take_update_snoc [of i buf NL]
    by (subst keyboard_read_loop.simps) simp
next
  case (Cons c xs)
  obtain s1 where s1: "keyboard_getchar irq s = Some (c, s1)" "kbd_ok (keyboard_state s1)"
    "kbd_contents (keyboard_state s1) = xs @ NL # rest"
    using keyboard_getchar_ready [of s c "xs @ NL # rest" irq] Cons.prems(1,2) by auto
  have c: "c \<noteq> NL" using Cons.prems(3) by auto
  show ?case
  proof (cases "c = BS")
    case True
    let ?s2 = "if i > 0 then echo BS (echo (CHR '' '') (echo BS s1)) else s1"
    have "keyboard_read_loop irq cnt i buf s = keyboard_read_loop irq cnt (i - 1) buf ?s2"
      using s1(1) c True Cons.prems(4) by (subst keyboard_read_loop.simps) simp
    moreover have "butlast (take i buf) = take (i - 1) buf"
      using Cons.prems(4,5) by (intro butlast_take_pred) simp
    ultimately show ?thesis
      using Cons.IH [of ?s2 "i - 1" buf] s1(2,3) True Cons.prems(3-6) by simp
  next
    case False
    have "keyboard_read_loop irq cnt i buf s = keyboard_read_loop irq cnt (i + 1) (buf[i := c]) (echo c s1)"
      using s1(1) c False Cons.prems(4) by (subst keyboard_read_loop.simps) simp
    moreover have "take (i + 1) (buf[i := c]) = take i buf @ [c]"
      using Cons.prems(4,5) take_update_snoc [of i buf c] by simp
    ultimately show ?thesis
      using Cons.IH [of "echo c s1" "i + 1" "buf[i := c]"] s1(2,3) False Cons.prems(3-6) by simp
  qed
qed

section \<open>Typing\<close>

definition plain_key :: "u8 \<Rightarrow> bool" where
  "plain_key c \<longleftrightarrow> c < 128 \<and> kbd_us_lowercase ! unat c \<noteq> NUL \<and>
     c \<notin> {KEY_LSHIFT, KEY_RSHIFT, KEY_LCTRL, KEY_LALT, KEY_CAPSLOCK, KEY_NUMLOCK, KEY_SCROLLLOCK}"

definition no_modifiers :: "keyboard \<Rightarrow> bool" where
  "no_modifiers k \<longleftrightarrow> shift_pressed k = 0 \<and> ctrl_pressed k = 0 \<and> caps_lock k = 0"

lemma bit_0x80: "bit (0x80 :: u8) n \<longleftrightarrow> n = 7"
  using bit_exp_iff [of 7 n, where 'a = u8] by (auto simp: not_less)

lemma bit_128_int: "bit (128 :: int) n \<longleftrightarrow> n = 7"
  using bit_exp_iff [of 7 n, where 'a = int] by auto

lemma or_and_not:
  fixes c x :: u8
  assumes "c AND x = 0"
  shows "(c OR x) AND NOT x = c"
proof (rule bit_word_eqI)
  fix n assume "n < LENGTH(8)"
  have "\<not> (bit c n \<and> bit x n)" using assms by (metis bit_0_eq bit_and_iff bot_apply bot_bool_def)
  with \<open>n < LENGTH(8)\<close> show "bit ((c OR x) AND NOT x) n = bit c n" by (auto simp: bit_simps)
qed

lemma release_bits:
  fixes c :: u8
  assumes "c < 128"
  shows "c AND 0x80 = 0" "(c OR 0x80) AND 0x80 \<noteq> 0" "(c OR 0x80) AND NOT 0x80 = c"
proof -
  have "take_bit 7 c = c"
    using assms by (simp add: word_eq_iff_unsigned [where 'a = nat] unsigned_take_bit_eq take_bit_nat_eq_self word_less_nat_alt)
  then have low: "\<not> bit c 7" by (metis bit_take_bit_iff order_less_irrefl)
  show "c AND 0x80 = 0"
    by (rule bit_word_eqI) (use low in \<open>auto simp: bit_and_iff bit_128_int\<close>)
  then show "(c OR 0x80) AND NOT 0x80 = c" by (rule or_and_not)
  have "(c OR 0x80) AND 0x80 = 0x80"
    by (rule bit_word_eqI) (auto simp: bit_and_iff bit_or_iff bit_0x80 bit_128_int)
  then show "(c OR 0x80) AND 0x80 \<noteq> 0" by simp
qed

lemma upd_kbd_state [simp]: "keyboard_state (upd_kbd f s) = f (keyboard_state s)"
  by (simp add: upd_kbd_def)

lemma kbd_contents_mode [simp]:
  "kbd_contents (k\<lparr>kbd_mode := m\<rparr>) = kbd_contents k" "kbd_ok (k\<lparr>kbd_mode := m\<rparr>) = kbd_ok k"
  "kbd_used (k\<lparr>kbd_mode := m\<rparr>) = kbd_used k" "no_modifiers (k\<lparr>kbd_mode := m\<rparr>) = no_modifiers k"
  by (simp_all add: kbd_contents_def kbd_used_def kbd_ok_def no_modifiers_def)

lemma no_modifiers_put [simp]: "no_modifiers (keyboard_buffer_put c k) = no_modifiers k"
  by (simp add: keyboard_buffer_put_def no_modifiers_def)

lemma press_plain:
  assumes "plain_key c" "no_modifiers (keyboard_state s)"
  shows "keyboard_state (keyboard_handler c s) =
    (keyboard_buffer_put (kbd_us_lowercase ! unat c) (keyboard_state s))\<lparr>kbd_mode := KEYMODE_NORMAL\<rparr>"
proof -
  have c: "c \<noteq> 0xE0" "c AND 0x80 = 0" "c < 128" using assms(1) release_bits(1) by (auto simp: plain_key_def)
  then show ?thesis
    using assms by (simp add: keyboard_handler_def plain_key_def key_char_def no_modifiers_def)
qed

lemma release_plain:
  assumes "plain_key c"
  shows "keyboard_state (keyboard_handler (c OR 0x80) s) = (keyboard_state s)\<lparr>kbd_mode := KEYMODE_NORMAL\<rparr>"
proof -
  have "c < 128" using assms by (simp add: plain_key_def)
  note bits = release_bits [OF this]
  have "c OR 0x80 \<noteq> 0xE0"
  proof
    assume "c OR 0x80 = 0xE0"
    with bits(3) have "c = 0xE0 AND NOT 0x80" by simp
    then have "c = 0x60" by simp
    with assms show False by (simp add: plain_key_def kbd_us_lowercase_def)
  qed
  with bits assms show ?thesis by (simp add: keyboard_handler_def key_release_def plain_key_def)
qed

lemma type_keys:
  assumes "list_all plain_key codes" "no_modifiers (keyboard_state s)" "kbd_ok (keyboard_state s)"
    "length (kbd_contents (keyboard_state s)) + length codes \<le> 255"
  shows "kbd_contents (keyboard_state (fold keyboard_handler (concat (map (\<lambda>c. [c, c OR KEY_RELEASE]) codes)) s)) =
    kbd_contents (keyboard_state s) @ map (\<lambda>c. kbd_us_lowercase ! unat c) codes"
  using assms
proof (induction codes arbitrary: s)
  case (Cons c codes)
  let ?s1 = "keyboard_handler c s" and ?s2 = "keyboard_handler (c OR KEY_RELEASE) (keyboard_handler c s)"
  have c: "plain_key c" using Cons.prems(1) by simp
  note press = press_plain [OF c Cons.prems(2)]
  have s2: "keyboard_state ?s2 = keyboard_state ?s1" by (simp add: release_plain [OF c] press)
  have "kbd_used (keyboard_state s) < 255" using Cons.prems(4) by simp
  note put = buffer_put_step [OF Cons.prems(3) this, of "kbd_us_lowercase ! unat c"]
  show ?case
    using Cons.IH [of ?s2] Cons.prems put s2 press by simp
qed simp

definition sample_kkbd :: "keyboard \<Rightarrow> kkbd" where
  "sample_kkbd k = kpipe.extend sample_kpipe \<lparr>keyboard_state = k\<rparr>"

lemma sample_kkbd [simp]: "keyboard_state (sample_kkbd k) = k"
  by (simp add: sample_kkbd_def kpipe.defs)

lemma zero_keyboard_ok: "kbd_ok zero_keyboard" "kbd_contents zero_keyboard = []" "no_modifiers zero_keyboard"
  by (simp_all add: zero_keyboard_def kbd_ok_def kbd_contents_def kbd_used_def no_modifiers_def)

section \<open>Properties\<close>



text \<open>Typing works: pressing and releasing keys one after the other, with no modifier active, appends
  exactly their characters to the buffer, in order, as long as there is room.\<close>

theorem keyboard_types:
  assumes "list_all plain_key codes" "no_modifiers (keyboard_state s)" "kbd_ok (keyboard_state s)"
    "length (kbd_contents (keyboard_state s)) + length codes \<le> 255"
  shows "kbd_contents (keyboard_state (fold keyboard_handler (concat (map (\<lambda>c. [c, c OR KEY_RELEASE]) codes)) s)) =
    kbd_contents (keyboard_state s) @ map (\<lambda>c. kbd_us_lowercase ! unat c) codes"
  by (rule type_keys [OF assms])

theorem keyboard_types_witness:
  "kbd_contents (keyboard_state (fold keyboard_handler [0x26, 0xA6, 0x1F, 0x9F] (sample_kkbd zero_keyboard))) = ''ls''"
  using keyboard_types [of "[0x26, 0x1F]" "sample_kkbd zero_keyboard"] zero_keyboard_ok
  by (simp add: plain_key_def kbd_us_lowercase_def)

text \<open>Line input: when the buffer holds a line, \<open>keyboard_read\<close> returns without waiting; the caller's buffer
  holds the line as edited by its backspaces, with the newline, the result is its length, and the
  characters after the line stay in the keyboard buffer.\<close>

theorem keyboard_read_line:
  assumes "kbd_ok (keyboard_state s)" "kbd_contents (keyboard_state s) = xs @ NL # rest" "NL \<notin> set xs"
    "length xs < cnt" "cnt \<le> length buf" "cnt < 2 ^ 31"
  shows "\<exists>buf' s'. keyboard_read irq buf cnt s = Some (int (length (edit_line [] xs)) + 1, buf', s') \<and>
    take (length (edit_line [] xs) + 1) buf' = edit_line [] xs @ [NL] \<and> kbd_contents (keyboard_state s') = rest"
  using keyboard_read_loop_line [OF assms(1-3), of 0 cnt buf irq] assms(4-6) by (auto simp: keyboard_read_def)

theorem keyboard_read_line_witness:
  "\<exists>buf' s'. keyboard_read (\<lambda>_. None) (replicate 10 NUL) 10
      (sample_kkbd (keyboard_buffer_puts (''lx'' @ [BS, CHR ''s'', NL]) zero_keyboard)) = Some (3, buf', s') \<and>
    take 3 buf' = ''ls'' @ [NL]"
proof -
  let ?k = "keyboard_buffer_puts (''lx'' @ [BS, CHR ''s'', NL]) zero_keyboard"
  have "kbd_ok ?k \<and> kbd_contents ?k = kbd_contents zero_keyboard @ ''lx'' @ [BS, CHR ''s'', NL]"
    by (rule buffer_puts) (simp_all add: zero_keyboard_def kbd_ok_def kbd_used_def)
  then have k: "kbd_ok (keyboard_state (sample_kkbd ?k))"
    "kbd_contents (keyboard_state (sample_kkbd ?k)) = (''lx'' @ [BS, CHR ''s'']) @ NL # []"
    using zero_keyboard_ok(2) by simp_all
  show ?thesis
    using keyboard_read_line [OF k, of 10 "replicate 10 NUL" "\<lambda>_. None"] by (auto simp: numeral_3_eq_3)
qed

text \<open>The tail of the translation table is one place off: the left arrow key, in its extended form,
  types a minus sign, while the minus key of the keypad types nothing (and the same for plus and the
  end key).\<close>

theorem keypad_off_by_one:
  assumes "no_modifiers (keyboard_state s)" "kbd_ok (keyboard_state s)" "kbd_used (keyboard_state s) < 255"
  shows "kbd_contents (keyboard_state (keyboard_handler 0x4B (keyboard_handler 0xE0 s))) =
      kbd_contents (keyboard_state s) @ ''-'' \<and>
    kbd_contents (keyboard_state (keyboard_handler 0x4A s)) = kbd_contents (keyboard_state s) \<and>
    kbd_contents (keyboard_state (keyboard_handler 0x4F (keyboard_handler 0xE0 s))) =
      kbd_contents (keyboard_state s) @ ''+'' \<and>
    kbd_contents (keyboard_state (keyboard_handler 0x4E s)) = kbd_contents (keyboard_state s)"
proof -
  have ext: "keyboard_state (keyboard_handler 0xE0 s) = (keyboard_state s)\<lparr>kbd_mode := KEYMODE_EXTENDED\<rparr>"
    by (simp add: keyboard_handler_def)
  let ?k = "(keyboard_state s)\<lparr>kbd_mode := KEYMODE_EXTENDED\<rparr>"
  have plain: "plain_key 0x4B" "plain_key 0x4F" by (simp_all add: plain_key_def kbd_us_lowercase_def)
  have k: "kbd_ok ?k" "kbd_used ?k < 255" "no_modifiers ?k" using assms by simp_all
  have "kbd_us_lowercase ! unat (0x4B :: u8) = CHR ''-''" "kbd_us_lowercase ! unat (0x4F :: u8) = CHR ''+''"
    by (simp_all add: kbd_us_lowercase_def)
  then show ?thesis
    using press_plain [OF plain(1), of "keyboard_handler 0xE0 s"] press_plain [OF plain(2), of "keyboard_handler 0xE0 s"]
      k ext buffer_put_step(2) [OF k(1,2)] assms(1)
    by (simp add: keyboard_handler_def key_char_def no_modifiers_def kbd_us_lowercase_def)
qed

theorem keypad_off_by_one_witness:
  "kbd_contents (keyboard_state (keyboard_handler 0x4B (keyboard_handler 0xE0 (sample_kkbd zero_keyboard)))) = ''-'' \<and>
   kbd_contents (keyboard_state (keyboard_handler 0x4A (sample_kkbd zero_keyboard))) = []"
  using keypad_off_by_one [of "sample_kkbd zero_keyboard"] zero_keyboard_ok length_kbd_contents [of zero_keyboard]
  by simp

end
