(* ===== verification/Paging.thy ===== *)
theory Paging
  imports Keyboard
begin

text \<open>
  Physical pages and the four-level page tables of \<open>paging.c\<close>. Physical memory is a function from
  addresses to the 64-bit cells stored there, which is how the code sees it: page tables are read and
  written through their physical addresses. The allocation bitmap is a list of bytes of its own. A
  null pointer is 0, or \<^const>\<open>None\<close> for a pointer to a page table entry. \<^const>\<open>None\<close> as the result of
  an operation that frees is an access outside the bitmap. Flushing the TLB has no counterpart.
\<close>

abbreviation PAGE_SIZE :: nat where "PAGE_SIZE \<equiv> 4096"
abbreviation PAGE_PRESENT :: u64 where "PAGE_PRESENT \<equiv> 1"
abbreviation PAGE_WRITABLE :: u64 where "PAGE_WRITABLE \<equiv> 2"
abbreviation PAGE_USER :: u64 where "PAGE_USER \<equiv> 4"
abbreviation KERNEL_BASE :: u64 where "KERNEL_BASE \<equiv> 0xFFFFFFFF80000000"
abbreviation USER_BASE :: u64 where "USER_BASE \<equiv> 0x400000"
abbreviation USER_STACK_TOP :: u64 where "USER_STACK_TOP \<equiv> 0x7FFFFFFFFFFF"

definition ADDR_MASK :: u64 where "ADDR_MASK = 0x000FFFFFFFFFF000"

record memory_map_entry =
  mm_start :: u64
  mm_size :: u64
  mm_type :: u8

record physical_memory_manager =
  total_memory :: u64
  free_memory :: u64
  used_memory :: u64
  reserved_memory :: u64
  bitmap :: "u8 list"

record kpage = kkbd +
  pmm :: physical_memory_manager
  pml4 :: u64
  phys :: "u64 \<Rightarrow> u64"
  kernel_heap :: u64

section \<open>Physical pages\<close>

definition page_bit :: "nat \<Rightarrow> u8" where
  "page_bit i = push_bit (i mod 8) 1"

definition zero_page :: "u64 \<Rightarrow> (u64 \<Rightarrow> u64) \<Rightarrow> u64 \<Rightarrow> u64" where
  "zero_page addr m = (\<lambda>a. if unat addr \<le> unat a \<and> unat a < unat addr + PAGE_SIZE then 0 else m a)"

definition pmm_alloc_page :: "'z kpage_scheme \<Rightarrow> u64 \<times> 'z kpage_scheme" where
  "pmm_alloc_page s =
     (case find_index (\<lambda>i. bitmap (pmm s) ! (i div 8) AND page_bit i = 0) [0..<8 * length (bitmap (pmm s))] of
        Some i \<Rightarrow>
          (of_nat (i * PAGE_SIZE),
           s\<lparr>pmm := (pmm s)\<lparr>bitmap := upd_nth (i div 8) (\<lambda>b. b OR page_bit i) (bitmap (pmm s)),
               free_memory := free_memory (pmm s) - of_nat PAGE_SIZE,
               used_memory := used_memory (pmm s) + of_nat PAGE_SIZE\<rparr>,
             phys := zero_page (of_nat (i * PAGE_SIZE)) (phys s)\<rparr>)
      | None \<Rightarrow> (0, kprint (''Hata: Fiziksel bellek doldu!'' @ [NL]) s))"

definition pmm_free_page :: "u64 \<Rightarrow> 'z kpage_scheme \<Rightarrow> 'z kpage_scheme option" where
  "pmm_free_page addr s =
     (if addr mod of_nat PAGE_SIZE \<noteq> 0 then
        Some (kprint (''Hata: Hizalanmamis adres serbest birakilmaya calisiliyor!'' @ [NL]) s)
      else let bit_index = unat (addr div of_nat PAGE_SIZE)
           in if length (bitmap (pmm s)) \<le> bit_index div 8 then None
              else if bitmap (pmm s) ! (bit_index div 8) AND page_bit bit_index = 0 then
                Some (kprint (''Hata: Zaten serbest olan sayfa serbest birakilmaya calisiliyor!'' @ [NL]) s)
              else Some (s\<lparr>pmm := (pmm s)\<lparr>
                bitmap := upd_nth (bit_index div 8) (\<lambda>b. b AND NOT (page_bit bit_index)) (bitmap (pmm s)),
                free_memory := free_memory (pmm s) + of_nat PAGE_SIZE,
                used_memory := used_memory (pmm s) - of_nat PAGE_SIZE\<rparr>\<rparr>))"

section \<open>Page tables\<close>

definition paging_make_entry :: "u64 \<Rightarrow> u64 \<Rightarrow> u64" where
  "paging_make_entry phys_addr flags = (phys_addr AND ADDR_MASK) OR flags"

definition entry_addr :: "u64 \<Rightarrow> nat \<Rightarrow> u64" where
  "entry_addr table index = table + of_nat (8 * index)"

definition pml4_index :: "u64 \<Rightarrow> nat" where "pml4_index addr = unat (drop_bit 39 addr AND 0x1FF)"
definition pdpt_index :: "u64 \<Rightarrow> nat" where "pdpt_index addr = unat (drop_bit 30 addr AND 0x1FF)"
definition pd_index :: "u64 \<Rightarrow> nat" where "pd_index addr = unat (drop_bit 21 addr AND 0x1FF)"
definition pt_index :: "u64 \<Rightarrow> nat" where "pt_index addr = unat (drop_bit 12 addr AND 0x1FF)"

text \<open>One level of \<open>paging_walk\<close>: the next table, created when it is missing and \<open>alloc\<close> is set.\<close>

definition walk_level :: "bool \<Rightarrow> u64 \<Rightarrow> u64 \<Rightarrow> nat \<Rightarrow> 'z kpage_scheme \<Rightarrow> u64 option \<times> 'z kpage_scheme" where
  "walk_level alc flags table index s =
     (if phys s (entry_addr table index) AND PAGE_PRESENT = 0 then
        (if \<not> alc then (None, s)
         else let (page, s1) = pmm_alloc_page s
              in if page = 0 then (None, s1)
                 else let s2 = s1\<lparr>phys := (phys s1)(entry_addr table index :=
                            paging_make_entry page (PAGE_PRESENT OR PAGE_WRITABLE OR flags))\<rparr>
                      in (Some (phys s2 (entry_addr table index) AND ADDR_MASK), s2))
      else (Some (phys s (entry_addr table index) AND ADDR_MASK), s))"

definition paging_walk :: "u64 \<Rightarrow> bool \<Rightarrow> u64 \<Rightarrow> 'z kpage_scheme \<Rightarrow> u64 option \<times> 'z kpage_scheme" where
  "paging_walk virt_addr alc flags s =
     (case walk_level alc flags (pml4 s) (pml4_index virt_addr) s of
        (None, s1) \<Rightarrow> (None, s1)
      | (Some pdpt, s1) \<Rightarrow>
          (case walk_level alc flags pdpt (pdpt_index virt_addr) s1 of
             (None, s2) \<Rightarrow> (None, s2)
           | (Some pd, s2) \<Rightarrow>
               (case walk_level alc flags pd (pd_index virt_addr) s2 of
                  (None, s3) \<Rightarrow> (None, s3)
                | (Some pt, s3) \<Rightarrow> (Some (entry_addr pt (pt_index virt_addr)), s3))))"

text \<open>The body of the two marking loops of \<open>paging_init\<close>; \<^const>\<open>None\<close> when it leaves the bitmap.\<close>

fun mark_pages :: "nat list \<Rightarrow> u8 list \<Rightarrow> u8 list option" where
  "mark_pages [] bm = Some bm"
| "mark_pages (i # is) bm =
     (if i div 8 < length bm then mark_pages is (upd_nth (i div 8) (\<lambda>b. b OR page_bit i) bm) else None)"

text \<open>
  The bitmap lies at 1 MB; \<open>boot_pml4\<close> is the table the boot code has set up. The marking loops run
  over the pages of the kernel (the first 4 MB) and over those of the bitmap.
\<close>

definition paging_init :: "u64 \<Rightarrow> memory_map_entry list \<Rightarrow> 'z kpage_scheme \<Rightarrow> 'z kpage_scheme option" where
  "paging_init boot_pml4 mmap s =
     (let usable = sum_list (map mm_size (filter (\<lambda>e. mm_type e = 1) mmap));
          reserved = sum_list (map mm_size (filter (\<lambda>e. mm_type e \<noteq> 1) mmap));
          size0 = usable div of_nat PAGE_SIZE div 8;
          bitmap_size = (if size0 * 8 * of_nat PAGE_SIZE < usable then size0 + 1 else size0);
          bitmap_pages = unat ((bitmap_size + 4095) div of_nat PAGE_SIZE);
          reserved_pages = (0x400000 + bitmap_size) div of_nat PAGE_SIZE
      in do { bm1 \<leftarrow> mark_pages [0..<1024] (replicate (unat bitmap_size) 0);
              bm2 \<leftarrow> mark_pages [256..<256 + bitmap_pages] bm1;
              let s1 = s\<lparr>pmm := \<lparr>total_memory = usable,
                        free_memory = usable - reserved_pages * of_nat PAGE_SIZE,
                        used_memory = reserved_pages * of_nat PAGE_SIZE, reserved_memory = reserved,
                        bitmap = bm2\<rparr>, pml4 := boot_pml4\<rparr>;
              Some (kprint ('' MB'' @ [NL]) (kprint (int_to_string (u64_to_int (usable div 1024 div 1024)))
                (kprint ''Sayfalama baslatildi. Bellek: '' s1))) })"

definition paging_alloc_page :: "'z kpage_scheme \<Rightarrow> u64 \<times> 'z kpage_scheme" where
  "paging_alloc_page s = pmm_alloc_page s"

definition paging_free_page :: "u64 \<Rightarrow> 'z kpage_scheme \<Rightarrow> 'z kpage_scheme option" where
  "paging_free_page addr s = pmm_free_page addr s"

definition page_align :: "u64 \<Rightarrow> u64" where
  "page_align addr = addr AND NOT 0xFFF"

definition paging_map_page :: "u64 \<Rightarrow> u64 \<Rightarrow> u64 \<Rightarrow> 'z kpage_scheme \<Rightarrow> u64 \<times> 'z kpage_scheme" where
  "paging_map_page phys_addr virt_addr0 flags s =
     (let virt_addr = page_align virt_addr0
      in case paging_walk virt_addr True flags s of
           (None, s1) \<Rightarrow> (0, s1)
         | (Some pt_entry, s1) \<Rightarrow>
             if phys s1 pt_entry AND PAGE_PRESENT \<noteq> 0
             then (0, kprint (''Hata: Sayfa zaten eslemesi var!'' @ [NL]) s1)
             else (virt_addr, s1\<lparr>phys := (phys s1)(pt_entry := paging_make_entry phys_addr (PAGE_PRESENT OR flags))\<rparr>))"

definition paging_unmap_page :: "u64 \<Rightarrow> 'z kpage_scheme \<Rightarrow> 'z kpage_scheme" where
  "paging_unmap_page virt_addr s =
     (case paging_walk virt_addr False 0 s of
        (None, s1) \<Rightarrow> s1
      | (Some pt_entry, s1) \<Rightarrow> s1\<lparr>phys := (phys s1)(pt_entry := 0)\<rparr>)"

definition paging_get_physical_address :: "u64 \<Rightarrow> 'z kpage_scheme \<Rightarrow> u64" where
  "paging_get_physical_address virt_addr s =
     (case paging_walk virt_addr False 0 s of
        (None, s1) \<Rightarrow> 0
      | (Some pt_entry, s1) \<Rightarrow> (phys s1 pt_entry AND ADDR_MASK) OR (virt_addr AND 0xFFF))"

section \<open>Kernel pages\<close>

definition kmalloc_page :: "'z kpage_scheme \<Rightarrow> (u64 \<times> 'z kpage_scheme) option" where
  "kmalloc_page s =
     (let (phys_addr, s1) = pmm_alloc_page s
      in if phys_addr = 0 then Some (0, s1)
         else let (virt_addr, s2) = paging_map_page phys_addr (kernel_heap s1) PAGE_WRITABLE s1
              in if virt_addr = 0 then do { s3 \<leftarrow> pmm_free_page phys_addr s2; Some (0, s3) }
                 else Some (virt_addr, s2\<lparr>kernel_heap := kernel_heap s2 + of_nat PAGE_SIZE\<rparr>))"

definition kfree_page :: "u64 \<Rightarrow> 'z kpage_scheme \<Rightarrow> 'z kpage_scheme option" where
  "kfree_page addr s =
     (let phys_addr = paging_get_physical_address addr s
      in if phys_addr = 0 then Some s else pmm_free_page phys_addr (paging_unmap_page addr s))"

fun kfree_pages_loop :: "u64 \<Rightarrow> nat list \<Rightarrow> 'z kpage_scheme \<Rightarrow> 'z kpage_scheme option" where
  "kfree_pages_loop addr [] s = Some s"
| "kfree_pages_loop addr (i # is) s =
     do { s1 \<leftarrow> kfree_page (addr + of_nat (i * PAGE_SIZE)) s; kfree_pages_loop addr is s1 }"

definition kfree_pages :: "u64 \<Rightarrow> nat \<Rightarrow> 'z kpage_scheme \<Rightarrow> 'z kpage_scheme option" where
  "kfree_pages addr cnt s = kfree_pages_loop addr [0..<cnt] s"

fun kmalloc_pages_loop :: "u64 \<Rightarrow> nat list \<Rightarrow> 'z kpage_scheme \<Rightarrow> (u64 \<times> 'z kpage_scheme) option" where
  "kmalloc_pages_loop first_page [] s = Some (first_page, s)"
| "kmalloc_pages_loop first_page (i # is) s =
     (let (phys_addr, s1) = pmm_alloc_page s
      in if phys_addr = 0 then do { s2 \<leftarrow> kfree_pages first_page i s1; Some (0, s2) }
         else let (virt_addr, s2) = paging_map_page phys_addr (first_page + of_nat (i * PAGE_SIZE)) PAGE_WRITABLE s1
              in if virt_addr = 0
                 then do { s3 \<leftarrow> pmm_free_page phys_addr s2; s4 \<leftarrow> kfree_pages first_page i s3; Some (0, s4) }
                 else kmalloc_pages_loop first_page is s2)"

definition kmalloc_pages :: "nat \<Rightarrow> 'z kpage_scheme \<Rightarrow> (u64 \<times> 'z kpage_scheme) option" where
  "kmalloc_pages cnt s =
     do { (first_page, s1) \<leftarrow> kmalloc_page s;
          if first_page = 0 then Some (0, s1) else kmalloc_pages_loop first_page [1..<cnt] s1 }"

section \<open>User address spaces\<close>

definition paging_create_user_address_space :: "'z kpage_scheme \<Rightarrow> u64 \<times> 'z kpage_scheme" where
  "paging_create_user_address_space s =
     (let (new_pml4, s1) = pmm_alloc_page s
      in if new_pml4 = 0 then (0, s1)
         else (new_pml4, s1\<lparr>phys := fold (\<lambda>i m. m(entry_addr new_pml4 i := m (entry_addr (pml4 s1) i)))
                [256..<512] (zero_page new_pml4 (phys s1))\<rparr>))"

definition paging_alloc_user_page ::
  "u64 \<Rightarrow> u64 \<Rightarrow> u64 \<Rightarrow> 'z kpage_scheme \<Rightarrow> (u64 \<times> 'z kpage_scheme) option" where
  "paging_alloc_user_page user_pml4 virt_addr flags s =
     (if virt_addr \<ge> KERNEL_BASE
      then Some (0, kprint (''Hata: Kullanici sayfasi kernel adres alaninda!'' @ [NL]) s)
      else let (phys_addr, s1) = pmm_alloc_page s
           in if phys_addr = 0 then Some (0, s1)
              else let original_pml4 = pml4 s1;
                       (mapped_addr, s2) = paging_map_page phys_addr virt_addr (flags OR PAGE_USER)
                         (s1\<lparr>pml4 := user_pml4\<rparr>);
                       s3 = s2\<lparr>pml4 := original_pml4\<rparr>
                   in if mapped_addr = 0 then do { s4 \<leftarrow> pmm_free_page phys_addr s3; Some (0, s4) }
                      else Some (mapped_addr, s3))"

definition paging_free_user_page :: "u64 \<Rightarrow> u64 \<Rightarrow> 'z kpage_scheme \<Rightarrow> 'z kpage_scheme option" where
  "paging_free_user_page user_pml4 virt_addr s =
     (let original_pml4 = pml4 s;
          s1 = s\<lparr>pml4 := user_pml4\<rparr>;
          phys_addr = paging_get_physical_address virt_addr s1;
          s2 = paging_unmap_page virt_addr s1
      in do { s3 \<leftarrow> (if phys_addr \<noteq> 0 then pmm_free_page phys_addr s2 else Some s2);
              Some (s3\<lparr>pml4 := original_pml4\<rparr>) })"

end
