(* ===== verification/PageTables.thy ===== *)
theory PageTables
  imports Paging
begin

text \<open>
  Correctness of the page tables of \<open>Paging\<close>. The tables reachable from a root form a tree of
  allocated frames (\<open>tables_ok\<close>); a virtual address is translated along the path of its four indices
  (\<open>translate\<close>). Mapping and unmapping a page are function updates of \<open>translate\<close>, which is all a
  client sees of them. The predicate is relative to a set \<open>D\<close> of indices of the root table: the boot
  code maps low memory with 2 MB pages below index 0, which the four-level walk does not know about.
\<close>

section \<open>The frame bitmap\<close>

definition page_used :: "u8 list \<Rightarrow> nat \<Rightarrow> bool" where
  "page_used bm k \<longleftrightarrow> bit (bm ! (k div 8)) (k mod 8)"

definition frame :: "nat \<Rightarrow> u64" where
  "frame k = of_nat (k * PAGE_SIZE)"

definition bitmap_ok :: "u8 list \<Rightarrow> bool" where
  "bitmap_ok bm \<longleftrightarrow> 8 * length bm \<le> 2 ^ 40 \<and> 0 < length bm \<and> page_used bm 0"

lemma page_bit_test: "b AND page_bit k = 0 \<longleftrightarrow> \<not> bit b (k mod 8)"
  unfolding page_bit_def by (simp add: push_bit_eq_mult and_exp_eq_0_iff_not_bit)

lemma bit_page_bit: "bit (page_bit k) n \<longleftrightarrow> n = k mod 8"
  by (auto simp: page_bit_def bit_simps)

lemma mod8_eq_iff: "k div 8 = j div 8 \<Longrightarrow> k mod 8 = j mod 8 \<longleftrightarrow> k = j" for k j :: nat
  by (metis div_mult_mod_eq)

lemma page_used_set:
  assumes k: "k < 8 * length bm"
  shows "page_used (upd_nth (k div 8) (\<lambda>b. b OR page_bit k) bm) j \<longleftrightarrow> j = k \<or> page_used bm j"
proof (cases "k div 8 = j div 8")
  case True
  have "k div 8 < length bm" using k by (simp add: less_mult_imp_div_less mult.commute)
  with True show ?thesis
    using mod8_eq_iff [OF True] by (auto simp: page_used_def bit_or_iff bit_page_bit)
qed (auto simp: page_used_def)

lemma page_used_clear:
  assumes k: "k < 8 * length bm"
  shows "page_used (upd_nth (k div 8) (\<lambda>b. b AND NOT (page_bit k)) bm) j \<longleftrightarrow> j \<noteq> k \<and> page_used bm j"
proof (cases "k div 8 = j div 8")
  case True
  have "k div 8 < length bm" using k by (simp add: less_mult_imp_div_less mult.commute)
  with True show ?thesis
    using mod8_eq_iff [OF True] by (auto simp: page_used_def bit_and_iff bit_not_iff bit_page_bit)
qed (auto simp: page_used_def)

lemma unat_frame: "k < 2 ^ 40 \<Longrightarrow> unat (frame k) = k * 4096"
  by (simp add: frame_def unat_of_nat take_bit_nat_eq_self del: of_nat_mult)

lemma frame_inj: "j < 2 ^ 40 \<Longrightarrow> k < 2 ^ 40 \<Longrightarrow> frame j = frame k \<longleftrightarrow> j = k"
  by (metis unat_frame mult_cancel2 zero_neq_numeral)

lemma frame_0_iff: "k < 2 ^ 40 \<Longrightarrow> frame k = 0 \<longleftrightarrow> k = 0"
  by (metis frame_inj frame_def mult_0 of_nat_0 zero_less_power zero_less_numeral)

definition first_free :: "u8 list \<Rightarrow> nat option" where
  "first_free bm = find_index (\<lambda>k. \<not> page_used bm k) [0..<8 * length bm]"

lemma pmm_alloc_page_eq:
  "pmm_alloc_page s =
     (case first_free (bitmap (pmm s)) of
        Some k \<Rightarrow>
          (frame k,
           s\<lparr>pmm := (pmm s)\<lparr>bitmap := upd_nth (k div 8) (\<lambda>b. b OR page_bit k) (bitmap (pmm s)),
               free_memory := free_memory (pmm s) - of_nat PAGE_SIZE,
               used_memory := used_memory (pmm s) + of_nat PAGE_SIZE\<rparr>,
             phys := zero_page (frame k) (phys s)\<rparr>)
      | None \<Rightarrow> (0, kprint (''Hata: Fiziksel bellek doldu!'' @ [NL]) s))"
  unfolding pmm_alloc_page_def first_free_def page_used_def frame_def page_bit_test ..

lemma first_free_SomeD:
  assumes "first_free bm = Some k"
  shows "k < 8 * length bm" "\<not> page_used bm k"
  using assms by (auto simp: first_free_def find_index_upt)

lemma first_free_None: "first_free bm = None \<longleftrightarrow> (\<forall>k < 8 * length bm. page_used bm k)"
  by (auto simp: first_free_def find_index_None)

definition free_count :: "u8 list \<Rightarrow> nat" where
  "free_count bm = card {k. k < 8 * length bm \<and> \<not> page_used bm k}"

lemma first_free_None_count: "first_free bm = None \<longleftrightarrow> free_count bm = 0"
  by (auto simp: first_free_None free_count_def)

lemma free_count_marked:
  assumes "k < 8 * length bm" "\<not> page_used bm k"
  shows "free_count bm = Suc (free_count (upd_nth (k div 8) (\<lambda>b. b OR page_bit k) bm))"
proof -
  let ?F = "{j. j < 8 * length bm \<and> \<not> page_used bm j}"
  have "{j. j < 8 * length bm \<and> \<not> page_used (upd_nth (k div 8) (\<lambda>b. b OR page_bit k) bm) j} = ?F - {k}"
    using page_used_set [OF assms(1)] by auto
  moreover have "finite ?F" "k \<in> ?F" using assms by simp_all
  ultimately show ?thesis unfolding free_count_def length_upd_nth using card_Suc_Diff1 [of ?F k] by presburger
qed

section \<open>Entries\<close>

lemma bit_ADDR_MASK: "bit ADDR_MASK n \<longleftrightarrow> 12 \<le> n \<and> n < 52"
proof -
  have "ADDR_MASK = push_bit 12 (mask 40)" by (simp add: ADDR_MASK_def mask_eq_exp_minus_1)
  moreover have "bit (push_bit 12 (mask 40 :: u64)) n \<longleftrightarrow> 12 \<le> n \<and> n < 52" by (auto simp: bit_simps)
  ultimately show ?thesis by (simp only:)
qed

lemma bit_frame: "k < 2 ^ 40 \<Longrightarrow> bit (frame k) n \<longleftrightarrow> 12 \<le> n \<and> n < 52 \<and> bit k (n - 12)"
proof -
  assume k: "k < 2 ^ 40"
  have "frame k = push_bit 12 (of_nat k)" by (simp add: frame_def push_bit_eq_mult)
  moreover have "bit k m \<Longrightarrow> m < 40" for m
    using k by (metis bit_take_bit_iff take_bit_nat_eq_self)
  ultimately show ?thesis by (auto simp: bit_simps) (fastforce+)
qed

lemma frame_mask [simp]: "k < 2 ^ 40 \<Longrightarrow> frame k AND ADDR_MASK = frame k"
  by (rule bit_word_eqI) (auto simp: bit_and_iff bit_frame bit_ADDR_MASK)

lemma make_entry_addr:
  assumes "flags AND ADDR_MASK = 0"
  shows "paging_make_entry p flags AND ADDR_MASK = p AND ADDR_MASK"
proof -
  have "(p AND ADDR_MASK OR flags) AND ADDR_MASK = (p AND ADDR_MASK) OR (flags AND ADDR_MASK)"
    by (rule bit_word_eqI) (auto simp: bit_simps)
  with assms show ?thesis by (simp add: paging_make_entry_def)
qed

lemma present_iff: "e AND PAGE_PRESENT = 0 \<longleftrightarrow> \<not> bit e 0"
  using and_exp_eq_0_iff_not_bit [of e 0] by simp

lemma make_entry_present: "paging_make_entry p (PAGE_PRESENT OR flags) AND PAGE_PRESENT \<noteq> 0"
  unfolding present_iff by (simp add: paging_make_entry_def bit_or_iff)

lemma flags_mask:
  assumes "flags AND ADDR_MASK = 0"
  shows "(PAGE_PRESENT OR flags) AND ADDR_MASK = 0" "(PAGE_PRESENT OR PAGE_WRITABLE OR flags) AND ADDR_MASK = 0"
proof -
  have "(1 OR flags) AND ADDR_MASK = (1 AND ADDR_MASK) OR (flags AND ADDR_MASK)"
    "(1 OR 2 OR flags) AND ADDR_MASK = (1 AND ADDR_MASK) OR (2 AND ADDR_MASK) OR (flags AND ADDR_MASK)"
    by (rule bit_word_eqI, auto simp: bit_simps)+
  with assms show "(PAGE_PRESENT OR flags) AND ADDR_MASK = 0"
    "(PAGE_PRESENT OR PAGE_WRITABLE OR flags) AND ADDR_MASK = 0"
    by (simp_all add: ADDR_MASK_def)
qed

lemma unat_entry_addr: "k < 2 ^ 40 \<Longrightarrow> i < 512 \<Longrightarrow> unat (entry_addr (frame k) i) = k * 4096 + 8 * i"
proof -
  assume *: "k < 2 ^ 40" "i < 512"
  have "entry_addr (frame k) i = of_nat (k * 4096 + 8 * i)" by (simp add: entry_addr_def frame_def)
  with * show ?thesis by (simp add: unat_of_nat take_bit_nat_eq_self del: of_nat_mult of_nat_add)
qed

lemma entry_div: "i < 512 \<Longrightarrow> (j * 4096 + 8 * i) div 4096 = j" for i j :: nat
  by simp

lemma entry_addr_eq_iff:
  assumes "j < 2 ^ 40" "k < 2 ^ 40" "i < 512" "l < 512"
  shows "entry_addr (frame j) i = entry_addr (frame k) l \<longleftrightarrow> j = k \<and> i = l"
proof
  assume "entry_addr (frame j) i = entry_addr (frame k) l"
  then have eq: "j * 4096 + 8 * i = k * 4096 + 8 * l"
    using assms by (metis unat_entry_addr)
  moreover from this have "j = k" using entry_div assms(3,4) by metis
  ultimately show "j = k \<and> i = l" by simp
qed simp

lemma zero_page_entry:
  assumes "j < 2 ^ 40" "k < 2 ^ 40" "i < 512"
  shows "zero_page (frame k) m (entry_addr (frame j) i) = (if j = k then 0 else m (entry_addr (frame j) i))"
proof -
  have "k * 4096 \<le> j * 4096 + 8 * i \<and> j * 4096 + 8 * i < k * 4096 + 4096 \<longleftrightarrow> j = k"
  proof (cases "j < k")
    case True
    then have "Suc j * 4096 \<le> k * 4096" by simp
    then show ?thesis using assms(3) True by simp
  next
    case False
    then show ?thesis using assms(3) mult_le_mono1 [of "Suc k" j 4096] by auto
  qed
  then show ?thesis unfolding zero_page_def unat_entry_addr [OF assms(1,3)] unat_frame [OF assms(2)] by simp
qed

section \<open>Walking the tables\<close>

definition tbl_next :: "(u64 \<Rightarrow> u64) \<Rightarrow> u64 \<Rightarrow> nat \<Rightarrow> u64 option" where
  "tbl_next m t i =
     (if m (entry_addr t i) AND PAGE_PRESENT = 0 then None else Some (m (entry_addr t i) AND ADDR_MASK))"

fun walk :: "(u64 \<Rightarrow> u64) \<Rightarrow> u64 \<Rightarrow> nat list \<Rightarrow> u64 option" where
  "walk m t [] = Some t"
| "walk m t (i # is) = Option.bind (tbl_next m t i) (\<lambda>t'. walk m t' is)"

definition path_of :: "u64 \<Rightarrow> nat list" where
  "path_of v = [pml4_index v, pdpt_index v, pd_index v, pt_index v]"

definition translate :: "u64 \<Rightarrow> 'z kpage_scheme \<Rightarrow> u64 option" where
  "translate v s = walk (phys s) (pml4 s) (path_of v)"

text \<open>The paths the invariant speaks of: indices of a table, the first one out of \<open>D\<close>.\<close>

definition good_path :: "nat set \<Rightarrow> nat list \<Rightarrow> bool" where
  "good_path D is \<longleftrightarrow> set is \<subseteq> {..<512} \<and> (is = [] \<or> hd is \<in> D)"

definition used_frame :: "u8 list \<Rightarrow> u64 \<Rightarrow> bool" where
  "used_frame bm t \<longleftrightarrow> (\<exists>k. t = frame k \<and> 0 < k \<and> k < 8 * length bm \<and> page_used bm k)"

definition tables_ok :: "nat set \<Rightarrow> u64 \<Rightarrow> u8 list \<Rightarrow> (u64 \<Rightarrow> u64) \<Rightarrow> bool" where
  "tables_ok D root bm m \<longleftrightarrow>
     bitmap_ok bm \<and>
     (\<forall>is t. good_path D is \<and> length is \<le> 3 \<and> walk m root is = Some t \<longrightarrow> used_frame bm t) \<and>
     (\<forall>is js t. good_path D is \<and> good_path D js \<and> length is \<le> 3 \<and> length js \<le> 3 \<and>
        walk m root is = Some t \<and> walk m root js = Some t \<longrightarrow> is = js)"

lemma walk_append: "walk m t (is @ js) = Option.bind (walk m t is) (\<lambda>t'. walk m t' js)"
  by (induction "is" arbitrary: t) (simp_all add: Option.bind_assoc)

lemma good_path_Nil [simp]: "good_path D []"
  by (simp add: good_path_def)

lemma good_path_snoc: "good_path D (is @ [i]) \<longleftrightarrow> good_path D is \<and> i < 512 \<and> (is = [] \<longrightarrow> i \<in> D)"
  by (cases "is") (auto simp: good_path_def)

lemma index_bound:
  "pml4_index v < 512" "pdpt_index v < 512" "pd_index v < 512" "pt_index v < 512"
proof -
  have "unat (w AND 0x1FF) < 512" for w :: u64
  proof -
    have "w AND 0x1FF = take_bit 9 w" by (simp add: take_bit_eq_mask mask_eq_exp_minus_1)
    then show ?thesis using take_bit_nat_less_exp [of 9 "unat w"] by (simp add: unsigned_take_bit_eq)
  qed
  then show "pml4_index v < 512" "pdpt_index v < 512" "pd_index v < 512" "pt_index v < 512"
    by (simp_all add: pml4_index_def pdpt_index_def pd_index_def pt_index_def)
qed

lemma good_path_of: "pml4_index v \<in> D \<Longrightarrow> good_path D (path_of v)"
  by (simp add: good_path_def path_of_def index_bound)

lemma used_frame_mono:
  "used_frame bm t \<Longrightarrow> length bm' = length bm \<Longrightarrow> (\<And>k. page_used bm k \<Longrightarrow> page_used bm' k) \<Longrightarrow> used_frame bm' t"
  unfolding used_frame_def by metis

lemma free_frame_unused:
  "bitmap_ok bm \<Longrightarrow> k < 8 * length bm \<Longrightarrow> \<not> page_used bm k \<Longrightarrow> \<not> used_frame bm (frame k)"
  by (auto simp: used_frame_def bitmap_ok_def frame_inj)

text \<open>A walk depends on the entries it goes through, which lie in used frames.\<close>

lemma walk_agree:
  assumes ok: "tables_ok D root bm m" and ks: "good_path D ks" "length ks \<le> 4"
    and agree: "\<And>js i xs t. ks = js @ i # xs \<Longrightarrow> walk m root js = Some t \<Longrightarrow> good_path D js \<Longrightarrow> length js \<le> 3 \<Longrightarrow>
       used_frame bm t \<Longrightarrow> i < 512 \<Longrightarrow> m' (entry_addr t i) = m (entry_addr t i)"
  shows "walk m' root ks = walk m root ks"
  using ks agree
proof (induction ks rule: rev_induct)
  case Nil
  then show ?case by simp
next
  case (snoc k ks)
  have good: "good_path D ks" "k < 512" "length ks \<le> 3"
    using snoc.prems(1,2) by (auto simp: good_path_snoc)
  have IH: "walk m' root ks = walk m root ks"
    using snoc.IH [OF good(1)] good(3) snoc.prems(3) by simp
  show ?case
  proof (cases "walk m root ks")
    case None
    then show ?thesis using IH by (simp add: walk_append)
  next
    case (Some t)
    have "used_frame bm t" using ok good Some unfolding tables_ok_def by blast
    then have "m' (entry_addr t k) = m (entry_addr t k)" using snoc.prems(3) [of ks k "[]"] Some good by simp
    then show ?thesis using IH Some by (simp add: walk_append tbl_next_def)
  qed
qed

lemma walk_off_entry:
  assumes ok: "tables_ok D root bm m" and js: "good_path D js" "length js \<le> 3" "walk m root js = Some t0"
    and agree: "\<And>t i. used_frame bm t \<Longrightarrow> i < 512 \<Longrightarrow> t \<noteq> t0 \<or> i \<noteq> i0 \<Longrightarrow> m' (entry_addr t i) = m (entry_addr t i)"
    and ks: "good_path D ks" "length ks \<le> 4" "\<And>xs. ks \<noteq> js @ i0 # xs"
  shows "walk m' root ks = walk m root ks"
proof (rule walk_agree [OF ok ks(1,2)])
  fix ls i xs t
  assume a: "ks = ls @ i # xs" "walk m root ls = Some t" "good_path D ls" "length ls \<le> 3" "used_frame bm t" "i < 512"
  have "t \<noteq> t0 \<or> i \<noteq> i0"
  proof (rule ccontr)
    assume "\<not> (t \<noteq> t0 \<or> i \<noteq> i0)"
    then have "ls = js" "i = i0" using ok a js unfolding tables_ok_def by blast+
    then show False using ks(3) [of xs] a(1) by simp
  qed
  then show "m' (entry_addr t i) = m (entry_addr t i)" using agree a(5,6) by blast
qed

text \<open>
  Installing a fresh table: the frame \<open>k\<close> is marked and cleared, and entry \<open>i\<close> of the table \<open>t\<close> at the
  end of the path \<open>js\<close> is made to point to it.
\<close>

definition installed :: "nat \<Rightarrow> u64 \<Rightarrow> nat \<Rightarrow> u64 \<Rightarrow> (u64 \<Rightarrow> u64) \<Rightarrow> u64 \<Rightarrow> u64" where
  "installed k t i flags m =
     (zero_page (frame k) m)(entry_addr t i := paging_make_entry (frame k) (PAGE_PRESENT OR flags))"

abbreviation marked :: "nat \<Rightarrow> u8 list \<Rightarrow> u8 list" where
  "marked k bm \<equiv> upd_nth (k div 8) (\<lambda>b. b OR page_bit k) bm"

lemma used_frame_marked: "used_frame bm t \<Longrightarrow> k < 8 * length bm \<Longrightarrow> used_frame (marked k bm) t"
  by (erule used_frame_mono) (simp_all add: page_used_set)

lemma bitmap_ok_marked: "bitmap_ok bm \<Longrightarrow> k < 8 * length bm \<Longrightarrow> bitmap_ok (marked k bm)"
  by (simp add: bitmap_ok_def page_used_set)

lemma installed_entry:
  assumes bm: "bitmap_ok bm" and k: "k < 8 * length bm" "\<not> page_used bm k" and t: "used_frame bm t" "i < 512"
    and flags: "flags AND ADDR_MASK = 0"
  shows "\<And>u x. used_frame bm u \<Longrightarrow> x < 512 \<Longrightarrow> u \<noteq> t \<or> x \<noteq> i \<Longrightarrow>
           installed k t i flags m (entry_addr u x) = m (entry_addr u x)"
    and "tbl_next (installed k t i flags m) t i = Some (frame k)"
    and "\<And>x. x < 512 \<Longrightarrow> tbl_next (installed k t i flags m) (frame k) x = None"
proof -
  obtain l where l: "t = frame l" "l < 8 * length bm" "page_used bm l" using t(1) by (auto simp: used_frame_def)
  have small: "j < 8 * length bm \<Longrightarrow> j < 2 ^ 40" for j using bm by (simp add: bitmap_ok_def)
  have lk: "l \<noteq> k" using l(3) k(2) by blast
  have entry: "installed k t i flags m (entry_addr (frame j) x) =
      (if j = l \<and> x = i then paging_make_entry (frame k) (PAGE_PRESENT OR flags)
       else if j = k then 0 else m (entry_addr (frame j) x))" if "j < 8 * length bm" "x < 512" for j x
    using that small k(1) l t(2) by (simp add: installed_def entry_addr_eq_iff zero_page_entry)
  show "installed k t i flags m (entry_addr u x) = m (entry_addr u x)"
    if u: "used_frame bm u" "x < 512" "u \<noteq> t \<or> x \<noteq> i" for u x
  proof -
    obtain j where j: "u = frame j" "j < 8 * length bm" "page_used bm j" using u(1) by (auto simp: used_frame_def)
    then show ?thesis using u(2,3) k(2) l(1) entry [OF j(2) u(2)] by auto
  qed
  show "tbl_next (installed k t i flags m) t i = Some (frame k)"
    using small [OF k(1)] entry [OF l(2) t(2)] make_entry_present [of "frame k" flags] flags_mask(1) [OF flags]
    by (simp add: tbl_next_def l(1) make_entry_addr)
  show "tbl_next (installed k t i flags m) (frame k) x = None" if "x < 512" for x
    using entry [OF k(1) that] lk by (simp add: tbl_next_def)
qed

lemma installed_walk:
  assumes ok: "tables_ok D root bm m" and js: "good_path D (js @ [i])" "length js \<le> 2" "walk m root js = Some t"
    and absent: "tbl_next m t i = None" and k: "k < 8 * length bm" "\<not> page_used bm k"
    and flags: "flags AND ADDR_MASK = 0" and ks: "good_path D ks" "length ks \<le> 4"
  shows "walk (installed k t i flags m) root ks = (if ks = js @ [i] then Some (frame k) else walk m root ks)"
proof -
  have good: "good_path D js" "i < 512" "length js \<le> 3" using js(1,2) by (auto simp: good_path_snoc)
  have t: "used_frame bm t" using ok good(1,3) js(3) unfolding tables_ok_def by blast
  have bm: "bitmap_ok bm" using ok by (simp add: tables_ok_def)
  note entries = installed_entry [OF bm k t good(2) flags, where m = m]
  have off: "walk (installed k t i flags m) root ls = walk m root ls"
    if "good_path D ls" "length ls \<le> 4" "\<And>xs. ls \<noteq> js @ i # xs" for ls
    using walk_off_entry [OF ok good(1,3) js(3) _ that, where m' = "installed k t i flags m"] entries(1) by blast
  have here: "walk (installed k t i flags m) root js = Some t" using off [OF good(1)] js(2,3) by simp
  show ?thesis
  proof (cases "\<exists>xs. ks = js @ i # xs")
    case False
    then show ?thesis using off [OF ks] by auto
  next
    case True
    then obtain xs where xs: "ks = js @ i # xs" ..
    show ?thesis
    proof (cases xs)
      case Nil
      then show ?thesis using xs here entries(2) by (simp add: walk_append)
    next
      case (Cons x ys)
      then have "x < 512" using ks(1) xs by (auto simp: good_path_def)
      then show ?thesis using xs Cons here entries(2,3) absent js(3) by (simp add: walk_append)
    qed
  qed
qed

lemma installed_ok:
  assumes ok: "tables_ok D root bm m" and js: "good_path D (js @ [i])" "length js \<le> 2" "walk m root js = Some t"
    and absent: "tbl_next m t i = None" and k: "k < 8 * length bm" "\<not> page_used bm k"
    and flags: "flags AND ADDR_MASK = 0"
  shows "tables_ok D root (marked k bm) (installed k t i flags m)"
proof -
  let ?m = "installed k t i flags m"
  have bm: "bitmap_ok bm" using ok by (simp add: tables_ok_def)
  have new: "walk ?m root (js @ [i]) = Some (frame k)" using installed_walk [OF assms js(1)] js(2) by simp
  have old: "walk m root xs = Some u" "used_frame bm u"
    if "xs \<noteq> js @ [i]" "good_path D xs" "length xs \<le> 3" "walk ?m root xs = Some u" for xs u
    using that installed_walk [OF assms, of xs] ok unfolding tables_ok_def by auto
  have fresh: "\<not> used_frame bm (frame k)" using free_frame_unused [OF bm k] .
  have "0 < k" using bm k(2) by (auto simp: bitmap_ok_def intro!: gr0I)
  then have fk: "used_frame (marked k bm) (frame k)" using k(1) by (auto simp: used_frame_def page_used_set)
  show ?thesis
    unfolding tables_ok_def
  proof (intro conjI allI impI)
    show "bitmap_ok (marked k bm)" using bm k(1) by (rule bitmap_ok_marked)
    show "used_frame (marked k bm) u" if "good_path D ks \<and> length ks \<le> 3 \<and> walk ?m root ks = Some u" for ks u
      using that new fk old(2) [of ks u] used_frame_marked [OF _ k(1)] by (cases "ks = js @ [i]") auto
    show "ks = ls" if "good_path D ks \<and> good_path D ls \<and> length ks \<le> 3 \<and> length ls \<le> 3 \<and>
      walk ?m root ks = Some u \<and> walk ?m root ls = Some u" for ks ls u
      using that old [of ks u] old [of ls u] new fresh ok unfolding tables_ok_def by (metis option.inject)
  qed
qed

lemma write_leaf:
  assumes ok: "tables_ok D root bm m" and js: "good_path D (js @ [i])" "length js = 3" "walk m root js = Some t"
    and m': "m' = m(entry_addr t i := e)"
  shows "tables_ok D root bm m'"
    and "\<And>ks. good_path D ks \<Longrightarrow> length ks \<le> 4 \<Longrightarrow>
           walk m' root ks = (if ks = js @ [i] then tbl_next m' t i else walk m root ks)"
    and "\<And>u x. used_frame bm u \<Longrightarrow> x < 512 \<Longrightarrow> u \<noteq> t \<or> x \<noteq> i \<Longrightarrow> m' (entry_addr u x) = m (entry_addr u x)"
proof -
  have b40: "8 * length bm \<le> 2 ^ 40" using ok by (auto simp: tables_ok_def bitmap_ok_def)
  have good: "good_path D js" "i < 512" using js(1) by (auto simp: good_path_snoc)
  have "used_frame bm t" using ok good(1) js(2,3) unfolding tables_ok_def by (metis order_refl)
  then obtain l where l: "t = frame l" "l < 2 ^ 40" using b40 by (force simp: used_frame_def)
  show agree: "m' (entry_addr u x) = m (entry_addr u x)" if u: "used_frame bm u" "x < 512" "u \<noteq> t \<or> x \<noteq> i" for u x
  proof -
    obtain j where j: "u = frame j" "j < 2 ^ 40" using u(1) b40 by (force simp: used_frame_def)
    then show ?thesis using u(2,3) l good(2) by (auto simp: m' entry_addr_eq_iff)
  qed
  have off: "walk m' root ks = walk m root ks" if "good_path D ks" "length ks \<le> 4" "\<And>xs. ks \<noteq> js @ i # xs" for ks
    using walk_off_entry [OF ok good(1) _ js(3) agree that] js(2) by simp
  show "walk m' root ks = (if ks = js @ [i] then tbl_next m' t i else walk m root ks)"
    if ks: "good_path D ks" "length ks \<le> 4" for ks
  proof (cases "ks = js @ [i]")
    case True
    then show ?thesis using off [OF good(1)] js(2,3) by (simp add: walk_append)
  next
    case False
    then have "ks \<noteq> js @ i # xs" for xs using ks(2) js(2) by (cases xs) auto
    then show ?thesis using off [OF ks] False by simp
  qed
  have short: "walk m' root ks = walk m root ks" if "good_path D ks" "length ks \<le> 3" for ks
    using off [OF that(1)] that(2) js(2) by fastforce
  show "tables_ok D root bm m'"
    using ok unfolding tables_ok_def by (simp add: short cong: conj_cong)
qed

section \<open>The walk of the code\<close>

abbreviation pages_ok :: "nat set \<Rightarrow> 'z kpage_scheme \<Rightarrow> bool" where
  "pages_ok D s \<equiv> tables_ok D (pml4 s) (bitmap (pmm s)) (phys s)"

abbreviation swalk :: "'z kpage_scheme \<Rightarrow> nat list \<Rightarrow> u64 option" where
  "swalk s is \<equiv> walk (phys s) (pml4 s) is"

definition is_table :: "nat set \<Rightarrow> 'z kpage_scheme \<Rightarrow> u64 \<Rightarrow> bool" where
  "is_table D s t \<longleftrightarrow> (\<exists>ks. good_path D ks \<and> length ks \<le> 3 \<and> swalk s ks = Some t)"

text \<open>
  What an operation on the tables below \<open>D\<close> does to a state: it allocates frames, turns some of them
  into tables, and writes to no used frame but its own tables. \<open>grown\<close> adds that it translates as
  before, as creating missing tables does.
\<close>

definition own_change :: "nat set \<Rightarrow> 'z kpage_scheme \<Rightarrow> 'z kpage_scheme \<Rightarrow> bool" where
  "own_change D s s' \<longleftrightarrow>
     pages_ok D s' \<and> pml4 s' = pml4 s \<and> kernel_heap s' = kernel_heap s \<and>
     length (bitmap (pmm s')) = length (bitmap (pmm s)) \<and>
     (\<forall>k. page_used (bitmap (pmm s)) k \<longrightarrow> page_used (bitmap (pmm s')) k) \<and>
     (\<forall>t. is_table D s t \<longrightarrow> is_table D s' t) \<and>
     (\<forall>t. is_table D s' t \<and> used_frame (bitmap (pmm s)) t \<longrightarrow> is_table D s t) \<and>
     (\<forall>t i. used_frame (bitmap (pmm s)) t \<and> i < 512 \<and> phys s' (entry_addr t i) \<noteq> phys s (entry_addr t i) \<longrightarrow>
        is_table D s' t)"

definition grown :: "nat set \<Rightarrow> 'z kpage_scheme \<Rightarrow> 'z kpage_scheme \<Rightarrow> bool" where
  "grown D s s' \<longleftrightarrow> own_change D s s' \<and> (\<forall>ks. good_path D ks \<and> length ks = 4 \<longrightarrow> swalk s' ks = swalk s ks)"

lemma own_changeD:
  assumes "own_change D s s'"
  shows "pages_ok D s'" "pml4 s' = pml4 s" "kernel_heap s' = kernel_heap s"
    "length (bitmap (pmm s')) = length (bitmap (pmm s))"
    "\<And>k. page_used (bitmap (pmm s)) k \<Longrightarrow> page_used (bitmap (pmm s')) k"
    "\<And>t. is_table D s t \<Longrightarrow> is_table D s' t"
    "\<And>t. is_table D s' t \<Longrightarrow> used_frame (bitmap (pmm s)) t \<Longrightarrow> is_table D s t"
    "\<And>t i. used_frame (bitmap (pmm s)) t \<Longrightarrow> i < 512 \<Longrightarrow>
       phys s' (entry_addr t i) \<noteq> phys s (entry_addr t i) \<Longrightarrow> is_table D s' t"
    "\<And>t. used_frame (bitmap (pmm s)) t \<Longrightarrow> used_frame (bitmap (pmm s')) t"
  using assms unfolding own_change_def by (blast intro: used_frame_mono)+

lemma own_change_refl: "pages_ok D s \<Longrightarrow> own_change D s s"
  by (simp add: own_change_def)

lemma own_change_trans:
  assumes 1: "own_change D s s'" and 2: "own_change D s' s''"
  shows "own_change D s s''"
proof -
  have writes: "is_table D s'' t" if "used_frame (bitmap (pmm s)) t" "i < 512"
    "phys s'' (entry_addr t i) \<noteq> phys s (entry_addr t i)" for t i
    using that own_changeD(8) [OF 1, of t i] own_changeD(8) [OF 2, of t i] own_changeD(6) [OF 2]
      own_changeD(9) [OF 1] by metis
  have rest: "pml4 s'' = pml4 s" "kernel_heap s'' = kernel_heap s"
    "length (bitmap (pmm s'')) = length (bitmap (pmm s))"
    using own_changeD(2-4) [OF 1] own_changeD(2-4) [OF 2] by simp_all
  show ?thesis
    unfolding own_change_def
    using own_changeD(1) [OF 2] own_changeD(5-7,9) [OF 1] own_changeD(5-7) [OF 2] rest writes by blast
qed

lemma grownD:
  assumes "grown D s s'"
  shows "own_change D s s'" "pages_ok D s'" "pml4 s' = pml4 s"
    "\<And>ks. good_path D ks \<Longrightarrow> length ks = 4 \<Longrightarrow> swalk s' ks = swalk s ks"
  using assms unfolding grown_def by (blast dest: own_changeD(1,2))+

lemma grown_refl: "pages_ok D s \<Longrightarrow> grown D s s"
  by (simp add: grown_def own_change_refl)

lemma grown_trans: "grown D s s' \<Longrightarrow> grown D s' s'' \<Longrightarrow> grown D s s''"
  unfolding grown_def using own_change_trans by metis

lemma kprint_page [simp]:
  "pmm (kprint x s) = pmm s" "pml4 (kprint x s) = pml4 s" "phys (kprint x s) = phys s"
  "kernel_heap (kprint x s) = kernel_heap s"
  by (simp_all add: kprint_def)

lemma grown_kprint: "pages_ok D s \<Longrightarrow> grown D s (kprint x s)"
  by (simp add: grown_def own_change_def is_table_def)

lemma walk_level_new:
  assumes ok: "pages_ok D s" and js: "good_path D (js @ [i])" "length js \<le> 2" "swalk s js = Some t"
    and flags: "flags AND ADDR_MASK = 0" and absent: "tbl_next (phys s) t i = None"
    and k: "first_free (bitmap (pmm s)) = Some k" and run: "walk_level True flags t i s = (r, s')"
  shows "grown D s s'" "r = Some (frame k)" "swalk s' (js @ [i]) = Some (frame k)"
    "free_count (bitmap (pmm s)) = Suc (free_count (bitmap (pmm s')))"
proof -
  note kf = first_free_SomeD [OF k]
  have bm: "bitmap_ok (bitmap (pmm s))" using ok by (simp add: tables_ok_def)
  then have small: "k < 2 ^ 40" "0 < k" using kf by (auto simp: bitmap_ok_def intro!: gr0I)
  then have nz: "frame k \<noteq> 0" by (simp add: frame_0_iff)
  have fl: "(PAGE_WRITABLE OR flags) AND ADDR_MASK = 0"
    using flags_mask(2) [OF flags] by (auto simp: or.assoc bit_eq_iff bit_simps)
  have s': "r = Some (installed k t i (PAGE_WRITABLE OR flags) (phys s) (entry_addr t i) AND ADDR_MASK)"
    "phys s' = installed k t i (PAGE_WRITABLE OR flags) (phys s)" "bitmap (pmm s') = marked k (bitmap (pmm s))"
    "pml4 s' = pml4 s" "kernel_heap s' = kernel_heap s"
    using run absent k nz
    by (auto simp: walk_level_def tbl_next_def pmm_alloc_page_eq installed_def or.assoc split: if_splits)
  note walks = installed_walk [OF ok js absent kf fl]
  have good: "good_path D js" "i < 512" "length js \<le> 3" using js(1,2) by (auto simp: good_path_snoc)
  then have t: "used_frame (bitmap (pmm s)) t" using ok js(3) unfolding tables_ok_def by blast
  note entries = installed_entry [OF bm kf t good(2) fl, where m = "phys s"]
  show "swalk s' (js @ [i]) = Some (frame k)" using walks [OF js(1)] js(2) by (simp add: s')
  show "free_count (bitmap (pmm s)) = Suc (free_count (bitmap (pmm s')))"
    using free_count_marked [OF kf] by (simp add: s')
  show "r = Some (frame k)" using entries(2) by (simp add: s' tbl_next_def split: if_splits)
  have "swalk s' js = Some t" using walks [OF good(1)] good(3) js(3) by (simp add: s')
  then have "is_table D s' t" using good unfolding is_table_def by blast
  then have writes: "is_table D s' u" if "used_frame (bitmap (pmm s)) u" "x < 512"
    "phys s' (entry_addr u x) \<noteq> phys s (entry_addr u x)" for u x
    using that entries(1) [of u x] by (auto simp: s')
  have "swalk s' ks = Some u" if "good_path D ks" "length ks \<le> 3" "swalk s ks = Some u" for ks u
    using that absent js(3) by (auto simp: s' walks walk_append)
  then have "is_table D s' u" if "is_table D s u" for u using that unfolding is_table_def by blast
  moreover have "is_table D s u" if "is_table D s' u" "used_frame (bitmap (pmm s)) u" for u
    using that free_frame_unused [OF bm kf] by (auto simp: is_table_def s' walks split: if_splits)
  moreover have "pages_ok D s'" using installed_ok [OF ok js absent kf fl] by (simp add: s')
  ultimately have "own_change D s s'"
    using writes unfolding own_change_def by (auto simp: s' page_used_set [OF kf(1)])
  moreover have "swalk s' ks = swalk s ks" if "good_path D ks" "length ks = 4" for ks
    using that js(2) by (auto simp: s' walks)
  ultimately show "grown D s s'" by (simp add: grown_def)
qed

lemma walk_level_ok:
  assumes ok: "pages_ok D s" and js: "good_path D (js @ [i])" "length js \<le> 2" "swalk s js = Some t"
    and flags: "flags AND ADDR_MASK = 0" and run: "walk_level True flags t i s = (r, s')"
  shows "grown D s s' \<and> free_count (bitmap (pmm s)) \<le> Suc (free_count (bitmap (pmm s'))) \<and>
    (case r of None \<Rightarrow> free_count (bitmap (pmm s)) = 0 | Some t' \<Rightarrow> swalk s' (js @ [i]) = Some t')"
proof (cases "tbl_next (phys s) t i")
  case (Some u)
  then have "r = Some u" "s' = s" using run by (auto simp: walk_level_def tbl_next_def split: if_splits)
  then show ?thesis using Some js(3) grown_refl [OF ok] by (simp add: walk_append)
next
  case absent: None
  show ?thesis
  proof (cases "first_free (bitmap (pmm s))")
    case None
    then have "r = None" "s' = kprint (''Hata: Fiziksel bellek doldu!'' @ [NL]) s"
      using run absent by (auto simp: walk_level_def tbl_next_def pmm_alloc_page_eq split: if_splits)
    then show ?thesis using grown_kprint [OF ok] None by (simp add: first_free_None_count)
  next
    case (Some k)
    then show ?thesis using walk_level_new [OF ok js flags absent Some run] by simp
  qed
qed

definition upper_path :: "u64 \<Rightarrow> nat list" where
  "upper_path v = [pml4_index v, pdpt_index v, pd_index v]"

lemma length_path_of [simp]: "length (path_of v) = 4" "length (upper_path v) = 3"
  by (simp_all add: path_of_def upper_path_def)

lemma path_of_upper: "path_of v = upper_path v @ [pt_index v]"
  by (simp add: path_of_def upper_path_def)

text \<open>A walk along \<open>js\<close> that ended with \<open>r\<close> in state \<open>s'\<close>: the table reached, or no frame was left.\<close>

definition walked :: "nat set \<Rightarrow> 'z kpage_scheme \<Rightarrow> nat list \<Rightarrow> u64 option \<Rightarrow> 'z kpage_scheme \<Rightarrow> bool" where
  "walked D s js r s' \<longleftrightarrow> grown D s s' \<and>
     (case r of None \<Rightarrow> free_count (bitmap (pmm s)) < length js
      | Some t \<Rightarrow> swalk s' js = Some t \<and> free_count (bitmap (pmm s)) \<le> free_count (bitmap (pmm s')) + length js)"

lemma walked_step:
  assumes "walked D s js (Some t) s1" "walk_level True flags t i s1 = (r, s2)"
    and "good_path D (js @ [i])" "length js \<le> 2" "flags AND ADDR_MASK = 0"
  shows "walked D s (js @ [i]) r s2"
proof -
  have w: "grown D s s1" "swalk s1 js = Some t"
    "free_count (bitmap (pmm s)) \<le> free_count (bitmap (pmm s1)) + length js"
    using assms(1) by (simp_all add: walked_def)
  note step = walk_level_ok [OF grownD(2) [OF w(1)] assms(3,4) w(2) assms(5,2)]
  have "grown D s s2" using grown_trans [OF w(1)] step by blast
  then show ?thesis using step w(3) by (auto simp: walked_def split: option.splits)
qed

lemma paging_walk_ok:
  assumes ok: "pages_ok D s" and v: "pml4_index v \<in> D" and flags: "flags AND ADDR_MASK = 0"
    and run: "paging_walk v True flags s = (r, s')"
  shows "grown D s s'"
    and "case r of None \<Rightarrow> free_count (bitmap (pmm s)) \<le> 2
         | Some e \<Rightarrow> free_count (bitmap (pmm s)) \<le> free_count (bitmap (pmm s')) + 3 \<and>
             (\<exists>t. swalk s' (upper_path v) = Some t \<and> e = entry_addr t (pt_index v))"
proof -
  have good: "good_path D ([] @ [pml4_index v])" "good_path D ([pml4_index v] @ [pdpt_index v])"
    "good_path D ([pml4_index v, pdpt_index v] @ [pd_index v])"
    using v index_bound [of v] by (simp_all add: good_path_def)
  have start: "walked D s [] (Some (pml4 s)) s" using grown_refl [OF ok] by (simp add: walked_def)
  note step1 = walked_step [OF start _ good(1) _ flags]
  have step2: "walked D s [pml4_index v, pdpt_index v] r2 s2"
    if "walk_level True flags (pml4 s) (pml4_index v) s = (Some t1, s1)" "walk_level True flags t1 (pdpt_index v) s1 = (r2, s2)"
    for t1 s1 r2 s2 using walked_step [OF step1 [OF that(1)] that(2) _ _ flags] good(2) by simp
  have step3: "walked D s (upper_path v) r3 s3"
    if "walk_level True flags (pml4 s) (pml4_index v) s = (Some t1, s1)" "walk_level True flags t1 (pdpt_index v) s1 = (Some t2, s2)"
      "walk_level True flags t2 (pd_index v) s2 = (r3, s3)"
    for t1 s1 t2 s2 r3 s3 using walked_step [OF step2 [OF that(1,2)] that(3) _ _ flags] good(3) by (simp add: upper_path_def)
  have "grown D s s' \<and> (case r of None \<Rightarrow> free_count (bitmap (pmm s)) \<le> 2
         | Some e \<Rightarrow> free_count (bitmap (pmm s)) \<le> free_count (bitmap (pmm s')) + 3 \<and>
             (\<exists>t. swalk s' (upper_path v) = Some t \<and> e = entry_addr t (pt_index v)))"
    using run step1 step2 step3
    by (fastforce simp: paging_walk_def walked_def split: prod.splits option.splits)
  then show "grown D s s'" "case r of None \<Rightarrow> free_count (bitmap (pmm s)) \<le> 2
         | Some e \<Rightarrow> free_count (bitmap (pmm s)) \<le> free_count (bitmap (pmm s')) + 3 \<and>
             (\<exists>t. swalk s' (upper_path v) = Some t \<and> e = entry_addr t (pt_index v))" by simp_all
qed

lemma paging_walk_lookup:
  "paging_walk v False flags s =
     (map_option (\<lambda>t. entry_addr t (pt_index v)) (swalk s (upper_path v)), s)"
  by (simp add: paging_walk_def walk_level_def upper_path_def tbl_next_def)

section \<open>Mapping and unmapping\<close>

definition same_page :: "u64 \<Rightarrow> u64 \<Rightarrow> bool" where
  "same_page v w \<longleftrightarrow> path_of v = path_of w"

text \<open>Two addresses share a page when bits 12 to 47 agree; the upper bits repeat bit 47 in hardware.\<close>

lemma index_bits:
  "n < 9 \<Longrightarrow> bit (pml4_index v) n = bit v (39 + n)" "n < 9 \<Longrightarrow> bit (pdpt_index v) n = bit v (30 + n)"
  "n < 9 \<Longrightarrow> bit (pd_index v) n = bit v (21 + n)" "n < 9 \<Longrightarrow> bit (pt_index v) n = bit v (12 + n)"
proof -
  have *: "0x1FF = (mask 9 :: u64)" by (simp add: mask_eq_exp_minus_1)
  show "n < 9 \<Longrightarrow> bit (pml4_index v) n = bit v (39 + n)" "n < 9 \<Longrightarrow> bit (pdpt_index v) n = bit v (30 + n)"
  "n < 9 \<Longrightarrow> bit (pd_index v) n = bit v (21 + n)" "n < 9 \<Longrightarrow> bit (pt_index v) n = bit v (12 + n)"
    unfolding pml4_index_def pdpt_index_def pd_index_def pt_index_def *
    by (simp_all add: bit_unsigned_iff bit_and_iff bit_mask_iff bit_drop_bit_eq)
qed

lemma page_align_indices [simp]:
  "pml4_index (page_align v) = pml4_index v" "pdpt_index (page_align v) = pdpt_index v"
  "pd_index (page_align v) = pd_index v" "pt_index (page_align v) = pt_index v"
proof -
  have *: "0xFFF = (mask 12 :: u64)" by (simp add: mask_eq_exp_minus_1)
  have "drop_bit (12 + n) (page_align v) = drop_bit (12 + n) v" for n
    unfolding page_align_def * by (rule bit_word_eqI) (auto simp: bit_simps dest: bit_imp_le_length)
  from this [of 27] this [of 18] this [of 9] this [of 0]
  show "pml4_index (page_align v) = pml4_index v" "pdpt_index (page_align v) = pdpt_index v"
    "pd_index (page_align v) = pd_index v" "pt_index (page_align v) = pt_index v"
    by (simp_all add: pml4_index_def pdpt_index_def pd_index_def pt_index_def)
qed

lemma page_align_path [simp]: "path_of (page_align v) = path_of v" "upper_path (page_align v) = upper_path v"
  by (simp_all add: path_of_def upper_path_def)

lemma write_entry_translate:
  assumes ok: "pages_ok D s" and v: "pml4_index v \<in> D" and t: "swalk s (upper_path v) = Some t"
    and s': "phys s' = (phys s)(entry_addr t (pt_index v) := e)" "pml4 s' = pml4 s" "bitmap (pmm s') = bitmap (pmm s)"
      "kernel_heap s' = kernel_heap s"
  shows "own_change D s s'"
    and "\<And>w. pml4_index w \<in> D \<Longrightarrow> translate w s' =
       (if same_page v w then (if e AND PAGE_PRESENT = 0 then None else Some (e AND ADDR_MASK)) else translate w s)"
proof -
  have good: "good_path D (upper_path v @ [pt_index v])" "length (upper_path v) = 3"
    using good_path_of [OF v] by (simp_all add: path_of_upper upper_path_def)
  note leaf = write_leaf [OF ok good t s'(1)]
  have "swalk s' ks = swalk s ks" if "good_path D ks" "length ks \<le> 3" for ks
    using that leaf(2) [of ks] s'(2) by auto
  then have same: "is_table D s' u \<longleftrightarrow> is_table D s u" for u unfolding is_table_def by metis
  have "good_path D (upper_path v)" using good(1) by (simp only: good_path_snoc)
  then have "is_table D s t" using t good(2) unfolding is_table_def by fastforce
  then have "is_table D s' u" if "used_frame (bitmap (pmm s)) u" "i < 512"
    "phys s' (entry_addr u i) \<noteq> phys s (entry_addr u i)" for u i
    using that leaf(3) [of u i] same by auto
  moreover have "pages_ok D s'" using leaf(1) s' by simp
  ultimately show "own_change D s s'" using s'(2-4) same unfolding own_change_def by auto
  fix w
  assume w: "pml4_index w \<in> D"
  have "length (path_of w) \<le> 4" by (simp add: path_of_def)
  then show "translate w s' =
       (if same_page v w then (if e AND PAGE_PRESENT = 0 then None else Some (e AND ADDR_MASK)) else translate w s)"
    using leaf(2) [OF good_path_of [OF w]] s'
    by (auto simp: translate_def same_page_def path_of_upper [of v] tbl_next_def)
qed

lemma translate_upper: "translate v s = Option.bind (swalk s (upper_path v)) (\<lambda>t. tbl_next (phys s) t (pt_index v))"
  by (simp add: translate_def path_of_upper walk_append)

lemma same_page_translate: "same_page v w \<Longrightarrow> translate w s = translate v s"
  by (simp add: translate_def same_page_def)

lemma grown_translate: "grown D s s' \<Longrightarrow> pml4_index w \<in> D \<Longrightarrow> translate w s' = translate w s"
  using grownD(4) [of D s s' "path_of w"] good_path_of [of w D] by (simp add: translate_def)

lemma paging_map_page_cases:
  assumes ok: "pages_ok D s" and v: "pml4_index v \<in> D" and flags: "flags AND ADDR_MASK = 0"
    and run: "paging_map_page p v flags s = (r, s')"
  obtains (mapped) "r = page_align v" "own_change D s s'" "translate v s = None"
      "\<And>w. pml4_index w \<in> D \<Longrightarrow>
         translate w s' = (if same_page v w then Some (p AND ADDR_MASK) else translate w s)"
      "free_count (bitmap (pmm s)) \<le> free_count (bitmap (pmm s')) + 3"
  | (present) "r = 0" "grown D s s'" "translate v s \<noteq> None"
  | (full) "r = 0" "grown D s s'" "free_count (bitmap (pmm s)) \<le> 2"
proof -
  obtain r1 s1 where w: "paging_walk (page_align v) True flags s = (r1, s1)" by fastforce
  have v': "pml4_index (page_align v) \<in> D" using v by simp
  note walk = paging_walk_ok [OF ok v' flags w]
  show ?thesis
  proof (cases r1)
    case None
    then show ?thesis using walk run w by (intro full) (simp_all add: paging_map_page_def)
  next
    case (Some e)
    then obtain t where t: "swalk s1 (upper_path v) = Some t" "e = entry_addr t (pt_index v)"
      and count: "free_count (bitmap (pmm s)) \<le> free_count (bitmap (pmm s1)) + 3"
      using walk(2) by auto
    have tr: "translate v s = tbl_next (phys s1) t (pt_index v)"
      using grown_translate [OF walk(1) v] t(1) by (simp add: translate_upper)
    show ?thesis
    proof (cases "phys s1 e AND PAGE_PRESENT = 0")
      case False
      then have "grown D s s'"
        using run w Some grown_trans [OF walk(1) grown_kprint [OF grownD(2) [OF walk(1)]]]
        by (auto simp: paging_map_page_def)
      then show ?thesis using False run w Some tr t(2) by (intro present) (simp_all add: paging_map_page_def tbl_next_def)
    next
      case True
      define x where "x = paging_make_entry p (PAGE_PRESENT OR flags)"
      have s': "r = page_align v" "s' = s1\<lparr>phys := (phys s1)(e := x)\<rparr>"
        using True run w Some by (simp_all add: paging_map_page_def x_def)
      have x: "x AND PAGE_PRESENT \<noteq> 0" "x AND ADDR_MASK = p AND ADDR_MASK"
        using make_entry_present flags_mask(1) [OF flags] by (simp_all add: x_def make_entry_addr)
      note wr = write_entry_translate [OF grownD(2) [OF walk(1)] v t(1), of s' x]
      have "own_change D s s'"
        using own_change_trans [OF grownD(1) [OF walk(1)]] wr(1) s'(2) t(2) by simp
      then show ?thesis
        using s' x tr True t(2) wr grown_translate [OF walk(1)] count
        by (intro mapped) (simp_all add: tbl_next_def)
    qed
  qed
qed

lemma paging_unmap_page_ok:
  assumes ok: "pages_ok D s" and v: "pml4_index v \<in> D"
  shows "own_change D s (paging_unmap_page v s) \<and> pmm (paging_unmap_page v s) = pmm s \<and>
    (\<forall>w. pml4_index w \<in> D \<longrightarrow>
      translate w (paging_unmap_page v s) = (if same_page v w then None else translate w s))"
proof (cases "swalk s (upper_path v)")
  case None
  then have "translate w s = None" if "same_page v w" for w
    using same_page_translate [OF that, of s] translate_upper [of v s] None by simp
  then show ?thesis using None own_change_refl [OF ok] by (simp add: paging_unmap_page_def paging_walk_lookup)
next
  case (Some t)
  define s' where "s' = s\<lparr>phys := (phys s)(entry_addr t (pt_index v) := 0)\<rparr>"
  have "paging_unmap_page v s = s'" using Some by (simp add: paging_unmap_page_def paging_walk_lookup s'_def)
  then show ?thesis using write_entry_translate [OF ok v Some, of s' 0] by (simp add: s'_def)
qed

lemma get_physical_of_translate:
  "translate v s = Some p \<Longrightarrow> paging_get_physical_address v s = p OR (v AND 0xFFF)"
  by (auto simp: paging_get_physical_address_def paging_walk_lookup translate_upper tbl_next_def
      split: Option.bind_splits if_splits)

section \<open>Allocating and releasing frames\<close>

lemma pmm_alloc_page_ok:
  assumes ok: "pages_ok D s" and k: "first_free (bitmap (pmm s)) = Some k" and run: "pmm_alloc_page s = (a, s1)"
  shows "a = frame k" "grown D s s1"
    "\<And>j. page_used (bitmap (pmm s1)) j \<longleftrightarrow> j = k \<or> page_used (bitmap (pmm s)) j"
    "\<not> is_table D s1 (frame k)" "free_count (bitmap (pmm s)) = Suc (free_count (bitmap (pmm s1)))"
    "\<And>ks. good_path D ks \<Longrightarrow> length ks \<le> 4 \<Longrightarrow> swalk s1 ks = swalk s ks"
proof -
  note kf = first_free_SomeD [OF k]
  have bm: "bitmap_ok (bitmap (pmm s))" using ok by (simp add: tables_ok_def)
  then have small: "j < 8 * length (bitmap (pmm s)) \<Longrightarrow> j < 2 ^ 40" for j by (simp add: bitmap_ok_def)
  have same: "zero_page (frame k) (phys s) (entry_addr t i) = phys s (entry_addr t i)"
    if u: "used_frame (bitmap (pmm s)) t" and i: "i < 512" for t i
  proof -
    obtain j where "t = frame j" "j < 8 * length (bitmap (pmm s))" "j \<noteq> k"
      using kf(2) u by (auto simp: used_frame_def)
    then show ?thesis using small kf(1) i by (simp add: zero_page_entry)
  qed
  have walks: "walk (zero_page (frame k) (phys s)) (pml4 s) ks = swalk s ks" if "good_path D ks" "length ks \<le> 4" for ks
    using walk_agree [OF ok that] same by blast
  have s1: "a = frame k" "phys s1 = zero_page (frame k) (phys s)"
    "bitmap (pmm s1) = marked k (bitmap (pmm s))" "pml4 s1 = pml4 s" "kernel_heap s1 = kernel_heap s"
    using k run by (auto simp: pmm_alloc_page_eq)
  note used = page_used_set [OF kf(1)]
  have "pages_ok D s1"
    using ok used_frame_marked [OF _ kf(1)] bitmap_ok_marked [OF bm kf(1)]
    unfolding tables_ok_def s1 by (simp add: walks cong: conj_cong)
  then show "grown D s s1"
    unfolding grown_def own_change_def by (intro conjI) (auto simp: is_table_def s1 walks used same)
  show "\<not> is_table D s1 (frame k)"
    using ok free_frame_unused [OF bm kf] by (auto simp: s1 walks tables_ok_def is_table_def)
  show "a = frame k" by (fact s1(1))
  show "page_used (bitmap (pmm s1)) j \<longleftrightarrow> j = k \<or> page_used (bitmap (pmm s)) j" for j by (simp add: s1 used)
  show "free_count (bitmap (pmm s)) = Suc (free_count (bitmap (pmm s1)))" using free_count_marked [OF kf] by (simp add: s1)
  show "swalk s1 ks = swalk s ks" if "good_path D ks" "length ks \<le> 4" for ks using walks [OF that] by (simp add: s1)
qed

text \<open>A frame that is no table may be released.\<close>

lemma pmm_free_page_ok:
  assumes ok: "pages_ok D s" and k: "0 < k" "k < 8 * length (bitmap (pmm s))" "page_used (bitmap (pmm s)) k"
    and free: "\<not> is_table D s (frame k)"
  obtains s1 where "pmm_free_page (frame k) s = Some s1" "pages_ok D s1" "phys s1 = phys s" "pml4 s1 = pml4 s"
    "kernel_heap s1 = kernel_heap s" "length (bitmap (pmm s1)) = length (bitmap (pmm s))"
    "\<And>j. page_used (bitmap (pmm s1)) j \<longleftrightarrow> j \<noteq> k \<and> page_used (bitmap (pmm s)) j"
proof -
  have bm: "bitmap_ok (bitmap (pmm s))" using ok by (simp add: tables_ok_def)
  then have k40: "k < 2 ^ 40" using k(2) by (simp add: bitmap_ok_def)
  then have u: "unat (frame k) = k * 4096" by (rule unat_frame)
  have "frame k mod 4096 = 0" "unat (frame k div 4096) = k"
    by (simp_all add: word_eq_iff_unsigned [where 'a = nat] unat_mod unat_div u)
  moreover have "k div 8 < length (bitmap (pmm s))" using k(2) by (simp add: less_mult_imp_div_less mult.commute)
  moreover have "bitmap (pmm s) ! (k div 8) AND page_bit k \<noteq> 0"
    using k(3) by (simp add: page_bit_test page_used_def)
  ultimately obtain s1 where s1: "pmm_free_page (frame k) s = Some s1"
    "bitmap (pmm s1) = upd_nth (k div 8) (\<lambda>b. b AND NOT (page_bit k)) (bitmap (pmm s))"
    "phys s1 = phys s" "pml4 s1 = pml4 s" "kernel_heap s1 = kernel_heap s"
    by (simp add: pmm_free_page_def)
  note used = page_used_clear [OF k(2)]
  have "bitmap_ok (bitmap (pmm s1))" using bm k(1) by (simp add: bitmap_ok_def s1(2) used)
  moreover have "used_frame (bitmap (pmm s1)) t" if "used_frame (bitmap (pmm s)) t" "t \<noteq> frame k" for t
    using that unfolding used_frame_def by (auto simp: s1(2) used)
  ultimately have "pages_ok D s1"
    using ok free unfolding tables_ok_def is_table_def s1(3,4) by blast
  then show thesis using that [OF s1(1)] s1 used by simp
qed

end
