(* ===== verification/AddressSpace.thy ===== *)
theory AddressSpace
  imports PageTables
begin

text \<open>
  Clients of the page tables. The locale \<open>address_space\<close> states what mapping and unmapping promise; any
  sequence of them acts on the translation like updates of a partial function. The page tables of
  the code are its interpretation. Below it: pages of the kernel heap, user address spaces and their
  separation from the kernel's tables, and the start state that \<open>paging_init\<close> builds.
\<close>

section \<open>The interface of an address space\<close>

datatype ('v, 'p) vm_op = Map 'v 'p | Unmap 'v

locale address_space =
  fixes inv :: "'s \<Rightarrow> bool"
    and tr :: "'s \<Rightarrow> 'v \<Rightarrow> 'p option"
    and same :: "'v \<Rightarrow> 'v \<Rightarrow> bool"
    and addrs :: "'v set"
    and pages :: "'p set"
    and vmap :: "'p \<Rightarrow> 'v \<Rightarrow> 's \<Rightarrow> bool \<times> 's"
    and vunmap :: "'v \<Rightarrow> 's \<Rightarrow> 's"
  assumes map_inv: "inv s \<Longrightarrow> v \<in> addrs \<Longrightarrow> p \<in> pages \<Longrightarrow> inv (snd (vmap p v s))"
    and unmap_inv: "inv s \<Longrightarrow> v \<in> addrs \<Longrightarrow> inv (vunmap v s)"
    and map_fresh: "inv s \<Longrightarrow> v \<in> addrs \<Longrightarrow> p \<in> pages \<Longrightarrow> fst (vmap p v s) \<Longrightarrow> tr s v = None"
    and map_tr: "inv s \<Longrightarrow> v \<in> addrs \<Longrightarrow> p \<in> pages \<Longrightarrow> w \<in> addrs \<Longrightarrow>
      tr (snd (vmap p v s)) w = (if fst (vmap p v s) \<and> same v w then Some p else tr s w)"
    and unmap_tr: "inv s \<Longrightarrow> v \<in> addrs \<Longrightarrow> w \<in> addrs \<Longrightarrow>
      tr (vunmap v s) w = (if same v w then None else tr s w)"
begin

fun run :: "('v, 'p) vm_op list \<Rightarrow> 's \<Rightarrow> bool list \<times> 's" where
  "run [] s = ([], s)"
| "run (Map v p # ops) s = (let (b, s1) = vmap p v s; (bs, s2) = run ops s1 in (b # bs, s2))"
| "run (Unmap v # ops) s = (let (bs, s2) = run ops (vunmap v s) in (True # bs, s2))"

text \<open>The abstract machine: a partial function, updated by the operations that succeed.\<close>

fun spec :: "('v, 'p) vm_op list \<Rightarrow> bool list \<Rightarrow> ('v \<Rightarrow> 'p option) \<Rightarrow> ('v \<Rightarrow> 'p option)" where
  "spec (Map v p # ops) (b # bs) f = spec ops bs (\<lambda>w. if b \<and> same v w then Some p else f w)"
| "spec (Unmap v # ops) (b # bs) f = spec ops bs (\<lambda>w. if same v w then None else f w)"
| "spec _ _ f = f"

definition good_ops :: "('v, 'p) vm_op list \<Rightarrow> bool" where
  "good_ops ops \<longleftrightarrow> (\<forall>v p. Map v p \<in> set ops \<longrightarrow> v \<in> addrs \<and> p \<in> pages) \<and> (\<forall>v. Unmap v \<in> set ops \<longrightarrow> v \<in> addrs)"

lemma spec_cong: "\<forall>w \<in> addrs. f w = g w \<Longrightarrow> \<forall>w \<in> addrs. spec ops bs f w = spec ops bs g w"
proof (induction ops bs f arbitrary: g rule: spec.induct)
  case (1 v p ops b bs f)
  show ?case unfolding spec.simps by (rule "1.IH") (use 1 in simp)
next
  case (2 v ops b bs f)
  show ?case unfolding spec.simps by (rule "2.IH") (use 2 in simp)
qed simp_all

lemma run_refines:
  assumes "inv s" "good_ops ops"
  shows "inv (snd (run ops s))"
    and "\<And>w. w \<in> addrs \<Longrightarrow> tr (snd (run ops s)) w = spec ops (fst (run ops s)) (tr s) w"
proof -
  have "inv (snd (run ops s)) \<and> (\<forall>w \<in> addrs. tr (snd (run ops s)) w = spec ops (fst (run ops s)) (tr s) w)"
    using assms
  proof (induction ops s rule: run.induct)
    case (1 s)
    then show ?case by simp
  next
    case (2 v p ops s)
    obtain b s1 where m: "vmap p v s = (b, s1)" by fastforce
    have vp: "v \<in> addrs" "p \<in> pages" "good_ops ops" using 2(3) by (auto simp: good_ops_def)
    have inv1: "inv s1" using map_inv [OF 2(2) vp(1,2)] m by simp
    have "\<forall>w \<in> addrs. tr s1 w = (if b \<and> same v w then Some p else tr s w)"
      using map_tr [OF 2(2) vp(1,2)] m by simp
    from spec_cong [OF this] show ?case
      using "2.IH" [OF m [symmetric] refl inv1 vp(3)] by (simp add: split_beta m)
  next
    case (3 v ops s)
    have v: "v \<in> addrs" "good_ops ops" using 3(3) by (auto simp: good_ops_def)
    have "\<forall>w \<in> addrs. tr (vunmap v s) w = (if same v w then None else tr s w)"
      using unmap_tr [OF 3(2) v(1)] by simp
    from spec_cong [OF this] show ?case
      using "3.IH" [OF unmap_inv [OF 3(2) v(1)] v(2)] by (simp add: split_beta)
  qed
  then show "inv (snd (run ops s))"
    and "\<And>w. w \<in> addrs \<Longrightarrow> tr (snd (run ops s)) w = spec ops (fst (run ops s)) (tr s) w" by blast+
qed

end

section \<open>The page tables as an address space\<close>

definition map_page :: "u64 \<Rightarrow> u64 \<Rightarrow> u64 \<Rightarrow> 'z kpage_scheme \<Rightarrow> bool \<times> 'z kpage_scheme" where
  "map_page flags p v s = (let (r, s') = paging_map_page p v flags s in (r \<noteq> 0, s'))"

definition vaddrs :: "nat set \<Rightarrow> u64 set" where
  "vaddrs D = {v. pml4_index v \<in> D \<and> page_align v \<noteq> 0}"

definition ppages :: "u64 set" where
  "ppages = {p. p AND ADDR_MASK = p}"

lemma map_page_ok:
  assumes "pages_ok D s" "flags AND ADDR_MASK = 0" "v \<in> vaddrs D" "p \<in> ppages"
  shows "own_change D s (snd (map_page flags p v s))"
    and "fst (map_page flags p v s) \<Longrightarrow> translate v s = None"
    and "\<And>w. w \<in> vaddrs D \<Longrightarrow> translate w (snd (map_page flags p v s)) =
           (if fst (map_page flags p v s) \<and> same_page v w then Some p else translate w s)"
    and "\<not> fst (map_page flags p v s) \<Longrightarrow> translate v s \<noteq> None \<or> free_count (bitmap (pmm s)) \<le> 2"
    and "fst (map_page flags p v s) \<Longrightarrow>
      free_count (bitmap (pmm s)) \<le> free_count (bitmap (pmm (snd (map_page flags p v s)))) + 3"
proof -
  obtain r s' where run: "paging_map_page p v flags s = (r, s')" by fastforce
  have v: "pml4_index v \<in> D" "page_align v \<noteq> 0" using assms(3) by (simp_all add: vaddrs_def)
  have "own_change D s s' \<and> (r \<noteq> 0 \<longrightarrow> translate v s = None) \<and>
    (r = 0 \<longrightarrow> translate v s \<noteq> None \<or> free_count (bitmap (pmm s)) \<le> 2) \<and>
    (r \<noteq> 0 \<longrightarrow> free_count (bitmap (pmm s)) \<le> free_count (bitmap (pmm s')) + 3) \<and>
    (\<forall>w. w \<in> vaddrs D \<longrightarrow> translate w s' = (if r \<noteq> 0 \<and> same_page v w then Some p else translate w s))"
  proof (cases rule: paging_map_page_cases [OF assms(1) v(1) assms(2) run, case_names mapped present full])
    case mapped
    then show ?thesis using v(2) assms(4) by (simp add: vaddrs_def ppages_def)
  qed (auto simp: vaddrs_def grown_translate dest: grownD(1))
  then show "own_change D s (snd (map_page flags p v s))"
    and "fst (map_page flags p v s) \<Longrightarrow> translate v s = None"
    and "\<And>w. w \<in> vaddrs D \<Longrightarrow> translate w (snd (map_page flags p v s)) =
           (if fst (map_page flags p v s) \<and> same_page v w then Some p else translate w s)"
    and "\<not> fst (map_page flags p v s) \<Longrightarrow> translate v s \<noteq> None \<or> free_count (bitmap (pmm s)) \<le> 2"
    and "fst (map_page flags p v s) \<Longrightarrow>
      free_count (bitmap (pmm s)) \<le> free_count (bitmap (pmm (snd (map_page flags p v s)))) + 3"
    by (simp_all add: map_page_def run)
qed

interpretation page_tables: address_space "pages_ok D" "\<lambda>s v. translate v s" same_page "vaddrs D" ppages
  "map_page PAGE_WRITABLE" paging_unmap_page for D
proof
  have fl: "PAGE_WRITABLE AND ADDR_MASK = 0" by (simp add: ADDR_MASK_def)
  fix s :: "'a kpage_scheme" and v p w
  assume s: "pages_ok D s" and v: "v \<in> vaddrs D"
  have vD: "pml4_index v \<in> D" using v by (simp add: vaddrs_def)
  note unmap = paging_unmap_page_ok [OF s vD]
  show "pages_ok D (paging_unmap_page v s)" using unmap own_changeD(1) by blast
  show "translate w (paging_unmap_page v s) = (if same_page v w then None else translate w s)" if "w \<in> vaddrs D"
    using unmap that by (simp add: vaddrs_def)
  assume p: "p \<in> ppages"
  show "pages_ok D (snd (map_page PAGE_WRITABLE p v s))" using map_page_ok(1) [OF s fl v p] own_changeD(1) by blast
  show "translate v s = None" if "fst (map_page PAGE_WRITABLE p v s)" using map_page_ok(2) [OF s fl v p that] .
  show "translate w (snd (map_page PAGE_WRITABLE p v s)) =
      (if fst (map_page PAGE_WRITABLE p v s) \<and> same_page v w then Some p else translate w s)" if "w \<in> vaddrs D"
    using map_page_ok(3) [OF s fl v p that] .
qed

section \<open>Pages of the kernel heap\<close>

definition heap_ok :: "nat set \<Rightarrow> 'z kpage_scheme \<Rightarrow> bool" where
  "heap_ok D s \<longleftrightarrow> pages_ok D s \<and> kernel_heap s \<in> vaddrs D \<and> page_align (kernel_heap s) = kernel_heap s"

lemma frame_in_ppages: "k < 2 ^ 40 \<Longrightarrow> frame k \<in> ppages"
  by (simp add: ppages_def)

lemma no_table_after:
  "own_change D s s' \<Longrightarrow> used_frame (bitmap (pmm s)) t \<Longrightarrow> \<not> is_table D s t \<Longrightarrow> \<not> is_table D s' t"
  using own_changeD(7) by blast

lemma kmalloc_page_cases:
  assumes heap: "heap_ok D s"
  obtains (page) k s' where "kmalloc_page s = Some (kernel_heap s, s')" "pages_ok D s'"
      "\<not> page_used (bitmap (pmm s)) k" "page_used (bitmap (pmm s')) k" "0 < k" "k < 8 * length (bitmap (pmm s'))"
      "\<not> is_table D s' (frame k)" "translate (kernel_heap s) s = None"
      "\<And>w. w \<in> vaddrs D \<Longrightarrow> translate w s' = (if same_page (kernel_heap s) w then Some (frame k) else translate w s)"
      "kernel_heap s' = kernel_heap s + 4096" "free_count (bitmap (pmm s)) \<le> free_count (bitmap (pmm s')) + 4"
  | (null) s' where "kmalloc_page s = Some (0, s')" "pages_ok D s'" "kernel_heap s' = kernel_heap s"
      "\<And>w. w \<in> vaddrs D \<Longrightarrow> translate w s' = translate w s"
      "translate (kernel_heap s) s \<noteq> None \<or> free_count (bitmap (pmm s)) \<le> 3"
proof (cases "first_free (bitmap (pmm s))")
  case None
  have ok: "pages_ok D s" using heap by (simp add: heap_ok_def)
  show thesis
    using None ok first_free_None_count [of "bitmap (pmm s)"] by (intro null [of "kprint (''Hata: Fiziksel bellek doldu!'' @ [NL]) s"])
      (simp_all add: kmalloc_page_def pmm_alloc_page_eq translate_def)
next
  case (Some k)
  have ok: "pages_ok D s" and v: "kernel_heap s \<in> vaddrs D" "page_align (kernel_heap s) = kernel_heap s"
    using heap by (simp_all add: heap_ok_def)
  obtain s1 where al: "pmm_alloc_page s = (frame k, s1)" using Some by (simp add: pmm_alloc_page_eq)
  note s1 = al pmm_alloc_page_ok(2-) [OF ok Some al]
  note kf = first_free_SomeD [OF Some] and own1 = own_changeD [OF grownD(1) [OF s1(2)]]
  have bm: "bitmap_ok (bitmap (pmm s))" using ok by (simp add: tables_ok_def)
  then have k: "0 < k" "k < 2 ^ 40" using kf by (auto simp: bitmap_ok_def intro!: gr0I)
  have used1: "used_frame (bitmap (pmm s1)) (frame k)" using k(1) kf(1) s1(3) own1(4) by (auto simp: used_frame_def)
  obtain r s2 where m: "paging_map_page (frame k) (kernel_heap s) PAGE_WRITABLE s1 = (r, s2)" by fastforce
  have fl: "PAGE_WRITABLE AND ADDR_MASK = 0" by (simp add: ADDR_MASK_def)
  have mp: "map_page PAGE_WRITABLE (frame k) (kernel_heap s) s1 = (r \<noteq> 0, s2)" by (simp add: map_page_def m)
  note mok = map_page_ok [OF own1(1) fl v(1) frame_in_ppages [OF k(2)], unfolded mp, simplified]
  note own2 = own_changeD [OF mok(1)]
  have tr1: "translate w s1 = translate w s" if "w \<in> vaddrs D" for w
    using grown_translate [OF s1(2)] that by (simp add: vaddrs_def)
  have nt: "\<not> is_table D s2 (frame k)" using no_table_after [OF mok(1) used1 s1(4)] .
  have used2: "page_used (bitmap (pmm s2)) k" "k < 8 * length (bitmap (pmm s2))"
    using own2(4,5) own1(4) s1(3) kf(1) by auto
  have nz: "frame k \<noteq> 0" using k by (simp add: frame_0_iff)
  show thesis
  proof (cases "r = 0")
    case True
    obtain s3 where s3: "pmm_free_page (frame k) s2 = Some s3" "pages_ok D s3" "phys s3 = phys s2" "pml4 s3 = pml4 s2"
      "kernel_heap s3 = kernel_heap s2"
      using pmm_free_page_ok [OF own2(1) k(1) used2(2,1) nt] by blast
    have "translate w s3 = translate w s" if "w \<in> vaddrs D" for w
      using mok(3) [OF that] tr1 [OF that] True s3(3,4) by (simp add: translate_def)
    moreover have "translate (kernel_heap s) s \<noteq> None \<or> free_count (bitmap (pmm s)) \<le> 3"
      using mok(4) True tr1 [OF v(1)] s1(5) by auto
    ultimately show thesis
      using s3 True m s1(1) nz own1(3) own2(3) by (intro null [of s3]) (simp_all add: kmalloc_page_def)
  next
    case False
    define s' where "s' = s2\<lparr>kernel_heap := kernel_heap s2 + of_nat PAGE_SIZE\<rparr>"
    have r: "r = kernel_heap s"
    proof (cases rule: paging_map_page_cases [OF own1(1) _ fl m, case_names D mapped present full])
      case D then show ?case using v(1) by (simp add: vaddrs_def)
    qed (use False v(2) in simp_all)
    have km: "kmalloc_page s = Some (kernel_heap s, s')"
      using False m s1(1) nz own1(3) r by (simp add: kmalloc_page_def s'_def)
    show thesis
      using km kf(2) used2 k(1) nt own2(1-3) own1(2,3) mok(2,3,5) tr1 False v(1) s1(5)
      by (intro page [of s' k]) (simp_all add: s'_def is_table_def translate_def)
  qed
qed

lemma aligned_offset: "page_align v = v \<Longrightarrow> v AND 0xFFF = 0"
  unfolding page_align_def by (metis and.assoc and.commute and_zero_eq bit.conj_cancel_right)

lemma page_align_iff: "page_align v = v \<longleftrightarrow> 4096 dvd unat v"
proof -
  have "v AND 0xFFF = take_bit 12 v" by (simp add: take_bit_eq_mask mask_eq_exp_minus_1)
  then have "v AND 0xFFF = 0 \<longleftrightarrow> 4096 dvd unat v"
    by (simp add: word_eq_iff_unsigned [where 'a = nat] take_bit_eq_mod unat_mod dvd_eq_mod_eq_0)
  moreover have "v AND 0xFFF = 0 \<Longrightarrow> page_align v = v"
    unfolding page_align_def by (rule bit_word_eqI) (auto simp: bit_simps bit_eq_iff)
  ultimately show ?thesis using aligned_offset by blast
qed

lemma page_align_next: "page_align v = v \<Longrightarrow> page_align (v + 4096) = v + 4096"
proof -
  assume "page_align v = v"
  then have "4096 dvd unat v + 4096" by (simp add: page_align_iff)
  then have "4096 dvd (unat v + 4096) mod 2 ^ 64" by (simp add: dvd_mod)
  then show ?thesis by (simp add: page_align_iff unat_word_ariths)
qed

text \<open>Freeing a mapped page whose frame is allocated and no table.\<close>

lemma kfree_page_ok:
  assumes ok: "pages_ok D s" and v: "v \<in> vaddrs D" "page_align v = v" and tr: "translate v s = Some (frame k)"
    and k: "0 < k" "k < 8 * length (bitmap (pmm s))" "page_used (bitmap (pmm s)) k" "\<not> is_table D s (frame k)"
  obtains s' where "kfree_page v s = Some s'" "pages_ok D s'" "kernel_heap s' = kernel_heap s"
    "\<And>j. page_used (bitmap (pmm s')) j \<longleftrightarrow> j \<noteq> k \<and> page_used (bitmap (pmm s)) j"
    "\<And>w. w \<in> vaddrs D \<Longrightarrow> translate w s' = (if same_page v w then None else translate w s)"
proof -
  have vD: "pml4_index v \<in> D" using v(1) by (simp add: vaddrs_def)
  have k40: "k < 2 ^ 40" using ok k(2) by (simp add: tables_ok_def bitmap_ok_def)
  have phys: "paging_get_physical_address v s = frame k" "frame k \<noteq> 0"
    using get_physical_of_translate [OF tr] aligned_offset [OF v(2)] k(1) k40 by (simp_all add: frame_0_iff)
  let ?s1 = "paging_unmap_page v s"
  note un = paging_unmap_page_ok [OF ok vD]
  have own: "own_change D s ?s1" and pmm: "pmm ?s1 = pmm s"
    and tr': "\<And>w. pml4_index w \<in> D \<Longrightarrow> translate w ?s1 = (if same_page v w then None else translate w s)"
    using un by blast+
  have "used_frame (bitmap (pmm s)) (frame k)" using k(1-3) by (auto simp: used_frame_def)
  then have nt: "\<not> is_table D ?s1 (frame k)" using no_table_after [OF own _ k(4)] by blast
  obtain s' where s': "pmm_free_page (frame k) ?s1 = Some s'" "pages_ok D s'" "phys s' = phys ?s1" "pml4 s' = pml4 ?s1"
    "kernel_heap s' = kernel_heap ?s1" "\<And>j. page_used (bitmap (pmm s')) j \<longleftrightarrow> j \<noteq> k \<and> page_used (bitmap (pmm s)) j"
    using pmm_free_page_ok [OF own_changeD(1) [OF own] k(1) _ _ nt] k(2,3) pmm by auto
  have "translate w s' = (if same_page v w then None else translate w s)" if "w \<in> vaddrs D" for w
    using tr' [of w] that s'(3,4) by (simp add: vaddrs_def translate_def)
  then show thesis
    using that [of s'] s' phys own_changeD(3) [OF own] by (simp add: kfree_page_def)
qed

text \<open>A successful \<open>kmalloc_pages\<close> maps the pages behind the first one but leaves \<open>kernel_heap\<close> there.\<close>

lemma alloc_and_map:
  assumes ok: "pages_ok D s" and v: "v \<in> vaddrs D" and k: "first_free (bitmap (pmm s)) = Some k"
    and alloc: "pmm_alloc_page s = (frame k, s1)"
    and run: "paging_map_page (frame k) v PAGE_WRITABLE s1 = (r, s2)" "r \<noteq> 0"
  shows "own_change D s s2" "translate v s2 = Some (frame k)"
    "\<And>w. w \<in> vaddrs D \<Longrightarrow> translate w s \<noteq> None \<Longrightarrow> translate w s2 \<noteq> None"
proof -
  have g: "grown D s s1"
    by (rule pmm_alloc_page_ok(2) [OF ok k alloc])
  have fl: "PAGE_WRITABLE AND ADDR_MASK = 0" by (simp add: ADDR_MASK_def)
  have "k < 2 ^ 40" using first_free_SomeD(1) [OF k] ok by (simp add: tables_ok_def bitmap_ok_def)
  then have p: "frame k \<in> ppages" by (rule frame_in_ppages)
  have mp: "map_page PAGE_WRITABLE (frame k) v s1 = (True, s2)" using run by (simp add: map_page_def)
  note mok = map_page_ok [OF grownD(2) [OF g] fl v p, unfolded mp, simplified]
  show "own_change D s s2" using own_change_trans [OF grownD(1) [OF g] mok(1)] .
  show "translate v s2 = Some (frame k)" using mok(3) [OF v] by (simp add: same_page_def)
  show "translate w s2 \<noteq> None" if "w \<in> vaddrs D" "translate w s \<noteq> None" for w
    using mok(3) [OF that(1)] grown_translate [OF g] that by (simp add: vaddrs_def)
qed

lemma kmalloc_pages_loop_maps:
  assumes "kmalloc_pages_loop v is s = Some (r, s')" "r \<noteq> 0" "pages_ok D s"
    and "\<forall>i \<in> set is. v + of_nat (i * PAGE_SIZE) \<in> vaddrs D"
  shows "own_change D s s' \<and> (\<forall>i \<in> set is. translate (v + of_nat (i * PAGE_SIZE)) s' \<noteq> None) \<and>
    (\<forall>w \<in> vaddrs D. translate w s \<noteq> None \<longrightarrow> translate w s' \<noteq> None)"
  using assms
proof (induction v "is" s rule: kmalloc_pages_loop.induct)
  case (1 v s)
  then show ?case by (simp add: own_change_refl)
next
  case (2 v i "is" s)
  let ?v = "v + of_nat (i * PAGE_SIZE)"
  obtain a s1 where a: "pmm_alloc_page s = (a, s1)" by fastforce
  obtain q s2 where q: "paging_map_page a ?v PAGE_WRITABLE s1 = (q, s2)" by fastforce
  have ne: "a \<noteq> 0" "q \<noteq> 0" "kmalloc_pages_loop v is s2 = Some (r, s')"
    using "2.prems"(1,2) by (auto simp: a q simp del: of_nat_mult split: if_splits bind_splits)
  then obtain k where k: "first_free (bitmap (pmm s)) = Some k" "a = frame k"
    using a by (auto simp: pmm_alloc_page_eq split: option.splits)
  have v: "?v \<in> vaddrs D" using "2.prems"(4) by simp
  note step = alloc_and_map [OF "2.prems"(3) v k(1) a [unfolded k(2)] q [unfolded k(2)] ne(2)]
  have "own_change D s2 s' \<and> (\<forall>i \<in> set is. translate (v + of_nat (i * PAGE_SIZE)) s' \<noteq> None) \<and>
    (\<forall>w \<in> vaddrs D. translate w s2 \<noteq> None \<longrightarrow> translate w s' \<noteq> None)"
    using "2.IH" [OF a [symmetric] refl _ q [symmetric] refl] ne own_changeD(1) [OF step(1)] "2.prems"(2,4) by simp
  then show ?case using step v own_change_trans [OF step(1)] by auto
qed

lemma kmalloc_pages_loop_result: "kmalloc_pages_loop v is s = Some (r, s') \<Longrightarrow> r = v \<or> r = 0"
  by (induction v "is" s rule: kmalloc_pages_loop.induct) (auto simp: Let_def split: prod.splits if_splits bind_splits)

section \<open>Several roots\<close>

text \<open>
  The tables below root \<open>r\<close> and those of the current root share no frame. Then no operation on the
  current root disturbs a walk from \<open>r\<close>.
\<close>

definition separate :: "nat set \<Rightarrow> u64 \<Rightarrow> nat set \<Rightarrow> 'z kpage_scheme \<Rightarrow> bool" where
  "separate E r D s \<longleftrightarrow> tables_ok E r (bitmap (pmm s)) (phys s) \<and> pages_ok D s \<and>
     (\<forall>ks t. good_path E ks \<and> length ks \<le> 3 \<and> walk (phys s) r ks = Some t \<longrightarrow> \<not> is_table D s t)"

lemma own_change_separate:
  assumes sep: "separate E r D s" and own: "own_change D s s'"
  shows "separate E r D s'"
    and "\<And>ks. good_path E ks \<Longrightarrow> length ks \<le> 4 \<Longrightarrow> walk (phys s') r ks = walk (phys s) r ks"
proof -
  have ok: "tables_ok E r (bitmap (pmm s)) (phys s)" using sep by (simp add: separate_def)
  have tab: "used_frame (bitmap (pmm s)) t" "\<not> is_table D s t"
    if "good_path E ks" "length ks \<le> 3" "walk (phys s) r ks = Some t" for ks t
    using that ok sep unfolding tables_ok_def separate_def by blast+
  have same: "phys s' (entry_addr t i) = phys s (entry_addr t i)"
    if "used_frame (bitmap (pmm s)) t" "\<not> is_table D s t" "i < 512" for t i
    using own_changeD(8) [OF own that(1,3)] no_table_after [OF own that(1,2)] by blast
  show walks: "walk (phys s') r ks = walk (phys s) r ks" if "good_path E ks" "length ks \<le> 4" for ks
    using walk_agree [OF ok that] same tab by blast
  have "tables_ok E r (bitmap (pmm s')) (phys s')"
    using ok own_changeD(1,9) [OF own] unfolding tables_ok_def by (simp add: walks cong: conj_cong)
  then show "separate E r D s'"
    using own_changeD(1) [OF own] tab no_table_after [OF own] walks unfolding separate_def by (auto simp: walks)
qed

section \<open>User address spaces\<close>

lemma pmm_alloc_page_root:
  "pmm_alloc_page (s\<lparr>pml4 := u\<rparr>) = (fst (pmm_alloc_page s), (snd (pmm_alloc_page s))\<lparr>pml4 := u\<rparr>)"
  by (simp add: pmm_alloc_page_eq kprint_def split: option.splits)

lemma pmm_free_page_root:
  "pmm_free_page a (s\<lparr>pml4 := u\<rparr>) = map_option (\<lambda>x. x\<lparr>pml4 := u\<rparr>) (pmm_free_page a s)"
  by (simp add: pmm_free_page_def kprint_def Let_def)

lemma pmm_free_page_separate:
  assumes sep: "separate E r D s" and k: "0 < k" "k < 8 * length (bitmap (pmm s))" "page_used (bitmap (pmm s)) k"
    and free: "\<not> is_table D s (frame k)" "\<And>ks. good_path E ks \<Longrightarrow> length ks \<le> 3 \<Longrightarrow> walk (phys s) r ks \<noteq> Some (frame k)"
  obtains s1 where "pmm_free_page (frame k) s = Some s1" "separate E r D s1" "phys s1 = phys s" "pml4 s1 = pml4 s"
proof -
  have ok: "pages_ok D s" "tables_ok E r (bitmap (pmm s)) (phys s)" using sep by (simp_all add: separate_def)
  obtain s1 where s1: "pmm_free_page (frame k) s = Some s1" "pages_ok D s1" "phys s1 = phys s" "pml4 s1 = pml4 s"
    "length (bitmap (pmm s1)) = length (bitmap (pmm s))"
    "\<And>j. page_used (bitmap (pmm s1)) j \<longleftrightarrow> j \<noteq> k \<and> page_used (bitmap (pmm s)) j"
    using pmm_free_page_ok [OF ok(1) k free(1)] by metis
  have "used_frame (bitmap (pmm s1)) t" if "used_frame (bitmap (pmm s)) t" "t \<noteq> frame k" for t
    using that unfolding used_frame_def by (auto simp: s1(5,6))
  then have "tables_ok E r (bitmap (pmm s1)) (phys s1)"
    using ok(2) s1(2) free(2) unfolding tables_ok_def s1(3) by blast
  then show thesis using that [OF s1(1)] s1(2-4) sep unfolding separate_def is_table_def by simp
qed

lemma user_flags: "flags AND ADDR_MASK = 0 \<Longrightarrow> (flags OR PAGE_USER) AND ADDR_MASK = 0"
proof -
  assume "flags AND ADDR_MASK = 0"
  moreover have "(flags OR 4) AND ADDR_MASK = (flags AND ADDR_MASK) OR (4 AND ADDR_MASK)"
    by (rule bit_word_eqI) (auto simp: bit_simps)
  ultimately show ?thesis by (simp add: ADDR_MASK_def)
qed

lemma alloc_user_page_ok:
  assumes sep: "separate E (pml4 s) D (s\<lparr>pml4 := u\<rparr>)" and v: "v \<in> vaddrs D" "v < KERNEL_BASE"
    and flags: "flags AND ADDR_MASK = 0"
  shows "\<exists>r s'. paging_alloc_user_page u v flags s = Some (r, s') \<and>
    pml4 s' = pml4 s \<and> separate E (pml4 s) D (s'\<lparr>pml4 := u\<rparr>) \<and>
    (\<forall>ks. good_path E ks \<and> length ks \<le> 4 \<longrightarrow> swalk s' ks = swalk s ks) \<and>
    (r \<noteq> 0 \<longrightarrow> (\<exists>k. \<not> page_used (bitmap (pmm s)) k \<and> (\<forall>w \<in> vaddrs D.
       walk (phys s') u (path_of w) = (if same_page v w then Some (frame k) else walk (phys s) u (path_of w)))))"
proof (cases "first_free (bitmap (pmm s))")
  case None
  then have "paging_alloc_user_page u v flags s = Some (0, kprint (''Hata: Fiziksel bellek doldu!'' @ [NL]) s)"
    using v(2) [folded not_le] by (simp add: paging_alloc_user_page_def pmm_alloc_page_eq del: not_le)
  then show ?thesis using sep by (simp add: separate_def is_table_def)
next
  case (Some k)
  let ?t = "s\<lparr>pml4 := u\<rparr>"
  have ok: "pages_ok D ?t" using sep by (simp add: separate_def)
  obtain t1 where al: "pmm_alloc_page ?t = (frame k, t1)" using Some by (simp add: pmm_alloc_page_eq)
  have Some': "first_free (bitmap (pmm ?t)) = Some k" using Some by simp
  note t1 = al pmm_alloc_page_ok(2,4,3) [OF ok Some' al, simplified]
  obtain s1 where s1: "pmm_alloc_page s = (frame k, s1)" "s1\<lparr>pml4 := u\<rparr> = t1" "pml4 s1 = pml4 s"
    using t1(1) Some unfolding pmm_alloc_page_root by (auto simp: pmm_alloc_page_eq)
  obtain q t2 where q: "paging_map_page (frame k) v (flags OR PAGE_USER) t1 = (q, t2)" by fastforce
  have mp: "map_page (flags OR PAGE_USER) (frame k) v t1 = (q \<noteq> 0, t2)" by (simp add: map_page_def q)
  note kf = first_free_SomeD [OF Some]
  have bm: "bitmap_ok (bitmap (pmm s))" using ok by (simp add: tables_ok_def)
  then have k: "0 < k" "k < 2 ^ 40" using kf by (auto simp: bitmap_ok_def intro!: gr0I)
  note mok = map_page_ok [OF grownD(2) [OF t1(2)] user_flags [OF flags] v(1) frame_in_ppages [OF k(2)], unfolded mp, simplified]
  note own1 = grownD(1) [OF t1(2)] and own2 = own_change_trans [OF grownD(1) [OF t1(2)] mok(1)]
  note sep2 = own_change_separate [OF sep own2]
  have pml4: "pml4 t2 = u" using own_changeD(2) [OF own2] by simp
  have used1: "used_frame (bitmap (pmm t1)) (frame k)"
    using k(1) kf(1) t1(4) own_changeD(4) [OF own1] by (auto simp: used_frame_def)
  have used2: "k < 8 * length (bitmap (pmm t2))" "page_used (bitmap (pmm t2)) k"
    using own_changeD(4) [OF own2] own_changeD(5) [OF mok(1)] kf(1) t1(4) by auto
  have nt: "\<not> is_table D t2 (frame k)" using no_table_after [OF mok(1) used1 t1(3)] .
  have nr: "walk (phys t2) (pml4 s) ks \<noteq> Some (frame k)" if "good_path E ks" "length ks \<le> 3" for ks
    using sep2(2) [of ks] that sep free_frame_unused [OF bm kf] by (auto simp: separate_def tables_ok_def)
  have nz: "frame k \<noteq> 0" using k by (simp add: frame_0_iff)
  have base: "paging_alloc_user_page u v flags s =
    (if q = 0 then do { s4 \<leftarrow> pmm_free_page (frame k) (t2\<lparr>pml4 := pml4 s\<rparr>); Some (0, s4) }
     else Some (q, t2\<lparr>pml4 := pml4 s\<rparr>))"
    using v(2) [folded not_le] s1 nz q by (simp add: paging_alloc_user_page_def del: not_le)
  show ?thesis
  proof (cases "q = 0")
    case True
    obtain t3 where t3: "pmm_free_page (frame k) t2 = Some t3" "separate E (pml4 s) D t3" "phys t3 = phys t2" "pml4 t3 = pml4 t2"
      using pmm_free_page_separate [OF sep2(1) k(1) used2 nt nr] by metis
    then have "paging_alloc_user_page u v flags s = Some (0, t3\<lparr>pml4 := pml4 s\<rparr>)"
      using True by (simp add: base pmm_free_page_root)
    moreover have "t3\<lparr>pml4 := u\<rparr> = t3" using t3(4) pml4 by (cases t3) simp
    ultimately show ?thesis using t3 sep2(2) by simp
  next
    case False
    then have s': "paging_alloc_user_page u v flags s = Some (q, t2\<lparr>pml4 := pml4 s\<rparr>)" by (simp add: base)
    have t2: "t2\<lparr>pml4 := u\<rparr> = t2" using pml4 by (cases t2) simp
    have "walk (phys t2) u (path_of w) = (if same_page v w then Some (frame k) else walk (phys s) u (path_of w))"
      if "w \<in> vaddrs D" for w
      using mok(3) [OF that] False grown_translate [OF t1(2)] that pml4 by (simp add: translate_def vaddrs_def)
    then show ?thesis using s' t2 sep2 kf(2) by auto
  qed
qed

text \<open>Copying entries from one table to another one.\<close>

lemma copy_entries_off: "a \<notin> f ` set is \<Longrightarrow> fold (\<lambda>i m. m(f i := m (g i))) is m a = m a"
  by (induction "is" arbitrary: m) auto

lemma copy_entries:
  assumes "\<forall>i \<in> set is. \<forall>j \<in> set is. f i \<noteq> g j" "inj_on f (set is)" "distinct is" "i \<in> set is"
  shows "fold (\<lambda>i m. m(f i := m (g i))) is m (f i) = m (g i)"
  using assms
proof (induction "is" arbitrary: m)
  case (Cons x xs)
  show ?case
  proof (cases "i = x")
    case True
    then have "f i \<notin> f ` set xs" using Cons.prems(2,3) by (auto simp: inj_on_def)
    from copy_entries_off [OF this, of g "m(f x := m (g x))"] show ?thesis using True by (simp add: fun_upd_same del: fun_upd_apply)
  next
    case False
    then have "g i \<noteq> f x" using Cons.prems(1,4) by auto
    moreover have "i \<in> set xs" using False Cons.prems(4) by simp
    ultimately show ?thesis
      using Cons.IH [of "m(f x := m (g x))"] Cons.prems(1-3) by (simp add: inj_on_insert)
  qed
qed simp

text \<open>The new root: its lower half is empty, its upper half is the kernel's; other tables are as before.\<close>

definition user_root :: "nat \<Rightarrow> nat \<Rightarrow> (u64 \<Rightarrow> u64) \<Rightarrow> u64 \<Rightarrow> u64" where
  "user_root k l m = fold (\<lambda>i m. m(entry_addr (frame k) i := m (entry_addr (frame l) i))) [256..<512] (zero_page (frame k) m)"

lemma user_root_entries:
  assumes k: "k < 2 ^ 40" and l: "l < 2 ^ 40" "l \<noteq> k"
  shows "j < 2 ^ 40 \<Longrightarrow> j \<noteq> k \<Longrightarrow> i < 512 \<Longrightarrow> user_root k l m (entry_addr (frame j) i) = m (entry_addr (frame j) i)"
    and "i < 256 \<Longrightarrow> user_root k l m (entry_addr (frame k) i) = 0"
    and "256 \<le> i \<Longrightarrow> i < 512 \<Longrightarrow> user_root k l m (entry_addr (frame k) i) = user_root k l m (entry_addr (frame l) i)"
proof -
  let ?f = "entry_addr (frame k)" and ?g = "entry_addr (frame l)" and ?m1 = "zero_page (frame k) m"
  have cp: "\<forall>i \<in> set [256..<512]. \<forall>j \<in> set [256..<512]. ?f i \<noteq> ?g j" "inj_on ?f (set [256..<512])" "distinct [256..<512]"
    using l k by (auto simp: entry_addr_eq_iff inj_on_def simp del: upt_rec_numeral)
  have off: "user_root k l m (entry_addr (frame j) i) = ?m1 (entry_addr (frame j) i)"
    if "j < 2 ^ 40" "i < 512" "j \<noteq> k \<or> i < 256" for i j
  proof -
    have "entry_addr (frame j) i \<notin> ?f ` set [256..<512]" using that k by (auto simp: entry_addr_eq_iff simp del: upt_rec_numeral)
    from copy_entries_off [OF this] show ?thesis by (simp add: user_root_def del: upt_rec_numeral)
  qed
  show other: "user_root k l m (entry_addr (frame j) i) = m (entry_addr (frame j) i)" if "j < 2 ^ 40" "j \<noteq> k" "i < 512" for i j
    using that k off [of j i] by (simp add: zero_page_entry)
  show "user_root k l m (?f i) = 0" if "i < 256" for i
    using that k off [of k i] by (simp add: zero_page_entry)
  show "user_root k l m (?f i) = user_root k l m (?g i)" if "256 \<le> i" "i < 512" for i
    using that k l copy_entries [OF cp, of i ?m1] other by (simp add: user_root_def zero_page_entry del: upt_rec_numeral)
qed

lemma create_user_space_ok:
  assumes ok: "pages_ok E s" and run: "paging_create_user_address_space s = (u, s')" and u: "u \<noteq> 0"
  shows "pml4 s' = pml4 s"
    and "\<And>ks. good_path E ks \<Longrightarrow> length ks \<le> 4 \<Longrightarrow> swalk s' ks = swalk s ks"
    and "separate E (pml4 s) {..<256} (s'\<lparr>pml4 := u\<rparr>)"
    and "\<And>i ks. i < 512 \<Longrightarrow> walk (phys s') u (i # ks) = (if i < 256 then None else walk (phys s') (pml4 s) (i # ks))"
proof -
  have "first_free (bitmap (pmm s)) \<noteq> None"
  proof
    assume "first_free (bitmap (pmm s)) = None"
    then show False using run u by (simp add: paging_create_user_address_space_def pmm_alloc_page_eq)
  qed
  then obtain k s1 where k1: "first_free (bitmap (pmm s)) = Some k" and al: "pmm_alloc_page s = (frame k, s1)"
    by (auto simp: pmm_alloc_page_eq)
  have k: "first_free (bitmap (pmm s)) = Some k" "u = frame k"
    using run u k1 by (simp_all add: paging_create_user_address_space_def al del: upt_rec_numeral split: if_splits)
  note s1 = al pmm_alloc_page_ok(2-4,6) [OF ok k(1) al]
  note kf = first_free_SomeD [OF k(1)] and own = own_changeD [OF grownD(1) [OF s1(2)]]
  have bm: "bitmap_ok (bitmap (pmm s1))" using own(1) by (simp add: tables_ok_def)
  have k40: "k < 2 ^ 40" using kf own(4) bm by (simp add: bitmap_ok_def)
  have root: "used_frame (bitmap (pmm s1)) (pml4 s1)"
    using own(1) unfolding tables_ok_def by (metis good_path_Nil list.size(3) walk.simps(1) zero_le)
  have nroot: "pml4 s1 \<noteq> frame k" using s1(4) unfolding is_table_def by (metis good_path_Nil list.size(3) walk.simps(1) zero_le)
  obtain l where "pml4 s1 = frame l" "l < 2 ^ 40" using root bm by (force simp: used_frame_def bitmap_ok_def)
  then have l: "pml4 s1 = frame l" "l < 2 ^ 40" "l \<noteq> k" using nroot by auto
  have s': "s' = s1\<lparr>phys := user_root k l (phys s1)\<rparr>"
    using run u s1(1) k l(1) by (simp add: paging_create_user_address_space_def user_root_def del: upt_rec_numeral)
  have ph: "phys s' = user_root k l (phys s1)" by (simp add: s')
  note other = user_root_entries(1) [OF k40 l(2,3), of _ _ "phys s1", folded ph]
    and low = user_root_entries(2) [OF k40 l(2,3), of _ "phys s1", folded ph]
    and high = user_root_entries(3) [OF k40 l(2,3), of _ "phys s1", folded ph]
  show pml4: "pml4 s' = pml4 s" using own(2) by (simp add: s' del: upt_rec_numeral)
  show "walk (phys s') u (i # ks) = (if i < 256 then None else walk (phys s') (pml4 s) (i # ks))" if "i < 512" for i ks
    using that low [of i] high [of i] l(1) own(2) k(2) by (simp add: tbl_next_def)
  have same: "phys s' (entry_addr t i) = phys s1 (entry_addr t i)"
    if t: "used_frame (bitmap (pmm s1)) t" "t \<noteq> frame k" "i < 512" for t i
  proof -
    obtain j where "t = frame j" "j < 2 ^ 40" using t(1) bm by (force simp: used_frame_def bitmap_ok_def)
    then show ?thesis using t(2,3) other by auto
  qed
  have walks: "walk (phys s') (pml4 s1) ks = swalk s1 ks" if "good_path E ks" "length ks \<le> 4" for ks
  proof (rule walk_agree [OF own(1) that])
    fix js xs t and i :: nat
    assume "walk (phys s1) (pml4 s1) js = Some t" "good_path E js" "length js \<le> 3" "used_frame (bitmap (pmm s1)) t" "i < 512"
    then show "phys s' (entry_addr t i) = phys s1 (entry_addr t i)" using s1(4) same by (auto simp: is_table_def)
  qed
  then show walks': "swalk s' ks = swalk s ks" if "good_path E ks" "length ks \<le> 4" for ks
    using that s1(5) pml4 own(2) by simp
  have bm': "bitmap (pmm s') = bitmap (pmm s1)" by (simp add: s' del: upt_rec_numeral)
  have tab: "tables_ok E (pml4 s) (bitmap (pmm s')) (phys s')"
    using own(1) walks own(2) unfolding tables_ok_def bm' by (simp cong: conj_cong)
  have only: "walk (phys s') u ks = (if ks = [] then Some u else None)" if "good_path {..<256} ks" for ks
    using that low k(2) by (cases ks) (auto simp: good_path_def tbl_next_def)
  have "0 < k" using ok kf(2) by (auto simp: tables_ok_def bitmap_ok_def intro!: gr0I)
  then have "used_frame (bitmap (pmm s')) u"
    using kf k(2) own(4) s1(3) by (auto simp: bm' used_frame_def)
  then have "tables_ok {..<256} u (bitmap (pmm s')) (phys s')"
    using bm only unfolding tables_ok_def bm' by (auto split: if_splits)
  moreover have "\<not> is_table {..<256} (s'\<lparr>pml4 := u\<rparr>) t"
    if "good_path E ks" "length ks \<le> 3" "walk (phys s') (pml4 s) ks = Some t" for ks t
    using that walks [of ks] own(2) s1(4) k(2) only by (auto simp: is_table_def split: if_splits)
  ultimately show "separate E (pml4 s) {..<256} (s'\<lparr>pml4 := u\<rparr>)"
    using tab by (auto simp: separate_def)
qed

section \<open>The start state\<close>

lemma mark_pages_ok:
  "\<forall>i \<in> set is. i < 8 * length bm \<Longrightarrow>
   \<exists>bm'. mark_pages is bm = Some bm' \<and> length bm' = length bm \<and> (\<forall>j. page_used bm' j \<longleftrightarrow> j \<in> set is \<or> page_used bm j)"
proof (induction "is" bm rule: mark_pages.induct)
  case (1 bm)
  then show ?case by simp
next
  case (2 i "is" bm)
  have i: "i < 8 * length bm" using 2(2) by simp
  then have d: "i div 8 < length bm" by (simp add: less_mult_imp_div_less mult.commute)
  then show ?case using "2.IH" "2.prems" page_used_set [OF i] by auto
qed

lemma ceil_div:
  fixes n d :: nat
  assumes "0 < d"
  shows "(n + (d - 1)) div d = (if n mod d = 0 then n div d else Suc (n div d))"
proof -
  have "n + (d - 1) = n div d * d + (n mod d + (d - 1))" using div_mult_mod_eq [of n d] by linarith
  then have "(n + (d - 1)) div d = n div d + (n mod d + (d - 1)) div d"
    using assms by (metis add.commute div_mult_self1 less_irrefl)
  moreover have "(n mod d + (d - 1)) div d = (if n mod d = 0 then 0 else 1)"
  proof (cases "n mod d")
    case (Suc r)
    moreover have "Suc r < d" using assms Suc by (metis mod_less_divisor)
    ultimately show ?thesis using assms div_add_self2 [of d r] by simp
  qed (use assms in simp)
  ultimately show ?thesis by simp
qed

text \<open>The size of the bitmap: one bit for every page, rounded up to whole bytes.\<close>

lemma bitmap_size:
  fixes usable :: u64
  assumes "usable \<le> 2 ^ 36"
  defines "size0 \<equiv> usable div of_nat PAGE_SIZE div 8"
  shows "unat (if size0 * 8 * of_nat PAGE_SIZE < usable then size0 + 1 else size0) = (unat usable + 32767) div 32768"
proof -
  have T: "unat usable \<le> 2 ^ 36" using assms(1) by (simp add: word_le_nat_alt)
  have s0: "unat size0 = unat usable div 32768" by (simp add: size0_def unat_div div_mult2_eq [symmetric])
  then have "unat size0 * 32768 \<le> 2 ^ 36" using T div_times_less_eq_dividend [of "unat usable" 32768] by linarith
  then have s0m: "unat (size0 * 32768) = unat usable div 32768 * 32768" "unat (size0 + 1) = Suc (unat size0)"
    using s0 by (simp_all add: unat_word_ariths)
  have lt: "size0 * 8 * of_nat PAGE_SIZE < usable \<longleftrightarrow> unat usable div 32768 * 32768 < unat usable"
    using s0m(1) by (simp add: word_less_nat_alt mult.assoc)
  have "unat usable div 32768 * 32768 < unat usable \<longleftrightarrow> unat usable mod 32768 \<noteq> 0"
    by (metis add.right_neutral div_mult_mod_eq div_times_less_eq_dividend le_neq_implies_less less_add_same_cancel1 not_gr_zero)
  then show ?thesis using lt s0 s0m(2) ceil_div [of 32768 "unat usable"] by simp
qed

definition usable_memory :: "memory_map_entry list \<Rightarrow> u64" where
  "usable_memory mmap = sum_list (map mm_size (filter (\<lambda>e. mm_type e = 1) mmap))"

lemma paging_init_ok:
  assumes T: "2 ^ 22 \<le> usable_memory mmap" "usable_memory mmap \<le> 2 ^ 36"
  defines "n \<equiv> (unat (usable_memory mmap) + 32767) div 32768"
  obtains s' where "paging_init root mmap s = Some s'" "length (bitmap (pmm s')) = n" "pml4 s' = root"
    "\<And>k. page_used (bitmap (pmm s')) k \<longleftrightarrow> k < 1024 \<or> page_used (replicate n 0) k"
    "unat (used_memory (pmm s')) = 4096 * (1024 + n div 4096)"
    "total_memory (pmm s') = usable_memory mmap"
    "free_memory (pmm s') = total_memory (pmm s') - used_memory (pmm s')"
proof -
  define usable where "usable = usable_memory mmap"
  define size0 where "size0 = usable div of_nat PAGE_SIZE div 8"
  define bs where "bs = (if size0 * 8 * of_nat PAGE_SIZE < usable then size0 + 1 else size0)"
  have bs: "unat bs = n"
    using bitmap_size [of usable] T(2) by (simp only: bs_def size0_def usable_def n_def)
  have "2 ^ 22 \<le> unat usable" "unat usable \<le> 2 ^ 36" using T by (simp_all add: usable_def word_le_nat_alt)
  then have n: "128 \<le> n" "n \<le> 2 ^ 21 + 1"
    using div_le_mono [of "2 ^ 22 + 32767" "unat usable + 32767" 32768]
      div_le_mono [of "unat usable + 32767" "2 ^ 36 + 32767" 32768] by (simp_all add: n_def usable_def)
  have pages: "unat ((bs + 4095) div of_nat PAGE_SIZE) = (n + 4095) div 4096"
    using n(2) by (simp add: unat_div unat_word_ariths bs)
  have "(n + 4095) div 4096 \<le> 513" using div_le_mono [of "n + 4095" "2 ^ 21 + 1 + 4095" 4096] n(2) by simp
  have "unat ((0x400000 + bs) div of_nat PAGE_SIZE) = 1024 + n div 4096"
    using n(2) by (simp add: unat_div unat_word_ariths bs)
  moreover have "n div 4096 \<le> 513" using div_le_mono [of n "2 ^ 21 + 1" 4096] n(2) by simp
  ultimately have reserved: "unat ((0x400000 + bs) div of_nat PAGE_SIZE * of_nat PAGE_SIZE) = 4096 * (1024 + n div 4096)"
    by (simp add: unat_word_ariths)
  obtain bm1 where bm1: "mark_pages [0..<1024] (replicate n 0) = Some bm1" "length bm1 = n"
    "\<And>j. page_used bm1 j \<longleftrightarrow> j < 1024 \<or> page_used (replicate n 0) j"
    using mark_pages_ok [of "[0..<1024]" "replicate n 0"] n(1) by (auto simp del: upt_rec_numeral)
  obtain bm2 where b: "mark_pages [256..<256 + (n + 4095) div 4096] bm1 = Some bm2" "length bm2 = n"
    "\<And>j. page_used bm2 j \<longleftrightarrow> j \<in> set [256..<256 + (n + 4095) div 4096] \<or> page_used bm1 j"
    using mark_pages_ok [of "[256..<256 + (n + 4095) div 4096]" bm1] n(1) bm1(2) \<open>(n + 4095) div 4096 \<le> 513\<close>
    by (auto simp del: upt_rec_numeral)
  have "page_used bm2 j \<longleftrightarrow> j < 1024 \<or> page_used (replicate n 0) j" for j
    using b(3) [of j] bm1(3) [of j] \<open>(n + 4095) div 4096 \<le> 513\<close> by auto
  note bm2 = b(1,2) this
  let ?res = "(0x400000 + bs) div of_nat PAGE_SIZE * of_nat PAGE_SIZE"
  let ?pmm = "\<lparr>total_memory = usable, free_memory = usable - ?res, used_memory = ?res,
    reserved_memory = sum_list (map mm_size (filter (\<lambda>e. mm_type e \<noteq> 1) mmap)), bitmap = bm2\<rparr>"
  have "paging_init root mmap s =
    Some (kprint ('' MB'' @ [NL]) (kprint (int_to_string (u64_to_int (usable div 1024 div 1024)))
      (kprint ''Sayfalama baslatildi. Bellek: '' (s\<lparr>pmm := ?pmm, pml4 := root\<rparr>))))"
    unfolding paging_init_def Let_def usable_memory_def [symmetric] usable_def [symmetric] size0_def [symmetric]
      bs_def [symmetric] pages bs bm1(1) Option.bind.simps bm2(1) ..
  then show thesis by (rule that) (use bm2 reserved in \<open>simp_all add: usable_def\<close>)
qed

section \<open>A sample machine\<close>

text \<open>32 frames, of which frames 0 and 1 are in use; the empty root table is frame 1.\<close>

definition sample_kpage :: kpage where
  "sample_kpage = kkbd.extend (sample_kkbd zero_keyboard)
     \<lparr>pmm = \<lparr>total_memory = 0x20000, free_memory = 0x1E000, used_memory = 0x2000, reserved_memory = 0,
              bitmap = [3, 0, 0, 0]\<rparr>,
      pml4 = 0x1000, phys = (\<lambda>_. 0), kernel_heap = KERNEL_BASE\<rparr>"

lemma sample_kpage [simp]:
  "bitmap (pmm sample_kpage) = [3, 0, 0, 0]" "pml4 sample_kpage = frame 1" "phys sample_kpage = (\<lambda>_. 0)"
  "kernel_heap sample_kpage = KERNEL_BASE"
  by (simp_all add: sample_kpage_def kkbd.defs frame_def)

lemma sample_page_used: "k < 32 \<Longrightarrow> page_used [3, 0, 0, 0] k \<longleftrightarrow> k < 2"
proof -
  have "\<forall>k \<in> set [0..<32]. page_used [3, 0, 0, 0] k \<longleftrightarrow> k < 2" by code_simp
  then show "k < 32 \<Longrightarrow> page_used [3, 0, 0, 0] k \<longleftrightarrow> k < 2" by simp
qed

lemma sample_walk: "walk (\<lambda>_. 0) t ks = (if ks = [] then Some t else None)"
  by (cases ks) (simp_all add: tbl_next_def)

lemma sample_translate [simp]: "translate v sample_kpage = None"
  by (simp add: translate_def sample_walk path_of_def)

lemma sample_bitmap_ok: "bitmap_ok [3, 0, 0, 0]"
  using sample_page_used [of 0] by (simp add: bitmap_ok_def)

lemma sample_pages_ok: "pages_ok D sample_kpage"
  using sample_page_used [of 1] sample_bitmap_ok
  by (auto simp: tables_ok_def sample_walk used_frame_def intro!: exI [of _ 1] split: if_splits)

lemma sample_free_count: "8 < free_count [3, 0, 0, 0]"
proof -
  have "{2..<32} \<subseteq> {k. k < 8 * length [3 :: u8, 0, 0, 0] \<and> \<not> page_used [3, 0, 0, 0] k}"
    using sample_page_used by auto
  from card_mono [OF _ this] show ?thesis by (simp add: free_count_def)
qed

lemma kernel_base_index: "pml4_index KERNEL_BASE = 511" "page_align KERNEL_BASE = KERNEL_BASE"
  by (simp_all add: pml4_index_def page_align_def)

lemma sample_heap_ok: "heap_ok {511} sample_kpage"
  using sample_pages_ok kernel_base_index by (simp add: heap_ok_def vaddrs_def)

section \<open>Properties\<close>

text \<open>C13: \<open>paging_map_page\<close> keeps the page tables a tree of allocated frames. When it succeeds, the page
  was not mapped before, and the translation changes at that page only, to the given frame. It
  returns NULL only if the page was mapped already or fewer than three frames were left for new
  tables, and then every translation is what it was.\<close>

theorem paging_map_page_exact:
  assumes "pages_ok D s" "v \<in> vaddrs D" "p AND ADDR_MASK = p" "flags AND ADDR_MASK = 0"
    and "paging_map_page p v flags s = (r, s')"
  shows "pages_ok D s' \<and> (r \<noteq> 0 \<longrightarrow> r = page_align v \<and> translate v s = None) \<and>
    (r = 0 \<longrightarrow> translate v s \<noteq> None \<or> free_count (bitmap (pmm s)) \<le> 2) \<and>
    (\<forall>w \<in> vaddrs D. translate w s' = (if r \<noteq> 0 \<and> same_page v w then Some p else translate w s))"
proof -
  have mp: "map_page flags p v s = (r \<noteq> 0, s')" using assms(5) by (simp add: map_page_def)
  have pp: "p \<in> ppages" using assms(3) by (simp add: ppages_def)
  note mok = map_page_ok [OF assms(1,4,2) pp, unfolded mp, simplified]
  have "r = page_align v" if "r \<noteq> 0"
    using that assms(5) by (auto simp: paging_map_page_def Let_def split: prod.splits option.splits if_splits)
  then show ?thesis using mok own_changeD(1) [OF mok(1)] by auto
qed

theorem paging_map_page_exact_witness:
  "\<exists>s'. paging_map_page 0x7000 0x40000123 6 sample_kpage = (0x40000000, s') \<and>
     translate 0x40000FFF s' = Some 0x7000 \<and> translate 0x40001000 s' = None"
proof -
  obtain r s' where run: "paging_map_page 0x7000 0x40000123 6 sample_kpage = (r, s')" by fastforce
  have v: "0x40000123 \<in> vaddrs UNIV" "0x40000FFF \<in> vaddrs UNIV" "0x40001000 \<in> vaddrs UNIV"
    by (simp_all add: vaddrs_def page_align_def)
  have f: "(0x7000 :: u64) AND ADDR_MASK = 0x7000" "(6 :: u64) AND ADDR_MASK = 0" by (simp_all add: ADDR_MASK_def)
  note ex = paging_map_page_exact [OF sample_pages_ok v(1) f run]
  have "r \<noteq> 0" using ex sample_free_count by auto
  moreover have "same_page 0x40000123 0x40000FFF" "\<not> same_page 0x40000123 0x40001000"
    by (simp_all add: same_page_def path_of_def pml4_index_def pdpt_index_def pd_index_def pt_index_def)
  ultimately show ?thesis using ex v run by (auto simp: page_align_def)
qed

text \<open>C12: The page tables refine a partial function from pages to frames: after any sequence of
  \<open>paging_map_page\<close> and \<open>paging_unmap_page\<close> on kernel addresses, every translation is what the
  updates of the successful calls make of it.\<close>

theorem page_tables_refine:
  assumes "pages_ok D s" "address_space.good_ops (vaddrs D) ppages ops"
    and "address_space.run (map_page PAGE_WRITABLE) paging_unmap_page ops s = (bs, s')" "w \<in> vaddrs D"
  shows "pages_ok D s' \<and> translate w s' = address_space.spec same_page ops bs (\<lambda>v. translate v s) w"
  using page_tables.run_refines [OF assms(1,2)] assms(3,4) by simp

theorem page_tables_refine_witness:
  "\<exists>bs s'. address_space.run (map_page PAGE_WRITABLE) paging_unmap_page
       [Map KERNEL_BASE 0x7000, Unmap KERNEL_BASE] sample_kpage = (bs, s') \<and> translate KERNEL_BASE s' = None"
proof -
  let ?ops = "[Map KERNEL_BASE 0x7000, Unmap KERNEL_BASE]"
  obtain bs s' where run: "address_space.run (map_page PAGE_WRITABLE) paging_unmap_page ?ops sample_kpage = (bs, s')"
    by fastforce
  have v: "KERNEL_BASE \<in> vaddrs {511}" using kernel_base_index by (simp add: vaddrs_def)
  moreover have "(0x7000 :: u64) \<in> ppages" by (simp add: ppages_def ADDR_MASK_def)
  ultimately have good: "address_space.good_ops (vaddrs {511}) ppages ?ops"
    by (simp add: page_tables.good_ops_def)
  obtain b1 b2 where bs: "bs = [b1, b2]" using run by (auto simp: split_beta)
  show ?thesis
    using page_tables_refine [OF sample_pages_ok good run v] run bs by (auto simp: same_page_def)
qed

text \<open>A page from \<open>kmalloc_page\<close> is mapped at the next heap address to a frame nobody used, and no
  other translation changes; \<open>kfree_page\<close> of it succeeds, gives exactly that frame back and
  restores every translation. \<open>kmalloc_page\<close> itself never fails when the heap address is unmapped
  and four frames are free.\<close>

theorem kmalloc_page_kfree_page:
  assumes "heap_ok D s" "translate (kernel_heap s) s = None" "4 \<le> free_count (bitmap (pmm s))"
  shows "\<exists>k s1 s2. kmalloc_page s = Some (kernel_heap s, s1) \<and> kernel_heap s1 = kernel_heap s + 4096 \<and>
    \<not> page_used (bitmap (pmm s)) k \<and> page_used (bitmap (pmm s1)) k \<and>
    paging_get_physical_address (kernel_heap s) s1 = frame k \<and>
    (\<forall>w \<in> vaddrs D. \<not> same_page (kernel_heap s) w \<longrightarrow> translate w s1 = translate w s) \<and>
    kfree_page (kernel_heap s) s1 = Some s2 \<and> pages_ok D s2 \<and>
    (\<forall>j. page_used (bitmap (pmm s2)) j \<longleftrightarrow> j \<noteq> k \<and> page_used (bitmap (pmm s1)) j) \<and>
    (\<forall>w \<in> vaddrs D. translate w s2 = translate w s)"
proof (cases rule: kmalloc_page_cases [OF assms(1), case_names page null])
  case (null s')
  then show ?thesis using assms(2,3) by simp
next
  case (page k s1)
  have h: "kernel_heap s \<in> vaddrs D" "page_align (kernel_heap s) = kernel_heap s"
    using assms(1) by (simp_all add: heap_ok_def)
  have tr: "translate (kernel_heap s) s1 = Some (frame k)" using page(9) [OF h(1)] by (simp add: same_page_def)
  obtain s2 where s2: "kfree_page (kernel_heap s) s1 = Some s2" "pages_ok D s2"
    "\<And>j. page_used (bitmap (pmm s2)) j \<longleftrightarrow> j \<noteq> k \<and> page_used (bitmap (pmm s1)) j"
    "\<And>w. w \<in> vaddrs D \<Longrightarrow> translate w s2 = (if same_page (kernel_heap s) w then None else translate w s1)"
    by (rule kfree_page_ok [OF page(2) h tr page(5,6,4,7)]) blast
  have "translate w s2 = translate w s" if w: "w \<in> vaddrs D" for w
    using s2(4) [OF w] page(9) [OF w] assms(2) same_page_translate [of "kernel_heap s" w s] by simp
  moreover have "paging_get_physical_address (kernel_heap s) s1 = frame k"
    using get_physical_of_translate [OF tr] aligned_offset [OF h(2)] by simp
  ultimately show ?thesis using page s2 by (intro exI [of _ k] exI [of _ s1] exI [of _ s2]) auto
qed

theorem kmalloc_page_kfree_page_witness:
  "\<exists>k s1 s2. kmalloc_page sample_kpage = Some (KERNEL_BASE, s1) \<and> \<not> page_used [3, 0, 0, 0] k \<and>
     paging_get_physical_address KERNEL_BASE s1 = frame k \<and> kfree_page KERNEL_BASE s1 = Some s2 \<and>
     \<not> page_used (bitmap (pmm s2)) k"
  using kmalloc_page_kfree_page [OF sample_heap_ok] sample_free_count by fastforce

text \<open>After a successful \<open>kmalloc_pages\<close> for two or more pages, \<open>kernel_heap\<close> still points to the
  second of them. Every \<open>kmalloc_page\<close> from then on finds that address mapped, returns NULL and leaves
  \<open>kernel_heap\<close> where it is.\<close>

theorem kmalloc_pages_blocks_heap:
  assumes "heap_ok D s" "2 \<le> n" "\<forall>i < n. kernel_heap s + of_nat (i * PAGE_SIZE) \<in> vaddrs D"
    and "kmalloc_pages n s = Some (r, s')" "r \<noteq> 0"
  shows "kernel_heap s' = r + of_nat PAGE_SIZE \<and> translate (kernel_heap s') s' \<noteq> None \<and>
    (\<exists>s''. kmalloc_page s' = Some (0, s'') \<and> kernel_heap s'' = kernel_heap s' \<and>
       translate (kernel_heap s') s'' \<noteq> None)"
proof -
  obtain s1 where s1: "kmalloc_page s = Some (kernel_heap s, s1)" "pages_ok D s1"
    "kernel_heap s1 = kernel_heap s + 4096" "kmalloc_pages_loop (kernel_heap s) [1..<n] s1 = Some (r, s')"
    using assms(4,5) by (cases rule: kmalloc_page_cases [OF assms(1)]) (auto simp: kmalloc_pages_def split: if_splits)
  have r: "r = kernel_heap s" using kmalloc_pages_loop_result [OF s1(4)] assms(5) by blast
  have "own_change D s1 s' \<and> translate (kernel_heap s + 4096) s' \<noteq> None"
    using kmalloc_pages_loop_maps [OF s1(4) assms(5) s1(2)] assms(2,3) by (auto dest: bspec [of _ _ 1])
  then have h: "kernel_heap s' = r + of_nat PAGE_SIZE" "translate (kernel_heap s') s' \<noteq> None" "pages_ok D s'"
    using own_changeD(1,3) [of D s1 s'] s1(3) r by auto
  have v: "kernel_heap s' \<in> vaddrs D" using assms(3) [rule_format, of 1] assms(2) h(1) r by simp
  have al: "page_align (kernel_heap s') = kernel_heap s'"
    using assms(1) h(1) r by (simp add: heap_ok_def page_align_next)
  have heap: "heap_ok D s'" using h(3) v al by (simp add: heap_ok_def)
  show ?thesis
  proof (cases rule: kmalloc_page_cases [OF heap, case_names page null])
    case page then show ?thesis using h(2) by simp
  next
    case (null s'') then show ?thesis using h v by auto
  qed
qed

lemma kmalloc_pages_two:
  assumes heap: "heap_ok D s" and v: "kernel_heap s + 4096 \<in> vaddrs D" "\<not> same_page (kernel_heap s) (kernel_heap s + 4096)"
    and free: "translate (kernel_heap s) s = None" "translate (kernel_heap s + 4096) s = None"
      "8 \<le> free_count (bitmap (pmm s))"
  shows "\<exists>s'. kmalloc_pages 2 s = Some (kernel_heap s, s')"
proof (cases rule: kmalloc_page_cases [OF heap, case_names page null])
  case (null s')
  then show ?thesis using free(1,3) by simp
next
  case (page k s1)
  have nz: "kernel_heap s \<noteq> 0" using heap by (auto simp: heap_ok_def vaddrs_def)
  have count: "4 \<le> free_count (bitmap (pmm s1))" using page(11) free(3) by simp
  then obtain j where j: "first_free (bitmap (pmm s1)) = Some j"
    using first_free_None_count [of "bitmap (pmm s1)"] by (cases "first_free (bitmap (pmm s1))") auto
  obtain s2 where al: "pmm_alloc_page s1 = (frame j, s2)" using j by (simp add: pmm_alloc_page_eq)
  note a = pmm_alloc_page_ok [OF page(2) j al]
  have bm: "bitmap_ok (bitmap (pmm s1))" using page(2) by (simp add: tables_ok_def)
  then have "0 < j" "j < 2 ^ 40" using first_free_SomeD [OF j] by (auto simp: bitmap_ok_def intro!: gr0I)
  then have jz: "frame j \<noteq> 0" "frame j \<in> ppages" by (simp_all add: frame_0_iff frame_in_ppages)
  have fl: "PAGE_WRITABLE AND ADDR_MASK = 0" by (simp add: ADDR_MASK_def)
  obtain q s3 where q: "paging_map_page (frame j) (kernel_heap s + 4096) PAGE_WRITABLE s2 = (q, s3)" by fastforce
  have "translate (kernel_heap s + 4096) s2 = None"
    using grown_translate [OF a(2), of "kernel_heap s + 4096"] page(9) [OF v(1)] v free(2) by (simp add: vaddrs_def)
  then have "q \<noteq> 0"
    using map_page_ok(4) [OF grownD(2) [OF a(2)] fl v(1) jz(2)] q count a(5) by (auto simp: map_page_def)
  moreover have "[1..<2] = [1::nat]" by (simp add: upt_rec)
  ultimately show ?thesis using page(1) nz al q jz(1) by (simp add: kmalloc_pages_def)
qed

theorem kmalloc_pages_blocks_heap_witness:
  "\<exists>r s' s''. kmalloc_pages 2 sample_kpage = Some (r, s') \<and> r \<noteq> 0 \<and> kmalloc_page s' = Some (0, s'')"
proof -
  have v: "KERNEL_BASE + 4096 \<in> vaddrs {511}" "\<not> same_page KERNEL_BASE (KERNEL_BASE + 4096)"
    by (simp_all add: vaddrs_def page_align_def same_page_def path_of_def pml4_index_def pdpt_index_def pd_index_def pt_index_def)
  obtain s' where s': "kmalloc_pages 2 sample_kpage = Some (KERNEL_BASE, s')"
    using kmalloc_pages_two [OF sample_heap_ok] v sample_free_count by auto
  have "\<forall>i < 2. kernel_heap sample_kpage + of_nat (i * PAGE_SIZE) \<in> vaddrs {511}"
    using v(1) kernel_base_index by (auto simp: less_2_cases_iff vaddrs_def)
  then show ?thesis
    using kmalloc_pages_blocks_heap [OF sample_heap_ok _ _ s'] s' by fastforce
qed



text \<open>\<open>paging_init\<close> marks exactly the first 1024 frames (the kernel's 4 MB, which hold the bitmap
  too) as used, for any memory between 4 MB and 64 GB. The accounting counts the frames of the
  bitmap a second time: \<open>used_memory\<close> exceeds the marked frames by a page for every 4096 bytes of
  bitmap.\<close>

theorem paging_init_marks:
  assumes "2 ^ 22 \<le> usable_memory mmap" "usable_memory mmap \<le> 2 ^ 36"
  defines "n \<equiv> (unat (usable_memory mmap) + 32767) div 32768"
  shows "\<exists>s'. paging_init root mmap s = Some s' \<and> length (bitmap (pmm s')) = n \<and> pml4 s' = root \<and>
    (\<forall>k < 8 * n. page_used (bitmap (pmm s')) k \<longleftrightarrow> k < 1024) \<and>
    unat (used_memory (pmm s')) = 4096 * (1024 + n div 4096) \<and>
    free_memory (pmm s') = usable_memory mmap - used_memory (pmm s')"
proof -
  have zero: "\<not> page_used (replicate n 0) k" if "k < 8 * n" for k
    using that by (simp add: page_used_def less_mult_imp_div_less mult.commute)
  show ?thesis
    by (rule paging_init_ok [OF assms(1,2), of root s]) (use zero in \<open>auto simp: n_def\<close>)
qed

theorem paging_init_marks_witness:
  "\<exists>s'. paging_init 0x1000 [\<lparr>mm_start = 0x100000, mm_size = 0x8000000, mm_type = 1\<rparr>] sample_kpage = Some s' \<and>
     unat (used_memory (pmm s')) = 4096 * 1025 \<and> (\<forall>k. k < 32768 \<longrightarrow> (page_used (bitmap (pmm s')) k \<longleftrightarrow> k < 1024))"
proof -
  let ?mmap = "[\<lparr>mm_start = 0x100000, mm_size = 0x8000000, mm_type = 1\<rparr>]"
  have u: "usable_memory ?mmap = 0x8000000" by (simp add: usable_memory_def)
  have "unat (0x8000000 :: u64) = 0x8000000" by simp
  then show ?thesis using paging_init_marks [of ?mmap "0x1000" sample_kpage] unfolding u by auto
qed

end
