(* ===== verification/Filesystem.thy ===== *)
theory Filesystem
  imports CLib "HOL-Library.Monad_Syntax"
begin

text \<open>
  The FAT32 file system of \<open>filesystem.c\<close>. The disk driver (\<open>ata_read_sectors\<close>, \<open>ata_write_sectors\<close>)
  is not part of the repository: it is the argument \<open>A\<close> of the definitions, with the state of the disk
  as a value of a type of its own. All calls transfer one sector. A read that fails is \<^const>\<open>None\<close>; a
  write returns whether it succeeded and the disk after it.

  Results of an operation are C's: an \<open>int\<close> code, or a byte count. \<^const>\<open>None\<close> as the result of an
  operation is a fault or a loop that never ends: a division by zero, or an access outside a 512-byte
  sector buffer. A \<open>fs_file_t*\<close> argument is passed and returned, output buffers are returned.
\<close>

abbreviation FS_SUCCESS :: int where "FS_SUCCESS \<equiv> 0"
abbreviation FS_ERROR :: int where "FS_ERROR \<equiv> -1"
abbreviation FS_NOT_FOUND :: int where "FS_NOT_FOUND \<equiv> -2"
abbreviation FS_NOT_MOUNTED :: int where "FS_NOT_MOUNTED \<equiv> -3"
abbreviation FS_FILE :: u8 where "FS_FILE \<equiv> 1"
abbreviation FS_DIRECTORY :: u8 where "FS_DIRECTORY \<equiv> 2"
abbreviation FAT32_SIGNATURE :: u8 where "FAT32_SIGNATURE \<equiv> 0x28"
abbreviation FAT32_EOC :: u32 where "FAT32_EOC \<equiv> 0x0FFFFFF8"
abbreviation FAT_MASK :: u32 where "FAT_MASK \<equiv> 0x0FFFFFFF"
abbreviation SECTOR :: nat where "SECTOR \<equiv> 512"

record 'd ata =
  ata_read_sectors :: "u32 \<Rightarrow> 'd \<Rightarrow> u8 list option"
  ata_write_sectors :: "u32 \<Rightarrow> u8 list \<Rightarrow> 'd \<Rightarrow> bool \<times> 'd"

record fs_info =
  fi_device :: u32
  partition_start :: u32
  fat_start :: u32
  data_start :: u32
  root_cluster :: u32
  sectors_per_cluster :: u32
  bytes_per_sector :: u32
  bytes_per_cluster :: u32
  mounted :: u8

record fs_dirent =
  de_name :: string
  de_size :: u32
  de_flags :: u8
  de_cluster :: u32
  de_modified :: u32
  de_created :: u32

record fs_file =
  f_dirent :: fs_dirent
  f_position :: u32
  f_current_cluster :: u32
  f_device :: u32

text \<open>The only state of the module is \<open>fs_info\<close>; the disk is the state of the driver.\<close>

record 'd kfs =
  fsi :: fs_info
  disk :: 'd

definition zero_fs_info :: fs_info where
  "zero_fs_info = \<lparr>fi_device = 0, partition_start = 0, fat_start = 0, data_start = 0, root_cluster = 0,
     sectors_per_cluster = 0, bytes_per_sector = 0, bytes_per_cluster = 0, mounted = 0\<rparr>"

definition zero_dirent :: fs_dirent where
  "zero_dirent = \<lparr>de_name = [], de_size = 0, de_flags = 0, de_cluster = 0, de_modified = 0, de_created = 0\<rparr>"

definition zero_file :: fs_file where
  "zero_file = \<lparr>f_dirent = zero_dirent, f_position = 0, f_current_cluster = 0, f_device = 0\<rparr>"

section \<open>Bytes of a sector\<close>

definition le16 :: "u8 list \<Rightarrow> nat \<Rightarrow> u16" where
  "le16 b i = ucast (b ! i) OR push_bit 8 (ucast (b ! (i + 1)))"

definition le32 :: "u8 list \<Rightarrow> nat \<Rightarrow> u32" where
  "le32 b i = ucast (b ! i) OR push_bit 8 (ucast (b ! (i + 1))) OR
     push_bit 16 (ucast (b ! (i + 2))) OR push_bit 24 (ucast (b ! (i + 3)))"

definition put32 :: "nat \<Rightarrow> u32 \<Rightarrow> u8 list \<Rightarrow> u8 list" where
  "put32 i w b = b[i := ucast w, i + 1 := ucast (drop_bit 8 w), i + 2 := ucast (drop_bit 16 w),
     i + 3 := ucast (drop_bit 24 w)]"

fun strcpy :: "string \<Rightarrow> string" where
  "strcpy [] = []"
| "strcpy (c # cs) = (if c = NUL then [] else c # strcpy cs)"

section \<open>The file allocation table\<close>

definition fat_sector :: "u32 \<Rightarrow> fs_info \<Rightarrow> u32" where
  "fat_sector cluster fi = fat_start fi + cluster * 4 div bytes_per_sector fi"

definition fat_offset :: "u32 \<Rightarrow> fs_info \<Rightarrow> nat" where
  "fat_offset cluster fi = unat (cluster * 4 mod bytes_per_sector fi)"

definition fat32_read_fat_entry :: "'d ata \<Rightarrow> u32 \<Rightarrow> 'd kfs \<Rightarrow> u32 option" where
  "fat32_read_fat_entry A cluster s =
     (if bytes_per_sector (fsi s) = 0 then None
      else case ata_read_sectors A (fat_sector cluster (fsi s)) (disk s) of
             None \<Rightarrow> Some 0
           | Some sector \<Rightarrow>
               if fat_offset cluster (fsi s) + 4 \<le> SECTOR
               then Some (le32 sector (fat_offset cluster (fsi s)) AND FAT_MASK) else None)"

definition fat32_write_fat_entry :: "'d ata \<Rightarrow> u32 \<Rightarrow> u32 \<Rightarrow> 'd kfs \<Rightarrow> (int \<times> 'd kfs) option" where
  "fat32_write_fat_entry A cluster v s =
     (if bytes_per_sector (fsi s) = 0 then None
      else case ata_read_sectors A (fat_sector cluster (fsi s)) (disk s) of
             None \<Rightarrow> Some (FS_ERROR, s)
           | Some sector \<Rightarrow>
               if fat_offset cluster (fsi s) + 4 \<le> SECTOR
               then let off = fat_offset cluster (fsi s);
                        sector' = put32 off ((le32 sector off AND 0xF0000000) OR (v AND FAT_MASK)) sector;
                        (ok, d) = ata_write_sectors A (fat_sector cluster (fsi s)) sector' (disk s)
                    in Some (if ok then FS_SUCCESS else FS_ERROR, s\<lparr>disk := d\<rparr>)
               else None)"

definition fat32_cluster_to_lba :: "u32 \<Rightarrow> 'd kfs \<Rightarrow> u32" where
  "fat32_cluster_to_lba cluster s = data_start (fsi s) + (cluster - 2) * sectors_per_cluster (fsi s)"

section \<open>Mounting\<close>

definition fs_init :: "'d kfs \<Rightarrow> int \<times> 'd kfs" where
  "fs_init s = (FS_SUCCESS, s\<lparr>fsi := zero_fs_info\<rparr>)"

text \<open>The fields of the packed BIOS parameter block, by their offset in the boot sector.\<close>

definition bpb_bytes_per_sector :: "u8 list \<Rightarrow> u16" where "bpb_bytes_per_sector b = le16 b 11"
definition bpb_sectors_per_cluster :: "u8 list \<Rightarrow> u8" where "bpb_sectors_per_cluster b = b ! 13"
definition bpb_reserved_sectors :: "u8 list \<Rightarrow> u16" where "bpb_reserved_sectors b = le16 b 14"
definition bpb_num_fats :: "u8 list \<Rightarrow> u8" where "bpb_num_fats b = b ! 16"
definition bpb_fat_size_32 :: "u8 list \<Rightarrow> u32" where "bpb_fat_size_32 b = le32 b 36"
definition bpb_root_cluster :: "u8 list \<Rightarrow> u32" where "bpb_root_cluster b = le32 b 44"
definition bpb_boot_signature :: "u8 list \<Rightarrow> u8" where "bpb_boot_signature b = b ! 66"

definition fs_mount :: "'d ata \<Rightarrow> u32 \<Rightarrow> 'd kfs \<Rightarrow> int \<times> 'd kfs" where
  "fs_mount A device s =
     (let s1 = s\<lparr>fsi := (fsi s)\<lparr>fi_device := device\<rparr>\<rparr>
      in case ata_read_sectors A 0 (disk s1) of
           None \<Rightarrow> (FS_ERROR, s1)
         | Some mbr \<Rightarrow>
             let start = le32 mbr (0x1BE + 0x08);
                 s2 = s1\<lparr>fsi := (fsi s1)\<lparr>partition_start := start\<rparr>\<rparr>
             in case ata_read_sectors A start (disk s2) of
                  None \<Rightarrow> (FS_ERROR, s2)
                | Some bpb \<Rightarrow>
                    if bpb_boot_signature bpb \<noteq> FAT32_SIGNATURE then (FS_ERROR, s2)
                    else let bps = ucast (bpb_bytes_per_sector bpb);
                             spc = ucast (bpb_sectors_per_cluster bpb);
                             fat = start + ucast (bpb_reserved_sectors bpb)
                         in (FS_SUCCESS, s2\<lparr>fsi := (fsi s2)\<lparr>bytes_per_sector := bps, sectors_per_cluster := spc,
                               bytes_per_cluster := bps * spc, root_cluster := bpb_root_cluster bpb,
                               fat_start := fat,
                               data_start := fat + ucast (bpb_num_fats bpb) * bpb_fat_size_32 bpb,
                               mounted := 1\<rparr>\<rparr>))"

definition fs_unmount :: "'d kfs \<Rightarrow> int \<times> 'd kfs" where
  "fs_unmount s = (FS_SUCCESS, s\<lparr>fsi := (fsi s)\<lparr>mounted := 0\<rparr>\<rparr>)"

section \<open>Allocation of a cluster\<close>

text \<open>
  One pass of the outer loop searches the entries of a sector of the table: the first zero entry
  whose cluster number is at least 2. \<open>n\<close> sectors are left, \<open>k\<close> is the current one.
\<close>

definition entry_cluster :: "u32 \<Rightarrow> nat \<Rightarrow> fs_info \<Rightarrow> u32" where
  "entry_cluster k j fi = (k * bytes_per_sector fi + of_nat (4 * j)) div 4"

definition sector_entries :: "fs_info \<Rightarrow> nat" where
  "sector_entries fi = (unat (bytes_per_sector fi) + 3) div 4"

definition free_entry :: "u8 list \<Rightarrow> u32 \<Rightarrow> fs_info \<Rightarrow> nat option" where
  "free_entry sector k fi =
     find_index (\<lambda>j. le32 sector (4 * j) AND FAT_MASK = 0 \<and> 2 \<le> entry_cluster k j fi)
       [0..<min 128 (sector_entries fi)]"

fun allocate_loop :: "'d ata \<Rightarrow> nat \<Rightarrow> u32 \<Rightarrow> 'd kfs \<Rightarrow> (u32 \<times> 'd kfs) option" where
  "allocate_loop A 0 k s = Some (0, s)"
| "allocate_loop A (Suc n) k s =
     (case ata_read_sectors A (fat_start (fsi s) + k) (disk s) of
        None \<Rightarrow> Some (0, s)
      | Some sector \<Rightarrow>
          (case free_entry sector k (fsi s) of
             Some j \<Rightarrow>
               do { (_, s1) \<leftarrow> fat32_write_fat_entry A (entry_cluster k j (fsi s)) FAT32_EOC s;
                    Some (entry_cluster k j (fsi s), s1) }
           | None \<Rightarrow> if sector_entries (fsi s) \<le> 128 then allocate_loop A n (k + 1) s else None))"

definition fat32_allocate_cluster :: "'d ata \<Rightarrow> 'd kfs \<Rightarrow> (u32 \<times> 'd kfs) option" where
  "fat32_allocate_cluster A s =
     (if mounted (fsi s) = 0 then Some (0, s)
      else allocate_loop A (unat (data_start (fsi s) - fat_start (fsi s))) 0 s)"

section \<open>Directory entries\<close>

definition dir_entry :: "u8 list \<Rightarrow> nat \<Rightarrow> u8 list" where
  "dir_entry sector off = take 32 (drop off sector)"

definition bytes_to_string :: "u8 list \<Rightarrow> string" where
  "bytes_to_string b = map (\<lambda>x. char_of (unat x)) b"

text \<open>The 8.3 name: the bytes that are no blanks, with a dot when there is an extension.\<close>

definition short_name :: "u8 list \<Rightarrow> string" where
  "short_name e =
     bytes_to_string (filter (\<lambda>x. x \<noteq> 0x20) (take 8 e)) @
     (if e ! 8 \<noteq> 0x20 then CHR ''.'' # bytes_to_string (filter (\<lambda>x. x \<noteq> 0x20) (take 3 (drop 8 e))) else [])"

definition fill_dirent :: "u8 list \<Rightarrow> fs_dirent \<Rightarrow> fs_dirent" where
  "fill_dirent e d = d\<lparr>de_name := strcpy (short_name e), de_size := le32 e 28,
     de_flags := (if e ! 11 AND 0x10 \<noteq> 0 then FS_DIRECTORY else FS_FILE),
     de_cluster := push_bit 16 (ucast (le16 e 20)) OR ucast (le16 e 26)\<rparr>"

section \<open>Opening files\<close>

text \<open>
  The scan of one sector for a name, at the given offsets: \<^term>\<open>Some None\<close> when the sector does not
  have it, \<^const>\<open>None\<close> when the scan leaves the buffer. An entry that starts with 0 ends the scan of the
  sector only.
\<close>

fun scan_sector :: "nat list \<Rightarrow> u8 list \<Rightarrow> string \<Rightarrow> u8 list option option" where
  "scan_sector [] sector name = Some None"
| "scan_sector (j # js) sector name =
     (if SECTOR < j + 32 then None
      else let e = dir_entry sector j
           in if e ! 0 = 0 then Some None
              else if e ! 0 = 0xE5 then scan_sector js sector name
              else if e ! 11 = 0x0F then scan_sector js sector name
              else if strcmp (short_name e) name = 0 then Some (Some e)
              else scan_sector js sector name)"

definition entry_offsets :: "fs_info \<Rightarrow> nat list" where
  "entry_offsets fi = map (\<lambda>i. 32 * i) [0..<(unat (bytes_per_sector fi) + 31) div 32]"

datatype lookup = Found "u8 list" | Missing | Unreadable

fun scan_cluster :: "'d ata \<Rightarrow> nat \<Rightarrow> u32 \<Rightarrow> string \<Rightarrow> 'd kfs \<Rightarrow> lookup option" where
  "scan_cluster A 0 lba name s = Some Missing"
| "scan_cluster A (Suc n) lba name s =
     (case ata_read_sectors A lba (disk s) of
        None \<Rightarrow> Some Unreadable
      | Some sector \<Rightarrow>
          do { r \<leftarrow> scan_sector (entry_offsets (fsi s)) sector name;
               case r of Some e \<Rightarrow> Some (Found e) | None \<Rightarrow> scan_cluster A n (lba + 1) name s })"

definition fs_open :: "'d ata \<Rightarrow> string \<Rightarrow> fs_file \<Rightarrow> 'd kfs \<Rightarrow> (int \<times> fs_file) option" where
  "fs_open A path file s =
     (if mounted (fsi s) = 0 then Some (FS_NOT_MOUNTED, file)
      else if strcmp path ''/'' = 0 then
        Some (FS_SUCCESS, zero_file\<lparr>f_dirent := zero_dirent\<lparr>de_name := strcpy ''/'', de_flags := FS_DIRECTORY,
             de_cluster := root_cluster (fsi s)\<rparr>,
           f_current_cluster := root_cluster (fsi s), f_position := 0, f_device := fi_device (fsi s)\<rparr>)
      else let filename = strcpy (dropWhile (\<lambda>c. c = CHR ''/'') path)
           in if 128 \<le> length filename then None
              else do { r \<leftarrow> scan_cluster A (unat (sectors_per_cluster (fsi s)))
                          (fat32_cluster_to_lba (root_cluster (fsi s)) s) filename s;
                        case r of
                          Unreadable \<Rightarrow> Some (FS_ERROR, file)
                        | Missing \<Rightarrow> Some (FS_NOT_FOUND, file)
                        | Found e \<Rightarrow>
                            let d = fill_dirent e zero_dirent
                            in Some (FS_SUCCESS, zero_file\<lparr>f_dirent := d, f_current_cluster := de_cluster d,
                                 f_position := 0, f_device := fi_device (fsi s)\<rparr>) })"

definition fs_close :: "fs_file \<Rightarrow> int" where
  "fs_close file = FS_SUCCESS"

section \<open>Reading\<close>

text \<open>The loop that follows the chain to the cluster of the current position; \<^term>\<open>Some None\<close> at its end.\<close>

partial_function (option) seek_cluster ::
  "'d ata \<Rightarrow> 'd kfs \<Rightarrow> u32 \<Rightarrow> u32 \<Rightarrow> u32 \<Rightarrow> u32 option option" where
  "seek_cluster A s position cluster pos =
     (if pos + bytes_per_cluster (fsi s) \<le> position
      then do { c \<leftarrow> fat32_read_fat_entry A cluster s;
                if c \<ge> FAT32_EOC then Some None
                else seek_cluster A s position c (pos + bytes_per_cluster (fsi s)) }
      else Some (Some cluster))"

text \<open>
  The loop that copies: \<open>left\<close> bytes are still to be read, \<open>cpos\<close> is the position in the cluster. The
  result is the number of bytes left, \<^const>\<open>None\<close> inside when a sector could not be read.
\<close>

partial_function (option) fs_read_loop ::
  "'d ata \<Rightarrow> 'd kfs \<Rightarrow> u64 \<Rightarrow> u32 \<Rightarrow> u32 \<Rightarrow> u8 list \<Rightarrow> u32 \<Rightarrow> (u64 option \<times> u8 list \<times> u32) option" where
  "fs_read_loop A s left cpos cluster dst position =
     (if left = 0 then Some (Some 0, dst, position)
      else if bytes_per_sector (fsi s) = 0 then None
      else let bps = bytes_per_sector (fsi s);
               lba = fat32_cluster_to_lba cluster s;
               offset = cpos mod bps
           in case ata_read_sectors A (lba + cpos div bps) (disk s) of
                None \<Rightarrow> Some (None, dst, position)
              | Some sector \<Rightarrow>
                  let sb = (if ucast (bps - offset) > left then ucast left else bps - offset)
                  in if SECTOR < unat offset + unat sb then None
                     else let dst' = dst @ take (unat sb) (drop (unat offset) sector);
                              left' = left - ucast sb;
                              cpos' = cpos + sb;
                              position' = position + sb
                          in if cpos' \<ge> bytes_per_cluster (fsi s)
                             then do { c \<leftarrow> fat32_read_fat_entry A cluster s;
                                       if c \<ge> FAT32_EOC \<and> left' > 0 then Some (Some left', dst', position')
                                       else fs_read_loop A s left' 0 c dst' position' }
                             else fs_read_loop A s left' cpos' cluster dst' position')"

definition fs_read :: "'d ata \<Rightarrow> fs_file \<Rightarrow> u64 \<Rightarrow> 'd kfs \<Rightarrow> (int \<times> u8 list \<times> fs_file) option" where
  "fs_read A file size0 s =
     (if mounted (fsi s) = 0 then Some (FS_NOT_MOUNTED, [], file)
      else if de_flags (f_dirent file) AND FS_DIRECTORY \<noteq> 0 then Some (FS_ERROR, [], file)
      else if f_position file \<ge> de_size (f_dirent file) then Some (0, [], file)
      else let position = f_position file;
               cnt = (if ucast position + size0 > ucast (de_size (f_dirent file))
                       then ucast (de_size (f_dirent file) - position) else size0)
           in if bytes_per_cluster (fsi s) = 0 then None
              else do { r \<leftarrow> seek_cluster A s position (de_cluster (f_dirent file)) 0;
                        case r of
                          None \<Rightarrow> Some (0, [], file)
                        | Some cluster \<Rightarrow>
                            do { (l, dst, position') \<leftarrow> fs_read_loop A s cnt (position mod bytes_per_cluster (fsi s))
                                   cluster [] position;
                                 Some (case l of None \<Rightarrow> FS_ERROR | Some left \<Rightarrow> u64_to_int (cnt - left), dst,
                                   file\<lparr>f_position := position'\<rparr>) } })"

section \<open>Writing\<close>

text \<open>
  \<^verbatim>\<open>memcpy(sector_buffer + offset, src, n)\<close>, and the loop that follows the chain and extends it; \<open>Inl\<close> is
  the early return with \<open>FS_ERROR\<close> when no cluster is free.
\<close>

definition overwrite :: "nat \<Rightarrow> u8 list \<Rightarrow> u8 list \<Rightarrow> u8 list" where
  "overwrite off src b = take off b @ src @ drop (off + length src) b"

partial_function (option) extend_to ::
  "'d ata \<Rightarrow> u32 \<Rightarrow> u32 \<Rightarrow> u32 \<Rightarrow> 'd kfs \<Rightarrow> (u32 option \<times> 'd kfs) option" where
  "extend_to A position cluster pos s =
     (if pos + bytes_per_cluster (fsi s) \<le> position
      then do { c \<leftarrow> fat32_read_fat_entry A cluster s;
                if c \<ge> FAT32_EOC
                then do { (c', s1) \<leftarrow> fat32_allocate_cluster A s;
                          if c' = 0 then Some (None, s1)
                          else do { (_, s2) \<leftarrow> fat32_write_fat_entry A cluster c' s1;
                                    extend_to A position c' (pos + bytes_per_cluster (fsi s)) s2 } }
                else extend_to A position c (pos + bytes_per_cluster (fsi s)) s }
      else Some (Some cluster, s))"

text \<open>
  The end of a cluster in the write loop: the next cluster of the chain, a new one when the chain
  ends and bytes are left; the inner \<^const>\<open>None\<close> is the \<open>break\<close> when the disk is full.
\<close>

definition next_cluster :: "'d ata \<Rightarrow> u32 \<Rightarrow> bool \<Rightarrow> 'd kfs \<Rightarrow> (u32 option \<times> 'd kfs) option" where
  "next_cluster A cluster unwritten s =
     do { c \<leftarrow> fat32_read_fat_entry A cluster s;
          if c \<ge> FAT32_EOC \<and> unwritten
          then do { (c', s1) \<leftarrow> fat32_allocate_cluster A s;
                    if c' = 0 then Some (None, s1)
                    else do { (_, s2) \<leftarrow> fat32_write_fat_entry A cluster c' s1; Some (Some c', s2) } }
          else Some (Some c, s) }"

text \<open>
  The loop that writes \<open>src\<close>; the result is the number of bytes left (\<^const>\<open>None\<close> after a failed
  transfer), the position and the state.
\<close>

partial_function (option) fs_write_loop ::
  "'d ata \<Rightarrow> u8 list \<Rightarrow> u32 \<Rightarrow> u32 \<Rightarrow> u32 \<Rightarrow> 'd kfs \<Rightarrow> (nat option \<times> u32 \<times> 'd kfs) option" where
  "fs_write_loop A src cpos cluster position s =
     (if src = [] then Some (Some 0, position, s)
      else if bytes_per_sector (fsi s) = 0 then None
      else let bps = bytes_per_sector (fsi s);
               lba = fat32_cluster_to_lba cluster s + cpos div bps;
               offset = cpos mod bps
           in case ata_read_sectors A lba (disk s) of
                None \<Rightarrow> Some (None, position, s)
              | Some sector \<Rightarrow>
                  let sb = (if unat (bps - offset) > length src then of_nat (length src) else bps - offset)
                  in if SECTOR < unat offset + unat sb then None
                     else let (ok, d) = ata_write_sectors A lba (overwrite (unat offset) (take (unat sb) src) sector) (disk s);
                              s1 = s\<lparr>disk := d\<rparr>
                          in if \<not> ok then Some (None, position, s1)
                             else let src' = drop (unat sb) src;
                                      cpos' = cpos + sb;
                                      position' = position + sb
                                  in if cpos' \<ge> bytes_per_cluster (fsi s)
                                     then do { (c, s2) \<leftarrow> next_cluster A cluster (src' \<noteq> []) s1;
                                               case c of
                                                 None \<Rightarrow> Some (Some (length src'), position', s2)
                                               | Some c' \<Rightarrow> fs_write_loop A src' 0 c' position' s2 }
                                     else fs_write_loop A src' cpos' cluster position' s1)"

definition first_cluster :: "'d ata \<Rightarrow> fs_file \<Rightarrow> 'd kfs \<Rightarrow> (u32 \<times> fs_file \<times> 'd kfs) option" where
  "first_cluster A file s =
     (if de_cluster (f_dirent file) = 0
      then do { (c, s1) \<leftarrow> fat32_allocate_cluster A s;
                Some (c, if c = 0 then file
                         else file\<lparr>f_dirent := (f_dirent file)\<lparr>de_cluster := c\<rparr>, f_current_cluster := c\<rparr>, s1) }
      else Some (de_cluster (f_dirent file), file, s))"

text \<open>\<open>buffer\<close> is the caller's buffer of \<open>size\<close> bytes.\<close>

definition fs_write :: "'d ata \<Rightarrow> fs_file \<Rightarrow> u8 list \<Rightarrow> 'd kfs \<Rightarrow> (int \<times> fs_file \<times> 'd kfs) option" where
  "fs_write A file buffer s =
     (if mounted (fsi s) = 0 then Some (FS_NOT_MOUNTED, file, s)
      else if de_flags (f_dirent file) AND FS_DIRECTORY \<noteq> 0 then Some (FS_ERROR, file, s)
      else if bytes_per_cluster (fsi s) = 0 then None
      else do { (c, file1, s1) \<leftarrow> first_cluster A file s;
                if c = 0 then Some (FS_ERROR, file1, s1)
                else do { (e, s2) \<leftarrow> extend_to A (f_position file) c 0 s1;
                          case e of
                            None \<Rightarrow> Some (FS_ERROR, file1, s2)
                          | Some cluster \<Rightarrow>
                              do { (l, position', s3) \<leftarrow> fs_write_loop A buffer (f_position file mod bytes_per_cluster (fsi s))
                                     cluster (f_position file) s2;
                                   let file2 = file1\<lparr>f_position := position'\<rparr>;
                                   Some (case l of
                                       None \<Rightarrow> (FS_ERROR, file2, s3)
                                     | Some left \<Rightarrow>
                                         (wrap32 (int (length buffer) - int left),
                                          if position' > de_size (f_dirent file2)
                                          then file2\<lparr>f_dirent := (f_dirent file2)\<lparr>de_size := position'\<rparr>\<rparr> else file2, s3)) } } })"

section \<open>Position\<close>

definition fs_seek :: "fs_file \<Rightarrow> u32 \<Rightarrow> 'd kfs \<Rightarrow> int \<times> fs_file" where
  "fs_seek file position s =
     (if mounted (fsi s) = 0 then (FS_NOT_MOUNTED, file)
      else let p = (if position > de_size (f_dirent file) then de_size (f_dirent file) else position)
           in (FS_SUCCESS, file\<lparr>f_position := p\<rparr>))"

definition fs_tell :: "fs_file \<Rightarrow> int" where
  "fs_tell file = sint (f_position file)"

definition fs_eof :: "fs_file \<Rightarrow> int" where
  "fs_eof file = (if f_position file \<ge> de_size (f_dirent file) then 1 else 0)"

section \<open>Directories\<close>

definition fs_opendir :: "'d ata \<Rightarrow> string \<Rightarrow> fs_file \<Rightarrow> 'd kfs \<Rightarrow> (int \<times> fs_file) option" where
  "fs_opendir A path dir s =
     do { (result, dir') \<leftarrow> fs_open A path dir s;
          Some (if result = FS_SUCCESS \<and> de_flags (f_dirent dir') AND FS_DIRECTORY = 0 then FS_ERROR else result, dir') }"

text \<open>
  The position in a directory as \<open>fs_readdir\<close> keeps it in its variables: cluster, sector in the cluster,
  entry in the sector, and the sector buffer.
\<close>

partial_function (option) skip_sectors ::
  "'d ata \<Rightarrow> 'd kfs \<Rightarrow> u32 \<Rightarrow> u32 \<Rightarrow> fs_file \<Rightarrow> ((u32 \<times> u32) option \<times> fs_file) option" where
  "skip_sectors A s cluster sector_idx dir =
     (if sector_idx \<ge> sectors_per_cluster (fsi s)
      then do { c \<leftarrow> fat32_read_fat_entry A cluster s;
                if c \<ge> FAT32_EOC then Some (None, dir)
                else skip_sectors A s c (sector_idx - sectors_per_cluster (fsi s)) (dir\<lparr>f_current_cluster := c\<rparr>) }
      else Some (Some (cluster, sector_idx), dir))"

text \<open>
  Stepping to the next entry, before the current one is looked at: at the end of a sector the next
  sector is read into the same buffer. \<^term>\<open>Some (None, dir)\<close> is the return with \<open>FS_ERROR\<close>.
\<close>

definition advance_entry ::
  "'d ata \<Rightarrow> 'd kfs \<Rightarrow> u32 \<Rightarrow> u32 \<Rightarrow> u32 \<Rightarrow> u8 list \<Rightarrow> fs_file \<Rightarrow>
    ((u32 \<times> u32 \<times> u32 \<times> u8 list) option \<times> fs_file) option" where
  "advance_entry A s cluster sector_idx entry_idx sector dir =
     (if (entry_idx + 1) * 32 \<ge> bytes_per_sector (fsi s)
      then do { (p, dir') \<leftarrow>
                  (if sector_idx + 1 \<ge> sectors_per_cluster (fsi s)
                   then do { c \<leftarrow> fat32_read_fat_entry A cluster s;
                             if c \<ge> FAT32_EOC then Some (None, dir)
                             else Some (Some (c, 0), dir\<lparr>f_current_cluster := c\<rparr>) }
                   else Some (Some (cluster, sector_idx + 1), dir));
                case p of
                  None \<Rightarrow> Some (None, dir')
                | Some (c, i) \<Rightarrow>
                    Some (case ata_read_sectors A (fat32_cluster_to_lba c s + i) (disk s) of
                            None \<Rightarrow> (None, dir')
                          | Some sector' \<Rightarrow> (Some (c, i, 0, sector'), dir')) }
      else Some (Some (cluster, sector_idx, entry_idx + 1, sector), dir))"

partial_function (option) readdir_loop ::
  "'d ata \<Rightarrow> 'd kfs \<Rightarrow> u32 \<Rightarrow> u32 \<Rightarrow> u32 \<Rightarrow> u8 list \<Rightarrow> fs_file \<Rightarrow> fs_dirent \<Rightarrow> (int \<times> fs_file \<times> fs_dirent) option" where
  "readdir_loop A s cluster sector_idx entry_idx sector dir dirent =
     do { (p, dir') \<leftarrow> advance_entry A s cluster sector_idx entry_idx sector (dir\<lparr>f_position := f_position dir + 32\<rparr>);
          case p of
            None \<Rightarrow> Some (FS_ERROR, dir', dirent)
          | Some (cluster', sector_idx', entry_idx', sector') \<Rightarrow>
              if SECTOR < unat (entry_idx * 32) + 32 then None
              else let e = dir_entry sector' (unat (entry_idx * 32))
                   in if e ! 0 = 0 then Some (FS_ERROR, dir', dirent)
                      else if e ! 0 = 0xE5 \<or> e ! 11 = 0x0F
                      then readdir_loop A s cluster' sector_idx' entry_idx' sector' dir' dirent
                      else Some (FS_SUCCESS, dir', fill_dirent e dirent) }"

definition fs_readdir :: "'d ata \<Rightarrow> fs_file \<Rightarrow> fs_dirent \<Rightarrow> 'd kfs \<Rightarrow> (int \<times> fs_file \<times> fs_dirent) option" where
  "fs_readdir A dir dirent s =
     (if mounted (fsi s) = 0 then Some (FS_NOT_MOUNTED, dir, dirent)
      else if de_flags (f_dirent dir) AND FS_DIRECTORY = 0 then Some (FS_ERROR, dir, dirent)
      else if bytes_per_sector (fsi s) = 0 then None
      else do { (p, dir1) \<leftarrow> skip_sectors A s (f_current_cluster dir) (f_position dir div bytes_per_sector (fsi s)) dir;
                case p of
                  None \<Rightarrow> Some (FS_ERROR, dir1, dirent)
                | Some (cluster, sector_idx) \<Rightarrow>
                    (case ata_read_sectors A (fat32_cluster_to_lba cluster s + sector_idx) (disk s) of
                       None \<Rightarrow> Some (FS_ERROR, dir1, dirent)
                     | Some sector \<Rightarrow>
                         readdir_loop A s cluster sector_idx (f_position dir mod bytes_per_sector (fsi s) div 32)
                           sector dir1 dirent) })"

definition fs_closedir :: "fs_file \<Rightarrow> int" where
  "fs_closedir dir = fs_close dir"

end
