(* ===== verification/FatTable.thy ===== *)
theory FatTable
  imports Filesystem
begin

text \<open>
  The file allocation table as a function from clusters to entries. On a reliable disk with the
  geometry the code expects (512-byte sectors, every addressable cluster below \<open>2 ^ 32\<close> sectors)
  \<open>fat32_read_fat_entry\<close> reads it, \<open>fat32_write_fat_entry\<close> updates it at one place, and
  \<open>fat32_allocate_cluster\<close> turns the first zero entry into an end-of-chain mark. None of them touches a
  sector of the data area.
\<close>

section \<open>Bytes\<close>

lemma length_put32 [simp]: "length (put32 i w b) = length b"
  by (simp add: put32_def)

lemma split_bytes:
  "ucast (ucast w :: u8) OR push_bit 8 (ucast (ucast (drop_bit 8 w) :: u8)) OR
   push_bit 16 (ucast (ucast (drop_bit 16 w) :: u8)) OR push_bit 24 (ucast (ucast (drop_bit 24 w) :: u8)) = w"
  for w :: u32
proof (rule bit_word_eqI)
  fix n
  assume "n < LENGTH(32)"
  then consider "n < 8" | "8 \<le> n" "n < 16" | "16 \<le> n" "n < 24" | "24 \<le> n" "n < 32" by force
  then show "bit (ucast (ucast w :: u8) OR push_bit 8 (ucast (ucast (drop_bit 8 w) :: u8)) OR
    push_bit 16 (ucast (ucast (drop_bit 16 w) :: u8)) OR push_bit 24 (ucast (ucast (drop_bit 24 w) :: u8)) :: u32) n = bit w n"
    by cases (auto simp: bit_simps)
qed

lemma le32_put32: "i + 4 \<le> length b \<Longrightarrow> le32 (put32 i w b) i = w"
  using split_bytes [of w] by (simp add: le32_def put32_def nth_list_update)

lemma le32_put32_other:
  assumes "j + 4 \<le> i \<or> i + 4 \<le> j"
  shows "le32 (put32 i w b) j = le32 b j"
proof -
  have "put32 i w b ! (j + k) = b ! (j + k)" if "k < 4" for k
    using assms that by (auto simp: put32_def)
  from this [of 0] this [of 1] this [of 2] this [of 3] show ?thesis by (simp add: le32_def)
qed

section \<open>Reliable disks and geometry\<close>

text \<open>
  What the driver of a working disk does: reads and writes of a sector succeed, a sector holds 512
  bytes, and a write replaces the sector it is meant for and no other.
\<close>

definition reliable :: "'d ata \<Rightarrow> bool" where
  "reliable A \<longleftrightarrow>
     (\<forall>l d. \<exists>b. ata_read_sectors A l d = Some b \<and> length b = SECTOR) \<and>
     (\<forall>l b d. length b = SECTOR \<longrightarrow>
        (\<exists>d'. ata_write_sectors A l b d = (True, d') \<and> ata_read_sectors A l d' = Some b \<and>
           (\<forall>l'. l' \<noteq> l \<longrightarrow> ata_read_sectors A l' d' = ata_read_sectors A l' d)))"

definition sect :: "'d ata \<Rightarrow> 'd kfs \<Rightarrow> u32 \<Rightarrow> u8 list" where
  "sect A s l = the (ata_read_sectors A l (disk s))"

lemma reliable_read:
  assumes "reliable A"
  shows "ata_read_sectors A l (disk s) = Some (sect A s l)" "length (sect A s l) = SECTOR"
proof -
  obtain b where "ata_read_sectors A l (disk s) = Some b" "length b = SECTOR"
    using assms unfolding reliable_def by blast
  then show "ata_read_sectors A l (disk s) = Some (sect A s l)" "length (sect A s l) = SECTOR"
    by (simp_all add: sect_def)
qed

lemma reliable_write:
  assumes "reliable A" "length b = SECTOR"
  obtains d where "ata_write_sectors A l b (disk s) = (True, d)"
    "\<And>l'. sect A (s\<lparr>disk := d\<rparr>) l' = (if l' = l then b else sect A s l')"
proof -
  obtain d where "ata_write_sectors A l b (disk s) = (True, d)" "ata_read_sectors A l d = Some b"
    "\<forall>l'. l' \<noteq> l \<longrightarrow> ata_read_sectors A l' d = ata_read_sectors A l' (disk s)"
    using assms unfolding reliable_def by blast
  then show thesis using that [of d] by (simp add: sect_def)
qed

definition fat_entries :: "fs_info \<Rightarrow> nat" where
  "fat_entries fi = 128 * (unat (data_start fi) - unat (fat_start fi))"

definition geometry :: "fs_info \<Rightarrow> bool" where
  "geometry fi \<longleftrightarrow> mounted fi \<noteq> 0 \<and> bytes_per_sector fi = 512 \<and>
     0 < sectors_per_cluster fi \<and> sectors_per_cluster fi < 256 \<and>
     bytes_per_cluster fi = bytes_per_sector fi * sectors_per_cluster fi \<and>
     fat_start fi \<le> data_start fi \<and> fat_entries fi \<le> unat FAT32_EOC \<and>
     unat (data_start fi) + fat_entries fi * unat (sectors_per_cluster fi) \<le> 2 ^ 32"

definition cluster_ok :: "fs_info \<Rightarrow> u32 \<Rightarrow> bool" where
  "cluster_ok fi c \<longleftrightarrow> 2 \<le> unat c \<and> unat c < fat_entries fi"

definition fat :: "'d ata \<Rightarrow> 'd kfs \<Rightarrow> u32 \<Rightarrow> u32" where
  "fat A s c = le32 (sect A s (fat_start (fsi s) + of_nat (unat c div 128))) (4 * (unat c mod 128)) AND FAT_MASK"

text \<open>The entry of a cluster lies where the two divisions say, inside the table.\<close>

lemma fat_position:
  assumes "geometry fi" "unat c < fat_entries fi"
  shows "fat_sector c fi = fat_start fi + of_nat (unat c div 128)" "fat_offset c fi = 4 * (unat c mod 128)"
    "unat (fat_start fi + of_nat (unat c div 128)) = unat (fat_start fi) + unat c div 128"
    "unat (fat_start fi) + unat c div 128 < unat (data_start fi)"
proof -
  have b: "bytes_per_sector fi = 512" "unat c < 2 ^ 28" "fat_start fi \<le> data_start fi"
    using assms by (auto simp: geometry_def fat_entries_def)
  have c4: "unat (c * 4) = unat c * 4" using b(2) by (simp add: unat_word_ariths)
  have "unat (c * 4 div 512) = unat c div 128" using c4 by (simp add: unat_div)
  moreover have "c * 4 div 512 = of_nat (unat (c * 4 div 512))" by simp
  ultimately have "c * 4 div 512 = of_nat (unat c div 128)" by simp
  then show "fat_sector c fi = fat_start fi + of_nat (unat c div 128)" by (simp add: fat_sector_def b(1))
  show "fat_offset c fi = 4 * (unat c mod 128)" using c4 by (simp add: fat_offset_def b(1) unat_mod mult_mod_right mult.commute)
  have "unat c div 128 < unat (data_start fi) - unat (fat_start fi)"
    using assms(2) by (simp add: fat_entries_def less_mult_imp_div_less mult.commute)
  then show lt: "unat (fat_start fi) + unat c div 128 < unat (data_start fi)" by linarith
  moreover have "unat (data_start fi) < 2 ^ 32" using unsigned_less [of "data_start fi"] by simp
  ultimately show "unat (fat_start fi + of_nat (unat c div 128)) = unat (fat_start fi) + unat c div 128"
    by (simp add: unat_word_ariths unat_of_nat take_bit_nat_eq_self)
qed

lemma fat_offset_bound: "4 * (unat (c :: u32) mod 128) + 4 \<le> SECTOR"
proof -
  have "unat c mod 128 < 128" by simp
  then show ?thesis by linarith
qed

lemma read_fat_entry:
  assumes "reliable A" "geometry (fsi s)" "unat c < fat_entries (fsi s)"
  shows "fat32_read_fat_entry A c s = Some (fat A s c)"
  using fat_position [OF assms(2,3)] reliable_read [OF assms(1)] fat_offset_bound [of c] assms(2)
  by (simp add: fat32_read_fat_entry_def fat_def geometry_def)

text \<open>An update of the table at one entry, which leaves the data area alone.\<close>

definition fat_update :: "'d ata \<Rightarrow> u32 \<Rightarrow> u32 \<Rightarrow> 'd kfs \<Rightarrow> 'd kfs \<Rightarrow> bool" where
  "fat_update A c v s s' \<longleftrightarrow> fsi s' = fsi s \<and>
     (\<forall>x. unat x < fat_entries (fsi s) \<longrightarrow> fat A s' x = (if x = c then v AND FAT_MASK else fat A s x)) \<and>
     (\<forall>l. data_start (fsi s) \<le> l \<longrightarrow> sect A s' l = sect A s l)"

lemma write_fat_entry:
  assumes "reliable A" "geometry (fsi s)" "unat c < fat_entries (fsi s)"
  obtains s' where "fat32_write_fat_entry A c v s = Some (FS_SUCCESS, s')" "fat_update A c v s s'"
proof -
  let ?l = "\<lambda>x. fat_start (fsi s) + of_nat (unat x div 128)" and ?o = "\<lambda>x. 4 * (unat x mod 128)"
  note pos = fat_position [OF assms(2)]
  define b where "b = put32 (?o c) ((le32 (sect A s (?l c)) (?o c) AND 0xF0000000) OR (v AND FAT_MASK)) (sect A s (?l c))"
  have lb: "length b = SECTOR" using reliable_read(2) [OF assms(1)] by (simp add: b_def)
  obtain d where d: "ata_write_sectors A (?l c) b (disk s) = (True, d)"
    "\<And>l. sect A (s\<lparr>disk := d\<rparr>) l = (if l = ?l c then b else sect A s l)"
    using reliable_write [OF assms(1) lb] by blast
  have run: "fat32_write_fat_entry A c v s = Some (FS_SUCCESS, s\<lparr>disk := d\<rparr>)"
    using pos(1,2) [OF assms(3)] reliable_read [OF assms(1)] fat_offset_bound [of c] assms(2) d(1)
    by (simp add: fat32_write_fat_entry_def geometry_def b_def Let_def)
  have self: "fat A (s\<lparr>disk := d\<rparr>) c = v AND FAT_MASK"
  proof -
    have "((e AND 0xF0000000) OR (v AND FAT_MASK)) AND FAT_MASK = v AND FAT_MASK" for e :: u32
      by (simp add: bit.conj_disj_distrib2 and.assoc)
    then show ?thesis
      using fat_offset_bound [of c] reliable_read(2) [OF assms(1)] by (simp add: fat_def d(2) b_def le32_put32)
  qed
  have other: "fat A (s\<lparr>disk := d\<rparr>) x = fat A s x" if "unat x < fat_entries (fsi s)" "x \<noteq> c" for x
  proof (cases "?l x = ?l c")
    case False
    then show ?thesis by (simp add: fat_def d(2))
  next
    case True
    have "unat x div 128 = unat c div 128"
      using True pos(3) [OF that(1)] pos(3) [OF assms(3)] by (metis add_left_cancel)
    then have "unat x mod 128 \<noteq> unat c mod 128" using that(2) by (metis div_mult_mod_eq word_unat_eq_iff)
    then have "?o x + 4 \<le> ?o c \<or> ?o c + 4 \<le> ?o x" by linarith
    then show ?thesis using True by (simp add: fat_def d(2) b_def le32_put32_other)
  qed
  have "sect A (s\<lparr>disk := d\<rparr>) l = sect A s l" if "data_start (fsi s) \<le> l" for l
    using that pos(3,4) [OF assms(3)] by (auto simp: d(2) word_le_nat_alt)
  then have "fat_update A c v s (s\<lparr>disk := d\<rparr>)" using self other by (simp add: fat_update_def)
  then show thesis using that run by blast
qed

section \<open>Allocation\<close>

lemma entry_cluster_pos:
  assumes "geometry fi" "j < 128" "128 * k + j < fat_entries fi"
  shows "entry_cluster (of_nat k) j fi = of_nat (128 * k + j)" "unat (entry_cluster (of_nat k) j fi) = 128 * k + j"
proof -
  have lt: "512 * k + 4 * j < 2 ^ 32" using assms(1,3) by (simp add: geometry_def)
  have "of_nat k * 512 + of_nat (4 * j) = (of_nat (512 * k + 4 * j) :: u32)" by simp
  then have "unat (of_nat k * 512 + of_nat (4 * j) :: u32) = 512 * k + 4 * j"
    using lt by (simp only: unat_of_nat) (simp add: take_bit_nat_eq_self)
  then show u: "unat (entry_cluster (of_nat k) j fi) = 128 * k + j"
    using assms(1) by (simp add: entry_cluster_def geometry_def unat_div)
  have "entry_cluster (of_nat k) j fi = of_nat (unat (entry_cluster (of_nat k) j fi))" by simp
  then show "entry_cluster (of_nat k) j fi = of_nat (128 * k + j)" by (simp only: u)
qed

lemma fat_entry_at:
  assumes "geometry (fsi s)" "j < 128" "128 * k + j < fat_entries (fsi s)"
  shows "le32 (sect A s (fat_start (fsi s) + of_nat k)) (4 * j) AND FAT_MASK = fat A s (of_nat (128 * k + j))"
proof -
  have "128 * k + j < 2 ^ 32" using assms(1,3) by (simp add: geometry_def)
  then have "unat (of_nat (128 * k + j) :: u32) = 128 * k + j" by (simp only: unat_of_nat) (simp add: take_bit_nat_eq_self)
  then show ?thesis using assms(2) by (simp add: fat_def del: of_nat_add of_nat_mult)
qed

text \<open>What an allocation yields: a cluster that was free and now ends a chain, or 0 when none is free.\<close>

definition allocated :: "'d ata \<Rightarrow> u32 \<Rightarrow> 'd kfs \<Rightarrow> 'd kfs \<Rightarrow> bool" where
  "allocated A c s s' \<longleftrightarrow> cluster_ok (fsi s) c \<and> fat A s c = 0 \<and> fat_update A c FAT32_EOC s s'"

lemma allocate_loop_ok:
  assumes A: "reliable A" and g: "geometry (fsi s)" and n: "128 * (k + n) = fat_entries (fsi s)"
  shows "\<exists>c s'. allocate_loop A n (of_nat k) s = Some (c, s') \<and>
    (c \<noteq> 0 \<and> allocated A c s s' \<or>
     c = 0 \<and> s' = s \<and> (\<forall>x. cluster_ok (fsi s) x \<and> 128 * k \<le> unat x \<longrightarrow> fat A s x \<noteq> 0))"
  using n
proof (induction n arbitrary: k)
  case 0
  then show ?case by (auto simp: cluster_ok_def)
next
  case (Suc n)
  have e128: "sector_entries (fsi s) = 128" using g by (simp add: sector_entries_def geometry_def)
  have range: "128 * k + j < fat_entries (fsi s)" if "j < 128" for j using that Suc.prems by simp
  let ?b = "sect A s (fat_start (fsi s) + of_nat k)"
  have test: "le32 ?b (4 * j) AND FAT_MASK = 0 \<and> 2 \<le> entry_cluster (of_nat k) j (fsi s) \<longleftrightarrow>
    fat A s (of_nat (128 * k + j)) = 0 \<and> 2 \<le> 128 * k + j" if "j < 128" for j
    using fat_entry_at [OF g that range [OF that], of A] entry_cluster_pos(2) [OF g that range [OF that]]
    by (simp add: word_le_nat_alt)
  show ?case
  proof (cases "free_entry ?b (of_nat k) (fsi s)")
    case (Some j)
    then have j: "j < 128" "le32 ?b (4 * j) AND FAT_MASK = 0 \<and> 2 \<le> entry_cluster (of_nat k) j (fsi s)"
      by (auto simp: free_entry_def e128 find_index_upt simp del: upt_rec_numeral)
    let ?c = "entry_cluster (of_nat k) j (fsi s)"
    note ec = entry_cluster_pos [OF g j(1) range [OF j(1)]]
    have c: "cluster_ok (fsi s) ?c" "fat A s ?c = 0" "?c \<noteq> 0"
      using j test [OF j(1)] ec range [OF j(1)] by (auto simp: cluster_ok_def)
    obtain s' where "fat32_write_fat_entry A ?c FAT32_EOC s = Some (FS_SUCCESS, s')" "fat_update A ?c FAT32_EOC s s'"
      using write_fat_entry [OF A g] c(1) by (auto simp: cluster_ok_def)
    then show ?thesis using Some c reliable_read(1) [OF A] by (auto simp: allocated_def)
  next
    case None
    then have none: "\<not> (le32 ?b (4 * j) AND FAT_MASK = 0 \<and> 2 \<le> entry_cluster (of_nat k) j (fsi s))" if "j < 128" for j
      using that by (auto simp: free_entry_def e128 find_index_None simp del: upt_rec_numeral)
    have full: "fat A s x \<noteq> 0" if x: "cluster_ok (fsi s) x" "128 * k \<le> unat x" "unat x < 128 * Suc k" for x
    proof -
      have "unat x - 128 * k < 128" "128 * k + (unat x - 128 * k) = unat x" using x(2,3) by simp_all
      then show ?thesis using none [of "unat x - 128 * k"] test [of "unat x - 128 * k"] x(1) by (simp add: cluster_ok_def)
    qed
    have "128 * (Suc k + n) = fat_entries (fsi s)" using Suc.prems by simp
    from Suc.IH [OF this] show ?thesis
      using None reliable_read(1) [OF A] e128 full by (fastforce simp: add.commute)
  qed
qed

lemma allocate_cluster_ok:
  assumes A: "reliable A" and g: "geometry (fsi s)"
  obtains (free) c s' where "fat32_allocate_cluster A s = Some (c, s')" "c \<noteq> 0" "allocated A c s s'"
  | (full) "fat32_allocate_cluster A s = Some (0, s)" "\<And>x. cluster_ok (fsi s) x \<Longrightarrow> fat A s x \<noteq> 0"
proof -
  have "unat (data_start (fsi s) - fat_start (fsi s)) = unat (data_start (fsi s)) - unat (fat_start (fsi s))"
    using g by (simp add: geometry_def unat_sub)
  then have run: "fat32_allocate_cluster A s =
      allocate_loop A (unat (data_start (fsi s)) - unat (fat_start (fsi s))) (of_nat 0) s"
    using g by (simp add: fat32_allocate_cluster_def geometry_def)
  then show thesis
    using allocate_loop_ok [OF A g, of 0 "unat (data_start (fsi s)) - unat (fat_start (fsi s))"] free full
    by (auto simp: fat_entries_def)
qed

end
