(* ===== verification/FatFiles.thy ===== *)
theory FatFiles
  imports FatTable
begin

text \<open>
  Files as byte lists. The clusters of a file are a chain in the table; its bytes are those of their
  sectors in order. \<open>fs_read\<close> returns the slice at the position, \<open>fs_write\<close> replaces or appends bytes,
  extending the chain with free clusters, and neither touches another chain.
\<close>

section \<open>Slices of blocks\<close>

lemma slice_block:
  assumes "\<forall>b \<in> set bs. length b = n" "p div n < length bs" "k \<le> n - p mod n" "0 < n"
  shows "take k (drop p (concat bs)) = take k (drop (p mod n) (bs ! (p div n)))"
  using assms
proof (induction bs arbitrary: p)
  case (Cons b bs)
  show ?case
  proof (cases "p < n")
    case True
    then show ?thesis using Cons.prems by simp
  next
    case False
    then have p: "p div n = Suc ((p - n) div n)" "p mod n = (p - n) mod n"
      using \<open>0 < n\<close> by (simp_all add: le_div_geq le_mod_geq)
    have "take k (drop (p - n) (concat bs)) = take k (drop (p mod n) (bs ! ((p - n) div n)))"
      using Cons.IH [of "p - n"] Cons.prems p by simp
    then show ?thesis using False Cons.prems(1) p by simp
  qed
qed simp

lemma length_concat_blocks: "\<forall>b \<in> set bs. length b = n \<Longrightarrow> length (concat bs) = length bs * n"
  by (induction bs) auto

section \<open>Chains\<close>

fun chain :: "'d ata \<Rightarrow> 'd kfs \<Rightarrow> u32 \<Rightarrow> u32 list \<Rightarrow> bool" where
  "chain A s c [] \<longleftrightarrow> FAT32_EOC \<le> c"
| "chain A s c (x # xs) \<longleftrightarrow> c = x \<and> cluster_ok (fsi s) x \<and> chain A s (fat A s x) xs"

definition cluster_sectors :: "'d ata \<Rightarrow> 'd kfs \<Rightarrow> u32 \<Rightarrow> u8 list list" where
  "cluster_sectors A s c =
     map (\<lambda>i. sect A s (fat32_cluster_to_lba c s + of_nat i)) [0..<unat (sectors_per_cluster (fsi s))]"

definition cluster_size :: "fs_info \<Rightarrow> nat" where
  "cluster_size fi = SECTOR * unat (sectors_per_cluster fi)"

definition file_bytes :: "'d ata \<Rightarrow> 'd kfs \<Rightarrow> u32 list \<Rightarrow> u8 list" where
  "file_bytes A s cs = concat (concat (map (cluster_sectors A s) cs))"

lemma geometryD:
  assumes "geometry fi"
  shows "bytes_per_sector fi = 512" "mounted fi \<noteq> 0" "0 < unat (sectors_per_cluster fi)"
    "unat (sectors_per_cluster fi) < 256" "unat (bytes_per_cluster fi) = cluster_size fi"
    "0 < cluster_size fi" "cluster_size fi < 2 ^ 17" "bytes_per_cluster fi \<noteq> 0"
proof -
  show b: "bytes_per_sector fi = 512" "mounted fi \<noteq> 0" using assms by (simp_all add: geometry_def)
  show spc: "0 < unat (sectors_per_cluster fi)" "unat (sectors_per_cluster fi) < 256"
    using assms by (simp_all add: geometry_def word_less_nat_alt)
  then show size: "0 < cluster_size fi" "cluster_size fi < 2 ^ 17" by (simp_all add: cluster_size_def)
  show "unat (bytes_per_cluster fi) = cluster_size fi"
    using assms spc by (simp add: geometry_def cluster_size_def unat_word_ariths)
  then show "bytes_per_cluster fi \<noteq> 0" using size(1) by auto
qed

lemma length_cluster_sectors [simp]: "length (cluster_sectors A s c) = unat (sectors_per_cluster (fsi s))"
  by (simp add: cluster_sectors_def)

lemma sectors_blocks:
  assumes "reliable A"
  shows "\<forall>b \<in> set (concat (map (cluster_sectors A s) cs)). length b = SECTOR"
  using reliable_read(2) [OF assms] by (auto simp: cluster_sectors_def)

lemma length_sectors: "length (concat (map (cluster_sectors A s) cs)) = length cs * unat (sectors_per_cluster (fsi s))"
  by (induction cs) simp_all

lemma length_file_bytes: "reliable A \<Longrightarrow> length (file_bytes A s cs) = length cs * cluster_size (fsi s)"
  using length_concat_blocks [OF sectors_blocks, of A s cs]
  by (simp add: file_bytes_def length_sectors cluster_size_def mult.assoc mult.commute)

lemma file_bytes_Cons: "file_bytes A s (c # cs) = concat (cluster_sectors A s c) @ file_bytes A s cs"
  by (simp add: file_bytes_def)

lemma drop_cluster: "reliable A \<Longrightarrow> drop (cluster_size (fsi s)) (file_bytes A s (c # cs)) = file_bytes A s cs"
  using length_file_bytes [of A s "[c]"] by (simp add: file_bytes_Cons) (simp add: file_bytes_def)

text \<open>The bytes of one transfer are a slice of the file.\<close>

lemma sector_slice:
  assumes A: "reliable A" and g: "geometry (fsi s)" and p: "p < cluster_size (fsi s)" "k \<le> SECTOR - p mod SECTOR"
  shows "take k (drop p (file_bytes A s (c # cs))) =
    take k (drop (p mod SECTOR) (sect A s (fat32_cluster_to_lba c s + of_nat (p div SECTOR))))"
proof -
  have i: "p div SECTOR < unat (sectors_per_cluster (fsi s))"
    using p(1) by (simp add: cluster_size_def less_mult_imp_div_less mult.commute)
  have "concat (map (cluster_sectors A s) (c # cs)) ! (p div SECTOR) = cluster_sectors A s c ! (p div SECTOR)"
    using i by (simp add: nth_append)
  also have "\<dots> = sect A s (fat32_cluster_to_lba c s + of_nat (p div SECTOR))"
    using i by (simp add: cluster_sectors_def)
  finally show ?thesis
    using slice_block [OF sectors_blocks [OF A, of s "c # cs"], of p k] i p(2)
    by (simp add: file_bytes_def length_sectors)
qed

lemma chain_not_EOC: "chain A s c (x # xs) \<Longrightarrow> geometry (fsi s) \<Longrightarrow> \<not> FAT32_EOC \<le> c"
  by (auto simp: cluster_ok_def geometry_def word_le_nat_alt)

section \<open>Reading\<close>

lemma u32_div_mod: "unat (x mod 512) = unat x mod 512" "x div 512 = of_nat (unat x div 512)" for x :: u32
proof -
  show "unat (x mod 512) = unat x mod 512" by (simp add: unat_mod)
  have "of_nat (unat (x div 512)) = x div 512" by simp
  then show "x div 512 = of_nat (unat x div 512)" by (simp add: unat_div)
qed

text \<open>The size of one transfer: up to the end of the sector, or what is left.\<close>

lemma transfer_size:
  fixes cpos :: u32 and left :: u64
  defines "sb \<equiv> (if ucast (512 - cpos mod 512) > left then ucast left else 512 - cpos mod 512 :: u32)"
  shows "unat sb = min (512 - unat cpos mod 512) (unat left)"
proof -
  have m: "unat cpos mod 512 < 512" by simp
  have "unat (512 - cpos mod 512) = 512 - unat cpos mod 512"
    using m by (simp add: unat_sub word_le_nat_alt u32_div_mod)
  moreover from this have "unat (ucast (512 - cpos mod 512) :: u64) = 512 - unat cpos mod 512"
    by (simp add: unsigned_ucast_eq take_bit_nat_eq_self)
  ultimately show ?thesis
    by (auto simp: sb_def word_less_nat_alt unsigned_ucast_eq take_bit_nat_eq_self)
qed

lemma write_size:
  "unat (if unat (512 - cpos mod 512) > n then of_nat n else 512 - cpos mod 512 :: u32) = min (512 - unat cpos mod 512) n"
proof -
  have m: "unat cpos mod 512 < 512" by simp
  have "unat (512 - cpos mod 512) = 512 - unat cpos mod 512"
    using m by (simp add: unat_sub word_le_nat_alt u32_div_mod)
  then show ?thesis by (auto simp: unat_of_nat take_bit_nat_eq_self)
qed

lemma transfer_fits:
  "p < cluster_size fi \<Longrightarrow> p + (SECTOR - p mod SECTOR) \<le> cluster_size fi"
proof -
  assume p: "p < cluster_size fi"
  then have "Suc (p div SECTOR) \<le> unat (sectors_per_cluster fi)"
    by (simp add: cluster_size_def Suc_le_eq less_mult_imp_div_less mult.commute)
  then have "Suc (p div SECTOR) * SECTOR \<le> cluster_size fi" by (simp only: cluster_size_def mult_le_mono1 mult.commute [of SECTOR])
  moreover have "p mod SECTOR < SECTOR" by simp
  ultimately show ?thesis using div_mult_mod_eq [of p SECTOR] by (simp only: mult_Suc)
qed

lemma split_slice:
  "k \<le> n \<Longrightarrow> take n (drop p xs) = take k (drop p xs) @ take (n - k) (drop (p + k) xs)"
  by (metis add.commute add_diff_inverse_nat drop_drop not_less take_add)

lemma fs_read_step:
  assumes A: "reliable A" and g: "geometry (fsi s)" and ok: "cluster_ok (fsi s) cluster"
    and cp: "unat cpos < cluster_size (fsi s)" and ne: "left \<noteq> 0"
  obtains sb left' bs where "0 < unat sb" "unat sb \<le> unat left" "unat left' = unat left - unat sb"
    "unat (cpos + sb) = unat cpos + unat sb" "unat cpos + unat sb \<le> cluster_size (fsi s)"
    "position + sb + ucast left' = position + ucast left"
    "bs = take (unat sb) (drop (unat cpos) (file_bytes A s (cluster # ds)))"
    "fs_read_loop A s left cpos cluster dst position =
      (if cpos + sb \<ge> bytes_per_cluster (fsi s)
       then (if fat A s cluster \<ge> FAT32_EOC \<and> left' > 0 then Some (Some left', dst @ bs, position + sb)
             else fs_read_loop A s left' 0 (fat A s cluster) (dst @ bs) (position + sb))
       else fs_read_loop A s left' (cpos + sb) cluster (dst @ bs) (position + sb))"
proof -
  note geo = geometryD [OF g]
  define sb where "sb = (if ucast (512 - cpos mod 512) > left then ucast left else 512 - cpos mod 512 :: u32)"
  have sb: "unat sb = min (512 - unat cpos mod 512) (unat left)" unfolding sb_def by (rule transfer_size)
  have m: "unat cpos mod 512 < 512" by simp
  have sb_pos: "0 < unat sb" "unat sb \<le> unat left" "unat sb \<le> 512" using sb m ne by (auto simp: unat_gt_0)
  have fits: "unat cpos + unat sb \<le> cluster_size (fsi s)"
    using transfer_fits [OF cp] sb by (simp add: min_def split: if_splits)
  let ?b = "sect A s (fat32_cluster_to_lba cluster s + of_nat (unat cpos div 512))"
  define bs where "bs = take (unat sb) (drop (unat cpos mod 512) ?b)"
  have slice: "bs = take (unat sb) (drop (unat cpos) (file_bytes A s (cluster # ds)))"
    unfolding bs_def using sector_slice [OF A g cp, of "unat sb"] sb by simp
  define left' where "left' = left - ucast sb"
  have "unat (ucast sb :: u64) = unat sb" using sb_pos(3) by (simp add: unsigned_ucast_eq take_bit_nat_eq_self)
  then have left': "unat left' = unat left - unat sb"
    using sb_pos(2) by (simp add: left'_def unat_sub word_le_nat_alt)
  have "(of_nat (unat sb + unat left') :: u32) = of_nat (unat left)" using left' sb_pos(2) by simp
  then have pos': "position + sb + ucast left' = position + ucast left" by (simp add: add.assoc)
  have cpos': "unat (cpos + sb) = unat cpos + unat sb" using cp geo(7) sb_pos(3) by (simp add: unat_word_ariths)
  have fit: "\<not> SECTOR < unat cpos mod SECTOR + unat sb" using sb m by simp
  show thesis
    by (rule that [OF sb_pos(1,2) left' cpos' fits pos' slice])
      (use ne geo(1) reliable_read(1) [OF A] read_fat_entry [OF A g, of cluster] ok fit in
        \<open>subst fs_read_loop.simps; simp add: u32_div_mod sb_def [symmetric] left'_def bs_def cluster_ok_def Let_def\<close>)
qed

lemma fs_read_loop_ok:
  assumes A: "reliable A" and g: "geometry (fsi s)"
  shows "\<lbrakk>left \<noteq> 0 \<longrightarrow> chain A s cluster ds; unat cpos < cluster_size (fsi s);
      unat cpos + unat left \<le> length ds * cluster_size (fsi s)\<rbrakk> \<Longrightarrow>
    fs_read_loop A s left cpos cluster dst position =
      Some (Some 0, dst @ take (unat left) (drop (unat cpos) (file_bytes A s ds)), position + ucast left)"
proof (induction "unat left" arbitrary: left cpos cluster ds dst position rule: less_induct)
  case less
  show ?case
  proof (cases "left = 0")
    case True
    then show ?thesis by (subst fs_read_loop.simps) simp
  next
    case False
    note geo = geometryD [OF g]
    have "ds \<noteq> []" using less.prems(3) False by (auto simp: unat_eq_zero)
    then obtain ds' where ds: "ds = cluster # ds'" using less.prems(1) False by (cases ds) auto
    have ch: "cluster_ok (fsi s) cluster" "chain A s (fat A s cluster) ds'" using less.prems(1) False ds by auto
    obtain sb left' bs where sb: "0 < unat sb" "unat sb \<le> unat left" and left': "unat left' = unat left - unat sb"
      and cpos': "unat (cpos + sb) = unat cpos + unat sb" and fits: "unat cpos + unat sb \<le> cluster_size (fsi s)"
      and pos': "position + sb + ucast left' = position + ucast left"
      and bs: "bs = take (unat sb) (drop (unat cpos) (file_bytes A s (cluster # ds')))"
      and step: "fs_read_loop A s left cpos cluster dst position =
        (if cpos + sb \<ge> bytes_per_cluster (fsi s)
         then (if fat A s cluster \<ge> FAT32_EOC \<and> left' > 0 then Some (Some left', dst @ bs, position + sb)
               else fs_read_loop A s left' 0 (fat A s cluster) (dst @ bs) (position + sb))
         else fs_read_loop A s left' (cpos + sb) cluster (dst @ bs) (position + sb))"
      by (rule fs_read_step [OF A g ch(1) less.prems(2) False])
    have res: "bs @ take (unat left') (drop (unat cpos + unat sb) (file_bytes A s ds)) = take (unat left) (drop (unat cpos) (file_bytes A s ds))"
      using split_slice [OF sb(2), of "unat cpos" "file_bytes A s ds"] bs ds left' by simp
    show ?thesis
    proof (cases "cpos + sb \<ge> bytes_per_cluster (fsi s)")
      case True
      then have "cluster_size (fsi s) \<le> unat cpos + unat sb" by (simp only: word_le_nat_alt cpos' geo(5))
      then have end_: "unat cpos + unat sb = cluster_size (fsi s)" using fits by linarith
      have bound: "unat left' \<le> length ds' * cluster_size (fsi s)" using less.prems(3) ds left' end_ by simp
      have "\<not> (fat A s cluster \<ge> FAT32_EOC \<and> left' > 0)"
        using bound ch(2) chain_not_EOC [OF _ g] by (cases ds') (auto simp: word_less_nat_alt)
      then have "fs_read_loop A s left cpos cluster dst position =
          fs_read_loop A s left' 0 (fat A s cluster) (dst @ bs) (position + sb)" using step True by (simp only: if_True if_False)
      also have "\<dots> = Some (Some 0, (dst @ bs) @ take (unat left') (file_bytes A s ds'), position + sb + ucast left')"
        using less.hyps [of left' "fat A s cluster" ds' 0] left' sb ch(2) geo(6) bound by simp
      finally show ?thesis using pos' res end_ drop_cluster [OF A] by (simp add: ds)
    next
      case F: False
      have "unat cpos + unat sb < cluster_size (fsi s)" using F cpos' geo(5) by (simp add: word_le_nat_alt)
      then have "fs_read_loop A s left' (cpos + sb) cluster (dst @ bs) (position + sb) =
          Some (Some 0, (dst @ bs) @ take (unat left') (drop (unat cpos + unat sb) (file_bytes A s ds)), position + sb + ucast left')"
        using less.hyps [of left' cluster ds "cpos + sb"] left' sb less.prems cpos' False by simp
      then show ?thesis using step F pos' res by simp
    qed
  qed
qed

lemma chain_nth:
  "chain A s c cs \<Longrightarrow> q < length cs \<Longrightarrow> chain A s (cs ! q) (drop q cs)"
  by (induction A s c cs arbitrary: q rule: chain.induct) (auto simp: nth_Cons' drop_Cons' split: if_splits)

lemma seek_cluster_ok:
  assumes A: "reliable A" and g: "geometry (fsi s)" and no_wrap: "unat position + cluster_size (fsi s) < 2 ^ 32"
  shows "\<lbrakk>chain A s c cs; unat pos \<le> unat position;
      (unat position - unat pos) div cluster_size (fsi s) < length cs\<rbrakk> \<Longrightarrow>
    seek_cluster A s position c pos = Some (Some (cs ! ((unat position - unat pos) div cluster_size (fsi s))))"
proof (induction cs arbitrary: c pos)
  case Nil
  then show ?case by simp
next
  case (Cons x xs)
  note geo = geometryD [OF g]
  have pos': "unat (pos + bytes_per_cluster (fsi s)) = unat pos + cluster_size (fsi s)"
    using no_wrap Cons.prems(2) geo(5) by (simp add: unat_word_ariths)
  have ch: "c = x" "cluster_ok (fsi s) x" "chain A s (fat A s x) xs" using Cons.prems(1) by auto
  show ?case
  proof (cases "unat pos + cluster_size (fsi s) \<le> unat position")
    case False
    then have "unat position - unat pos < cluster_size (fsi s)" using Cons.prems(2) by linarith
    then have "(unat position - unat pos) div cluster_size (fsi s) = 0" by (rule div_less)
    moreover have "\<not> pos + bytes_per_cluster (fsi s) \<le> position" using False pos' by (simp add: word_le_nat_alt)
    ultimately show ?thesis using ch(1) by (subst seek_cluster.simps) simp
  next
    case True
    let ?q = "(unat position - (unat pos + cluster_size (fsi s))) div cluster_size (fsi s)"
    have q: "(unat position - unat pos) div cluster_size (fsi s) = Suc ?q"
      using True geo(6) by (simp add: le_div_geq)
    then have "?q < length xs" using Cons.prems(3) by simp
    then have "xs \<noteq> []" by auto
    then have "\<not> fat A s x \<ge> FAT32_EOC" using ch(3) chain_not_EOC [OF _ g] by (cases xs) auto
    moreover have "pos + bytes_per_cluster (fsi s) \<le> position" using True pos' by (simp add: word_le_nat_alt)
    moreover have "fat32_read_fat_entry A x s = Some (fat A s x)"
      using read_fat_entry [OF A g] ch(2) by (simp add: cluster_ok_def)
    ultimately have "seek_cluster A s position c pos =
        seek_cluster A s position (fat A s x) (pos + bytes_per_cluster (fsi s))"
      using ch(1) by (subst seek_cluster.simps) simp
    also have "\<dots> = Some (Some (xs ! ?q))"
      using Cons.IH [OF ch(3)] pos' True \<open>?q < length xs\<close> by simp
    finally show ?thesis using q by simp
  qed
qed

text \<open>
  An open file: no directory, its clusters are a chain that holds its bytes; a file without clusters has
  cluster number 0.
\<close>

definition file_ok :: "'d ata \<Rightarrow> 'd kfs \<Rightarrow> fs_file \<Rightarrow> u32 list \<Rightarrow> bool" where
  "file_ok A s f cs \<longleftrightarrow> geometry (fsi s) \<and> de_flags (f_dirent f) AND FS_DIRECTORY = 0 \<and>
     (if cs = [] then de_cluster (f_dirent f) = 0 else chain A s (de_cluster (f_dirent f)) cs) \<and> distinct cs \<and>
     unat (de_size (f_dirent f)) \<le> length cs * cluster_size (fsi s) \<and> unat (de_size (f_dirent f)) < 2 ^ 31 \<and>
     unat (f_position f) \<le> unat (de_size (f_dirent f))"

definition contents :: "'d ata \<Rightarrow> 'd kfs \<Rightarrow> fs_file \<Rightarrow> u32 list \<Rightarrow> u8 list" where
  "contents A s f cs = take (unat (de_size (f_dirent f))) (file_bytes A s cs)"

lemma u64_to_int_small: "unat w < 2 ^ 31 \<Longrightarrow> u64_to_int w = int (unat w)"
proof -
  assume w: "unat w < 2 ^ 31"
  then have "unat (ucast w :: 32 word) = unat w" by (simp add: unsigned_ucast_eq take_bit_nat_eq_self)
  then have u: "uint (ucast w :: 32 word) = int (unat w)" by (metis uint_nat)
  have "- (2 ^ 31) \<le> int (unat w)" "int (unat w) < 2 ^ 31" using w by (simp_all add: zless_nat_eq_int_zless [symmetric] del: of_nat_unat)
  then have "signed_take_bit 31 (int (unat w)) = int (unat w)" by (rule signed_take_bit_int_eq_self)
  then show ?thesis by (simp only: u64_to_int_def sint_uint u) simp
qed

lemma drop_clusters:
  assumes "reliable A"
  shows "file_bytes A s (drop q cs) = drop (q * cluster_size (fsi s)) (file_bytes A s cs)"
proof (induction q arbitrary: cs)
  case (Suc q)
  show ?case
  proof (cases cs)
    case (Cons c cs')
    have "drop (Suc q * cluster_size (fsi s)) (file_bytes A s cs) =
        drop (q * cluster_size (fsi s)) (drop (cluster_size (fsi s)) (file_bytes A s cs))"
      by (simp only: mult_Suc drop_drop add.commute)
    then show ?thesis by (simp only: Cons drop_cluster [OF assms] drop_Suc_Cons Suc.IH)
  qed (simp add: file_bytes_def)
qed simp

lemma unat_ucast_u64 [simp]: "unat (ucast x :: u64) = unat x" for x :: u32
proof -
  have "unat x < 2 ^ 32" using unsigned_less [of x, where 'a = nat] by simp
  then show ?thesis by (simp add: unsigned_ucast_eq take_bit_nat_eq_self)
qed

lemma fs_read_ok:
  assumes A: "reliable A" and f: "file_ok A s f cs" and size0: "unat size0 < 2 ^ 63"
  defines "n \<equiv> min (unat size0) (unat (de_size (f_dirent f)) - unat (f_position f))"
  shows "fs_read A f size0 s =
    Some (int n, take n (drop (unat (f_position f)) (contents A s f cs)), f\<lparr>f_position := f_position f + of_nat n\<rparr>)"
proof -
  have g: "geometry (fsi s)" and dir: "de_flags (f_dirent f) AND FS_DIRECTORY = 0"
    and sz: "unat (de_size (f_dirent f)) \<le> length cs * cluster_size (fsi s)" "unat (de_size (f_dirent f)) < 2 ^ 31"
    using f by (simp_all add: file_ok_def)
  note geo = geometryD [OF g]
  let ?p = "f_position f" and ?z = "de_size (f_dirent f)" and ?k = "cluster_size (fsi s)"
  show ?thesis
  proof (cases "?p \<ge> ?z")
    case True
    then have "n = 0" by (simp add: n_def word_le_nat_alt)
    then show ?thesis using True geo(2) dir by (simp add: fs_read_def)
  next
    case False
    then have p: "unat ?p < unat ?z" by (simp add: word_le_nat_alt)
    define cnt :: u64 where "cnt = (if ucast ?p + size0 > ucast ?z then ucast (?z - ?p) else size0)"
    have cnt: "unat cnt = n"
    proof -
      have "unat (ucast ?p + size0) = unat ?p + unat size0"
        using size0 p sz(2) by (simp add: unat_word_ariths)
      moreover have "unat (?z - ?p) = unat ?z - unat ?p" using p by (simp add: unat_sub word_le_nat_alt)
      ultimately show ?thesis using p by (auto simp: cnt_def n_def word_less_nat_alt)
    qed
    have "cs \<noteq> []" using p sz(1) by auto
    then have ch: "chain A s (de_cluster (f_dirent f)) cs" using f by (simp add: file_ok_def)
    have q: "unat ?p div ?k < length cs" using p sz(1) by (simp add: less_mult_imp_div_less)
    have seek: "seek_cluster A s ?p (de_cluster (f_dirent f)) 0 = Some (Some (cs ! (unat ?p div ?k)))"
      using seek_cluster_ok [OF A g _ ch, of ?p 0] p sz(2) geo(7) q by simp
    have cpos: "unat (?p mod bytes_per_cluster (fsi s)) = unat ?p mod ?k" by (simp add: unat_mod geo(5))
    have n: "n \<le> unat ?z - unat ?p" by (simp add: n_def)
    have bound: "unat ?p mod ?k + n \<le> length (drop (unat ?p div ?k) cs) * ?k"
    proof -
      have "unat ?p div ?k * ?k + (unat ?p mod ?k + n) \<le> length cs * ?k"
        using n p sz(1) div_mult_mod_eq [of "unat ?p" ?k] by linarith
      then show ?thesis unfolding length_drop diff_mult_distrib by linarith
    qed
    have loop: "fs_read_loop A s cnt (?p mod bytes_per_cluster (fsi s)) (cs ! (unat ?p div ?k)) [] ?p =
        Some (Some 0, take n (drop (unat ?p) (file_bytes A s cs)), ?p + ucast cnt)"
      using fs_read_loop_ok [OF A g, of cnt "cs ! (unat ?p div ?k)" "drop (unat ?p div ?k) cs"
          "?p mod bytes_per_cluster (fsi s)" "[]" ?p] chain_nth [OF ch q] bound geo(6)
      by (simp add: cpos cnt drop_clusters [OF A] add.commute)
    have "take n (drop (unat ?p) (file_bytes A s cs)) = take n (drop (unat ?p) (contents A s f cs))"
      using n by (simp add: contents_def drop_take)
    moreover have "u64_to_int cnt = int n" using cnt n sz(2) u64_to_int_small [of cnt] by simp
    moreover have "ucast cnt = (of_nat n :: u32)" using cnt [symmetric] by simp
    ultimately show ?thesis
      using False geo(2,8) dir seek loop by (simp add: fs_read_def cnt_def [symmetric] Let_def)
  qed
qed

section \<open>Writing\<close>

text \<open>
  The effect of writing bytes \<open>b\<close> at offset \<open>p\<close> of the chain \<open>cs\<close>, which may grow by the clusters \<open>ns\<close>, free
  until then. Nothing changes outside the chain.
\<close>

definition written ::
  "'d ata \<Rightarrow> u32 \<Rightarrow> u32 list \<Rightarrow> u32 list \<Rightarrow> nat \<Rightarrow> u8 list \<Rightarrow> 'd kfs \<Rightarrow> 'd kfs \<Rightarrow> bool" where
  "written A c cs ns p b s s' \<longleftrightarrow>
     fsi s' = fsi s \<and> chain A s' c (cs @ ns) \<and> distinct (cs @ ns) \<and>
     (\<forall>x \<in> set ns. cluster_ok (fsi s) x \<and> fat A s x = 0) \<and>
     p + length b \<le> length (cs @ ns) * cluster_size (fsi s) \<and>
     file_bytes A s' (cs @ ns) = overwrite p b (file_bytes A s (cs @ ns)) \<and>
     (\<forall>x. cluster_ok (fsi s) x \<and> x \<notin> set (cs @ ns) \<longrightarrow>
        fat A s' x = fat A s x \<and> cluster_sectors A s' x = cluster_sectors A s x)"

definition full :: "'d ata \<Rightarrow> 'd kfs \<Rightarrow> bool" where
  "full A s \<longleftrightarrow> (\<forall>x. cluster_ok (fsi s) x \<longrightarrow> fat A s x \<noteq> 0)"

lemma file_bytes_append: "file_bytes A s (cs @ ds) = file_bytes A s cs @ file_bytes A s ds"
  by (simp add: file_bytes_def)

lemma file_bytes_cong:
  "\<forall>x \<in> set cs. cluster_sectors A s' x = cluster_sectors A s x \<Longrightarrow> file_bytes A s' cs = file_bytes A s cs"
  by (simp add: file_bytes_def cong: map_cong)

lemma chain_cong:
  "\<lbrakk>chain A s c cs; fsi s' = fsi s; \<forall>x \<in> set cs. fat A s' x = fat A s x\<rbrakk> \<Longrightarrow> chain A s' c cs"
  by (induction A s c cs rule: chain.induct) auto

lemma chain_clusters: "chain A s c cs \<Longrightarrow> x \<in> set cs \<Longrightarrow> cluster_ok (fsi s) x"
  by (induction A s c cs rule: chain.induct) auto

lemma chain_used: "chain A s c cs \<Longrightarrow> x \<in> set cs \<Longrightarrow> fat A s x \<noteq> 0"
proof (induction A s c cs rule: chain.induct)
  case (2 A s c y xs)
  then show ?case by (cases xs) (auto simp: cluster_ok_def)
qed simp

lemma overwrite_append: "p + length b \<le> length xs \<Longrightarrow> overwrite p b xs @ ys = overwrite p b (xs @ ys)"
  by (simp add: overwrite_def)

lemma overwrite_prepend: "xs @ overwrite p b ys = overwrite (length xs + p) b (xs @ ys)"
  by (simp add: overwrite_def)

lemma overwrite_overwrite:
  "p + length b \<le> length xs \<Longrightarrow> overwrite (p + length b) b' (overwrite p b xs) = overwrite p (b @ b') xs"
  by (simp add: overwrite_def ac_simps)

lemma written_trans:
  assumes A: "reliable A" and w: "written A c cs ms p b s s1" "written A c (cs @ ms) ns (p + length b) b' s1 s'"
  shows "written A c cs (ms @ ns) p (b @ b') s s'"
proof -
  have fs: "fsi s1 = fsi s" "fsi s' = fsi s" using w by (auto simp: written_def)
  have outside: "fat A s1 x = fat A s x \<and> cluster_sectors A s1 x = cluster_sectors A s x"
    if "cluster_ok (fsi s) x" "x \<notin> set (cs @ ms)" for x using w(1) that by (auto simp: written_def)
  have ns: "cluster_ok (fsi s) x \<and> x \<notin> set (cs @ ms)" if "x \<in> set ns" for x
    using w(2) that fs by (auto simp: written_def)
  have "file_bytes A s1 ns = file_bytes A s ns" using ns outside by (intro file_bytes_cong) blast
  moreover have len: "p + length b \<le> length (file_bytes A s (cs @ ms))"
    using w(1) length_file_bytes [OF A] by (simp add: written_def)
  moreover have "file_bytes A s1 (cs @ ms) = overwrite p b (file_bytes A s (cs @ ms))"
    using w(1) by (simp only: written_def)
  ultimately have "file_bytes A s1 ((cs @ ms) @ ns) = overwrite p b (file_bytes A s ((cs @ ms) @ ns))"
    by (simp only: file_bytes_append [of A _ "cs @ ms"] overwrite_append)
  then have "file_bytes A s1 (cs @ ms @ ns) = overwrite p b (file_bytes A s (cs @ ms @ ns))" by simp
  moreover have "p + length b \<le> length (file_bytes A s (cs @ ms @ ns))" using len by (simp add: file_bytes_append)
  ultimately have "file_bytes A s' (cs @ ms @ ns) = overwrite p (b @ b') (file_bytes A s (cs @ ms @ ns))"
    using w(2) overwrite_overwrite by (simp add: written_def)
  then show ?thesis using w ns outside fs by (auto simp: written_def add.assoc)
qed

lemma chain_relink:
  "\<lbrakk>chain A s c (es @ d # ds); fsi s' = fsi s; \<forall>x \<in> set es. fat A s' x = fat A s x; chain A s' d ds'\<rbrakk>
    \<Longrightarrow> chain A s' c (es @ ds')"
  by (induction es arbitrary: c) auto

lemma written_prefix:
  assumes A: "reliable A" and w: "written A d ds ns p b s s'" and ch: "chain A s c (es @ ds)" "distinct (es @ ds)"
    and d: "ds = d # ds'"
  shows "written A c (es @ ds) ns (length es * cluster_size (fsi s) + p) b s s'"
proof -
  have fs: "fsi s' = fsi s" using w by (simp add: written_def)
  have es: "cluster_ok (fsi s) x \<and> x \<notin> set (ds @ ns)" if "x \<in> set es" for x
    using that ch chain_clusters [OF ch(1)] chain_used [OF ch(1)] w by (auto simp: written_def)
  then have same: "fat A s' x = fat A s x \<and> cluster_sectors A s' x = cluster_sectors A s x" if "x \<in> set es" for x
    using w that by (simp add: written_def)
  have "chain A s' c (es @ ds @ ns)" using chain_relink [OF ch(1) [unfolded d] fs] same w by (simp add: written_def)
  moreover have "file_bytes A s' es = file_bytes A s es" using same by (intro file_bytes_cong) blast
  then have "file_bytes A s' (es @ ds @ ns) =
      overwrite (length es * cluster_size (fsi s) + p) b (file_bytes A s (es @ ds @ ns))"
    using w overwrite_prepend [of "file_bytes A s es"] length_file_bytes [OF A, of s es]
    by (simp add: written_def file_bytes_append)
  moreover have "distinct (es @ ds @ ns)" using ch(2) es w by (auto simp: written_def)
  ultimately show ?thesis using w by (auto simp: written_def algebra_simps)
qed

text \<open>Different sectors of the data area have different addresses, all behind the table.\<close>

lemma sector_address:
  assumes g: "geometry (fsi s)" and c: "cluster_ok (fsi s) c" and i: "i < unat (sectors_per_cluster (fsi s))"
  shows "unat (fat32_cluster_to_lba c s + of_nat i) =
    unat (data_start (fsi s)) + ((unat c - 2) * unat (sectors_per_cluster (fsi s)) + i)"
proof -
  let ?k = "unat (sectors_per_cluster (fsi s))"
  have "Suc (unat c - 2) * ?k \<le> fat_entries (fsi s) * ?k"
    using c unfolding cluster_ok_def by (intro mult_le_mono1) linarith
  then have lt: "unat (data_start (fsi s)) + ((unat c - 2) * ?k + i) < 2 ^ 32"
    using g i unfolding geometry_def mult_Suc by linarith
  have "unat (c - 2) = unat c - 2" using c by (simp add: cluster_ok_def unat_sub word_le_nat_alt)
  moreover have "of_nat (unat (c - 2)) = c - 2" by simp
  ultimately have "c - 2 = of_nat (unat c - 2)" by (simp only:)
  then have "fat32_cluster_to_lba c s + of_nat i = of_nat (unat (data_start (fsi s)) + ((unat c - 2) * ?k + i))"
    by (simp add: fat32_cluster_to_lba_def add.assoc)
  then show ?thesis using lt by (simp only: unat_of_nat) (simp add: take_bit_nat_eq_self)
qed

lemma sector_address_inj:
  assumes g: "geometry (fsi s)" and c: "cluster_ok (fsi s) c" "cluster_ok (fsi s) c'"
    and i: "i < unat (sectors_per_cluster (fsi s))" "i' < unat (sectors_per_cluster (fsi s))"
    and eq: "fat32_cluster_to_lba c s + of_nat i = fat32_cluster_to_lba c' s + of_nat i'"
  shows "c = c' \<and> i = i'"
proof -
  let ?k = "unat (sectors_per_cluster (fsi s))"
  have e: "(unat c - 2) * ?k + i = (unat c' - 2) * ?k + i'"
    using eq sector_address [OF g c(1) i(1)] sector_address [OF g c(2) i(2)] by simp
  have "unat c - 2 = ((unat c - 2) * ?k + i) div ?k" "i = ((unat c - 2) * ?k + i) mod ?k" using i(1) by simp_all
  moreover have "unat c' - 2 = ((unat c' - 2) * ?k + i') div ?k" "i' = ((unat c' - 2) * ?k + i') mod ?k" using i(2) by simp_all
  ultimately have "unat c - 2 = unat c' - 2" "i = i'" using e by simp_all
  then show ?thesis using c unfolding cluster_ok_def word_unat_eq_iff by linarith
qed

lemma overwrite_block:
  assumes "\<forall>b \<in> set bs. length b = n" "i < length bs" "r + length b \<le> n"
  shows "concat (bs[i := overwrite r b (bs ! i)]) = overwrite (i * n + r) b (concat bs)"
  using assms
proof (induction bs arbitrary: i)
  case (Cons x bs)
  show ?case
  proof (cases i)
    case 0
    then show ?thesis using Cons.prems overwrite_append [of r b x "concat bs"] by simp
  next
    case (Suc j)
    then show ?thesis
      using Cons.IH [of j] Cons.prems overwrite_prepend [of x "j * n + r" b "concat bs"] by (simp add: add.assoc)
  qed
qed simp

lemma data_write:
  assumes A: "reliable A" and g: "geometry (fsi s)" and ch: "chain A s c (c # ds)" "distinct (c # ds)"
    and p: "p < cluster_size (fsi s)" and b: "p mod SECTOR + length b \<le> SECTOR"
  defines "l \<equiv> fat32_cluster_to_lba c s + of_nat (p div SECTOR)"
  obtains d where "ata_write_sectors A l (overwrite (p mod SECTOR) b (sect A s l)) (disk s) = (True, d)"
    "written A c (c # ds) [] p b s (s\<lparr>disk := d\<rparr>)"
proof -
  let ?x = "overwrite (p mod SECTOR) b (sect A s l)" and ?i = "p div SECTOR"
  have "length ?x = SECTOR" using b reliable_read(2) [OF A] by (simp add: overwrite_def)
  then obtain d where d: "ata_write_sectors A l ?x (disk s) = (True, d)"
    "\<And>l'. sect A (s\<lparr>disk := d\<rparr>) l' = (if l' = l then ?x else sect A s l')"
    using reliable_write [OF A, of ?x l s] by blast
  let ?s = "s\<lparr>disk := d\<rparr>"
  have i: "?i < unat (sectors_per_cluster (fsi s))"
    using p by (simp add: cluster_size_def less_mult_imp_div_less mult.commute)
  have ok: "cluster_ok (fsi s) c" using ch(1) by simp
  have lba: "fat32_cluster_to_lba x ?s = fat32_cluster_to_lba x s" for x by (simp add: fat32_cluster_to_lba_def)
  have fat: "fat A ?s x = fat A s x" if "unat x < fat_entries (fsi s)" for x
  proof -
    have "fat_start (fsi s) + of_nat (unat x div 128) \<noteq> l"
      using fat_position(3,4) [OF g that] sector_address [OF g ok i] by (auto simp: l_def)
    then show ?thesis by (simp add: fat_def d(2))
  qed
  have other: "cluster_sectors A ?s x = cluster_sectors A s x" if "cluster_ok (fsi s) x" "x \<noteq> c" for x
  proof -
    have "fat32_cluster_to_lba x s + of_nat j \<noteq> l" if "j < unat (sectors_per_cluster (fsi s))" for j
      using sector_address_inj [OF g \<open>cluster_ok (fsi s) x\<close> ok that i] \<open>x \<noteq> c\<close> by (auto simp: l_def)
    then show ?thesis by (simp add: cluster_sectors_def lba d(2))
  qed
  have self: "cluster_sectors A ?s c = (cluster_sectors A s c)[?i := ?x]"
  proof (rule nth_equalityI)
    fix j
    assume "j < length (cluster_sectors A ?s c)"
    then have j: "j < unat (sectors_per_cluster (fsi s))" by simp
    then have "fat32_cluster_to_lba c s + of_nat j = l \<longleftrightarrow> j = ?i"
      using sector_address_inj [OF g ok ok j i] by (auto simp: l_def)
    then show "cluster_sectors A ?s c ! j = (cluster_sectors A s c)[?i := ?x] ! j"
      using j i by (auto simp: cluster_sectors_def lba d(2) nth_list_update)
  qed simp
  have nth: "cluster_sectors A s c ! ?i = sect A s l" using i by (simp add: cluster_sectors_def l_def)
  have "concat (cluster_sectors A ?s c) = overwrite p b (concat (cluster_sectors A s c))"
    using overwrite_block [of "cluster_sectors A s c" SECTOR ?i "p mod SECTOR" b] sectors_blocks [OF A, of s "[c]"] i b
    by (simp add: self nth)
  moreover have "file_bytes A ?s ds = file_bytes A s ds"
    using ch other chain_clusters [OF ch(1)] by (intro file_bytes_cong) auto
  moreover have fit: "p + length b \<le> cluster_size (fsi s)" using transfer_fits [OF p] b by linarith
  moreover have "length (concat (cluster_sectors A s c)) = cluster_size (fsi s)"
    using length_file_bytes [OF A, of s "[c]"] by (simp add: file_bytes_def)
  ultimately have "file_bytes A ?s (c # ds) = overwrite p b (file_bytes A s (c # ds))"
    by (simp add: file_bytes_Cons overwrite_append)
  moreover have "chain A ?s c (c # ds)"
    using chain_cong [OF ch(1), of ?s] fat chain_clusters [OF ch(1)] by (auto simp: cluster_ok_def)
  ultimately have "written A c (c # ds) [] p b s ?s"
    using ch(2) other fat fit by (auto simp: written_def cluster_ok_def)
  then show thesis using that d(1) by blast
qed

text \<open>Growing a chain by a cluster.\<close>

lemma fat_update_sectors:
  assumes "fat_update A c v s s'" "geometry (fsi s)" "cluster_ok (fsi s) x"
  shows "cluster_sectors A s' x = cluster_sectors A s x"
proof -
  have "data_start (fsi s) \<le> fat32_cluster_to_lba x s + of_nat i" if "i < unat (sectors_per_cluster (fsi s))" for i
    using sector_address [OF assms(2,3) that] by (simp add: word_le_nat_alt)
  then show ?thesis using assms(1) by (simp add: fat_update_def cluster_sectors_def fat32_cluster_to_lba_def)
qed

lemma and_FAT_MASK: "unat c < 2 ^ 28 \<Longrightarrow> c AND FAT_MASK = c" for c :: u32
proof -
  assume c: "unat c < 2 ^ 28"
  have "c AND FAT_MASK = take_bit 28 c" by (simp add: take_bit_eq_mask mask_numeral)
  also have "\<dots> = c" using c by (simp add: word_unat_eq_iff unsigned_take_bit_eq take_bit_nat_eq_self)
  finally show ?thesis .
qed

lemma overwrite_Nil [simp]: "overwrite p [] xs = xs"
  by (simp add: overwrite_def)

lemma written_refl:
  "\<lbrakk>chain A s c cs; distinct cs; p \<le> length cs * cluster_size (fsi s)\<rbrakk> \<Longrightarrow> written A c cs [] p [] s s"
  by (simp add: written_def)

lemma written_shift:
  assumes "written A c cs ns p [] s s'" "q \<le> length (cs @ ns) * cluster_size (fsi s)"
  shows "written A c cs ns q [] s s'"
  using assms unfolding written_def overwrite_Nil list.size(3) add_0_right by blast

lemma extend_chain:
  assumes A: "reliable A" and g: "geometry (fsi s)" and ch: "chain A s c [c]"
  obtains (free) c' s1 s2 where "fat32_allocate_cluster A s = Some (c', s1)" "c' \<noteq> 0"
    "fat32_write_fat_entry A c c' s1 = Some (FS_SUCCESS, s2)" "chain A s2 c' [c']"
    "written A c [c] [c'] (cluster_size (fsi s)) [] s s2"
  | (full) "fat32_allocate_cluster A s = Some (0, s)" "full A s"
proof (cases rule: allocate_cluster_ok [OF A g, case_names free full])
  case (free c' s1)
  have c: "cluster_ok (fsi s) c" "fat A s c \<noteq> 0" using ch by auto
  have c': "cluster_ok (fsi s) c'" "fat A s c' = 0" and u1: "fat_update A c' FAT32_EOC s s1"
    using free(3) by (simp_all add: allocated_def)
  have fs1: "fsi s1 = fsi s" using u1 by (simp add: fat_update_def)
  obtain s2 where s2: "fat32_write_fat_entry A c c' s1 = Some (FS_SUCCESS, s2)" "fat_update A c c' s1 s2"
    using write_fat_entry [OF A, of s1 c c'] g c(1) fs1 by (auto simp: cluster_ok_def)
  have fs2: "fsi s2 = fsi s" using s2(2) fs1 by (simp add: fat_update_def)
  have "c' AND FAT_MASK = c'" using c'(1) g by (intro and_FAT_MASK) (simp add: cluster_ok_def geometry_def)
  then have fat: "fat A s2 x = (if x = c then c' else if x = c' then FAT32_EOC else fat A s x)"
    if "cluster_ok (fsi s) x" for x
    using that u1 s2(2) fs1 by (simp add: fat_update_def cluster_ok_def)
  have sectors: "cluster_sectors A s2 x = cluster_sectors A s x" if "cluster_ok (fsi s) x" for x
    using fat_update_sectors [OF s2(2), of x] fat_update_sectors [OF u1 g that] g that fs1 by simp
  have neq: "c \<noteq> c'" using c(2) c'(2) by auto
  have "chain A s2 c' [c']" "chain A s2 c [c, c']" using fat c(1) c'(1) fs2 neq by simp_all
  moreover have "file_bytes A s2 [c, c'] = file_bytes A s [c, c']"
    using sectors c(1) c'(1) by (intro file_bytes_cong) auto
  ultimately have "written A c [c] [c'] (cluster_size (fsi s)) [] s s2"
    using fs2 neq c' fat sectors by (simp add: written_def)
  then show thesis using that(1) free s2(1) \<open>chain A s2 c' [c']\<close> by blast
next
  case full
  then show thesis using that(2) by (simp add: full_def)
qed

text \<open>One pass of the write loop transfers a piece of a sector.\<close>

lemma fs_write_step:
  assumes A: "reliable A" and g: "geometry (fsi s)" and ch: "chain A s cluster (cluster # ds)" "distinct (cluster # ds)"
    and cp: "unat cpos < cluster_size (fsi s)" and src: "src \<noteq> []"
  obtains sb s1 where "0 < unat sb" "unat sb \<le> length src" "fsi s1 = fsi s"
    "unat (cpos + sb) = unat cpos + unat sb" "unat cpos + unat sb \<le> cluster_size (fsi s)"
    "written A cluster (cluster # ds) [] (unat cpos) (take (unat sb) src) s s1"
    "fs_write_loop A src cpos cluster position s =
      (if cpos + sb \<ge> bytes_per_cluster (fsi s)
       then do { (c, s2) \<leftarrow> next_cluster A cluster (drop (unat sb) src \<noteq> []) s1;
                 case c of None \<Rightarrow> Some (Some (length (drop (unat sb) src)), position + sb, s2)
                 | Some c' \<Rightarrow> fs_write_loop A (drop (unat sb) src) 0 c' (position + sb) s2 }
       else fs_write_loop A (drop (unat sb) src) (cpos + sb) cluster (position + sb) s1)"
proof -
  note geo = geometryD [OF g]
  define sb where "sb = (if unat (512 - cpos mod 512) > length src then of_nat (length src) else 512 - cpos mod 512 :: u32)"
  have m: "unat cpos mod 512 < 512" by simp
  have sb: "unat sb = min (512 - unat cpos mod 512) (length src)" unfolding sb_def by (rule write_size)
  have sb_pos: "0 < unat sb" "unat sb \<le> length src" "unat sb \<le> 512" using sb m src by auto
  have room: "\<not> SECTOR < unat cpos mod SECTOR + unat sb" using sb m by simp
  have fit: "unat cpos mod SECTOR + length (take (unat sb) src) \<le> SECTOR" using sb m by simp
  let ?l = "fat32_cluster_to_lba cluster s + of_nat (unat cpos div SECTOR)"
  obtain d where d: "ata_write_sectors A ?l (overwrite (unat cpos mod SECTOR) (take (unat sb) src) (sect A s ?l)) (disk s) = (True, d)"
    "written A cluster (cluster # ds) [] (unat cpos) (take (unat sb) src) s (s\<lparr>disk := d\<rparr>)"
    using data_write [OF A g ch cp fit] by blast
  have "unat sb \<le> SECTOR - unat cpos mod SECTOR" using sb by simp
  then have end_: "unat cpos + unat sb \<le> cluster_size (fsi s)" using transfer_fits [OF cp] by linarith
  have cpos': "unat (cpos + sb) = unat cpos + unat sb" using cp geo(7) sb_pos(3) by (simp add: unat_word_ariths)
  show thesis
    by (rule that [OF sb_pos(1,2) _ cpos' end_ d(2)], simp, subst fs_write_loop.simps)
      (use src geo(1) reliable_read(1) [OF A] d(1) room in \<open>simp add: u32_div_mod sb_def [symmetric] Let_def\<close>)
qed

text \<open>The write loop: it ends, having written everything or filled the disk.\<close>

definition loop_writes ::
  "'d ata \<Rightarrow> u32 \<Rightarrow> u32 list \<Rightarrow> nat \<Rightarrow> u8 list \<Rightarrow> (nat option \<times> u32 \<times> 'd kfs) option \<Rightarrow> u32 \<Rightarrow> 'd kfs \<Rightarrow> bool" where
  "loop_writes A cluster ds off src run position s \<longleftrightarrow>
     (\<exists>n ns s'. n \<le> length src \<and> run = Some (Some (length src - n), position + of_nat n, s') \<and>
        written A cluster (cluster # ds) ns off (take n src) s s' \<and> (n < length src \<longrightarrow> full A s'))"

lemma loop_writesI:
  assumes "n \<le> length src" "run = Some (Some (length src - n), position + of_nat n, s')"
    and "written A cluster (cluster # ds) ns off (take n src) s s'" "n < length src \<longrightarrow> full A s'"
  shows "loop_writes A cluster ds off src run position s"
  unfolding loop_writes_def using assms by blast

text \<open>A transfer of \<open>k\<close> bytes, then the rest of the loop.\<close>

lemma loop_writes_trans:
  assumes A: "reliable A" and w: "written A cluster (cluster # ds) [] off (take k src) s s1" and k: "k \<le> length src"
    and rest: "loop_writes A cluster ds (off + k) (drop k src) run (position + of_nat k) s1"
  shows "loop_writes A cluster ds off src run position s"
proof -
  obtain n ns s' where r: "n \<le> length (drop k src)" "run = Some (Some (length (drop k src) - n), position + of_nat k + of_nat n, s')"
    "written A cluster (cluster # ds) ns (off + k) (take n (drop k src)) s1 s'" "n < length (drop k src) \<longrightarrow> full A s'"
    using rest unfolding loop_writes_def by blast
  have "written A cluster (cluster # ds) ns off (take (k + n) src) s s'"
    using written_trans [OF A w, of ns "take n (drop k src)" s'] r(3) k by (simp add: take_add min_absorb1)
  then show ?thesis by (rule loop_writesI [rotated 2]) (use r k in \<open>auto simp: add.assoc\<close>)
qed

text \<open>At the end of a cluster: the next one of the chain, a new one, or the disk is full.\<close>

lemma next_cluster_writes:
  assumes A: "reliable A" and g: "geometry (fsi s)" and ch: "chain A s cluster (cluster # ds)" and dis: "distinct (cluster # ds)"
    and rest: "\<And>c ds' s'. fsi s' = fsi s \<Longrightarrow> chain A s' c (c # ds') \<Longrightarrow> distinct (c # ds') \<Longrightarrow>
      loop_writes A c ds' 0 src (fs_write_loop A src 0 c position s') position s'"
  shows "loop_writes A cluster ds (cluster_size (fsi s)) src
    (do { (c, s2) \<leftarrow> next_cluster A cluster (src \<noteq> []) s;
          case c of None \<Rightarrow> Some (Some (length src), position, s2)
          | Some c' \<Rightarrow> fs_write_loop A src 0 c' position s2 }) position s"
    (is "loop_writes A cluster ds ?k src ?run position s")
proof -
  have entry: "fat32_read_fat_entry A cluster s = Some (fat A s cluster)"
    using read_fat_entry [OF A g, of cluster] ch by (simp add: cluster_ok_def)
  have unchanged: "written A cluster (cluster # ds) [] ?k [] s s" using written_refl [OF ch dis, of ?k] by simp
  consider (none) "src = []" | (more) d' ds' where "src \<noteq> []" "ds = d' # ds'" | (last) "src \<noteq> []" "ds = []" by (cases ds) auto
  then show ?thesis
  proof cases
    case none
    then show ?thesis using entry unchanged
      by (intro loop_writesI [where n = 0 and s' = s and ns = "[]"]) (simp_all add: next_cluster_def fs_write_loop.simps [of A "[]"])
  next
    case more
    have ch': "fat A s cluster = d'" "chain A s d' (d' # ds')" using ch more(2) by auto
    obtain n ns s' where r: "n \<le> length src" "fs_write_loop A src 0 d' position s = Some (Some (length src - n), position + of_nat n, s')"
      "written A d' (d' # ds') ns 0 (take n src) s s'" "n < length src \<longrightarrow> full A s'"
      using rest [OF refl ch'(2)] dis more(2) unfolding loop_writes_def by auto
    have "written A cluster (cluster # ds) ns ?k (take n src) s s'"
      using written_prefix [OF A r(3), of cluster "[cluster]" ds'] ch dis more(2) by simp
    then show ?thesis by (rule loop_writesI [rotated 2]) (use r entry ch' chain_not_EOC [OF ch'(2) g] in \<open>auto simp: next_cluster_def\<close>)
  next
    case last
    have ch': "chain A s cluster [cluster]" and eoc: "FAT32_EOC \<le> fat A s cluster" using ch last by auto
    show ?thesis
    proof (cases rule: extend_chain [OF A g ch', case_names free full])
      case (free c' sa s2)
      have s2: "fsi s2 = fsi s" "chain A s2 cluster [cluster, c']" "distinct [cluster, c']"
        using free(5) unfolding written_def by auto
      obtain n ns s' where r: "n \<le> length src" "fs_write_loop A src 0 c' position s2 = Some (Some (length src - n), position + of_nat n, s')"
        "written A c' [c'] ns 0 (take n src) s2 s'" "n < length src \<longrightarrow> full A s'"
        using rest [OF s2(1) free(4)] unfolding loop_writes_def by auto
      have "written A cluster [cluster, c'] ns ?k (take n src) s2 s'"
        using written_prefix [OF A r(3), of cluster "[cluster]" "[]"] s2 by simp
      then have "written A cluster (cluster # ds) ([c'] @ ns) ?k (take n src) s s'"
        using written_trans [OF A, of cluster "[cluster]" "[c']" ?k "[]" s s2 ns "take n src" s'] free(5) last(2) by simp
      then show ?thesis by (rule loop_writesI [rotated 2]) (use r entry eoc last free(1-3) in \<open>auto simp: next_cluster_def\<close>)
    next
      case full
      then show ?thesis using entry eoc last(1) unchanged
        by (intro loop_writesI [where n = 0 and s' = s and ns = "[]"]) (simp_all add: next_cluster_def)
    qed
  qed
qed

lemma fs_write_loop_writes:
  assumes A: "reliable A"
  shows "\<lbrakk>geometry (fsi s); chain A s cluster (cluster # ds); distinct (cluster # ds); unat cpos < cluster_size (fsi s)\<rbrakk> \<Longrightarrow>
    loop_writes A cluster ds (unat cpos) src (fs_write_loop A src cpos cluster position s) position s"
proof (induction "length src" arbitrary: src cpos cluster ds position s rule: less_induct)
  case less
  note g = less.prems(1) and ch = less.prems(2) and dis = less.prems(3) and cp = less.prems(4)
  note geo = geometryD [OF g]
  let ?k = "cluster_size (fsi s)"
  show ?case
  proof (cases "src = []")
    case True
    then show ?thesis using written_refl [OF ch dis, of "unat cpos"] cp
      by (intro loop_writesI [of 0 _ _ _ s]) (simp_all add: fs_write_loop.simps)
  next
    case False
    obtain sb s1 where sb_pos: "0 < unat sb" "unat sb \<le> length src" and s1: "fsi s1 = fsi s"
      and cpos': "unat (cpos + sb) = unat cpos + unat sb" and end_le: "unat cpos + unat sb \<le> ?k"
      and w1: "written A cluster (cluster # ds) [] (unat cpos) (take (unat sb) src) s s1"
      and step: "fs_write_loop A src cpos cluster position s =
        (if cpos + sb \<ge> bytes_per_cluster (fsi s)
         then do { (c, s2) \<leftarrow> next_cluster A cluster (drop (unat sb) src \<noteq> []) s1;
                   case c of None \<Rightarrow> Some (Some (length (drop (unat sb) src)), position + sb, s2)
                   | Some c' \<Rightarrow> fs_write_loop A (drop (unat sb) src) 0 c' (position + sb) s2 }
         else fs_write_loop A (drop (unat sb) src) (cpos + sb) cluster (position + sb) s1)"
      using fs_write_step [OF A g ch dis cp False] by blast
    have ch1: "chain A s1 cluster (cluster # ds)" using w1 unfolding written_def append_Nil2 by blast
    have IH: "loop_writes A c ds' (unat q) (drop (unat sb) src) (fs_write_loop A (drop (unat sb) src) q c (position + sb) s') (position + sb) s'"
      if "fsi s' = fsi s" "chain A s' c (c # ds')" "distinct (c # ds')" "unat q < ?k" for c ds' q s'
      using less.hyps [of "drop (unat sb) src" s' c ds' q "position + sb"] that g sb_pos by simp
    have "loop_writes A cluster ds (unat cpos + unat sb) (drop (unat sb) src) (fs_write_loop A src cpos cluster position s) (position + sb) s1"
    proof (cases "cpos + sb \<ge> bytes_per_cluster (fsi s)")
      case True
      then have "?k \<le> unat cpos + unat sb" by (simp only: word_le_nat_alt cpos' geo(5))
      then have "unat cpos + unat sb = ?k" using end_le by linarith
      then show ?thesis
        using next_cluster_writes [OF A _ ch1 dis, of "drop (unat sb) src" "position + sb"] IH [of _ _ _ 0] g s1 geo(6) step True by simp
    next
      case F: False
      then have "unat (cpos + sb) < ?k" using geo(5) by (simp add: word_le_nat_alt)
      then show ?thesis using IH [OF s1 ch1 dis, of "cpos + sb"] step F cpos' by simp
    qed
    then show ?thesis using loop_writes_trans [OF A w1 sb_pos(2)] by simp
  qed
qed

lemmas fs_write_loop_ok = fs_write_loop_writes [unfolded loop_writes_def]

text \<open>The loop in front of it: the cluster of the position, one more when the position is at the end of the chain.\<close>

definition extends :: "'d ata \<Rightarrow> u32 \<Rightarrow> u32 \<Rightarrow> u32 list \<Rightarrow> u32 \<Rightarrow> 'd kfs \<Rightarrow> bool" where
  "extends A position c ds pos s \<longleftrightarrow>
    (\<exists>ns s'. extend_to A position c pos s =
        Some (Some ((c # ds @ ns) ! ((unat position - unat pos) div cluster_size (fsi s))), s') \<and>
      (unat position - unat pos) div cluster_size (fsi s) < length (c # ds @ ns) \<and>
      written A c (c # ds) ns 0 [] s s') \<or>
    extend_to A position c pos s = Some (None, s) \<and> full A s"

lemma next_position:
  assumes "geometry (fsi s)" "unat position + cluster_size (fsi s) < 2 ^ 32" "unat pos \<le> unat position"
  shows "unat (pos + bytes_per_cluster (fsi s)) = unat pos + cluster_size (fsi s)"
  using assms(2,3) geometryD(5) [OF assms(1)] by (simp add: unat_word_ariths)

text \<open>The position is in the cluster.\<close>

lemma extends_here:
  assumes g: "geometry (fsi s)" "unat position + cluster_size (fsi s) < 2 ^ 32" "unat pos \<le> unat position"
    and ch: "chain A s c (c # ds)" "distinct (c # ds)" and here: "unat position - unat pos < cluster_size (fsi s)"
  shows "extends A position c ds pos s"
proof -
  have "\<not> pos + bytes_per_cluster (fsi s) \<le> position" using next_position [OF g] here g(3) by (simp add: word_le_nat_alt)
  then have "extend_to A position c pos s = Some (Some c, s)" by (subst extend_to.simps) simp
  then show ?thesis
    unfolding extends_def using here written_refl [OF ch, of 0] by (intro disjI1 exI [of _ "[]"] exI [of _ s]) simp
qed

text \<open>The position is right behind the last cluster: the chain gets a new one.\<close>

lemma extends_end:
  assumes A: "reliable A" and g: "geometry (fsi s)" "unat position + cluster_size (fsi s) < 2 ^ 32"
    and ch: "chain A s c [c]" and at_end: "unat position = unat pos + cluster_size (fsi s)"
  shows "extends A position c [] pos s"
proof -
  note geo = geometryD [OF g(1)]
  have pos': "unat (pos + bytes_per_cluster (fsi s)) = unat pos + cluster_size (fsi s)" using next_position [OF g] at_end by simp
  have entry: "fat32_read_fat_entry A c s = Some (fat A s c)" "fat A s c \<ge> FAT32_EOC"
    using read_fat_entry [OF A g(1), of c] ch by (auto simp: cluster_ok_def)
  have go: "pos + bytes_per_cluster (fsi s) \<le> position" using pos' at_end by (simp add: word_le_nat_alt)
  show ?thesis
  proof (cases rule: extend_chain [OF A g(1) ch, case_names free full])
    case (free c' s1 s2)
    have "fsi s2 = fsi s" using free(5) by (simp add: written_def)
    then have "\<not> pos + bytes_per_cluster (fsi s) + bytes_per_cluster (fsi s2) \<le> position"
      using pos' at_end geo(5,6) g(2) by (simp add: word_le_nat_alt unat_word_ariths)
    then have "extend_to A position c' (pos + bytes_per_cluster (fsi s)) s2 = Some (Some c', s2)"
      by (subst extend_to.simps) simp
    then have run: "extend_to A position c pos s = Some (Some c', s2)"
      using go entry free(1-3) by (subst extend_to.simps) simp
    have w: "written A c [c] [c'] 0 [] s s2" using written_shift [OF free(5)] by simp
    have "(unat position - unat pos) div cluster_size (fsi s) = 1" using at_end geo(6) by simp
    then show ?thesis unfolding extends_def using run w by (intro disjI1 exI [of _ "[c']"] exI [of _ s2]) simp
  next
    case full
    then have "extend_to A position c pos s = Some (None, s)" using go entry by (subst extend_to.simps) simp
    then show ?thesis using full(2) by (simp add: extends_def)
  qed
qed

text \<open>The position is behind the cluster, which has a successor.\<close>

lemma extends_next:
  assumes A: "reliable A" and g: "geometry (fsi s)" "unat position + cluster_size (fsi s) < 2 ^ 32" "unat pos \<le> unat position"
    and ch: "chain A s c (c # d # ds)" "distinct (c # d # ds)" and far: "cluster_size (fsi s) \<le> unat position - unat pos"
    and rest: "extends A position d ds (pos + bytes_per_cluster (fsi s)) s"
  shows "extends A position c (d # ds) pos s"
proof -
  note geo = geometryD [OF g(1)] and pos' = next_position [OF g]
  have d: "fat A s c = d" "chain A s d (d # ds)" using ch by auto
  have le: "unat (pos + bytes_per_cluster (fsi s)) \<le> unat position" using far pos' geo(6) by linarith
  let ?q = "(unat position - unat (pos + bytes_per_cluster (fsi s))) div cluster_size (fsi s)"
  have q: "(unat position - unat pos) div cluster_size (fsi s) = Suc ?q"
    using far geo(6) pos' by (simp add: le_div_geq)
  have "fat32_read_fat_entry A c s = Some d"
    using read_fat_entry [OF A g(1), of c] ch(1) d(1) by (auto simp: cluster_ok_def)
  then have run: "extend_to A position c pos s = extend_to A position d (pos + bytes_per_cluster (fsi s)) s"
    using le chain_not_EOC [OF d(2) g(1)] by (subst extend_to.simps) (simp add: word_le_nat_alt)
  from rest [unfolded extends_def] show ?thesis
  proof (elim disjE exE conjE)
    fix ns s'
    assume r: "extend_to A position d (pos + bytes_per_cluster (fsi s)) s = Some (Some ((d # ds @ ns) ! ?q), s')"
      "?q < length (d # ds @ ns)" "written A d (d # ds) ns 0 [] s s'"
    have "written A c (c # d # ds) ns (cluster_size (fsi s)) [] s s'"
      using written_prefix [OF A r(3), of c "[c]" ds] ch by simp
    then have w: "written A c (c # d # ds) ns 0 [] s s'" by (rule written_shift) simp
    show ?thesis unfolding extends_def
      by (rule disjI1, intro exI conjI) (use run r q w in simp_all)
  qed (simp add: run extends_def)
qed

lemma extend_to_extends:
  assumes A: "reliable A"
  shows "\<lbrakk>geometry (fsi s); unat position + cluster_size (fsi s) < 2 ^ 32; chain A s c (c # ds); distinct (c # ds);
      unat pos \<le> unat position; unat position - unat pos \<le> length (c # ds) * cluster_size (fsi s)\<rbrakk> \<Longrightarrow>
    extends A position c ds pos s"
proof (induction ds arbitrary: c pos)
  case Nil
  then show ?case
    using extends_here [OF Nil.prems(1,2,5,3,4)] extends_end [OF A Nil.prems(1-3)] by (cases "unat position - unat pos < cluster_size (fsi s)") auto
next
  case (Cons d ds)
  note pos' = next_position [OF Cons.prems(1,2,5)]
  show ?case
  proof (cases "unat position - unat pos < cluster_size (fsi s)")
    case True
    then show ?thesis by (rule extends_here [OF Cons.prems(1,2,5,3,4)])
  next
    case False
    then have le: "unat (pos + bytes_per_cluster (fsi s)) \<le> unat position" using pos' geometryD(6) [OF Cons.prems(1)] by linarith
    have "unat position - unat (pos + bytes_per_cluster (fsi s)) \<le> length (d # ds) * cluster_size (fsi s)"
      using Cons.prems(6) pos' by simp
    then have "extends A position d ds (pos + bytes_per_cluster (fsi s)) s"
      using Cons.IH [OF Cons.prems(1,2) _ _ le] Cons.prems(3,4) by simp
    then show ?thesis by (rule extends_next [OF A Cons.prems(1,2,5,3,4), rotated]) (use False in simp)
  qed
qed

lemmas extend_to_ok = extend_to_extends [unfolded extends_def]

lemma first_cluster_ok:
  assumes A: "reliable A" and f: "file_ok A s f cs"
  obtains (ok) c ds ns f1 s1 where "first_cluster A f s = Some (c, f1, s1)" "cs @ ns = c # ds" "written A c cs ns 0 [] s s1"
    "f1 = f\<lparr>f_dirent := (f_dirent f)\<lparr>de_cluster := c\<rparr>, f_current_cluster := f_current_cluster f1\<rparr>" "cs \<noteq> [] \<Longrightarrow> ns = [] \<and> s1 = s \<and> f1 = f"
  | (full) "first_cluster A f s = Some (0, f, s)" "full A s"
proof -
  have g: "geometry (fsi s)" using f by (simp add: file_ok_def)
  show thesis
  proof (cases cs)
    case (Cons c ds)
    have ch: "chain A s (de_cluster (f_dirent f)) cs" "distinct cs" using f Cons by (simp_all add: file_ok_def)
    then have c: "de_cluster (f_dirent f) = c" "c \<noteq> 0" using Cons by (auto simp: cluster_ok_def)
    have fc: "first_cluster A f s = Some (c, f, s)" using c by (simp add: first_cluster_def)
    show thesis by (rule ok [OF fc, of "[]" ds]) (use c written_refl [OF ch] Cons in simp_all)
  next
    case Nil
    then have z: "de_cluster (f_dirent f) = 0" using f by (simp add: file_ok_def)
    show thesis
    proof (cases rule: allocate_cluster_ok [OF A g, case_names free full])
      case (free c s1)
      have c: "cluster_ok (fsi s) c" "fat A s c = 0" and u: "fat_update A c FAT32_EOC s s1"
        using free(3) by (simp_all add: allocated_def)
      have fs: "fsi s1 = fsi s" "fat A s1 c = FAT32_EOC" using u c(1) by (simp_all add: fat_update_def cluster_ok_def)
      have "file_bytes A s1 [c] = file_bytes A s [c]" using fat_update_sectors [OF u g c(1)] by (intro file_bytes_cong) simp
      moreover have "fat A s1 x = fat A s x \<and> cluster_sectors A s1 x = cluster_sectors A s x"
        if "cluster_ok (fsi s) x" "x \<noteq> c" for x
        using fat_update_sectors [OF u g that(1)] u that by (simp add: fat_update_def cluster_ok_def)
      ultimately have w: "written A c [] [c] 0 [] s s1" using c fs by (simp add: written_def)
      have "first_cluster A f s =
          Some (c, f\<lparr>f_dirent := (f_dirent f)\<lparr>de_cluster := c\<rparr>, f_current_cluster := c\<rparr>, s1)"
        using free(1,2) z by (simp add: first_cluster_def)
      then show thesis by (rule ok [of _ _ _ "[c]" "[]"]) (use w Nil in simp_all)
    next
      case f': full
      then show thesis using full z by (simp add: first_cluster_def full_def)
    qed
  qed
qed

text \<open>What a write leaves alone: every file whose clusters are not those of the written one.\<close>

definition undisturbed :: "'d ata \<Rightarrow> u32 list \<Rightarrow> 'd kfs \<Rightarrow> 'd kfs \<Rightarrow> bool" where
  "undisturbed A cs s s' \<longleftrightarrow>
     (\<forall>g ds. file_ok A s g ds \<and> set ds \<inter> set cs = {} \<longrightarrow> file_ok A s' g ds \<and> contents A s' g ds = contents A s g ds)"

lemma written_undisturbed: "written A c cs ns p b s s' \<Longrightarrow> undisturbed A cs s s'"
  unfolding undisturbed_def
proof (intro allI impI)
  fix g ds
  assume w: "written A c cs ns p b s s'" and h: "file_ok A s g ds \<and> set ds \<inter> set cs = {}"
  have fs: "fsi s' = fsi s" using w by (simp add: written_def)
  show "file_ok A s' g ds \<and> contents A s' g ds = contents A s g ds"
  proof (cases "ds = []")
    case True
    then show ?thesis using h fs by (simp add: file_ok_def contents_def file_bytes_def)
  next
    case False
    then have ch: "chain A s (de_cluster (f_dirent g)) ds" using h by (simp add: file_ok_def)
    have "cluster_ok (fsi s) x \<and> x \<notin> set (cs @ ns)" if "x \<in> set ds" for x
      using that h chain_clusters [OF ch that] chain_used [OF ch that] w by (auto simp: written_def)
    then have same: "fat A s' x = fat A s x \<and> cluster_sectors A s' x = cluster_sectors A s x" if "x \<in> set ds" for x
      using w that by (simp add: written_def)
    then have "chain A s' (de_cluster (f_dirent g)) ds" using chain_cong [OF ch fs] by blast
    moreover have "file_bytes A s' ds = file_bytes A s ds" using same by (intro file_bytes_cong) blast
    ultimately show ?thesis using h fs False by (simp add: file_ok_def contents_def)
  qed
qed

text \<open>Finding the cluster of the position: on an existing chain, a new one, or no free cluster.\<close>

lemma fs_write_start:
  assumes A: "reliable A" and f: "file_ok A s f cs" and no_wrap: "unat (f_position f) + cluster_size (fsi s) < 2 ^ 32"
  defines "q \<equiv> unat (f_position f) div cluster_size (fsi s)"
  obtains (ok) c ns f1 s1 s2 where "first_cluster A f s = Some (c, f1, s1)" "c \<noteq> 0"
    "extend_to A (f_position f) c 0 s1 = Some (Some ((cs @ ns) ! q), s2)" "q < length (cs @ ns)"
    "written A c cs ns (unat (f_position f)) [] s s2"
    "f1 = f\<lparr>f_dirent := (f_dirent f)\<lparr>de_cluster := c\<rparr>, f_current_cluster := f_current_cluster f1\<rparr>"
  | (full) c where "first_cluster A f s = Some (c, f, s)" "full A s"
      "c = 0 \<or> extend_to A (f_position f) c 0 s = Some (None, s)"
proof (cases rule: first_cluster_ok [OF A f, case_names ok full])
  case (ok c ds ms f1 s1)
  let ?p = "f_position f" and ?k = "cluster_size (fsi s)"
  have g: "geometry (fsi s)" using f by (simp add: file_ok_def)
  have s1: "fsi s1 = fsi s" "chain A s1 c (c # ds)" "distinct (c # ds)" using ok(3) unfolding written_def ok(2) by blast+
  have c: "c \<noteq> 0" using s1(2) by (auto simp: cluster_ok_def)
  have "unat ?p \<le> length cs * ?k" using f by (simp add: file_ok_def)
  also have "\<dots> \<le> length (c # ds) * ?k" unfolding ok(2) [symmetric] by (intro mult_le_mono1) simp
  finally have le: "unat ?p \<le> length (c # ds) * ?k" .
  from extend_to_ok [OF A, of s1 ?p c ds 0] s1 g no_wrap le
  consider (found) ns s2 where "extend_to A ?p c 0 s1 = Some (Some ((c # ds @ ns) ! q), s2)" "q < length (c # ds @ ns)"
      "written A c (c # ds) ns 0 [] s1 s2"
    | (none) "extend_to A ?p c 0 s1 = Some (None, s1)" "full A s1"
    by (auto simp: q_def)
  then show thesis
  proof cases
    case found
    have "written A c cs (ms @ ns) 0 [] s s2" using written_trans [OF A ok(3), of ns "[]" s2] found(3) ok(2) by simp
    moreover have "unat ?p \<le> length (cs @ ms @ ns) * ?k"
    proof -
      have "length (c # ds) * ?k \<le> length (cs @ ms @ ns) * ?k"
        unfolding ok(2) [symmetric] by (intro mult_le_mono1) simp
      then show ?thesis using le by linarith
    qed
    ultimately have w: "written A c cs (ms @ ns) (unat ?p) [] s s2" by (rule written_shift)
    have all: "c # ds @ ns = cs @ ms @ ns" using ok(2) by (metis append_Cons append_assoc)
    show thesis by (rule that(1) [OF ok(1) c _ _ w ok(4)]) (use found(1,2) [unfolded all] in simp_all)
  next
    case none
    have "cs \<noteq> []"
    proof
      assume "cs = []"
      then have "unat ?p = 0" using f by (auto simp: file_ok_def)
      then have "?p = 0" by (simp add: unat_eq_zero)
      then have "extend_to A ?p c 0 s1 = Some (Some c, s1)"
        using geometryD(8) [OF g] s1(1) by (subst extend_to.simps) simp
      then show False using none(1) by simp
    qed
    then show thesis using that(2) ok none by simp
  qed
next
  case full
  then show thesis using that(2) by simp
qed

lemma take_overwrite:
  "p \<le> z \<Longrightarrow> z \<le> length xs \<Longrightarrow> p + length b \<le> length xs \<Longrightarrow>
    take (max z (p + length b)) (overwrite p b xs) = overwrite p b (take z xs)"
proof (cases "z \<le> p + length b")
  assume a: "p \<le> z" "z \<le> length xs" "p + length b \<le> length xs"
  then have m: "min (length xs) p = p" by simp
  case True
  then show ?thesis using a m by (simp add: overwrite_def max_absorb2 min_absorb2)
next
  assume a: "p \<le> z" "z \<le> length xs" "p + length b \<le> length xs"
  case False
  then show ?thesis using a by (simp add: overwrite_def max_absorb1 min_absorb2 drop_take)
qed

text \<open>The loop started in the middle of a chain.\<close>

lemma fs_write_loop_at:
  assumes A: "reliable A" and g: "geometry (fsi s)" and ch: "chain A s c cs" "distinct cs"
    and q: "unat p div cluster_size (fsi s) < length cs"
  obtains n ns s' where "n \<le> length buf"
    "fs_write_loop A buf (p mod bytes_per_cluster (fsi s)) (cs ! (unat p div cluster_size (fsi s))) p s =
       Some (Some (length buf - n), p + of_nat n, s')"
    "written A c cs ns (unat p) (take n buf) s s'" "n < length buf \<longrightarrow> full A s'"
proof -
  note geo = geometryD [OF g]
  let ?k = "cluster_size (fsi s)"
  let ?q = "unat p div ?k"
  have dq: "drop ?q cs = cs ! ?q # drop (Suc ?q) cs" using q by (rule Cons_nth_drop_Suc [symmetric])
  have cp: "unat (p mod bytes_per_cluster (fsi s)) = unat p mod ?k" by (simp add: unat_mod geo(5))
  obtain n ns s' where n: "n \<le> length buf"
    and run: "fs_write_loop A buf (p mod bytes_per_cluster (fsi s)) (cs ! ?q) p s = Some (Some (length buf - n), p + of_nat n, s')"
    and w: "written A (cs ! ?q) (drop ?q cs) ns (unat p mod ?k) (take n buf) s s'" and full_: "n < length buf \<longrightarrow> full A s'"
    using fs_write_loop_ok [OF A, of s "cs ! ?q" "drop (Suc ?q) cs" "p mod bytes_per_cluster (fsi s)" buf p]
      chain_nth [OF ch(1) q] g dq cp geo(6) distinct_drop [OF ch(2), of ?q] by auto
  have "written A c (take ?q cs @ drop ?q cs) ns (length (take ?q cs) * ?k + unat p mod ?k) (take n buf) s s'"
    by (rule written_prefix [OF A w _ _ dq]) (use ch in \<open>simp_all only: append_take_drop_id\<close>)
  moreover have "length (take ?q cs) = ?q" using q by (simp only: length_take min_absorb2 less_imp_le)
  ultimately have "written A c cs ns (unat p) (take n buf) s s'" by (simp only: append_take_drop_id div_mult_mod_eq)
  then show thesis using that n run full_ by blast
qed

lemma fs_write_ok:
  assumes A: "reliable A" and f: "file_ok A s f cs"
    and no_wrap: "unat (f_position f) + length buf + cluster_size (fsi s) < 2 ^ 31"
  defines "p \<equiv> f_position f"
  obtains (ok) n ns f' s' where "fs_write A f buf s = Some (int n, f', s')" "n \<le> length buf"
    "n < length buf \<longrightarrow> full A s'" "file_ok A s' f' (cs @ ns)" "f_position f' = p + of_nat n"
    "contents A s' f' (cs @ ns) = overwrite (unat p) (take n buf) (contents A s f cs)" "undisturbed A cs s s'"
  | (full) "fs_write A f buf s = Some (FS_ERROR, f, s)" "full A s"
proof -
  let ?k = "cluster_size (fsi s)" and ?z = "de_size (f_dirent f)"
  have g: "geometry (fsi s)" and dir: "de_flags (f_dirent f) AND FS_DIRECTORY = 0"
    and sz: "unat ?z \<le> length cs * ?k" "unat ?z < 2 ^ 31" "unat p \<le> unat ?z"
    using f by (simp_all add: file_ok_def p_def)
  note geo = geometryD [OF g]
  have nw: "unat (f_position f) + ?k < 2 ^ 32" using no_wrap by simp
  show thesis
  proof (cases rule: fs_write_start [OF A f nw, case_names ok full])
    case (full c)
    then show thesis using that(2) geo(2,8) dir by (auto simp: fs_write_def)
  next
    case (ok c ns1 f1 s1 s2)
    let ?q = "unat p div ?k"
    let ?cs = "cs @ ns1" and ?c = "(cs @ ns1) ! ?q"
    note start = ok [folded p_def]
    have s2: "fsi s2 = fsi s" "chain A s2 c ?cs" "distinct ?cs" using start(5) unfolding written_def by blast+
    have g2: "geometry (fsi s2)" "unat p div cluster_size (fsi s2) < length ?cs" using g s2(1) start(4) by simp_all
    obtain n ns s' where n: "n \<le> length buf"
      and run: "fs_write_loop A buf (p mod bytes_per_cluster (fsi s)) ?c p s2 = Some (Some (length buf - n), p + of_nat n, s')"
      and w: "written A c ?cs ns (unat p) (take n buf) s2 s'" and full_: "n < length buf \<longrightarrow> full A s'"
      using fs_write_loop_at [OF A g2(1) s2(2,3) g2(2), of buf] unfolding s2(1) by blast
    from w have W: "written A c cs (ns1 @ ns) (unat p) (take n buf) s s'"
      using written_trans [OF A start(5), of ns "take n buf" s'] by simp
    define z' where "z' = (if p + of_nat n > ?z then p + of_nat n else ?z)"
    define f' where "f' = f1\<lparr>f_position := p + of_nat n, f_dirent := (f_dirent f1)\<lparr>de_size := z'\<rparr>\<rparr>"
    have pn: "unat (p + of_nat n) = unat p + n"
      using n no_wrap by (simp add: p_def unat_word_ariths unat_of_nat take_bit_nat_eq_self)
    have z': "unat z' = max (unat ?z) (unat p + n)" by (auto simp: z'_def word_less_nat_alt pn)
    have f1: "f_dirent f1 = (f_dirent f)\<lparr>de_cluster := c\<rparr>" "f_position f1 = p"
      using start(6) unfolding p_def by (metis fs_file.select_convs fs_file.surjective fs_file.update_convs)+
    have "wrap32 (int (length buf) - int (length buf - n)) = int n"
      using n no_wrap by (simp add: wrap32_id)
    then have r: "fs_write A f buf s = Some (int n, f', s')"
      using start(1-3) geo(2,8) dir run f1 by (simp add: fs_write_def p_def [symmetric] f'_def z'_def Let_def)
    have fs': "fsi s' = fsi s" "chain A s' c (cs @ ns1 @ ns)" "distinct (cs @ ns1 @ ns)"
      "unat p + length (take n buf) \<le> length (cs @ ns1 @ ns) * ?k"
      "file_bytes A s' (cs @ ns1 @ ns) = overwrite (unat p) (take n buf) (file_bytes A s (cs @ ns1 @ ns))"
      using W unfolding written_def by blast+
    have "length cs * ?k \<le> length (cs @ ns1 @ ns) * ?k" by (intro mult_le_mono1) simp
    then have "unat ?z \<le> length (cs @ ns1 @ ns) * ?k" using sz(1) by linarith
    then have "file_ok A s' f' (cs @ ns1 @ ns)"
      using fs'(1-4) g dir sz pn z' no_wrap n f1 start(4)
      by (auto simp: file_ok_def f'_def p_def)
    moreover have "contents A s' f' (cs @ ns1 @ ns) = overwrite (unat p) (take n buf) (contents A s f cs)"
      using take_overwrite [of "unat p" "unat ?z" "file_bytes A s (cs @ ns1 @ ns)" "take n buf"] sz fs'(4,5) n
        length_file_bytes [OF A] by (simp add: contents_def f'_def z' file_bytes_append add_mult_distrib)
    ultimately show thesis
      using that(1) [OF r n full_, of "ns1 @ ns"] written_undisturbed [OF W] by (simp add: f'_def)
  qed
qed

end
