(* ===== verification/FileOps.thy ===== *)
theory FileOps
  imports FatFiles
begin

text \<open>
  Open files as seen by their clients. The locale \<open>byte_file\<close> states what reading, writing and seeking
  promise of a byte list with a position; from it follows what any sequence of them does. Files on a
  FAT32 volume are its interpretation. Below it: what a write changes on the volume, reading back what was
  written, and the allocation of clusters, each for every reliable disk.
\<close>

section \<open>The interface of an open file\<close>

datatype file_op = Read u64 | Write "u8 list" | Seek u32

text \<open>
  The abstract file: a read returns the bytes at the position, a write replaces bytes and may be
  short, a seek stops at the end. An output is the C result and the bytes read.
\<close>

inductive file_step :: "file_op \<Rightarrow> u8 list \<times> nat \<Rightarrow> int \<times> u8 list \<Rightarrow> u8 list \<times> nat \<Rightarrow> bool" where
  reads: "m = min (unat n) (length bs - p) \<Longrightarrow> file_step (Read n) (bs, p) (int m, take m (drop p bs)) (bs, p + m)"
| overwrites: "n \<le> length buf \<Longrightarrow> file_step (Write buf) (bs, p) (int n, []) (overwrite p (take n buf) bs, p + n)"
| no_space: "file_step (Write buf) (bs, p) (FS_ERROR, []) (bs, p)"
| seeks: "file_step (Seek q) (bs, p) (FS_SUCCESS, []) (bs, min (unat q) (length bs))"

inductive_cases file_step_ReadE: "file_step (Read n) st out st'"
inductive_cases file_step_WriteE: "file_step (Write buf) st out st'"
inductive_cases file_step_SeekE: "file_step (Seek q) st out st'"

fun file_steps :: "file_op list \<Rightarrow> u8 list \<times> nat \<Rightarrow> (int \<times> u8 list) list \<Rightarrow> u8 list \<times> nat \<Rightarrow> bool" where
  "file_steps [] st outs st' \<longleftrightarrow> outs = [] \<and> st' = st"
| "file_steps (op # ops) st outs st' \<longleftrightarrow>
     (\<exists>out outs' st1. outs = out # outs' \<and> file_step op st out st1 \<and> file_steps ops st1 outs' st')"

fun run_ops ::
  "(file_op \<Rightarrow> 's \<Rightarrow> ((int \<times> u8 list) \<times> 's) option) \<Rightarrow> file_op list \<Rightarrow> 's \<Rightarrow> ((int \<times> u8 list) list \<times> 's) option" where
  "run_ops exec [] s = Some ([], s)"
| "run_ops exec (op # ops) s =
     do { (out, s1) \<leftarrow> exec op s; (outs, s2) \<leftarrow> run_ops exec ops s1; Some (out # outs, s2) }"

fun op_bytes :: "file_op \<Rightarrow> nat" where
  "op_bytes (Write buf) = length buf"
| "op_bytes _ = 0"

fun op_ok :: "file_op \<Rightarrow> bool" where
  "op_ok (Read n) \<longleftrightarrow> unat n < 2 ^ 63"
| "op_ok _ \<longleftrightarrow> True"

locale byte_file =
  fixes rep :: "'s \<Rightarrow> u8 list \<Rightarrow> nat \<Rightarrow> bool" and limit :: nat
    and exec :: "file_op \<Rightarrow> 's \<Rightarrow> ((int \<times> u8 list) \<times> 's) option"
  assumes position: "rep s bs p \<Longrightarrow> p \<le> length bs"
    and step_law: "rep s bs p \<Longrightarrow> op_ok op \<Longrightarrow> length bs + op_bytes op \<le> limit \<Longrightarrow>
      \<exists>out s' bs' p'. exec op s = Some (out, s') \<and> file_step op (bs, p) out (bs', p') \<and> rep s' bs' p'"
begin

lemma step_length: "file_step op (bs, p) out (bs', p') \<Longrightarrow> p \<le> length bs \<Longrightarrow> length bs' \<le> length bs + op_bytes op"
  by (erule file_step.cases) (auto simp: overwrite_def)

lemma run_refines:
  "\<lbrakk>rep s bs p; list_all op_ok ops; length bs + sum_list (map op_bytes ops) \<le> limit\<rbrakk> \<Longrightarrow>
    \<exists>outs s' bs' p'. run_ops exec ops s = Some (outs, s') \<and> file_steps ops (bs, p) outs (bs', p') \<and> rep s' bs' p'"
proof (induction ops arbitrary: s bs p)
  case (Cons op ops)
  have pre: "op_ok op" "length bs + op_bytes op \<le> limit" "list_all op_ok ops" using Cons.prems(2,3) by simp_all
  obtain out s1 bs1 p1 where st: "exec op s = Some (out, s1)" "file_step op (bs, p) out (bs1, p1)" "rep s1 bs1 p1"
    using step_law [OF Cons.prems(1) pre(1,2)] by blast
  have "length bs1 + sum_list (map op_bytes ops) \<le> limit"
    using step_length [OF st(2) position [OF Cons.prems(1)]] Cons.prems(3) by simp
  from Cons.IH [OF st(3) pre(3) this] obtain outs s' bs' p' where
    r: "run_ops exec ops s1 = Some (outs, s')" "file_steps ops (bs1, p1) outs (bs', p')" "rep s' bs' p'" by blast
  have "run_ops exec (op # ops) s = Some (out # outs, s')" using st(1) r(1) by simp
  moreover have "file_steps (op # ops) (bs, p) (out # outs) (bs', p')" using st(2) r(2) by (simp only: file_steps.simps) blast
  ultimately show ?case using r(3) by blast
qed simp

text \<open>Writing, seeking back and reading yields what was written.\<close>

lemma read_back:
  assumes "rep s bs p" "length bs + length buf \<le> limit" "length buf < 2 ^ 63" "p < 2 ^ 32"
    and w: "exec (Write buf) s = Some ((r, []), s1)" "0 \<le> r"
  shows "\<exists>s2 s3. exec (Seek (of_nat p)) s1 = Some ((FS_SUCCESS, []), s2) \<and>
    exec (Read (of_nat (nat r))) s2 = Some ((r, take (nat r) buf), s3)"
proof -
  obtain bs1 p1 where st: "file_step (Write buf) (bs, p) (r, []) (bs1, p1)" and rep1: "rep s1 bs1 p1"
    using step_law [OF assms(1), of "Write buf"] assms(2) w(1) by auto
  then have n: "nat r \<le> length buf" "bs1 = overwrite p (take (nat r) buf) bs" "r = int (nat r)"
    using w(2) by (auto elim!: file_step_WriteE)
  have p: "p \<le> length bs" using position [OF assms(1)] .
  then have len: "p + nat r \<le> length bs1" "length bs1 \<le> limit" using n assms(2) by (auto simp: overwrite_def)
  obtain s2 bs2 p2 where s2: "exec (Seek (of_nat p)) s1 = Some ((FS_SUCCESS, []), s2)" "rep s2 bs1 p"
    using step_law [OF rep1, of "Seek (of_nat p)"] len assms(4)
    by (auto elim!: file_step_SeekE simp: unat_of_nat take_bit_nat_eq_self min_absorb1)
  have small: "nat r < 2 ^ 63" using n(1) assms(3) by linarith
  then have un: "unat (of_nat (nat r) :: u64) = nat r" by (simp only: unat_of_nat) (simp add: take_bit_nat_eq_self)
  have "take (nat r) (drop p bs1) = take (nat r) buf" "min (nat r) (length bs1 - p) = nat r"
    using n p len(1) by (simp_all add: overwrite_def)
  then obtain s3 where "exec (Read (of_nat (nat r))) s2 = Some ((r, take (nat r) buf), s3)"
    using step_law [OF s2(2), of "Read (of_nat (nat r))"] len(2) small un n(3)
    by (auto elim!: file_step_ReadE)
  then show ?thesis using s2(1) by blast
qed

end

section \<open>Files on a FAT32 volume\<close>

fun fs_exec :: "'d ata \<Rightarrow> file_op \<Rightarrow> fs_file \<times> 'd kfs \<Rightarrow> ((int \<times> u8 list) \<times> fs_file \<times> 'd kfs) option" where
  "fs_exec A (Read n) (f, s) = do { (r, bs, f') \<leftarrow> fs_read A f n s; Some ((r, bs), f', s) }"
| "fs_exec A (Write buf) (f, s) = do { (r, f', s') \<leftarrow> fs_write A f buf s; Some ((r, []), f', s') }"
| "fs_exec A (Seek q) (f, s) = (let (r, f') = fs_seek f q s in Some ((r, []), f', s))"

definition fs_rep :: "'d ata \<Rightarrow> fs_file \<times> 'd kfs \<Rightarrow> u8 list \<Rightarrow> nat \<Rightarrow> bool" where
  "fs_rep A fs bs p \<longleftrightarrow> reliable A \<and>
     (\<exists>cs. file_ok A (snd fs) (fst fs) cs \<and> bs = contents A (snd fs) (fst fs) cs \<and> p = unat (f_position (fst fs)))"

definition MAX_FILE :: nat where "MAX_FILE = 2 ^ 31 - 2 ^ 17"

lemma length_contents:
  "reliable A \<Longrightarrow> file_ok A s f cs \<Longrightarrow> length (contents A s f cs) = unat (de_size (f_dirent f))"
  by (simp add: contents_def file_ok_def length_file_bytes)

lemma fs_seek_ok:
  assumes "file_ok A s f cs"
  shows "\<exists>f'. fs_seek f q s = (FS_SUCCESS, f') \<and> file_ok A s f' cs \<and> contents A s f' cs = contents A s f cs \<and>
    unat (f_position f') = min (unat q) (unat (de_size (f_dirent f)))"
  using assms by (auto simp: fs_seek_def file_ok_def geometry_def contents_def word_less_nat_alt Let_def)

lemma fs_read_file_ok:
  assumes "file_ok A s f cs" "n \<le> unat (de_size (f_dirent f)) - unat (f_position f)"
  shows "file_ok A s (f\<lparr>f_position := f_position f + of_nat n\<rparr>) cs"
    "unat (f_position f + of_nat n) = unat (f_position f) + n"
proof -
  have "unat (f_position f) + n < 2 ^ 31" using assms by (auto simp: file_ok_def)
  then show u: "unat (f_position f + of_nat n) = unat (f_position f) + n"
    by (simp add: unat_word_ariths unat_of_nat take_bit_nat_eq_self)
  show "file_ok A s (f\<lparr>f_position := f_position f + of_nat n\<rparr>) cs" using assms u by (auto simp: file_ok_def)
qed

interpretation fat_file: byte_file "fs_rep A" MAX_FILE "fs_exec A" for A :: "'d ata"
proof
  fix fs bs p
  assume "fs_rep A fs bs p"
  then show "p \<le> length bs" by (auto simp: fs_rep_def length_contents) (auto simp: file_ok_def)
next
  fix fs bs p op
  assume rep: "fs_rep A fs bs p" and op: "op_ok op" "length bs + op_bytes op \<le> MAX_FILE"
  obtain f s where fs: "fs = (f, s)" by fastforce
  obtain cs where A: "reliable A" and f: "file_ok A s f cs" "bs = contents A s f cs" "p = unat (f_position f)"
    using rep by (auto simp: fs_rep_def fs)
  note len = length_contents [OF A f(1)]
  show "\<exists>out fs' bs' p'. fs_exec A op fs = Some (out, fs') \<and> file_step op (bs, p) out (bs', p') \<and> fs_rep A fs' bs' p'"
  proof (cases op)
    case (Read n)
    let ?m = "min (unat n) (unat (de_size (f_dirent f)) - unat (f_position f))"
    have "contents A s (f\<lparr>f_position := x\<rparr>) cs = contents A s f cs" for x by (simp add: contents_def)
    then show ?thesis
      using fs_read_ok [OF A f(1), of n] fs_read_file_ok [OF f(1), of ?m] op(1) Read A f len
      by (auto simp: fs fs_rep_def intro!: exI file_step.reads)
  next
    case (Write buf)
    have "p \<le> length bs" using f len by (simp add: file_ok_def)
    then have nw: "unat (f_position f) + length buf + cluster_size (fsi s) < 2 ^ 31"
      using op(2) f geometryD(7) [of "fsi s"] by (simp add: Write MAX_FILE_def file_ok_def)
    show ?thesis
    proof (cases rule: fs_write_ok [OF A f(1) nw, case_names ok full])
      case (ok n ns f' s')
      have "unat (f_position f') = p + n"
        using ok(2,5) nw f(3) by (simp add: unat_word_ariths unat_of_nat take_bit_nat_eq_self)
      then have "fs_rep A (f', s') (overwrite p (take n buf) bs) (p + n)" using ok A f by (auto simp: fs_rep_def)
      moreover have "fs_exec A op fs = Some ((int n, []), f', s')" using ok(1) by (simp add: fs Write)
      ultimately show ?thesis using file_step.overwrites [OF ok(2)] Write by blast
    next
      case full
      then have "fs_exec A op fs = Some ((FS_ERROR, []), f, s)" by (simp add: fs Write)
      then show ?thesis using rep fs file_step.no_space Write by blast
    qed
  next
    case (Seek q)
    obtain f' where f': "fs_seek f q s = (FS_SUCCESS, f')" "file_ok A s f' cs" "contents A s f' cs = contents A s f cs"
      "unat (f_position f') = min (unat q) (length bs)" using fs_seek_ok [OF f(1), of q] len f(2) by auto
    have "fs_exec A op fs = Some ((FS_SUCCESS, []), f', s)" using f'(1) by (simp add: fs Seek)
    moreover have "fs_rep A (f', s) bs (min (unat q) (length bs))" using f' A f(2) by (auto simp: fs_rep_def)
    ultimately show ?thesis using file_step.seeks Seek by blast
  qed
qed

section \<open>A disk in memory\<close>

text \<open>A reliable disk, and a volume on it with one file of 64 bytes in the root directory, \<open>A.ELF\<close>; sectors are padded with zeros.\<close>

definition ram :: "(u32 \<Rightarrow> u8 list) ata" where
  "ram = \<lparr>ata_read_sectors = (\<lambda>l d. Some (take SECTOR (d l @ replicate SECTOR 0))),
     ata_write_sectors = (\<lambda>l b d. (True, d(l := b)))\<rparr>"

lemma reliable_ram: "reliable ram"
  by (auto simp: reliable_def ram_def)

definition sample_volume :: "(u32 \<Rightarrow> u8 list) kfs" where
  "sample_volume = \<lparr>fsi = zero_fs_info\<lparr>fat_start := 1, data_start := 2, sectors_per_cluster := 1, root_cluster := 3,
       bytes_per_sector := 512, bytes_per_cluster := 512, mounted := 1\<rparr>,
     disk = (\<lambda>l. if l = 1 then [0xF8, 0xFF, 0xFF, 0x0F, 0xFF, 0xFF, 0xFF, 0x0F, 0xF8, 0xFF, 0xFF, 0x0F, 0xFF, 0xFF, 0xFF, 0x0F]
       else if l = 2 then [0x7F, 0x45, 0x4C, 0x46, 2] @ replicate 11 0 @ [2] @ replicate 9 0 @ [0x40]
       else if l = 3 then
         [0x41, 0x20, 0x20, 0x20, 0x20, 0x20, 0x20, 0x20, 0x45, 0x4C, 0x46, 0x20, 0, 0, 0, 0] @
         [0, 0, 0, 0, 0, 0, 0, 0, 0, 0, 2, 0, 64, 0, 0, 0]
       else [])\<rparr>"

definition sample_file :: fs_file where
  "sample_file = zero_file\<lparr>f_dirent := zero_dirent\<lparr>de_size := 64, de_flags := FS_FILE, de_cluster := 2\<rparr>,
     f_position := 3, f_current_cluster := 2\<rparr>"

lemma sample_geometry: "geometry (fsi sample_volume)" "fat_entries (fsi sample_volume) = 128"
  by (simp_all add: sample_volume_def geometry_def fat_entries_def zero_fs_info_def)

lemma sample_fat: "fat ram sample_volume 2 = 0x0FFFFFF8"
  by (simp add: fat_def sect_def ram_def sample_volume_def zero_fs_info_def le32_def)

lemma sample_file_ok: "file_ok ram sample_volume sample_file [2]"
proof -
  have "cluster_size (fsi sample_volume) = 512" by (simp add: cluster_size_def sample_volume_def zero_fs_info_def)
  then show ?thesis
    using sample_geometry by (simp add: file_ok_def cluster_ok_def sample_fat sample_file_def zero_file_def zero_dirent_def)
qed

lemma sample_size: "unat (de_size (f_dirent sample_file)) = 64" "f_position sample_file = 3" "cluster_size (fsi sample_volume) = 512"
  by (simp_all add: sample_file_def zero_file_def zero_dirent_def cluster_size_def sample_volume_def zero_fs_info_def)

lemma sample_write: "\<exists>f' s'. fs_write ram sample_file [1, 2, 3] sample_volume = Some (3, f', s')"
proof -
  have s: "bytes_per_sector (fsi sample_volume) = 512" "bytes_per_cluster (fsi sample_volume) = 512" "mounted (fsi sample_volume) = 1"
    by (simp_all add: sample_volume_def zero_fs_info_def)
  have ext: "extend_to ram 3 2 0 sample_volume = Some (Some 2, sample_volume)" by (subst extend_to.simps) (simp add: s)
  have "\<exists>s'. fs_write_loop ram [1, 2, 3] 3 2 3 sample_volume = Some (Some 0, 6, s')"
    by (subst fs_write_loop.simps) (simp add: s ram_def fs_write_loop.simps [of _ "[]"] Let_def)
  then show ?thesis
    using ext s by (auto simp: fs_write_def first_cluster_def sample_file_def zero_file_def zero_dirent_def wrap32_id)
qed

section \<open>Properties\<close>

text \<open>C10: 
  Refinement: any sequence of \<open>fs_read\<close>, \<open>fs_write\<close> and \<open>fs_seek\<close> on an open file ends without a fault and
  returns what the same sequence returns on a byte list with a position, where a write may come up
  short (the next property says when).
\<close>

theorem fs_ops_refine_bytes:
  assumes "reliable A" "file_ok A s f cs" "list_all op_ok ops"
    "unat (de_size (f_dirent f)) + sum_list (map op_bytes ops) \<le> MAX_FILE"
  shows "\<exists>outs f' s' cs'. run_ops (fs_exec A) ops (f, s) = Some (outs, f', s') \<and> file_ok A s' f' cs' \<and>
    file_steps ops (contents A s f cs, unat (f_position f)) outs (contents A s' f' cs', unat (f_position f'))"
proof -
  have "fs_rep A (f, s) (contents A s f cs) (unat (f_position f))" using assms by (auto simp: fs_rep_def)
  from fat_file.run_refines [OF this assms(3)] show ?thesis
    using assms length_contents [OF assms(1,2)] by (fastforce simp: fs_rep_def)
qed

theorem fs_ops_refine_bytes_witness:
  "\<exists>outs f' s' cs'. run_ops (fs_exec ram) [Write [1, 2, 3], Seek 0, Read 6] (sample_file, sample_volume) = Some (outs, f', s') \<and>
    file_ok ram s' f' cs' \<and>
    file_steps [Write [1, 2, 3], Seek 0, Read 6] (contents ram sample_volume sample_file [2], 3) outs
      (contents ram s' f' cs', unat (f_position f'))"
  using fs_ops_refine_bytes [OF reliable_ram sample_file_ok, of "[Write [1, 2, 3], Seek 0, Read 6]"]
  by (simp add: sample_size MAX_FILE_def del: run_ops.simps file_steps.simps)

text \<open>C11: 
  What \<open>fs_write\<close> does: it always returns. Either no byte could be written because no cluster is free, and
  nothing changed; or the result \<open>n\<close> is the number of bytes written, the file holds them at its old position,
  its chain is extended by clusters that were free, and \<open>n\<close> falls short of the request only when
  the disk is full. The bytes and chains of all other files are as before.
\<close>

theorem fs_write_effect:
  assumes "reliable A" "file_ok A s f cs" "unat (f_position f) + length buf + cluster_size (fsi s) < 2 ^ 31"
  shows "\<exists>r f' s'. fs_write A f buf s = Some (r, f', s') \<and> undisturbed A cs s s' \<and>
    (if r = FS_ERROR then f' = f \<and> s' = s \<and> full A s
     else 0 \<le> r \<and> nat r \<le> length buf \<and> (nat r < length buf \<longrightarrow> full A s') \<and>
       f_position f' = f_position f + of_nat (nat r) \<and>
       (\<exists>ns. file_ok A s' f' (cs @ ns) \<and>
         contents A s' f' (cs @ ns) = overwrite (unat (f_position f)) (take (nat r) buf) (contents A s f cs)))"
proof (cases rule: fs_write_ok [OF assms, case_names ok full])
  case (ok n ns f' s')
  then show ?thesis by (intro exI [of _ "int n"] exI [of _ f'] exI [of _ s']) auto
next
  case full
  then show ?thesis by (simp add: undisturbed_def)
qed

theorem fs_write_effect_witness:
  "\<exists>r f' s'. fs_write ram sample_file [1, 2, 3] sample_volume = Some (r, f', s') \<and> undisturbed ram [2] sample_volume s' \<and>
    (if r = FS_ERROR then f' = sample_file \<and> s' = sample_volume \<and> full ram sample_volume
     else 0 \<le> r \<and> nat r \<le> length [1, 2, 3 :: u8] \<and> (nat r < length [1, 2, 3 :: u8] \<longrightarrow> full ram s') \<and>
       f_position f' = f_position sample_file + of_nat (nat r) \<and>
       (\<exists>ns. file_ok ram s' f' ([2] @ ns) \<and>
         contents ram s' f' ([2] @ ns) =
           overwrite (unat (f_position sample_file)) (take (nat r) [1, 2, 3]) (contents ram sample_volume sample_file [2])))"
  by (rule fs_write_effect [OF reliable_ram sample_file_ok]) (simp add: sample_size)

text \<open>C32: 
  Round trip: what \<open>fs_write\<close> wrote is read back by seeking to the old position and reading as many bytes.
\<close>

theorem fs_write_read_back:
  assumes "reliable A" "file_ok A s f cs" "unat (de_size (f_dirent f)) + length buf \<le> MAX_FILE"
    "fs_write A f buf s = Some (r, f', s')" "0 \<le> r"
  shows "\<exists>f1 f2. fs_seek f' (f_position f) s' = (FS_SUCCESS, f1) \<and>
    fs_read A f1 (of_nat (nat r)) s' = Some (r, take (nat r) buf, f2)"
proof -
  have rep: "fs_rep A (f, s) (contents A s f cs) (unat (f_position f))" using assms by (auto simp: fs_rep_def)
  have "unat (f_position f) < 2 ^ 32" using unsigned_less [of "f_position f", where 'a = nat] by simp
  with fat_file.read_back [OF rep, of buf r "(f', s')"] show ?thesis
    using assms length_contents [OF assms(1,2)] by (auto simp: MAX_FILE_def split: bind_splits prod.splits)
qed

theorem fs_write_read_back_witness:
  "\<exists>f' s' f1 f2. fs_write ram sample_file [1, 2, 3] sample_volume = Some (3, f', s') \<and>
    fs_seek f' 3 s' = (FS_SUCCESS, f1) \<and> fs_read ram f1 3 s' = Some (3, [1, 2, 3], f2)"
proof -
  obtain f' s' where w: "fs_write ram sample_file [1, 2, 3] sample_volume = Some (3, f', s')" using sample_write by blast
  show ?thesis
    using fs_write_read_back [OF reliable_ram sample_file_ok _ w] w by (simp add: sample_size MAX_FILE_def)
qed

text \<open>
  \<open>fat32_allocate_cluster\<close> returns a cluster that was free, marked as the end of a chain, with all
  other entries and the data area unchanged; it returns 0 only when no cluster is free.
\<close>

theorem fat32_allocate_cluster_exact:
  assumes "reliable A" "geometry (fsi s)"
  shows "\<exists>c s'. fat32_allocate_cluster A s = Some (c, s') \<and> fsi s' = fsi s \<and>
    (if c = 0 then s' = s \<and> full A s
     else cluster_ok (fsi s) c \<and> fat A s c = 0 \<and>
       (\<forall>x. cluster_ok (fsi s) x \<longrightarrow> fat A s' x = (if x = c then FAT32_EOC else fat A s x)) \<and>
       (\<forall>l. data_start (fsi s) \<le> l \<longrightarrow> sect A s' l = sect A s l))"
proof (cases rule: allocate_cluster_ok [OF assms, case_names free full])
  case (free c s')
  then show ?thesis by (intro exI [of _ c] exI [of _ s']) (auto simp: allocated_def fat_update_def cluster_ok_def)
next
  case full
  then show ?thesis by (simp add: full_def)
qed

theorem fat32_allocate_cluster_exact_witness:
  "\<exists>c s'. fat32_allocate_cluster ram sample_volume = Some (c, s') \<and> fsi s' = fsi sample_volume \<and>
    (if c = 0 then s' = sample_volume \<and> full ram sample_volume
     else cluster_ok (fsi sample_volume) c \<and> fat ram sample_volume c = 0 \<and>
       (\<forall>x. cluster_ok (fsi sample_volume) x \<longrightarrow> fat ram s' x = (if x = c then FAT32_EOC else fat ram sample_volume x)) \<and>
       (\<forall>l. data_start (fsi sample_volume) \<le> l \<longrightarrow> sect ram s' l = sect ram sample_volume l))"
  by (rule fat32_allocate_cluster_exact [OF reliable_ram sample_geometry(1)])

end
