(* ===== verification/Directory.thy ===== *)
theory Directory
  imports FileOps
begin

text \<open>
  Mounting, opening by name and listing a directory. On a reliable disk \<open>fs_open\<close> is a search in the list of live
  entries of the root directory's first cluster; \<open>fs_mount\<close> accepts a volume by its signature and sets up the
  geometry the file operations rely on; \<open>fs_readdir\<close> returns the next live entry of a sector, but takes the
  last entry of a sector from the sector behind it.
\<close>

section \<open>Live entries\<close>

definition entry_live :: "u8 list \<Rightarrow> bool" where
  "entry_live e \<longleftrightarrow> e ! 0 \<noteq> 0xE5 \<and> e ! 11 \<noteq> 0x0F"

definition live_entries :: "nat list \<Rightarrow> u8 list \<Rightarrow> u8 list list" where
  "live_entries js b = filter entry_live (takeWhile (\<lambda>e. e ! 0 \<noteq> 0) (map (dir_entry b) js))"

definition root_entries :: "'d ata \<Rightarrow> 'd kfs \<Rightarrow> u8 list list" where
  "root_entries A s = concat (map (live_entries (map (\<lambda>i. 32 * i) [0..<16])) (cluster_sectors A s (root_cluster (fsi s))))"

lemma strcpy_cstr: "strcpy s = cstr s"
  by (induction s) (auto simp: cstr_def)

lemma find_append: "find P (xs @ ys) = (case find P xs of None \<Rightarrow> find P ys | Some x \<Rightarrow> Some x)"
  by (induction xs) auto

lemma scan_sector_find:
  "\<forall>j \<in> set js. j + 32 \<le> SECTOR \<Longrightarrow>
    scan_sector js b name = Some (find (\<lambda>e. cstr (short_name e) = cstr name) (live_entries js b))"
  by (induction js) (auto simp: live_entries_def entry_live_def strcmp_0_iff Let_def)

lemma entry_offsets_16:
  assumes "geometry fi"
  shows "entry_offsets fi = map (\<lambda>i. 32 * i) [0..<16]" "\<forall>j \<in> set (entry_offsets fi). j + 32 \<le> SECTOR"
proof -
  have "unat (bytes_per_sector fi) = 512" using geometryD(1) [OF assms] by simp
  then show e: "entry_offsets fi = map (\<lambda>i. 32 * i) [0..<16]" by (simp add: entry_offsets_def del: upt_rec_numeral)
  show "\<forall>j \<in> set (entry_offsets fi). j + 32 \<le> SECTOR" unfolding e by (auto simp del: upt_rec_numeral)
qed

lemma scan_cluster_find:
  assumes A: "reliable A" and g: "geometry (fsi s)"
  shows "scan_cluster A n lba name s =
    Some (case find (\<lambda>e. cstr (short_name e) = cstr name)
        (concat (map (\<lambda>i. live_entries (entry_offsets (fsi s)) (sect A s (lba + of_nat i))) [0..<n])) of
      None \<Rightarrow> Missing | Some e \<Rightarrow> Found e)"
proof (induction n arbitrary: lba)
  case (Suc n)
  have upt: "map f [0..<Suc n] = f 0 # map (\<lambda>i. f (Suc i)) [0..<n]" for f :: "nat \<Rightarrow> 'c"
    by (simp only: upt_conv_Cons map_Suc_upt [symmetric] list.map list.map_comp comp_def zero_less_Suc)
  show ?case
    unfolding upt concat.simps find_append
    by (simp add: reliable_read(1) [OF A] scan_sector_find [OF entry_offsets_16(2) [OF g]] Suc.IH add.assoc split: option.splits)
qed simp

definition opened :: "u8 list \<Rightarrow> fs_info \<Rightarrow> fs_file" where
  "opened e fi = zero_file\<lparr>f_dirent := fill_dirent e zero_dirent, f_current_cluster := de_cluster (fill_dirent e zero_dirent),
     f_position := 0, f_device := fi_device fi\<rparr>"

lemma fs_open_find:
  assumes A: "reliable A" and g: "geometry (fsi s)" and path: "cstr path \<noteq> ''/''"
    and short: "length (cstr (dropWhile (\<lambda>c. c = CHR ''/'') path)) < 128"
  shows "fs_open A path file s =
    Some (case find (\<lambda>e. cstr (short_name e) = cstr (dropWhile (\<lambda>c. c = CHR ''/'') path)) (root_entries A s) of
      None \<Rightarrow> (FS_NOT_FOUND, file) | Some e \<Rightarrow> (FS_SUCCESS, opened e (fsi s)))"
proof -
  have "cstr ''/'' = ''/''" by (simp add: cstr_def)
  then have root: "strcmp path ''/'' \<noteq> 0" using path by (simp add: strcmp_0_iff)
  have cc: "cstr (cstr x) = cstr x" for x by (simp add: cstr_def)
  have "root_entries A s = concat (map (\<lambda>i. live_entries (entry_offsets (fsi s))
      (sect A s (fat32_cluster_to_lba (root_cluster (fsi s)) s + of_nat i))) [0..<unat (sectors_per_cluster (fsi s))])"
    by (simp add: root_entries_def cluster_sectors_def entry_offsets_16(1) [OF g] comp_def del: upt_rec_numeral)
  then show ?thesis
    using root short geometryD(2) [OF g]
    by (simp add: fs_open_def strcpy_cstr scan_cluster_find [OF A g] cc opened_def Let_def split: option.splits)
qed

section \<open>Listing\<close>

definition entry_skipped :: "u8 list \<Rightarrow> bool" where
  "entry_skipped e \<longleftrightarrow> e ! 0 \<noteq> 0 \<and> (e ! 0 = 0xE5 \<or> e ! 11 = 0x0F)"

lemma entry_offset: "j < 16 \<Longrightarrow> unat (of_nat j * 32 :: u32) = 32 * j" for j :: nat
proof -
  assume j: "j < 16"
  have "(of_nat j * 32 :: u32) = of_nat (32 * j)" by simp
  then show ?thesis using j by (simp only: unat_of_nat) (simp add: take_bit_nat_eq_self)
qed

lemma advance_in_sector:
  assumes "geometry (fsi s)" "j < 15"
  shows "advance_entry A s c i (of_nat j) b dir = Some (Some (c, i, of_nat (Suc j), b), dir)"
proof -
  have "unat ((of_nat j + 1) * 32 :: u32) = 32 * Suc j" using entry_offset [of "Suc j"] assms(2) by (simp add: add.commute)
  then have "\<not> (of_nat j + 1) * 32 \<ge> bytes_per_sector (fsi s)"
    using assms(2) geometryD(1) [OF assms(1)] by (simp add: word_le_nat_alt)
  then show ?thesis by (simp add: advance_entry_def add.commute)
qed

lemma readdir_loop_live:
  assumes g: "geometry (fsi s)" and k: "k < 15" and live: "dir_entry b (32 * k) ! 0 \<noteq> 0" "entry_live (dir_entry b (32 * k))"
  shows "\<lbrakk>j \<le> k; \<forall>i. j \<le> i \<and> i < k \<longrightarrow> entry_skipped (dir_entry b (32 * i))\<rbrakk> \<Longrightarrow>
    readdir_loop A s c i (of_nat j) b dir d =
      Some (FS_SUCCESS, dir\<lparr>f_position := f_position dir + 32 * of_nat (Suc k - j)\<rparr>, fill_dirent (dir_entry b (32 * k)) d)"
proof (induction "k - j" arbitrary: j dir)
  case 0
  then have "j = k" by simp
  then show ?case
    using live k entry_offset [of k] advance_in_sector [OF g k]
    by (subst readdir_loop.simps) (simp add: entry_live_def Let_def)
next
  case (Suc m)
  then have j: "j < k" "entry_skipped (dir_entry b (32 * j))" "j < 15" using k by auto
  have step: "readdir_loop A s c i (of_nat j) b dir d =
      readdir_loop A s c i (of_nat (Suc j)) b (dir\<lparr>f_position := f_position dir + 32\<rparr>) d"
    using j(2,3) entry_offset [of j] advance_in_sector [OF g j(3)]
    by (subst readdir_loop.simps) (auto simp: entry_skipped_def Let_def)
  have e: "f_position dir + 32 + 32 * of_nat (Suc k - Suc j) = f_position dir + 32 * of_nat (Suc k - j)"
    using j(1) by (simp add: Suc_diff_le algebra_simps)
  have "m = k - Suc j" "Suc j \<le> k" "\<forall>i. Suc j \<le> i \<and> i < k \<longrightarrow> entry_skipped (dir_entry b (32 * i))"
    using Suc(2-4) j(1) by auto
  from Suc.hyps(1) [OF this, of "dir\<lparr>f_position := f_position dir + 32\<rparr>"] show ?case unfolding step using e by simp
qed

text \<open>Where a listing stands: at entry \<open>j\<close> of sector \<open>i\<close> of the current cluster.\<close>

definition listing_at :: "'d kfs \<Rightarrow> fs_file \<Rightarrow> nat \<Rightarrow> nat \<Rightarrow> bool" where
  "listing_at s dir i j \<longleftrightarrow> geometry (fsi s) \<and> de_flags (f_dirent dir) AND FS_DIRECTORY \<noteq> 0 \<and>
     i < unat (sectors_per_cluster (fsi s)) \<and> j < 16 \<and> f_position dir = of_nat (SECTOR * i + 32 * j)"

lemma fs_readdir_start:
  assumes A: "reliable A" and l: "listing_at s dir i j"
  shows "fs_readdir A dir d s =
    readdir_loop A s (f_current_cluster dir) (of_nat i) (of_nat j)
      (sect A s (fat32_cluster_to_lba (f_current_cluster dir) s + of_nat i)) dir d"
proof -
  have g: "geometry (fsi s)" using l by (simp add: listing_at_def)
  have i: "i < unat (sectors_per_cluster (fsi s))" "j < 16" using l by (simp_all add: listing_at_def)
  have lt: "SECTOR * i + 32 * j < 2 ^ 32" using i geometryD(4) [OF g] by simp
  have p: "unat (f_position dir) = SECTOR * i + 32 * j"
    using l lt unfolding listing_at_def by (simp only: unat_of_nat) (simp add: take_bit_nat_eq_self)
  have "unat (f_position dir div 512) = i" "unat (f_position dir mod 512 div 32) = j"
    using i(2) by (simp_all add: unat_div unat_mod p)
  moreover have "f_position dir div 512 = of_nat (unat (f_position dir div 512))"
    "f_position dir mod 512 div 32 = of_nat (unat (f_position dir mod 512 div 32))" by simp_all
  ultimately have d: "f_position dir div 512 = of_nat i" "f_position dir mod 512 div 32 = of_nat j" by (simp_all only:)
  have "\<not> of_nat i \<ge> sectors_per_cluster (fsi s)"
  proof -
    have "unat (of_nat i :: u32) = i" using i(1) geometryD(4) [OF g] by (simp add: unat_of_nat take_bit_nat_eq_self)
    then show ?thesis using i(1) by (simp add: word_le_nat_alt)
  qed
  then have "skip_sectors A s (f_current_cluster dir) (of_nat i) dir = Some (Some (f_current_cluster dir, of_nat i), dir)"
    by (subst skip_sectors.simps) simp
  then show ?thesis
    using l geometryD(1,2) [OF g] d reliable_read(1) [OF A] by (simp add: fs_readdir_def listing_at_def)
qed

lemma advance_to_sector:
  assumes A: "reliable A" and g: "geometry (fsi s)" and i: "Suc i < unat (sectors_per_cluster (fsi s))"
  shows "advance_entry A s c (of_nat i) (of_nat 15) b dir =
    Some (Some (c, of_nat (Suc i), 0, sect A s (fat32_cluster_to_lba c s + of_nat (Suc i))), dir)"
proof -
  have "unat (of_nat (Suc i) :: u32) = Suc i"
    using i geometryD(4) [OF g] by (simp only: unat_of_nat) (simp add: take_bit_nat_eq_self)
  then have "\<not> of_nat i + 1 \<ge> sectors_per_cluster (fsi s)" using i by (simp add: word_le_nat_alt add.commute)
  then show ?thesis
    using geometryD(1) [OF g] reliable_read(1) [OF A] by (simp add: advance_entry_def add.commute)
qed

section \<open>Mounting\<close>

text \<open>
  What a boot sector must say for the code to work with the volume: 512-byte sectors, at least one
  sector per cluster, tables and clusters that fit into 32-bit sector numbers. The clusters counted are
  those of all copies of the table, as the allocation scans them all.
\<close>

definition bpb_sane :: "u32 \<Rightarrow> u8 list \<Rightarrow> bool" where
  "bpb_sane start b \<longleftrightarrow> bpb_bytes_per_sector b = 512 \<and> bpb_sectors_per_cluster b \<noteq> 0 \<and>
     (let table = unat (bpb_num_fats b) * unat (bpb_fat_size_32 b)
      in 128 * table \<le> unat FAT32_EOC \<and>
        unat start + unat (bpb_reserved_sectors b) + table + 128 * table * unat (bpb_sectors_per_cluster b) < 2 ^ 32)"

lemma unat_ucast_u8: "unat (ucast x :: u32) = unat x" for x :: u8
proof -
  have "unat x < 2 ^ 8" using unsigned_less [of x, where 'a = nat] by simp
  then show ?thesis by (simp add: unsigned_ucast_eq take_bit_nat_eq_self)
qed

lemma unat_ucast_u16: "unat (ucast x :: u32) = unat x" for x :: u16
proof -
  have "unat x < 2 ^ 16" using unsigned_less [of x, where 'a = nat] by simp
  then show ?thesis by (simp add: unsigned_ucast_eq take_bit_nat_eq_self)
qed

lemma sect_fsi [simp]: "sect A (s\<lparr>fsi := x\<rparr>) l = sect A s l"
  by (simp add: sect_def)

lemma fs_mount_success:
  fixes A :: "'d ata" and s :: "'d kfs"
  assumes A: "reliable A"
  defines "start \<equiv> le32 (sect A s 0) 0x1C6"
  defines "bpb \<equiv> sect A s start"
  shows "bpb_boot_signature bpb \<noteq> FAT32_SIGNATURE \<Longrightarrow>
      fs_mount A device s = (FS_ERROR, s\<lparr>fsi := (fsi s)\<lparr>fi_device := device, partition_start := start\<rparr>\<rparr>)"
    and "bpb_boot_signature bpb = FAT32_SIGNATURE \<Longrightarrow> bpb_sane start bpb \<Longrightarrow>
      \<exists>s'. fs_mount A device s = (FS_SUCCESS, s') \<and> geometry (fsi s') \<and> disk s' = disk s"
proof -
  note rd = reliable_read(1) [OF A]
  show "bpb_boot_signature bpb \<noteq> FAT32_SIGNATURE \<Longrightarrow>
      fs_mount A device s = (FS_ERROR, s\<lparr>fsi := (fsi s)\<lparr>fi_device := device, partition_start := start\<rparr>\<rparr>)"
    by (simp add: fs_mount_def rd start_def bpb_def Let_def)
  assume sig: "bpb_boot_signature bpb = FAT32_SIGNATURE" and sane: "bpb_sane start bpb"
  let ?t = "unat (bpb_num_fats bpb) * unat (bpb_fat_size_32 bpb)" and ?k = "unat (bpb_sectors_per_cluster bpb)"
  let ?fat = "start + ucast (bpb_reserved_sectors bpb)" and ?spc = "ucast (bpb_sectors_per_cluster bpb) :: u32"
  let ?data = "?fat + ucast (bpb_num_fats bpb) * bpb_fat_size_32 bpb"
  have b: "128 * ?t \<le> unat FAT32_EOC" "unat start + unat (bpb_reserved_sectors bpb) + ?t + 128 * ?t * ?k < 2 ^ 32"
    "bpb_bytes_per_sector bpb = 512" "bpb_sectors_per_cluster bpb \<noteq> 0"
    using sane unfolding bpb_sane_def Let_def by blast+
  have fat: "unat ?fat = unat start + unat (bpb_reserved_sectors bpb)"
    using b(2) by (simp add: unat_word_ariths unat_ucast_u16)
  have table: "unat (ucast (bpb_num_fats bpb) * bpb_fat_size_32 bpb) = ?t"
  proof -
    have "unat (ucast (bpb_num_fats bpb) :: u32) * unat (bpb_fat_size_32 bpb) < 2 ^ LENGTH(32)"
      using b(1) unfolding unat_ucast_u8 by (simp add: mult.commute)
    then show ?thesis using unat_mult_lem unat_ucast_u8 by metis
  qed
  have data: "unat ?data = unat ?fat + ?t"
    using b(2) unfolding unat_plus_if' [of ?fat] table fat by simp
  have "unat ?spc = ?k" "0 < ?k" "?k < 256"
    using b(4) unsigned_less [of "bpb_sectors_per_cluster bpb", where 'a = nat] by (simp_all add: unat_ucast_u8 unat_gt_0)
  then have geo: "geometry fi" if "mounted fi = 1" "bytes_per_sector fi = 512" "sectors_per_cluster fi = ?spc"
      "bytes_per_cluster fi = 512 * ?spc" "fat_start fi = ?fat" "data_start fi = ?data" for fi
    using that b(1,2) fat data by (simp add: geometry_def fat_entries_def word_less_nat_alt word_le_nat_alt del: unat_plus_if')
  show "\<exists>s'. fs_mount A device s = (FS_SUCCESS, s') \<and> geometry (fsi s') \<and> disk s' = disk s"
    using sig b(3) geo by (simp add: fs_mount_def rd start_def [symmetric] bpb_def [symmetric] Let_def)
qed

section \<open>Sample volumes\<close>

lemma sample_sector: "sect ram sample_volume 3 = [0x41, 0x20, 0x20, 0x20, 0x20, 0x20, 0x20, 0x20, 0x45, 0x4C, 0x46, 0x20, 0, 0, 0, 0] @
    [0, 0, 0, 0, 0, 0, 0, 0, 0, 0, 2, 0, 64, 0, 0, 0] @ replicate 480 0"
  by (simp add: sect_def ram_def sample_volume_def)

lemma sample_entry: "dir_entry (sect ram sample_volume 3) 0 =
    [0x41, 0x20, 0x20, 0x20, 0x20, 0x20, 0x20, 0x20, 0x45, 0x4C, 0x46, 0x20, 0, 0, 0, 0] @ [0, 0, 0, 0, 0, 0, 0, 0, 0, 0, 2, 0, 64, 0, 0, 0]"
  "dir_entry (sect ram sample_volume 3) 32 ! 0 = 0"
  by (simp_all add: dir_entry_def sample_sector)

lemma sample_lba: "fat32_cluster_to_lba 3 sample_volume = 3" "sectors_per_cluster (fsi sample_volume) = 1"
  by (simp_all add: fat32_cluster_to_lba_def sample_volume_def zero_fs_info_def)

lemma sample_path: "cstr ''/A.ELF'' = ''/A.ELF''" "cstr ''A.ELF'' = ''A.ELF''"
  by (simp_all add: cstr_def)

lemma sample_root: "find (\<lambda>e. cstr (short_name e) = ''A.ELF'') (root_entries ram sample_volume) = Some (dir_entry (sect ram sample_volume 3) 0)"
proof -
  have s: "cluster_sectors ram sample_volume (root_cluster (fsi sample_volume)) = [sect ram sample_volume 3]"
    using sample_lba by (simp add: cluster_sectors_def) (simp add: sample_volume_def zero_fs_info_def)
  have u: "map ((*) 32) [0..<16] = 0 # 32 # map ((*) 32) [2..<16]" by (simp add: upt_conv_Cons)
  have e: "entry_live (dir_entry (sect ram sample_volume 3) 0)" "dir_entry (sect ram sample_volume 3) 0 ! 0 \<noteq> 0"
    "cstr (short_name (dir_entry (sect ram sample_volume 3) 0)) = ''A.ELF''"
    unfolding sample_entry(1) by (simp_all add: entry_live_def short_name_def bytes_to_string_def cstr_def char_of_def bit_Suc_0_iff)
  show ?thesis
    unfolding root_entries_def s live_entries_def u using e sample_entry(2) by (simp del: upt_rec_numeral)
qed

lemma sample_opened:
  "de_size (f_dirent (opened (dir_entry (sect ram sample_volume 3) 0) fi)) = 64"
  "de_cluster (f_dirent (opened (dir_entry (sect ram sample_volume 3) 0) fi)) = 2"
  "de_flags (f_dirent (opened (dir_entry (sect ram sample_volume 3) 0) fi)) = FS_FILE"
  "f_position (opened e fi) = 0"
  by (simp_all add: opened_def fill_dirent_def sample_entry(1) le32_def le16_def zero_file_def)

definition sample_dir :: fs_file where
  "sample_dir = zero_file\<lparr>f_dirent := zero_dirent\<lparr>de_flags := FS_DIRECTORY, de_cluster := 3\<rparr>, f_current_cluster := 3\<rparr>"

text \<open>A directory cluster of two sectors, with an entry at the end of the second one.\<close>

definition wide_volume :: "(u32 \<Rightarrow> u8 list) kfs" where
  "wide_volume = \<lparr>fsi = zero_fs_info\<lparr>fat_start := 1, data_start := 2, sectors_per_cluster := 2, root_cluster := 2,
       bytes_per_sector := 512, bytes_per_cluster := 1024, mounted := 1\<rparr>,
     disk = (\<lambda>l. if l = 3 then replicate 480 0 @ [0x42, 0x20, 0x20, 0x20, 0x20, 0x20, 0x20, 0x20, 0x20, 0x20, 0x20, 0x20] else [])\<rparr>"

text \<open>A disk with one partition at sector 1 and a boot sector there.\<close>

definition boot_disk :: "u32 \<Rightarrow> u8 list" where
  "boot_disk l = (if l = 0 then replicate 454 0 @ [1]
     else replicate 11 0 @ [0, 2, 1, 1, 0, 1] @ replicate 19 0 @ [1, 0, 0, 0, 0, 0, 0, 0, 2] @ replicate 21 0 @ [0x28])"

section \<open>Properties\<close>

text \<open>C33: 
  \<open>fs_open\<close> finds a file of the root directory by its 8.3 name: it succeeds exactly when a live entry has
  the name, the first such entry fills the file structure, positioned at the start; otherwise the result
  is \<open>FS_NOT_FOUND\<close> and the structure is untouched.
\<close>

theorem fs_open_search:
  assumes "reliable A" "geometry (fsi s)" "cstr path \<noteq> ''/''" "length (cstr (dropWhile (\<lambda>c. c = CHR ''/'') path)) < 128"
  shows "fs_open A path file s =
    Some (case find (\<lambda>e. cstr (short_name e) = cstr (dropWhile (\<lambda>c. c = CHR ''/'') path)) (root_entries A s) of
      None \<Rightarrow> (FS_NOT_FOUND, file) | Some e \<Rightarrow> (FS_SUCCESS, opened e (fsi s)))"
  using assms by (rule fs_open_find)

theorem fs_open_search_witness:
  "\<exists>f. fs_open ram ''/A.ELF'' zero_file sample_volume = Some (FS_SUCCESS, f) \<and> de_size (f_dirent f) = 64 \<and> de_cluster (f_dirent f) = 2"
proof -
  have "fs_open ram ''/A.ELF'' zero_file sample_volume = Some (FS_SUCCESS, opened (dir_entry (sect ram sample_volume 3) 0) (fsi sample_volume))"
    by (subst fs_open_search [OF reliable_ram sample_geometry(1)]) (simp_all add: sample_path sample_root)
  then show ?thesis by (simp add: sample_opened)
qed

text \<open>
  \<open>fs_readdir\<close> passes over deleted entries and long-name entries and returns the next live one of the
  sector, as long as that is not the last entry of the sector.
\<close>

theorem fs_readdir_next:
  assumes "reliable A" "listing_at s dir i j" "j \<le> k" "k < 15"
    "\<forall>n. j \<le> n \<and> n < k \<longrightarrow> entry_skipped (dir_entry b (32 * n))"
    "dir_entry b (32 * k) ! 0 \<noteq> 0" "entry_live (dir_entry b (32 * k))"
    "b = sect A s (fat32_cluster_to_lba (f_current_cluster dir) s + of_nat i)"
  shows "\<exists>dir'. fs_readdir A dir d s = Some (FS_SUCCESS, dir', fill_dirent (dir_entry b (32 * k)) d) \<and>
    f_position dir' = of_nat (SECTOR * i + 32 * Suc k) \<and> f_current_cluster dir' = f_current_cluster dir"
proof -
  have "geometry (fsi s)" using assms(2) by (simp add: listing_at_def)
  from readdir_loop_live [OF this assms(4,6,7,3,5)] show ?thesis
    using assms(2,3) fs_readdir_start [OF assms(1,2)] assms(8) by (simp add: listing_at_def of_nat_diff algebra_simps)
qed

theorem fs_readdir_next_witness:
  "\<exists>dir'. fs_readdir ram sample_dir zero_dirent sample_volume =
      Some (FS_SUCCESS, dir', fill_dirent (dir_entry (sect ram sample_volume 3) (32 * 0)) zero_dirent) \<and>
    f_position dir' = of_nat (SECTOR * 0 + 32 * Suc 0) \<and> f_current_cluster dir' = f_current_cluster sample_dir"
  by (rule fs_readdir_next [OF reliable_ram, where j = 0 and i = 0])
    (use sample_geometry(1) in \<open>simp_all add: listing_at_def sample_dir_def zero_file_def sample_entry entry_live_def sample_lba\<close>)

text \<open>
  The last entry of a sector is taken from the sector behind it: with the position on entry 15,
  \<open>fs_readdir\<close> returns entry 15 of the next sector, whatever the sector at the position holds.
\<close>

theorem fs_readdir_last_entry:
  assumes "reliable A" "listing_at s dir i 15" "Suc i < unat (sectors_per_cluster (fsi s))"
    "dir_entry b 480 ! 0 \<noteq> 0" "entry_live (dir_entry b 480)"
    "b = sect A s (fat32_cluster_to_lba (f_current_cluster dir) s + of_nat (Suc i))"
  shows "fs_readdir A dir d s = Some (FS_SUCCESS, dir\<lparr>f_position := f_position dir + 32\<rparr>, fill_dirent (dir_entry b 480) d)"
proof -
  have g: "geometry (fsi s)" using assms(2) by (simp add: listing_at_def)
  show ?thesis
    using advance_to_sector [OF assms(1) g assms(3)] assms(4-6)
    unfolding fs_readdir_start [OF assms(1,2)] readdir_loop.simps [of A s _ _ "of_nat 15"]
    by (simp add: entry_live_def Let_def)
qed

theorem fs_readdir_last_entry_witness:
  "fs_readdir ram (sample_dir\<lparr>f_current_cluster := 2, f_position := 480\<rparr>) zero_dirent wide_volume =
    Some (FS_SUCCESS, sample_dir\<lparr>f_current_cluster := 2, f_position := 512\<rparr>,
      fill_dirent (dir_entry (sect ram wide_volume 3) 480) zero_dirent)"
proof -
  have g: "geometry (fsi wide_volume)" by (simp add: wide_volume_def geometry_def fat_entries_def zero_fs_info_def)
  have l: "listing_at wide_volume (sample_dir\<lparr>f_current_cluster := 2, f_position := 480\<rparr>) 0 15"
    using g by (simp add: listing_at_def sample_dir_def zero_file_def) (simp add: wide_volume_def zero_fs_info_def)
  have "dir_entry (sect ram wide_volume 3) 480 ! 0 = 0x42" "dir_entry (sect ram wide_volume 3) 480 ! 11 = 0x20"
    by (simp_all add: dir_entry_def sect_def ram_def wide_volume_def)
  then show ?thesis
    using fs_readdir_last_entry [OF reliable_ram l, of "sect ram wide_volume 3" zero_dirent]
    by (simp add: entry_live_def) (simp add: fat32_cluster_to_lba_def wide_volume_def zero_fs_info_def)
qed

text \<open>
  \<open>fs_mount\<close> reads the partition's boot sector and succeeds when it carries the signature 0x28; the state then has
  the geometry every file operation relies on, if the boot sector is sane. Any other signature is rejected.
\<close>

theorem fs_mount_volume:
  assumes "reliable A" "start = le32 (sect A s 0) 0x1C6" "bpb = sect A s start" "bpb_sane start bpb"
  shows "\<exists>s'. fs_mount A device s = (if bpb_boot_signature bpb = FAT32_SIGNATURE then FS_SUCCESS else FS_ERROR, s') \<and>
    disk s' = disk s \<and> (bpb_boot_signature bpb = FAT32_SIGNATURE \<longrightarrow> geometry (fsi s')) \<and>
    (bpb_boot_signature bpb \<noteq> FAT32_SIGNATURE \<longrightarrow> mounted (fsi s') = mounted (fsi s))"
  using fs_mount_success [OF assms(1), of s device, folded assms(2), folded assms(3)] assms(4)
  by (cases "bpb_boot_signature bpb = FAT32_SIGNATURE") auto

theorem fs_mount_volume_witness:
  "\<exists>s'. fs_mount ram 0 \<lparr>fsi = zero_fs_info, disk = boot_disk\<rparr> = (FS_SUCCESS, s') \<and> geometry (fsi s')"
proof -
  let ?s = "\<lparr>fsi = zero_fs_info, disk = boot_disk\<rparr>"
  have start: "le32 (sect ram ?s 0) 0x1C6 = 1" by (simp add: sect_def ram_def boot_disk_def le32_def nth_append)
  have b: "bpb_boot_signature (sect ram ?s 1) = 0x28" "bpb_bytes_per_sector (sect ram ?s 1) = 512"
    "bpb_sectors_per_cluster (sect ram ?s 1) = 1" "bpb_num_fats (sect ram ?s 1) = 1"
    "bpb_fat_size_32 (sect ram ?s 1) = 1" "bpb_reserved_sectors (sect ram ?s 1) = 1"
    by (simp_all add: sect_def ram_def boot_disk_def le32_def le16_def bpb_boot_signature_def bpb_bytes_per_sector_def
        bpb_sectors_per_cluster_def bpb_num_fats_def bpb_fat_size_32_def bpb_reserved_sectors_def nth_append)
  then have "bpb_sane 1 (sect ram ?s 1)" by (simp add: bpb_sane_def)
  then show ?thesis
    using fs_mount_volume [OF reliable_ram refl refl, of ?s 0] start b(1) by auto
qed

end
