(* ===== verification/Usermode.thy ===== *)
theory Usermode
  imports AddressSpace Directory
begin

text \<open>
  User mode, \<open>usermode.c\<close>: the descriptor table and the task state segment, entering user mode, the
  checks of user pointers with the copies from and to user memory, and the program loader. The memory at
  virtual addresses, as the active page tables show it, is a function from addresses to bytes. Loading
  the descriptor tables (\<open>gdt_flush\<close>, \<open>tss_flush\<close>, assembly that is not in the repository) has no
  counterpart; the addresses of \<open>gdt\<close> and \<open>tss\<close> are arguments.
\<close>

abbreviation GDT_PRESENT :: u8 where "GDT_PRESENT \<equiv> 0x80"
abbreviation GDT_DPL_RING0 :: u8 where "GDT_DPL_RING0 \<equiv> 0"
abbreviation GDT_DPL_RING3 :: u8 where "GDT_DPL_RING3 \<equiv> 0x60"
abbreviation GDT_TYPE_CODE :: u8 where "GDT_TYPE_CODE \<equiv> 0x1A"
abbreviation GDT_TYPE_DATA :: u8 where "GDT_TYPE_DATA \<equiv> 0x12"
abbreviation GDT_TYPE_TSS :: u8 where "GDT_TYPE_TSS \<equiv> 0x09"
abbreviation GDT_LONG_MODE :: u8 where "GDT_LONG_MODE \<equiv> 0x20"
abbreviation GDT_USER_CODE :: u64 where "GDT_USER_CODE \<equiv> 0x18"
abbreviation GDT_USER_DATA :: u64 where "GDT_USER_DATA \<equiv> 0x20"

section \<open>Segments\<close>

record gdt_entry =
  ge_limit_low :: u16
  ge_base_low :: u16
  ge_base_middle :: u8
  ge_access :: u8
  ge_granularity :: u8
  ge_base_high :: u8

record gdt_ptr =
  gp_limit :: u16
  gp_base :: u64

record tss =
  tss_reserved1 :: u32
  tss_rsp0 :: u64
  tss_rsp1 :: u64
  tss_rsp2 :: u64
  tss_reserved2 :: u64
  tss_ist :: "u64 list"
  tss_reserved3 :: u64
  tss_reserved4 :: u16
  tss_iomap_base :: u16

definition zero_tss :: tss where
  "zero_tss = \<lparr>tss_reserved1 = 0, tss_rsp0 = 0, tss_rsp1 = 0, tss_rsp2 = 0, tss_reserved2 = 0,
     tss_ist = replicate 7 0, tss_reserved3 = 0, tss_reserved4 = 0, tss_iomap_base = 0\<rparr>"

text \<open>\<open>cr3\<close> is the register that selects the active page tables, \<open>umem\<close> the bytes they show.\<close>

record kuser = kpage +
  gdt :: "gdt_entry list"
  gdt_pointer :: gdt_ptr
  ktss :: tss
  cr3 :: u64
  umem :: "u64 \<Rightarrow> u8"

lemma kprint_user [simp, kframe]:
  "gdt (kprint m s) = gdt s" "gdt_pointer (kprint m s) = gdt_pointer s" "ktss (kprint m s) = ktss s"
  "cr3 (kprint m s) = cr3 s" "umem (kprint m s) = umem s"
  by (simp_all add: kprint_def)

definition gdt_set_gate :: "nat \<Rightarrow> u32 \<Rightarrow> u32 \<Rightarrow> u8 \<Rightarrow> u8 \<Rightarrow> 'z kuser_scheme \<Rightarrow> 'z kuser_scheme" where
  "gdt_set_gate num base lim access gran s =
     s\<lparr>gdt := (gdt s)[num := \<lparr>ge_limit_low = ucast (lim AND 0xFFFF), ge_base_low = ucast (base AND 0xFFFF),
        ge_base_middle = ucast (drop_bit 16 base AND 0xFF), ge_access = access,
        ge_granularity = ucast (drop_bit 16 lim AND 0x0F) OR (gran AND 0xF0),
        ge_base_high = ucast (drop_bit 24 base AND 0xFF)\<rparr>]\<rparr>"

definition gdt_set_tss :: "nat \<Rightarrow> u64 \<Rightarrow> u32 \<Rightarrow> u8 \<Rightarrow> 'z kuser_scheme \<Rightarrow> 'z kuser_scheme" where
  "gdt_set_tss num base lim access s = gdt_set_gate num (ucast base) lim access 0 s"

text \<open>A packed \<open>gdt_entry_t\<close> has 8 bytes, a packed \<open>tss_t\<close> has 104.\<close>

definition gdt_init :: "u64 \<Rightarrow> u64 \<Rightarrow> 'z kuser_scheme \<Rightarrow> 'z kuser_scheme" where
  "gdt_init gdt_addr tss_addr s =
     (let s1 = s\<lparr>gdt_pointer := \<lparr>gp_limit = 8 * 6 - 1, gp_base = gdt_addr\<rparr>\<rparr>;
          s2 = gdt_set_gate 0 0 0 0 0 s1;
          s3 = gdt_set_gate 1 0 0xFFFFF (GDT_PRESENT OR GDT_DPL_RING0 OR GDT_TYPE_CODE OR GDT_LONG_MODE) 0xA0 s2;
          s4 = gdt_set_gate 2 0 0xFFFFF (GDT_PRESENT OR GDT_DPL_RING0 OR GDT_TYPE_DATA) 0xC0 s3;
          s5 = gdt_set_gate 3 0 0xFFFFF (GDT_PRESENT OR GDT_DPL_RING3 OR GDT_TYPE_CODE OR GDT_LONG_MODE) 0xA0 s4;
          s6 = gdt_set_gate 4 0 0xFFFFF (GDT_PRESENT OR GDT_DPL_RING3 OR GDT_TYPE_DATA) 0xC0 s5;
          s7 = gdt_set_tss 5 tss_addr 104 (GDT_PRESENT OR GDT_TYPE_TSS) s6
      in kprint (''GDT baslatildi.'' @ [NL]) s7)"

definition tss_init :: "u64 \<Rightarrow> 'z kuser_scheme \<Rightarrow> 'z kuser_scheme" where
  "tss_init kernel_stack s =
     kprint (''TSS baslatildi.'' @ [NL]) (s\<lparr>ktss := zero_tss\<lparr>tss_rsp0 := kernel_stack\<rparr>\<rparr>)"

definition tss_set_kernel_stack :: "u64 \<Rightarrow> 'z kuser_scheme \<Rightarrow> 'z kuser_scheme" where
  "tss_set_kernel_stack stack s = s\<lparr>ktss := (ktss s)\<lparr>tss_rsp0 := stack\<rparr>\<rparr>"

definition paging_switch_address_space :: "u64 \<Rightarrow> 'z kuser_scheme \<Rightarrow> 'z kuser_scheme" where
  "paging_switch_address_space new_pml4 s = s\<lparr>cr3 := new_pml4\<rparr>"

section \<open>Entering user mode\<close>

text \<open>
  The instructions of \<open>usermode_jump\<close> on the registers they use; the result is what \<open>iretq\<close> pops. A
  call passes the first four arguments in \<open>rdi\<close>, \<open>rsi\<close>, \<open>rdx\<close> and \<open>rcx\<close>, as the calling convention of the
  platform has it; \<open>r8\<close> holds whatever it held before.
\<close>

record jump_frame =
  jf_rip :: u64
  jf_cs :: u64
  jf_rflags :: u64
  jf_rsp :: u64
  jf_ss :: u64

definition usermode_jump :: "u64 \<Rightarrow> u64 \<Rightarrow> u64 \<Rightarrow> u64 \<Rightarrow> u64 \<Rightarrow> jump_frame" where
  "usermode_jump rdi0 rsi0 rdx0 rcx0 r80 =
     (let rcx1 = rdx0; r111 = r80; r91 = rsi0
      in \<lparr>jf_rip = rcx1, jf_cs = rdi0, jf_rflags = 0x202, jf_rsp = r111, jf_ss = r91\<rparr>)"

definition usermode_enter :: "u64 \<Rightarrow> u64 \<Rightarrow> u64 \<Rightarrow> 'z kuser_scheme \<Rightarrow> jump_frame option \<times> 'z kuser_scheme" where
  "usermode_enter old_r8 entry_point user_stack s =
     (case get_current_process s of
        None \<Rightarrow> (None, kprint (''Hata: Kullanici moduna gecerken gecerli islem yok!'' @ [NL]) s)
      | Some c \<Rightarrow>
          let s1 = tss_set_kernel_stack (p_stack (proc s c) + p_stack_size (proc s c)) s;
              s2 = (if p_page_directory (proc s1 c) \<noteq> 0
                    then paging_switch_address_space (p_page_directory (proc s1 c)) s1 else s1);
              s3 = kprint (''Kullanici moduna geciliyor...'' @ [NL]) s2
          in (Some (usermode_jump (GDT_USER_CODE OR 3) (GDT_USER_DATA OR 3) entry_point user_stack old_r8), s3))"

section \<open>User pointers\<close>

definition validate_page :: "u64 \<Rightarrow> u32 \<Rightarrow> 'z kuser_scheme \<Rightarrow> bool" where
  "validate_page page access_flags s \<longleftrightarrow>
     paging_get_physical_address page s \<noteq> 0 \<and>
     (case fst (paging_walk page False 0 s) of
        None \<Rightarrow> False
      | Some pt_entry \<Rightarrow>
          phys s pt_entry AND PAGE_PRESENT \<noteq> 0 \<and> phys s pt_entry AND PAGE_USER \<noteq> 0 \<and>
          \<not> (access_flags AND 2 \<noteq> 0 \<and> phys s pt_entry AND PAGE_WRITABLE = 0))"

text \<open>The loop over the pages; it may run forever when the last page is the last one of all.\<close>

partial_function (option) validate_loop :: "u64 \<Rightarrow> u64 \<Rightarrow> u32 \<Rightarrow> 'z kuser_scheme \<Rightarrow> bool option" where
  "validate_loop page end_page access_flags s =
     (if page \<le> end_page
      then (if validate_page page access_flags s
            then validate_loop (page + of_nat PAGE_SIZE) end_page access_flags s else Some False)
      else Some True)"

definition usermode_validate_pointer :: "u64 \<Rightarrow> u64 \<Rightarrow> u32 \<Rightarrow> 'z kuser_scheme \<Rightarrow> bool option" where
  "usermode_validate_pointer ptr sz access_flags s =
     (if ptr < USER_BASE \<or> ptr \<ge> USER_STACK_TOP then Some False
      else validate_loop (page_align ptr) (page_align (ptr + sz - 1)) access_flags s)"

fun load_bytes :: "u64 \<Rightarrow> nat \<Rightarrow> (u64 \<Rightarrow> u8) \<Rightarrow> u8 list" where
  "load_bytes addr 0 m = []"
| "load_bytes addr (Suc n) m = m addr # load_bytes (addr + 1) n m"

fun store_bytes :: "u64 \<Rightarrow> u8 list \<Rightarrow> (u64 \<Rightarrow> u8) \<Rightarrow> u64 \<Rightarrow> u8" where
  "store_bytes addr [] m = m"
| "store_bytes addr (b # bs) m = store_bytes (addr + 1) bs (m(addr := b))"

text \<open>The bytes copied to the kernel buffer, \<^term>\<open>Some None\<close> when the pointer is refused.\<close>

definition usermode_copy_from_user :: "u64 \<Rightarrow> u64 \<Rightarrow> 'z kuser_scheme \<Rightarrow> u8 list option option" where
  "usermode_copy_from_user src sz s =
     do { ok \<leftarrow> usermode_validate_pointer src sz 0 s;
          Some (if ok then Some (load_bytes src (unat sz) (umem s)) else None) }"

definition usermode_copy_to_user :: "u64 \<Rightarrow> u8 list \<Rightarrow> 'z kuser_scheme \<Rightarrow> (bool \<times> 'z kuser_scheme) option" where
  "usermode_copy_to_user dst src s =
     do { ok \<leftarrow> usermode_validate_pointer dst (of_nat (length src)) 2 s;
          Some (if ok then (True, s\<lparr>umem := store_bytes dst src (umem s)\<rparr>) else (False, s)) }"

section \<open>Loading a program\<close>

definition le64 :: "u8 list \<Rightarrow> nat \<Rightarrow> u64" where
  "le64 b i = ucast (le32 b i) OR push_bit 32 (ucast (le32 b (i + 4)))"

text \<open>The pages of one segment, from page \<open>j\<close> on; \<open>n\<close> pages are left.\<close>

fun load_pages ::
  "'d ata \<Rightarrow> 'd kfs \<Rightarrow> u64 \<Rightarrow> u8 list \<Rightarrow> u64 \<Rightarrow> nat \<Rightarrow> nat \<Rightarrow> fs_file \<Rightarrow> 'z kuser_scheme \<Rightarrow>
    (bool \<times> fs_file \<times> 'z kuser_scheme) option" where
  "load_pages A fs user_pml4 ph page_flags 0 j file s = Some (True, file, s)"
| "load_pages A fs user_pml4 ph page_flags (Suc n) j file s =
     (let p_vaddr = le64 ph 16; p_filesz = le64 ph 32; p_offset = le64 ph 8;
          base = of_nat (j * PAGE_SIZE);
          vaddr = page_align p_vaddr + base
      in do { (page, s1) \<leftarrow> paging_alloc_user_page user_pml4 vaddr page_flags s;
              if page = 0
              then Some (False, file, kprint (''Hata: Kullanici sayfasi tahsis edilemedi!'' @ [NL]) s1)
              else let page_offset = (if j = 0 then p_vaddr AND 0xFFF else 0)
                   in if base < p_filesz
                      then let b0 = of_nat PAGE_SIZE - page_offset;
                               bytes_to_read = (if base + b0 > p_filesz then p_filesz - base else b0);
                               (_, file1) = fs_seek file (ucast (p_offset + base)) fs
                           in do { (_, bs, file2) \<leftarrow> fs_read A file1 bytes_to_read fs;
                                   load_pages A fs user_pml4 ph page_flags n (j + 1) file2
                                     (s1\<lparr>umem := store_bytes (vaddr + page_offset) bs (umem s1)\<rparr>) }
                      else load_pages A fs user_pml4 ph page_flags n (j + 1) file s1 })"

text \<open>The program headers, from number \<open>i\<close> on; \<open>n\<close> are left.\<close>

fun load_segments ::
  "'d ata \<Rightarrow> 'd kfs \<Rightarrow> u64 \<Rightarrow> u8 list \<Rightarrow> nat \<Rightarrow> nat \<Rightarrow> fs_file \<Rightarrow> 'z kuser_scheme \<Rightarrow>
    (bool \<times> fs_file \<times> 'z kuser_scheme) option" where
  "load_segments A fs user_pml4 elf 0 i file s = Some (True, file, s)"
| "load_segments A fs user_pml4 elf (Suc n) i file s =
     (let ph_offset = le64 elf 32; ph_size = le16 elf 54;
          (_, file1) = fs_seek file (ucast (ph_offset + of_int (wrap32 (int (i * unat ph_size))))) fs
      in do { (r, ph, file2) \<leftarrow> fs_read A file1 56 fs;
              if r \<noteq> 56
              then Some (False, file2, kprint (''Hata: Program basligi okunamadi!'' @ [NL]) s)
              else if le32 ph 0 \<noteq> 1 then load_segments A fs user_pml4 elf n (i + 1) file2 s
              else let page_count = (le64 ph 40 + of_nat PAGE_SIZE - 1) div of_nat PAGE_SIZE;
                       page_flags = (if le32 ph 4 AND 2 \<noteq> 0 then PAGE_PRESENT OR PAGE_WRITABLE else PAGE_PRESENT)
                   in do { (ok, file3, s1) \<leftarrow> load_pages A fs user_pml4 ph page_flags (unat page_count) 0 file2 s;
                           if ok then load_segments A fs user_pml4 elf n (i + 1) file3 s1
                           else Some (False, file3, s1) } })"

text \<open>The stack: the addresses from \<open>USER_STACK_TOP - 64 KB\<close> up to below \<open>USER_STACK_TOP\<close>.\<close>

definition stack_addresses :: "u64 list" where
  "stack_addresses = map (\<lambda>i. USER_STACK_TOP - 65536 + of_nat (i * PAGE_SIZE)) [0..<16]"

fun alloc_stack :: "u64 \<Rightarrow> u64 list \<Rightarrow> 'z kuser_scheme \<Rightarrow> (bool \<times> 'z kuser_scheme) option" where
  "alloc_stack user_pml4 [] s = Some (True, s)"
| "alloc_stack user_pml4 (addr # addrs) s =
     do { (page, s1) \<leftarrow> paging_alloc_user_page user_pml4 addr (PAGE_PRESENT OR PAGE_WRITABLE OR PAGE_USER) s;
          if page = 0 then Some (False, kprint (''Hata: Kullanici yigini tahsis edilemedi!'' @ [NL]) s1)
          else alloc_stack user_pml4 addrs s1 }"

definition elf_error :: "u8 list \<Rightarrow> string option" where
  "elf_error elf =
     (if elf ! 0 \<noteq> 0x7F \<or> elf ! 1 \<noteq> 0x45 \<or> elf ! 2 \<noteq> 0x4C \<or> elf ! 3 \<noteq> 0x46
      then Some ''Hata: Gecerli bir ELF dosyasi degil!''
      else if elf ! 4 \<noteq> 2 then Some ''Hata: 64-bit ELF dosyasi degil!''
      else if elf ! 16 \<noteq> 2 then Some ''Hata: Yurutulebilir dosya degil!''
      else None)"

text \<open>After the checks of the header: a new address space, the segments, the stack, and the registers of slot \<open>i\<close>.\<close>

definition load_image ::
  "'d ata \<Rightarrow> 'd kfs \<Rightarrow> nat \<Rightarrow> u8 list \<Rightarrow> fs_file \<Rightarrow> 'z kuser_scheme \<Rightarrow> (bool \<times> 'z kuser_scheme) option" where
  "load_image A fs i elf file s =
     (let (user_pml4, s1) = paging_create_user_address_space s
      in if user_pml4 = 0
         then Some (False, kprint (''Hata: Kullanici adres alani olusturulamadi!'' @ [NL]) s1)
         else do { (ok, file2, s2) \<leftarrow> load_segments A fs user_pml4 elf (unat (le16 elf 56)) 0 file
                     (upd_proc i (\<lambda>p. p\<lparr>p_page_directory := user_pml4\<rparr>) s1);
                   if \<not> ok then Some (False, s2)
                   else do { (ok', s3) \<leftarrow> alloc_stack user_pml4 stack_addresses s2;
                             if \<not> ok' then Some (False, s3)
                             else Some (True, upd_proc i (\<lambda>p. p\<lparr>p_registers :=
                                    (p_registers p)\<lparr>p_rip := le64 elf 24, p_rsp := USER_STACK_TOP\<rparr>\<rparr>) s3) } })"

text \<open>\<open>file0\<close> is the uninitialised local variable \<open>file\<close>, \<open>i\<close> the slot of the process.\<close>

definition usermode_load_program ::
  "'d ata \<Rightarrow> 'd kfs \<Rightarrow> fs_file \<Rightarrow> nat \<Rightarrow> string \<Rightarrow> 'z kuser_scheme \<Rightarrow> (bool \<times> 'z kuser_scheme) option" where
  "usermode_load_program A fs file0 i filename s =
     do { (r, file) \<leftarrow> fs_open A filename file0 fs;
          if r \<noteq> FS_SUCCESS then Some (False, kprint (''Hata: Program dosyasi acilamadi!'' @ [NL]) s)
          else do { (r64, elf, file1) \<leftarrow> fs_read A file 64 fs;
                    if r64 \<noteq> 64 then Some (False, kprint (''Hata: ELF baslik okunamadi!'' @ [NL]) s)
                    else (case elf_error elf of
                            Some msg \<Rightarrow> Some (False, kprint (msg @ [NL]) s)
                          | None \<Rightarrow> load_image A fs i elf file1 s) } }"

end
