(* ===== verification/UserAccess.thy ===== *)
theory UserAccess
  imports Usermode
begin

text \<open>
  User pointers and user address spaces. The check of a pointer is exact for every range that does not
  wrap around: it accepts exactly the ranges all of whose bytes lie on pages with the right flags. What is
  copied to user memory is read back. The tables checked are those of the kernel, so that pages of a
  user address space are refused; and the loader's stack ends a page below its top.
\<close>

section \<open>Pages of a range\<close>

lemma unat_page_align: "unat (page_align a) = 4096 * (unat a div 4096)"
proof -
  have "page_align a = push_bit 12 (drop_bit 12 a)"
  proof -
    have *: "0xFFF = (mask 12 :: u64)" by (simp add: mask_eq_exp_minus_1)
    show ?thesis unfolding page_align_def * by (rule bit_word_eqI) (auto simp: bit_simps)
  qed
  moreover have "take_bit 64 (unat a) = unat a"
    using unsigned_less [of a, where 'a = nat] by (intro take_bit_nat_eq_self) simp
  ultimately have "unat (page_align a) = take_bit 64 (push_bit 12 (drop_bit 12 (unat a)))"
    by (simp add: unsigned_push_bit_eq unsigned_drop_bit_eq)
  also have "push_bit 12 (drop_bit 12 (unat a)) = 4096 * (unat a div 4096)"
    by (simp add: push_bit_eq_mult drop_bit_eq_div)
  also have "take_bit 64 (4096 * (unat a div 4096)) = 4096 * (unat a div 4096)"
  proof (rule take_bit_nat_eq_self)
    have "unat a < 2 ^ 64" using unsigned_less [of a, where 'a = nat] by simp
    then show "4096 * (unat a div 4096) < 2 ^ 64" using div_mult_mod_eq [of "unat a" 4096] by linarith
  qed
  finally show ?thesis .
qed

lemma page_align_mono: "a \<le> b \<Longrightarrow> page_align a \<le> page_align b"
  by (simp add: word_le_nat_alt unat_page_align div_le_mono)

lemma page_align_idem [simp]: "page_align (page_align a) = page_align a"
  by (simp add: word_unat_eq_iff unat_page_align)

section \<open>The loop of the pointer check\<close>

lemma validate_loop_exact:
  assumes "page_align page = page" "unat end_page + 4096 < 2 ^ 64"
  shows "validate_loop page end_page f s =
    Some (\<forall>q. page_align q = q \<and> page \<le> q \<and> q \<le> end_page \<longrightarrow> validate_page q f s)"
  using assms
proof (induction "unat end_page - unat page" arbitrary: page rule: less_induct)
  case less
  let ?P = "\<lambda>p. \<forall>q. page_align q = q \<and> p \<le> q \<and> q \<le> end_page \<longrightarrow> validate_page q f s"
  have done_: "validate_loop p end_page f s = Some (?P p)" if "\<not> p \<le> end_page" for p
  proof -
    have "validate_loop p end_page f s = Some True" using that by (subst validate_loop.simps) simp
    moreover have "?P p" using that by (meson order_trans)
    then have "?P p = True" by (rule eqTrueI)
    ultimately show ?thesis by (simp only:)
  qed
  show ?case
  proof (cases "page \<le> end_page")
    case False
    then show ?thesis by (rule done_)
  next
    case True
    show ?thesis
    proof (cases "validate_page page f s")
      case F: False
      then have "validate_loop page end_page f s = Some False" using True by (subst validate_loop.simps) simp
      moreover have "\<not> ?P page" using True F less.prems(1) by blast
      then have "?P page = False" by (rule iffD2 [OF eq_False])
      ultimately show ?thesis by (simp only:)
    next
      case ok: True
      have u: "unat (page + 4096) = unat page + 4096"
        using True less.prems(2) by (simp add: unat_word_ariths word_le_nat_alt)
      have next_: "validate_loop (page + 4096) end_page f s = Some (?P (page + 4096))"
      proof (cases "page + 4096 \<le> end_page")
        case T: True
        then have "unat end_page - unat (page + 4096) < unat end_page - unat page" using u by (simp add: word_le_nat_alt)
        then show ?thesis using page_align_next [OF less.prems(1)] less.prems(2) by (rule less.hyps)
      qed (rule done_)
      have split: "page \<le> q \<longleftrightarrow> q = page \<or> page + 4096 \<le> q" if "page_align q = q" for q
      proof -
        have "4096 dvd unat q" "4096 dvd unat page" using that less.prems(1) by (simp_all only: page_align_iff)
        then obtain m n where "unat q = 4096 * m" "unat page = 4096 * n" by (elim dvdE)
        then show ?thesis using u by (auto simp: word_le_nat_alt word_unat_eq_iff)
      qed
      have "?P page \<longleftrightarrow> ?P (page + 4096)" using split ok by blast
      moreover have "validate_loop page end_page f s = validate_loop (page + 4096) end_page f s"
        using True ok by (subst validate_loop.simps) simp
      ultimately show ?thesis using next_ by (simp only:)
    qed
  qed
qed

lemma validate_pointer_exact:
  assumes sz: "sz \<noteq> 0" and fits: "unat ptr + unat sz + 4096 < 2 ^ 64"
  shows "usermode_validate_pointer ptr sz f s =
    Some (USER_BASE \<le> ptr \<and> ptr < USER_STACK_TOP \<and>
      (\<forall>a. ptr \<le> a \<and> unat a < unat ptr + unat sz \<longrightarrow> validate_page (page_align a) f s))"
proof -
  let ?last = "ptr + sz - 1"
  have pos: "0 < unat sz" using sz by (simp add: unat_gt_0)
  have last: "unat ?last = unat ptr + unat sz - 1"
  proof -
    have "unat (ptr + sz) = unat ptr + unat sz" using fits by (simp add: unat_word_ariths)
    moreover have "1 \<le> ptr + sz" using calculation pos by (simp add: word_le_nat_alt)
    ultimately show ?thesis by (simp add: unat_sub)
  qed
  have "unat (page_align ?last) \<le> unat ?last" unfolding unat_page_align by simp
  then have bound: "unat (page_align ?last) + 4096 < 2 ^ 64" using last fits by linarith
  have "(\<forall>q. page_align q = q \<and> page_align ptr \<le> q \<and> q \<le> page_align ?last \<longrightarrow> validate_page q f s) \<longleftrightarrow>
      (\<forall>a. ptr \<le> a \<and> unat a < unat ptr + unat sz \<longrightarrow> validate_page (page_align a) f s)" (is "?L = ?R")
  proof
    assume L: ?L
    show ?R
    proof (intro allI impI)
      fix a assume "ptr \<le> a \<and> unat a < unat ptr + unat sz"
      then have "ptr \<le> a" "a \<le> ?last" using last by (auto simp: word_le_nat_alt)
      then show "validate_page (page_align a) f s" using L page_align_mono by simp
    qed
  next
    assume R: ?R
    show ?L
    proof (intro allI impI)
      fix q assume q: "page_align q = q \<and> page_align ptr \<le> q \<and> q \<le> page_align ?last"
      let ?a = "if ptr \<le> q then q else ptr"
      have "page_align ?a = q"
      proof (cases "ptr \<le> q")
        case False
        then have "page_align q \<le> page_align ptr" by (intro page_align_mono) simp
        then show ?thesis using q False by simp
      qed (use q in simp)
      moreover have "unat q \<le> unat ?last"
        using q \<open>unat (page_align ?last) \<le> unat ?last\<close> by (simp add: word_le_nat_alt)
      then have "unat ?a < unat ptr + unat sz" using last pos by auto
      ultimately show "validate_page q f s" using R [rule_format, of ?a] by (auto split: if_splits)
    qed
  qed
  then show ?thesis
    using validate_loop_exact [OF page_align_idem bound, of ptr f s]
    by (auto simp: usermode_validate_pointer_def not_le not_less)
qed

text \<open>A range that wraps around to below its first page is accepted without looking at any page.\<close>

lemma validate_pointer_wraps:
  assumes "USER_BASE \<le> ptr" "ptr < USER_STACK_TOP" "2 ^ 64 < unat ptr + unat sz"
    "unat ptr + unat sz \<le> 2 ^ 64 + unat (page_align ptr)"
  shows "usermode_validate_pointer ptr sz f s = Some True"
proof -
  have "unat (ptr + sz) = unat ptr + unat sz - 2 ^ 64"
    using assms(3) unsigned_less [of ptr, where 'a = nat] unsigned_less [of sz, where 'a = nat]
    by (simp add: unat_word_ariths mod_if)
  moreover have "1 \<le> ptr + sz" using calculation assms(3) by (simp add: word_le_nat_alt)
  ultimately have "unat (ptr + sz - 1) < unat (page_align ptr)" using assms(3,4) by (simp add: unat_sub)
  moreover have "unat (page_align (ptr + sz - 1)) \<le> unat (ptr + sz - 1)" unfolding unat_page_align by simp
  ultimately have "\<not> page_align ptr \<le> page_align (ptr + sz - 1)" by (simp add: word_le_nat_alt)
  then show ?thesis
    using assms(1,2) by (simp add: usermode_validate_pointer_def not_le [symmetric] validate_loop.simps)
qed

section \<open>Copies\<close>

lemma store_bytes_at:
  "length bs < 2 ^ 64 \<Longrightarrow> store_bytes a bs m x =
    (if unat (x - a) < length bs then bs ! unat (x - a) else m x)"
proof (induction a bs m arbitrary: x rule: store_bytes.induct)
  case (2 addr b bs m)
  show ?case
  proof (cases "x = addr")
    case True
    have "unat (addr - (addr + 1)) = 2 ^ 64 - 1" by (simp add: unsigned_minus_1_eq_mask mask_eq_exp_minus_1)
    then show ?thesis
      unfolding store_bytes.simps using "2.IH" [of x] "2.prems" True by (simp del: fun_upd_apply) simp
  next
    case False
    then have "x - addr \<noteq> 0" by simp
    then have "unat (x - addr) = Suc (unat (x - addr - 1))"
      by (metis Suc_pred' unat_gt_0 unat_minus_one)
    moreover have "x - addr - 1 = x - (addr + 1)" by simp
    ultimately show ?thesis
      unfolding store_bytes.simps using "2.IH" [of x] "2.prems" False by (simp del: fun_upd_apply) simp
  qed
qed simp

lemma load_bytes_nth: "length (load_bytes a n m) = n" "i < n \<Longrightarrow> load_bytes a n m ! i = m (a + of_nat i)"
  by (induction a n m arbitrary: i rule: load_bytes.induct) (auto simp: nth_Cons' add.assoc of_nat_diff)

lemma load_store: "length bs < 2 ^ 64 \<Longrightarrow> load_bytes a (length bs) (store_bytes a bs m) = bs"
proof (rule nth_equalityI)
  assume len: "length bs < 2 ^ 64"
  fix i assume "i < length (load_bytes a (length bs) (store_bytes a bs m))"
  then have i: "i < length bs" by (simp add: load_bytes_nth)
  then have "unat (of_nat i :: u64) = i" using len by (simp only: unat_of_nat) (simp add: take_bit_nat_eq_self)
  then show "load_bytes a (length bs) (store_bytes a bs m) ! i = bs ! i"
    using i by (simp add: load_bytes_nth store_bytes_at [OF len])
qed (simp add: load_bytes_nth)

lemma validate_page_umem [simp]: "validate_page p f (s\<lparr>umem := m\<rparr>) = validate_page p f s"
  by (cases "walk (phys s) (pml4 s) (upper_path p)")
    (simp_all add: validate_page_def paging_get_physical_address_def paging_walk_lookup)

lemma validate_page_weaken: "validate_page p f s \<Longrightarrow> validate_page p 0 s"
  by (auto simp: validate_page_def split: option.splits)

section \<open>Kernel tables and user address spaces\<close>

lemma validate_page_unmapped: "translate p s = None \<Longrightarrow> \<not> validate_page p f s"
  by (cases "walk (phys s) (pml4 s) (upper_path p)")
    (auto simp: validate_page_def translate_def path_of_upper walk_append paging_walk_lookup tbl_next_def split: if_splits)

lemma translate_page_align [simp]: "translate (page_align v) s = translate v s"
  by (simp add: translate_def)

text \<open>Adding pages to a user address space: which pages are mapped, and that the kernel's tables stay.\<close>

lemma alloc_stack_ok:
  assumes "separate E (pml4 s) {..<256} (s\<lparr>pml4 := u\<rparr>)" "\<forall>a \<in> set as. a \<in> vaddrs {..<256} \<and> a < KERNEL_BASE"
  shows "\<exists>ok s'. alloc_stack u as s = Some (ok, s') \<and> pml4 s' = pml4 s \<and>
    (\<forall>ks. good_path E ks \<and> length ks \<le> 4 \<longrightarrow> swalk s' ks = swalk s ks) \<and>
    (ok \<longrightarrow> (\<forall>w \<in> vaddrs {..<256}. walk (phys s') u (path_of w) \<noteq> None \<longleftrightarrow>
       walk (phys s) u (path_of w) \<noteq> None \<or> (\<exists>a \<in> set as. same_page a w)))"
  using assms
proof (induction "as" arbitrary: s)
  case (Cons a as)
  have a: "a \<in> vaddrs {..<256}" "a < KERNEL_BASE" using Cons.prems(2) by simp_all
  have flags: "(PAGE_PRESENT OR PAGE_WRITABLE OR PAGE_USER) AND ADDR_MASK = 0" by (simp add: ADDR_MASK_def)
  obtain r s1 where al: "paging_alloc_user_page u a (PAGE_PRESENT OR PAGE_WRITABLE OR PAGE_USER) s = Some (r, s1)"
    "pml4 s1 = pml4 s" "separate E (pml4 s) {..<256} (s1\<lparr>pml4 := u\<rparr>)"
    "\<And>ks. good_path E ks \<Longrightarrow> length ks \<le> 4 \<Longrightarrow> swalk s1 ks = swalk s ks"
    "r \<noteq> 0 \<Longrightarrow> \<exists>k. \<forall>w \<in> vaddrs {..<256}.
       walk (phys s1) u (path_of w) = (if same_page a w then Some (frame k) else walk (phys s) u (path_of w))"
    using alloc_user_page_ok [OF Cons.prems(1) a flags] by blast
  show ?case
  proof (cases "r = 0")
    case True
    then have "alloc_stack u (a # as) s = Some (False, kprint (''Hata: Kullanici yigini tahsis edilemedi!'' @ [NL]) s1)"
      using al(1) by simp
    then show ?thesis using al(2,4) by auto
  next
    case False
    obtain ok s' where r: "alloc_stack u as s1 = Some (ok, s')" "pml4 s' = pml4 s1"
      "\<And>ks. good_path E ks \<Longrightarrow> length ks \<le> 4 \<Longrightarrow> swalk s' ks = swalk s1 ks"
      "ok \<Longrightarrow> \<forall>w \<in> vaddrs {..<256}. walk (phys s') u (path_of w) \<noteq> None \<longleftrightarrow>
         walk (phys s1) u (path_of w) \<noteq> None \<or> (\<exists>a \<in> set as. same_page a w)"
      using Cons.IH [of s1] al(2,3) Cons.prems(2) by auto
    obtain k where k: "\<forall>w \<in> vaddrs {..<256}.
        walk (phys s1) u (path_of w) = (if same_page a w then Some (frame k) else walk (phys s) u (path_of w))"
      using al(5) [OF False] by blast
    have "alloc_stack u (a # as) s = Some (ok, s')" using al(1) r(1) False by simp
    moreover have "walk (phys s') u (path_of w) \<noteq> None \<longleftrightarrow>
        walk (phys s) u (path_of w) \<noteq> None \<or> (\<exists>x \<in> set (a # as). same_page x w)" if "ok" "w \<in> vaddrs {..<256}" for w
      using r(4) [OF that(1)] k that(2) by auto
    ultimately show ?thesis using r(2,3) al(2,4) by auto
  qed
qed (auto intro: exI [of _ True])

text \<open>With four free frames per page, and the pages not mapped yet, it does not fail.\<close>

lemma alloc_user_page_succeeds:
  assumes sep: "separate E (pml4 s) D (s\<lparr>pml4 := u\<rparr>)" and v: "v \<in> vaddrs D" "v < KERNEL_BASE"
    and flags: "flags AND ADDR_MASK = 0" and unmapped: "walk (phys s) u (path_of v) = None"
    and free: "3 < free_count (bitmap (pmm s))" and run: "paging_alloc_user_page u v flags s = Some (r, s')"
  shows "r \<noteq> 0 \<and> free_count (bitmap (pmm s)) \<le> free_count (bitmap (pmm s')) + 4"
proof -
  let ?t = "s\<lparr>pml4 := u\<rparr>"
  have ok: "pages_ok D ?t" using sep by (simp add: separate_def)
  obtain k where k: "first_free (bitmap (pmm ?t)) = Some k"
    using free first_free_None_count [of "bitmap (pmm s)"] by fastforce
  obtain t1 where al: "pmm_alloc_page ?t = (frame k, t1)" using k by (simp add: pmm_alloc_page_eq)
  note t1 = pmm_alloc_page_ok [OF ok k al]
  obtain t0 where s1: "pmm_alloc_page s = (frame k, t0)" "t0\<lparr>pml4 := u\<rparr> = t1"
    using al k unfolding pmm_alloc_page_root by (auto simp: pmm_alloc_page_eq)
  have bm: "bitmap_ok (bitmap (pmm s))" using ok by (simp add: tables_ok_def)
  have nz: "frame k \<noteq> 0"
    using first_free_SomeD [OF k] bm by (auto simp: frame_0_iff bitmap_ok_def intro!: gr0I)
  obtain q t2 where q: "paging_map_page (frame k) v (flags OR PAGE_USER) t1 = (q, t2)" by fastforce
  have vD: "pml4_index v \<in> D" using v(1) by (simp add: vaddrs_def)
  have un: "translate v t1 = None" using grown_translate [OF t1(2) vD] unmapped by (simp add: translate_def)
  have "q = page_align v \<and> free_count (bitmap (pmm t1)) \<le> free_count (bitmap (pmm t2)) + 3"
  proof (cases rule: paging_map_page_cases [OF grownD(2) [OF t1(2)] vD user_flags [OF flags] q, case_names mapped present full])
    case full
    then show ?thesis using t1(5) free by simp
  qed (use un in simp_all)
  moreover from this have "q \<noteq> 0" using v(1) by (simp add: vaddrs_def)
  moreover have "r = q" "s' = t2\<lparr>pml4 := pml4 t0\<rparr>"
    using run v(2) [folded not_le] s1 nz q \<open>q \<noteq> 0\<close>
    by (simp_all add: paging_alloc_user_page_def split_beta Let_def del: not_le)
  ultimately show ?thesis using t1(5) by simp
qed

lemma alloc_stack_succeeds:
  assumes "separate E (pml4 s) {..<256} (s\<lparr>pml4 := u\<rparr>)" "\<forall>a \<in> set as. a \<in> vaddrs {..<256} \<and> a < KERNEL_BASE"
    and "\<forall>a \<in> set as. walk (phys s) u (path_of a) = None" "distinct (map path_of as)"
    and "4 * length as \<le> free_count (bitmap (pmm s))"
  shows "\<exists>s'. alloc_stack u as s = Some (True, s')"
  using assms
proof (induction "as" arbitrary: s)
  case (Cons a as)
  have a: "a \<in> vaddrs {..<256}" "a < KERNEL_BASE" using Cons.prems(2) by simp_all
  have flags: "(PAGE_PRESENT OR PAGE_WRITABLE OR PAGE_USER) AND ADDR_MASK = 0" by (simp add: ADDR_MASK_def)
  obtain r s1 where al: "paging_alloc_user_page u a (PAGE_PRESENT OR PAGE_WRITABLE OR PAGE_USER) s = Some (r, s1)"
    "pml4 s1 = pml4 s" "separate E (pml4 s) {..<256} (s1\<lparr>pml4 := u\<rparr>)"
    "r \<noteq> 0 \<Longrightarrow> \<exists>k. \<forall>w \<in> vaddrs {..<256}.
       walk (phys s1) u (path_of w) = (if same_page a w then Some (frame k) else walk (phys s) u (path_of w))"
    using alloc_user_page_ok [OF Cons.prems(1) a flags] by blast
  have r: "r \<noteq> 0" "free_count (bitmap (pmm s)) \<le> free_count (bitmap (pmm s1)) + 4"
    using alloc_user_page_succeeds [OF Cons.prems(1) a flags _ _ al(1)] Cons.prems(3,5) by auto
  have "\<exists>s'. alloc_stack u as s1 = Some (True, s')"
  proof (rule Cons.IH)
    show "\<forall>x \<in> set as. walk (phys s1) u (path_of x) = None"
      using al(4) [OF r(1)] Cons.prems(2-4) by (auto simp: same_page_def image_iff)
  qed (use al(2,3) Cons.prems r(2) in auto)
  then show ?case using al(1) r(1) by simp
qed simp

lemma stack_addresses_low:
  "\<forall>a \<in> set stack_addresses. a \<in> vaddrs {..<256} \<and> a < KERNEL_BASE \<and> \<not> same_page a USER_STACK_TOP"
proof -
  have "list_all (\<lambda>a. pml4_index a < 256 \<and> page_align a \<noteq> 0 \<and> a < KERNEL_BASE \<and> path_of a \<noteq> path_of USER_STACK_TOP) stack_addresses"
    by (simp add: stack_addresses_def upt_conv_Cons path_of_def pml4_index_def pdpt_index_def pd_index_def pt_index_def page_align_def)
  then show ?thesis by (simp add: list_all_iff vaddrs_def same_page_def)
qed

section \<open>The loader\<close>

lemma processes_alloc: "pmm_alloc_page s = (r, s') \<Longrightarrow> processes s' = processes s"
  by (auto simp: pmm_alloc_page_def split: option.splits)

lemma processes_walk_level: "walk_level alc f tbl i s = (r, s') \<Longrightarrow> processes s' = processes s"
  by (auto simp: walk_level_def Let_def processes_alloc split: prod.splits if_splits)

lemma processes_walk: "paging_walk v alc f s = (r, s') \<Longrightarrow> processes s' = processes s"
  by (auto simp: paging_walk_def dest!: processes_walk_level split: prod.splits option.splits)

lemma processes_map: "paging_map_page p v f s = (r, s') \<Longrightarrow> processes s' = processes s"
  by (auto simp: paging_map_page_def Let_def dest!: processes_walk split: prod.splits option.splits if_splits)

lemma processes_free: "pmm_free_page a s = Some s' \<Longrightarrow> processes s' = processes s"
  by (auto simp: pmm_free_page_def Let_def split: if_splits)

lemma processes_create: "paging_create_user_address_space s = (r, s') \<Longrightarrow> processes s' = processes s"
  by (auto simp: paging_create_user_address_space_def Let_def dest!: processes_alloc split: prod.splits if_splits simp del: upt_rec_numeral)

lemma processes_alloc_user: "paging_alloc_user_page u v f s = Some (r, s') \<Longrightarrow> processes s' = processes s"
proof -
  assume run: "paging_alloc_user_page u v f s = Some (r, s')"
  obtain p s1 where al: "pmm_alloc_page s = (p, s1)" by fastforce
  obtain m s2 where mp: "paging_map_page p v (f OR PAGE_USER) (s1\<lparr>pml4 := u\<rparr>) = (m, s2)" by fastforce
  have "processes s2 = processes s" using processes_map [OF mp] processes_alloc [OF al] by simp
  then show ?thesis
    using run al mp processes_alloc [OF al]
    by (auto simp: paging_alloc_user_page_def Let_def dest!: processes_free split: if_splits bind_splits)
qed

lemma processes_alloc_stack: "alloc_stack u as s = Some (r, s') \<Longrightarrow> processes s' = processes s"
  by (induction "as" arbitrary: s) (auto dest!: processes_alloc_user split: prod.splits if_splits bind_splits)

text \<open>Through the loops of the loader, by the structure of their monadic code.\<close>

definition keeps :: "process list \<Rightarrow> (bool \<times> fs_file \<times> 'z kuser_scheme) option \<Rightarrow> bool" where
  "keeps ps r \<longleftrightarrow> (\<forall>ok fl s. r = Some (ok, fl, s) \<longrightarrow> processes s = ps)"

lemma keeps_bind: "(\<And>x. m = Some x \<Longrightarrow> keeps ps (f x)) \<Longrightarrow> keeps ps (m \<bind> f)"
  by (cases m) (simp_all add: keeps_def)

lemma keeps_prod: "(\<And>a b. x = (a, b) \<Longrightarrow> keeps ps (f a b)) \<Longrightarrow> keeps ps (case x of (a, b) \<Rightarrow> f a b)"
  by (cases x) simp

lemma keeps_if: "(c \<Longrightarrow> keeps ps x) \<Longrightarrow> (\<not> c \<Longrightarrow> keeps ps y) \<Longrightarrow> keeps ps (if c then x else y)"
  by simp

lemma keeps_Some: "processes s = ps \<Longrightarrow> keeps ps (Some (ok, fl, s))"
  by (simp add: keeps_def)

lemmas keeps_rules = keeps_bind keeps_prod keeps_if keeps_Some

lemma keeps_load_pages: "processes s = ps \<Longrightarrow> keeps ps (load_pages A fs u ph pf n j fl s)"
proof (induction n arbitrary: j fl s)
  case (Suc n)
  show ?case
    unfolding load_pages.simps Let_def
    by (intro keeps_rules Suc.IH) (use Suc.prems in \<open>auto dest!: processes_alloc_user\<close>)
qed (simp add: keeps_Some)

lemma keeps_load_segments: "processes s = ps \<Longrightarrow> keeps ps (load_segments A fs u elf n i fl s)"
proof (induction n arbitrary: i fl s)
  case (Suc n)
  have "processes s1 = ps" if "load_pages A fs u ph pf m 0 fl s = Some (ok, fl', s1)" for ph pf m fl ok fl' s1
    using keeps_load_pages [OF Suc.prems, of A fs u ph pf m 0 fl] that by (simp add: keeps_def)
  then show ?case
    unfolding load_segments.simps Let_def
    by (intro keeps_rules Suc.IH) (use Suc.prems in auto)
qed (simp add: keeps_Some)

lemma load_image_success:
  assumes run: "load_image A fs i elf fl s = Some (True, s')" and i: "i < length (processes s)"
  shows "p_rip (p_registers (proc s' i)) = le64 elf 24" "p_rsp (p_registers (proc s' i)) = USER_STACK_TOP"
    "p_page_directory (proc s' i) \<noteq> 0" "\<And>j. j \<noteq> i \<Longrightarrow> proc s' j = proc s j"
proof -
  obtain u s1 where c: "paging_create_user_address_space s = (u, s1)" by fastforce
  let ?s = "upd_proc i (\<lambda>p. p\<lparr>p_page_directory := u\<rparr>) s1"
  obtain fl2 s2 s3 where u: "u \<noteq> 0" and sg: "load_segments A fs u elf (unat (le16 elf 56)) 0 fl ?s = Some (True, fl2, s2)"
    and st: "alloc_stack u stack_addresses s2 = Some (True, s3)"
    and s': "s' = upd_proc i (\<lambda>p. p\<lparr>p_registers := (p_registers p)\<lparr>p_rip := le64 elf 24, p_rsp := USER_STACK_TOP\<rparr>\<rparr>) s3"
    using run c by (auto simp: load_image_def split: if_splits bind_splits)
  have "keeps (processes ?s) (load_segments A fs u elf (unat (le16 elf 56)) 0 fl ?s)" by (rule keeps_load_segments) simp
  then have "processes s3 = processes ?s" using sg processes_alloc_stack [OF st] unfolding keeps_def by auto
  then have p3: "processes s3 = upd_nth i (\<lambda>p. p\<lparr>p_page_directory := u\<rparr>) (processes s)"
    using processes_create [OF c] by (simp add: processes_upd_proc)
  then show "p_rip (p_registers (proc s' i)) = le64 elf 24" "p_rsp (p_registers (proc s' i)) = USER_STACK_TOP"
    "p_page_directory (proc s' i) \<noteq> 0" "\<And>j. j \<noteq> i \<Longrightarrow> proc s' j = proc s j"
    using i u by (simp_all add: s' processes_upd_proc upd_nth_def)
qed

lemma fs_open_position: "fs_open A path f0 s = Some (FS_SUCCESS, f) \<Longrightarrow> f_position f = 0"
  by (auto simp: fs_open_def Let_def split: if_splits bind_splits lookup.splits)

lemma elf_error_None: "elf_error elf = None \<longleftrightarrow>
    elf ! 0 = 0x7F \<and> elf ! 1 = 0x45 \<and> elf ! 2 = 0x4C \<and> elf ! 3 = 0x46 \<and> elf ! 4 = 2 \<and> elf ! 16 = 2"
  by (auto simp: elf_error_def)

section \<open>Sample states\<close>

text \<open>The memory of the page tables with one user page at \<open>USER_BASE\<close>, and a kernel state over it.\<close>

definition sample_kuser :: "(u64 \<Rightarrow> u64) \<Rightarrow> kuser" where
  "sample_kuser m = kpage.extend (sample_kpage\<lparr>phys := m, pmm := (pmm sample_kpage)\<lparr>bitmap := 3 # replicate 15 0\<rparr>\<rparr>)
     \<lparr>gdt = replicate 6 \<lparr>ge_limit_low = 0, ge_base_low = 0, ge_base_middle = 0, ge_access = 0, ge_granularity = 0, ge_base_high = 0\<rparr>,
      gdt_pointer = \<lparr>gp_limit = 0, gp_base = 0\<rparr>, ktss = zero_tss, cr3 = 0x1000, umem = (\<lambda>_. 0)\<rparr>"

definition sample_tables :: "u64 \<Rightarrow> u64" where
  "sample_tables = (\<lambda>_. 0)(0x1000 := 0x2007, 0x2000 := 0x3007, 0x3010 := 0x4007, 0x4000 := 0x5007)"

lemma sample_kuser [simp]:
  "bitmap (pmm (sample_kuser m)) = 3 # replicate 15 0" "pml4 (sample_kuser m) = frame 1" "phys (sample_kuser m) = m"
  "length (gdt (sample_kuser m)) = 6" "umem (sample_kuser m) = (\<lambda>_. 0)"
  "processes (sample_kuser m) = processes sample_kproc" "current_process_index (sample_kuser m) = 0"
  by (simp_all add: sample_kuser_def kpage.defs sample_kpage_def kkbd.defs frame_def sample_kkbd_def kpipe.defs
      sample_kpipe_def kdev.defs sample_kdev_def kproc.defs) (simp add: sample_kproc_def boot_kproc_def init_processes_def)

lemma sample_procs: "length (processes sample_kproc) = 64"
  by (simp add: sample_kproc_def)

lemma sample_frames: "k < 128 \<Longrightarrow> page_used (3 # replicate 15 0) k \<longleftrightarrow> k < 2"
proof -
  assume "k < 128"
  then have "k div 8 < 16" by simp
  show "page_used (3 # replicate 15 0) k \<longleftrightarrow> k < 2"
  proof (cases "k < 8")
    case True
    then have "k \<in> {0, 1, 2, 3, 4, 5, 6, 7}" by auto
    then show ?thesis by (auto simp: page_used_def)
  next
    case False
    then have "0 < k div 8" by (simp add: div_greater_zero_iff)
    then show ?thesis using \<open>k div 8 < 16\<close> False by (simp add: page_used_def nth_Cons')
  qed
qed

lemma sample_kuser_ok: "pages_ok D (sample_kuser (\<lambda>_. 0))"
proof -
  have "bitmap_ok (3 # replicate 15 0)" using sample_frames [of 0] by (simp add: bitmap_ok_def)
  then show ?thesis
    using sample_frames [of 1]
    by (auto simp: tables_ok_def sample_walk used_frame_def intro!: exI [of _ 1] split: if_splits)
qed

lemma sample_free: "66 < free_count (3 # replicate 15 0)"
proof -
  have "{2..<128} \<subseteq> {k. k < 8 * length (3 # replicate 15 (0 :: u8)) \<and> \<not> page_used (3 # replicate 15 0) k}"
    using sample_frames by auto
  from card_mono [OF _ this] show ?thesis by (simp add: free_count_def)
qed

lemma sample_user_page: "validate_page 0x400000 2 (sample_kuser sample_tables)"
  by (simp add: validate_page_def paging_get_physical_address_def paging_walk_lookup upper_path_def tbl_next_def
      pml4_index_def pdpt_index_def pd_index_def pt_index_def entry_addr_def frame_def sample_tables_def ADDR_MASK_def)

lemma sample_create:
  obtains u s1 where "paging_create_user_address_space (sample_kuser (\<lambda>_. 0)) = (u, s1)" "u \<noteq> 0"
    "66 \<le> free_count (bitmap (pmm s1))"
proof -
  let ?s = "sample_kuser (\<lambda>_. 0)"
  obtain u s1 where c: "paging_create_user_address_space ?s = (u, s1)" by fastforce
  have k: "first_free (bitmap (pmm ?s)) = Some 2"
    using sample_frames by (auto simp: first_free_def find_index_upt simp del: upt_rec_numeral)
  obtain t where al: "pmm_alloc_page ?s = (frame 2, t)" using k by (simp add: pmm_alloc_page_eq)
  have "frame 2 \<noteq> 0" by (simp add: frame_0_iff)
  then have "u \<noteq> 0" "bitmap (pmm s1) = bitmap (pmm t)"
    using c al by (auto simp: paging_create_user_address_space_def Let_def simp del: upt_rec_numeral)
  then show thesis
    using that [OF c] pmm_alloc_page_ok(5) [OF sample_kuser_ok [of UNIV] k al] sample_free by simp
qed

text \<open>The sample program is found, read and loaded.\<close>

abbreviation sample_elf :: fs_file where
  "sample_elf \<equiv> opened (dir_entry (sect ram sample_volume 3) 0) (fsi sample_volume)"

lemma sample_open: "fs_open ram ''/A.ELF'' zero_file sample_volume = Some (FS_SUCCESS, sample_elf)"
  using fs_open_find [OF reliable_ram sample_geometry(1), of "''/A.ELF''" zero_file] sample_root sample_path by simp

lemma sample_opened_ok: "file_ok ram sample_volume sample_elf [2]"
  using sample_geometry sample_size(3) by (simp add: file_ok_def cluster_ok_def sample_fat sample_opened)

lemma sample_contents: "contents ram sample_volume sample_elf [2] =
    [0x7F, 0x45, 0x4C, 0x46, 2] @ replicate 11 0 @ [2] @ replicate 9 0 @ [0x40] @ replicate 37 0"
proof -
  have "cluster_sectors ram sample_volume 2 = [sect ram sample_volume 2]"
    using sample_lba(2) by (simp add: cluster_sectors_def) (simp add: fat32_cluster_to_lba_def sample_volume_def zero_fs_info_def)
  then have "contents ram sample_volume sample_elf [2] = take 64 (sect ram sample_volume 2)"
    by (simp add: contents_def file_bytes_def sample_opened)
  then show ?thesis by (simp add: sect_def ram_def sample_volume_def)
qed

lemma sample_load: "\<exists>s'. usermode_load_program ram sample_volume zero_file 0 ''/A.ELF'' (sample_kuser (\<lambda>_. 0)) = Some (True, s')"
proof -
  let ?s = "sample_kuser (\<lambda>_. 0)" and ?bs = "contents ram sample_volume sample_elf [2]"
  obtain u s1 where c: "paging_create_user_address_space ?s = (u, s1)" and u: "u \<noteq> 0" and fr: "66 \<le> free_count (bitmap (pmm s1))" by (rule sample_create)
  note c' = create_user_space_ok [OF sample_kuser_ok [of UNIV] c u]
  have sep: "separate UNIV (pml4 s1) {..<256} (s1\<lparr>pml4 := u\<rparr>)" using c'(1,3) by simp
  let ?s1 = "upd_proc 0 (\<lambda>p. p\<lparr>p_page_directory := u\<rparr>) s1"
  have f1: "phys ?s1 = phys s1" "pmm ?s1 = pmm s1" "pml4 ?s1 = pml4 s1" by (simp_all add: upd_proc_def)
  have sep1: "separate UNIV (pml4 ?s1) {..<256} (?s1\<lparr>pml4 := u\<rparr>)" using sep by (simp add: separate_def is_table_def f1)
  have low: "\<forall>a \<in> set stack_addresses. a \<in> vaddrs {..<256} \<and> a < KERNEL_BASE" using stack_addresses_low by blast
  have new: "\<forall>a \<in> set stack_addresses. walk (phys ?s1) u (path_of a) = None"
    using c'(4) [OF index_bound(1)] stack_addresses_low by (auto simp: f1 path_of_def vaddrs_def simp del: walk.simps)
  have dist: "distinct (map path_of stack_addresses)" 
    by (simp add: stack_addresses_def upt_conv_Cons path_of_def pml4_index_def pdpt_index_def pd_index_def pt_index_def)
  have free: "4 * length stack_addresses \<le> free_count (bitmap (pmm ?s1))" using fr by (simp add: f1 stack_addresses_def)
  obtain s2 where st: "alloc_stack u stack_addresses ?s1 = Some (True, s2)"
    using alloc_stack_succeeds [OF sep1 low new dist free] by blast
  have rd: "fs_read ram sample_elf 64 sample_volume = Some (64, ?bs, sample_elf\<lparr>f_position := 64\<rparr>)"
    using fs_read_ok [OF reliable_ram sample_opened_ok, of 64] by (simp add: sample_opened sample_contents)
  have "elf_error ?bs = None" "le16 ?bs 56 = 0" by (simp_all add: elf_error_None sample_contents le16_def nth_append)
  then show ?thesis using sample_open rd c u st by (simp add: usermode_load_program_def load_image_def)
qed

section \<open>Properties\<close>



text \<open>
  The hole in it: a size so large that the range wraps around to below the first page is accepted without
  any page being looked at, whatever is mapped.
\<close>

theorem usermode_validate_pointer_wraps:
  assumes "USER_BASE \<le> ptr" "ptr < USER_STACK_TOP" "2 ^ 64 < unat ptr + unat sz"
    "unat ptr + unat sz \<le> 2 ^ 64 + unat (page_align ptr)"
  shows "usermode_validate_pointer ptr sz f s = Some True"
  using assms by (rule validate_pointer_wraps)

theorem usermode_validate_pointer_wraps_witness:
  "usermode_validate_pointer 0x400010 0xFFFFFFFFFFFFFFF0 2 (sample_kuser (\<lambda>_. 0)) = Some True"
  by (rule usermode_validate_pointer_wraps) (simp_all add: page_align_def)

text \<open>C35: 
  Round trip: what \<open>usermode_copy_to_user\<close> has accepted, \<open>usermode_copy_from_user\<close> reads back from the same
  address, and no byte outside the range has changed. A refused copy changes nothing.
\<close>

theorem copy_to_user_read_back:
  assumes "usermode_copy_to_user dst src s = Some (ok, s')" "src \<noteq> []" "unat dst + length src + 4096 < 2 ^ 64"
  shows "(if ok then usermode_copy_from_user dst (of_nat (length src)) s' = Some (Some src) else s' = s) \<and>
    (\<forall>a. unat a < unat dst \<or> unat dst + length src \<le> unat a \<longrightarrow> umem s' a = umem s a)"
proof -
  let ?n = "of_nat (length src) :: u64"
  have n: "unat ?n = length src" "?n \<noteq> 0"
  proof -
    show u: "unat ?n = length src" using assms(3) by (simp only: unat_of_nat) (simp add: take_bit_nat_eq_self)
    show "?n \<noteq> 0" using u assms(2) by (metis length_0_conv unat_0)
  qed
  have fits: "unat dst + unat ?n + 4096 < 2 ^ 64" using assms(3) n(1) by simp
  note exact = validate_pointer_exact [OF n(2) fits]
  show ?thesis
  proof (cases ok)
    case False
    then show ?thesis using assms(1) by (auto simp: usermode_copy_to_user_def split: bind_splits if_splits)
  next
    case True
    then have v: "usermode_validate_pointer dst ?n 2 s = Some True" and s': "s' = s\<lparr>umem := store_bytes dst src (umem s)\<rparr>"
      using assms(1) by (auto simp: usermode_copy_to_user_def split: bind_splits if_splits)
    have "usermode_validate_pointer dst ?n 0 s' = Some True"
      using v unfolding exact s' validate_page_umem by (auto intro: validate_page_weaken)
    then have "usermode_copy_from_user dst ?n s' = Some (Some src)"
      using load_store [of src dst "umem s"] n(1) fits by (simp add: usermode_copy_from_user_def s')
    moreover have "umem s' a = umem s a" if "unat a < unat dst \<or> unat dst + length src \<le> unat a" for a
    proof -
      have "\<not> unat (a - dst) < length src"
      proof (cases "dst \<le> a")
        case True
        then show ?thesis using that by (auto simp: unat_sub word_le_nat_alt)
      next
        case False
        then have "unat (a - dst) = 2 ^ 64 + unat a - unat dst"
          by (simp add: unat_sub_if_size word_size word_le_nat_alt)
        then show ?thesis using assms(3) by simp
      qed
      then show ?thesis using assms(3) by (simp add: s' store_bytes_at)
    qed
    ultimately show ?thesis using True by simp
  qed
qed

theorem copy_to_user_read_back_witness:
  "\<exists>s'. usermode_copy_to_user 0x400010 [1, 2, 3] (sample_kuser sample_tables) = Some (True, s') \<and>
    usermode_copy_from_user 0x400010 3 s' = Some (Some [1, 2, 3])"
proof -
  have "page_align a = 0x400000" if "0x400010 \<le> a" "unat a < 0x400013" for a
  proof -
    have "unat a div 4096 = 1024" using that by (simp add: word_le_nat_alt)
    then show ?thesis by (simp add: word_unat_eq_iff unat_page_align)
  qed
  then have "usermode_validate_pointer 0x400010 3 2 (sample_kuser sample_tables) = Some True"
    using validate_pointer_exact [of 3 "0x400010" 2 "sample_kuser sample_tables"] sample_user_page by simp
  then have "\<exists>s'. usermode_copy_to_user 0x400010 [1, 2, 3] (sample_kuser sample_tables) = Some (True, s')"
    by (simp add: usermode_copy_to_user_def)
  then obtain s' where r: "usermode_copy_to_user 0x400010 [1, 2, 3] (sample_kuser sample_tables) = Some (True, s')" by blast
  show ?thesis using copy_to_user_read_back [OF r] r by simp
qed

text \<open>
  The check looks at the wrong tables: a page mapped in a user address space, and not in the kernel's own
  tables, is refused, because \<open>paging_walk\<close> starts at the kernel's \<open>pml4\<close> in every address space.
\<close>

theorem user_pages_refused:
  assumes "pages_ok E s" "paging_create_user_address_space s = (u, s1)" "u \<noteq> 0"
    and "v \<in> vaddrs {..<256}" "v < KERNEL_BASE" "flags AND ADDR_MASK = 0"
    and "paging_alloc_user_page u v flags s1 = Some (r, s2)"
    and "pml4_index v \<in> E" "translate v s = None" "sz \<noteq> 0" "unat v + unat sz + 4096 < 2 ^ 64"
  shows "usermode_validate_pointer v sz f (paging_switch_address_space u s2) = Some False"
proof -
  note c = create_user_space_ok [OF assms(1-3)]
  have sep: "separate E (pml4 s1) {..<256} (s1\<lparr>pml4 := u\<rparr>)" using c(1,3) by simp
  have "\<forall>ks. good_path E ks \<and> length ks \<le> 4 \<longrightarrow> swalk s2 ks = swalk s1 ks"
    using alloc_user_page_ok [OF sep assms(4-6)] assms(7) by auto
  then have "translate v s2 = None"
    using c(2) [OF good_path_of [OF assms(8)]] good_path_of [OF assms(8)] assms(9) by (simp add: translate_def)
  then have "translate (page_align v) (paging_switch_address_space u s2) = None"
    by (simp add: translate_def paging_switch_address_space_def)
  then have "\<not> validate_page (page_align v) f (paging_switch_address_space u s2)" by (rule validate_page_unmapped)
  moreover have "v \<le> v \<and> unat v < unat v + unat sz" using assms(10) by (simp add: unat_gt_0)
  ultimately show ?thesis unfolding validate_pointer_exact [OF assms(10,11)] by blast
qed

theorem user_pages_refused_witness:
  "\<exists>u s1 r s2. paging_create_user_address_space (sample_kuser (\<lambda>_. 0)) = (u, s1) \<and>
    paging_alloc_user_page u USER_BASE PAGE_WRITABLE s1 = Some (r, s2) \<and>
    usermode_validate_pointer USER_BASE 8 0 (paging_switch_address_space u s2) = Some False"
proof -
  let ?s = "sample_kuser (\<lambda>_. 0)"
  obtain u s1 where c: "paging_create_user_address_space ?s = (u, s1)" and u: "u \<noteq> 0" by (rule sample_create)
  have v: "USER_BASE \<in> vaddrs {..<256}" "USER_BASE < KERNEL_BASE" "PAGE_WRITABLE AND ADDR_MASK = 0"
    by (simp_all add: vaddrs_def page_align_def pml4_index_def ADDR_MASK_def)
  have "separate UNIV (pml4 s1) {..<256} (s1\<lparr>pml4 := u\<rparr>)"
    using create_user_space_ok(1,3) [OF sample_kuser_ok c u] by simp
  from alloc_user_page_ok [OF this v] obtain r s2 where a: "paging_alloc_user_page u USER_BASE PAGE_WRITABLE s1 = Some (r, s2)" by blast
  have "translate USER_BASE ?s = None" by (simp add: translate_def sample_walk path_of_def)
  then show ?thesis
    using user_pages_refused [OF sample_kuser_ok [of UNIV] c u v a, of 8 0] c a by auto
qed

text \<open>
  The stack of a loaded program: the loader maps the pages of the sixteen stack addresses, and only those.
  The page of \<open>USER_STACK_TOP\<close>, where the stack pointer starts, is not among them.
\<close>

theorem user_stack_pages:
  assumes "pages_ok E s" "paging_create_user_address_space s = (u, s1)" "u \<noteq> 0"
  shows "\<exists>ok s2. alloc_stack u stack_addresses s1 = Some (ok, s2) \<and>
    (\<forall>w. pml4_index w \<in> E \<longrightarrow> translate w s2 = translate w s) \<and>
    (ok \<longrightarrow> walk (phys s2) u (path_of USER_STACK_TOP) = None \<and>
      (\<forall>w \<in> vaddrs {..<256}. walk (phys s2) u (path_of w) \<noteq> None \<longleftrightarrow> (\<exists>a \<in> set stack_addresses. same_page a w)))"
proof -
  note c = create_user_space_ok [OF assms(1-3)]
  have sep: "separate E (pml4 s1) {..<256} (s1\<lparr>pml4 := u\<rparr>)" using c(1,3) by simp
  have low: "\<forall>a \<in> set stack_addresses. a \<in> vaddrs {..<256} \<and> a < KERNEL_BASE" using stack_addresses_low by blast
  obtain ok s2 where run: "alloc_stack u stack_addresses s1 = Some (ok, s2)"
    and st: "pml4 s2 = pml4 s1" "\<forall>ks. good_path E ks \<and> length ks \<le> 4 \<longrightarrow> swalk s2 ks = swalk s1 ks"
    "ok \<longrightarrow> (\<forall>w \<in> vaddrs {..<256}. walk (phys s2) u (path_of w) \<noteq> None \<longleftrightarrow>
       walk (phys s1) u (path_of w) \<noteq> None \<or> (\<exists>a \<in> set stack_addresses. same_page a w))"
    using alloc_stack_ok [OF sep low] by blast
  have "walk (phys s1) u (path_of w) = None" if "w \<in> vaddrs {..<256}" for w
    using that c(4) [OF index_bound(1) [of w]] unfolding path_of_def by (simp only: vaddrs_def mem_Collect_eq lessThan_iff if_True)
  then have mapped: "walk (phys s2) u (path_of w) \<noteq> None \<longleftrightarrow> (\<exists>a \<in> set stack_addresses. same_page a w)"
    if ok "w \<in> vaddrs {..<256}" for w using st(3) that by simp
  have "USER_STACK_TOP \<in> vaddrs {..<256}" by (simp add: vaddrs_def pml4_index_def page_align_def)
  then have "ok \<longrightarrow> walk (phys s2) u (path_of USER_STACK_TOP) = None" using mapped stack_addresses_low by blast
  moreover have "translate w s2 = translate w s" if "pml4_index w \<in> E" for w
    using st(2) c(2) [OF good_path_of [OF that]] good_path_of [OF that] by (simp add: translate_def)
  ultimately show ?thesis using mapped run by blast
qed

theorem user_stack_pages_witness:
  "\<exists>u s1 ok s2. paging_create_user_address_space (sample_kuser (\<lambda>_. 0)) = (u, s1) \<and>
    alloc_stack u stack_addresses s1 = Some (ok, s2) \<and> translate KERNEL_BASE s2 = None"
proof -
  obtain u s1 where c: "paging_create_user_address_space (sample_kuser (\<lambda>_. 0)) = (u, s1)" "u \<noteq> 0" by (rule sample_create)
  have "translate KERNEL_BASE (sample_kuser (\<lambda>_. 0)) = None" by (simp add: translate_def sample_walk path_of_def)
  then show ?thesis using user_stack_pages [OF sample_kuser_ok [of UNIV] c] c by auto
qed

text \<open>
  The loader accepts only files with the header of a 64-bit executable: if it succeeds on an open file with the
  given contents, these have at least 64 bytes with the magic number, class and type, and the process
  starts at the entry point of the header, with a page directory and the stack pointer at \<open>USER_STACK_TOP\<close>.
  No other process changes.
\<close>

theorem load_program_accepts:
  assumes "reliable A" "fs_open A name f0 fs = Some (FS_SUCCESS, f)" "file_ok A fs f ks" "i < length (processes s)"
    and "usermode_load_program A fs f0 i name s = Some (ok, s')"
  shows "ok \<longrightarrow> (let bs = contents A fs f ks
     in 64 \<le> length bs \<and> take 4 bs = [0x7F, 0x45, 0x4C, 0x46] \<and> bs ! 4 = 2 \<and> bs ! 16 = 2 \<and>
       p_rip (p_registers (proc s' i)) = le64 bs 24 \<and> p_rsp (p_registers (proc s' i)) = USER_STACK_TOP \<and>
       p_page_directory (proc s' i) \<noteq> 0 \<and> (\<forall>j. j \<noteq> i \<longrightarrow> proc s' j = proc s j))"
proof
  assume ok
  let ?bs = "contents A fs f ks" and ?z = "unat (de_size (f_dirent f))"
  have p0: "f_position f = 0" using fs_open_position [OF assms(2)] .
  have len: "length ?bs = ?z" using length_contents [OF assms(1,3)] .
  have rd: "fs_read A f 64 fs = Some (int (min 64 ?z), take (min 64 ?z) ?bs, f\<lparr>f_position := of_nat (min 64 ?z)\<rparr>)"
    using fs_read_ok [OF assms(1,3), of 64] p0 by simp
  have z: "64 \<le> ?z" and e: "elf_error (take 64 ?bs) = None"
    and im: "load_image A fs i (take 64 ?bs) (f\<lparr>f_position := 64\<rparr>) s = Some (True, s')"
    using assms(2,5) \<open>ok\<close> rd by (auto simp: usermode_load_program_def split: if_splits option.splits)
  have nth: "take 64 ?bs ! k = ?bs ! k" if "k < 64" for k using that by simp
  have "take 4 ?bs = [?bs ! 0, ?bs ! 1, ?bs ! 2, ?bs ! 3]"
    using z len by (intro nth_equalityI) (auto simp: nth_Cons' less_Suc_eq numeral_eq_Suc)
  moreover have "le64 (take 64 ?bs) 24 = le64 ?bs 24" by (simp add: le64_def le32_def)
  ultimately show "let bs = ?bs
     in 64 \<le> length bs \<and> take 4 bs = [0x7F, 0x45, 0x4C, 0x46] \<and> bs ! 4 = 2 \<and> bs ! 16 = 2 \<and>
       p_rip (p_registers (proc s' i)) = le64 bs 24 \<and> p_rsp (p_registers (proc s' i)) = USER_STACK_TOP \<and>
       p_page_directory (proc s' i) \<noteq> 0 \<and> (\<forall>j. j \<noteq> i \<longrightarrow> proc s' j = proc s j)"
    using e z len load_image_success [OF im assms(4)] by (simp add: elf_error_None Let_def)
qed

theorem load_program_accepts_witness:
  "\<exists>s'. usermode_load_program ram sample_volume zero_file 0 ''/A.ELF'' (sample_kuser (\<lambda>_. 0)) = Some (True, s') \<and>
    p_rip (p_registers (proc s' 0)) = 0x400000 \<and> p_rsp (p_registers (proc s' 0)) = USER_STACK_TOP"
proof -
  obtain s' where run: "usermode_load_program ram sample_volume zero_file 0 ''/A.ELF'' (sample_kuser (\<lambda>_. 0)) = Some (True, s')"
    using sample_load by blast
  show ?thesis
    using load_program_accepts [OF reliable_ram sample_open sample_opened_ok _ run] run sample_contents sample_procs
    by (simp add: Let_def le64_def le32_def nth_append)
qed

text \<open>
  The segments \<open>gdt_init\<close> sets up: flat 4 GB segments with the privilege levels of the kernel (0) and of user mode (3),
  except that the code segment of the kernel has level 1: the bit for long mode is put into the access byte,
  where it is part of the privilege level.
\<close>

definition seg_base :: "gdt_entry \<Rightarrow> u32" where
  "seg_base e = ucast (ge_base_low e) OR push_bit 16 (ucast (ge_base_middle e)) OR push_bit 24 (ucast (ge_base_high e))"

definition seg_limit :: "gdt_entry \<Rightarrow> u32" where
  "seg_limit e = ucast (ge_limit_low e) OR push_bit 16 (ucast (ge_granularity e AND 0x0F))"

definition seg_dpl :: "gdt_entry \<Rightarrow> nat" where
  "seg_dpl e = unat (drop_bit 5 (ge_access e) AND 3)"

lemma seg_base_gate:
  "seg_base \<lparr>ge_limit_low = l, ge_base_low = ucast (b AND 0xFFFF), ge_base_middle = ucast (drop_bit 16 b AND 0xFF),
     ge_access = a, ge_granularity = g, ge_base_high = ucast (drop_bit 24 b AND 0xFF)\<rparr> = b"
proof -
  have *: "(0xFFFF :: u32) = mask 16" "(0xFF :: u32) = mask 8" by (simp_all add: mask_eq_exp_minus_1)
  have high: "n - 16 < 8" if "bit b n" "\<not> bit b (24 + (n - 24))" for n
    by (cases "24 \<le> n") (use that in auto)
  show ?thesis unfolding * seg_base_def by (intro bit_word_eqI) (auto simp: bit_simps intro: high)
qed

theorem gdt_init_segments:
  assumes "length (gdt s) = 6"
  shows "let g = gdt (gdt_init ga ta s)
    in map seg_base g = [0, 0, 0, 0, 0, ucast ta] \<and> map seg_limit g = [0, 0xFFFFF, 0xFFFFF, 0xFFFFF, 0xFFFFF, 104] \<and>
      map seg_dpl g = [0, 1, 0, 3, 3, 0]"
proof -
  obtain a b c d e f where g: "gdt s = [a, b, c, d, e, f]"
    using assms by (auto simp: numeral_eq_Suc length_Suc_conv)
  show ?thesis
    by (simp add: gdt_init_def gdt_set_tss_def gdt_set_gate_def g Let_def seg_base_gate) (simp add: seg_limit_def seg_dpl_def seg_base_def)
qed

theorem gdt_init_segments_witness:
  "map seg_dpl (gdt (gdt_init 0 0x10000 (sample_kuser (\<lambda>_. 0)))) = [0, 1, 0, 3, 3, 0]"
  using gdt_init_segments [of "sample_kuser (\<lambda>_. 0)" 0 "0x10000"] by (simp add: Let_def)

text \<open>
  Entering user mode takes the user's stack pointer from register \<open>r8\<close>, which no argument of the call is
  passed in: whatever stack the caller gave, the program runs with what \<open>r8\<close> held before. The kernel
  stack of the process goes into the task state segment.
\<close>

theorem usermode_enter_stack:
  assumes "get_current_process s = Some c" "usermode_enter old_r8 entry stack s = (fr, s')"
  shows "fr = Some \<lparr>jf_rip = entry, jf_cs = 0x1B, jf_rflags = 0x202, jf_rsp = old_r8, jf_ss = 0x23\<rparr> \<and>
    tss_rsp0 (ktss s') = p_stack (proc s c) + p_stack_size (proc s c) \<and>
    cr3 s' = (if p_page_directory (proc s c) \<noteq> 0 then p_page_directory (proc s c) else cr3 s) \<and> pml4 s' = pml4 s"
  using assms
  by (auto simp: usermode_enter_def usermode_jump_def tss_set_kernel_stack_def paging_switch_address_space_def Let_def)

theorem usermode_enter_stack_witness:
  "\<exists>fr s'. usermode_enter 7 0x400000 USER_STACK_TOP (sample_kuser (\<lambda>_. 0)) = (fr, s') \<and> map_option jf_rsp fr = Some 7"
proof -
  let ?s = "sample_kuser (\<lambda>_. 0)"
  have c: "get_current_process ?s = Some 0" by (simp add: get_current_process_def) (simp add: sample_kproc_def)
  obtain fr s' where run: "usermode_enter 7 0x400000 USER_STACK_TOP ?s = (fr, s')" by fastforce
  show ?thesis using usermode_enter_stack [OF c run] run by simp
qed

end
