(* ===== verification/Syscall.thy ===== *)
theory Syscall
  imports Usermode Signals
begin

text \<open>
  System calls, \<open>syscall.c\<close>, with the one function \<open>sys_kill\<close> that \<open>signals.c\<close> defines differently (the other
  system calls of that file are the same text). A user pointer is an address; a buffer of the kernel is the
  list of its bytes together with the block of the heap it lives in. What the calls rely on beyond the state
  is the record \<open>platform\<close>: the effect of an installed signal handler and the depth of calls (as in the
  scheduler), of the interrupts that end a wait for a key or a tick, the functions \<open>fs_mkdir\<close> and \<open>fs_unlink\<close>
  that the repository declares and does not define, and what an uninitialised local variable holds.
  \<^const>\<open>None\<close> is the result when a call does not return or runs into undefined behaviour.
\<close>

record 's platform =
  pf_handler :: "'s handler"
  pf_depth :: nat
  pf_irq :: "'s \<Rightarrow> 's option"
  pf_tick :: "'s \<Rightarrow> 's option"
  pf_mkdir :: "u8 list \<Rightarrow> 's \<Rightarrow> (int \<times> 's) option"
  pf_unlink :: "u8 list \<Rightarrow> 's \<Rightarrow> (int \<times> 's) option"
  pf_locals :: "u8 list"

type_synonym ('z) syscall = "'z kuser_scheme platform \<Rightarrow> 'z kuser_scheme \<Rightarrow> (u64 \<times> 'z kuser_scheme) option"

section \<open>Kernel buffers\<close>

definition kbuf_alloc :: "u64 \<Rightarrow> 'z kproc_scheme \<Rightarrow> (u64 \<times> 'z kproc_scheme) option" where
  "kbuf_alloc sz s = do { (p, h) \<leftarrow> kmalloc sz (kheap s); Some (p, s\<lparr>kheap := h\<rparr>) }"

definition kbuf_free :: "u64 \<Rightarrow> 'z kproc_scheme \<Rightarrow> 'z kproc_scheme option" where
  "kbuf_free p s = do { h \<leftarrow> kfree p (kheap s); Some (s\<lparr>kheap := h\<rparr>) }"

text \<open>Storing \<open>n\<close> bytes at \<open>p\<close> is defined when the block of \<open>p\<close> has so many.\<close>

definition kbuf_holds :: "u64 \<Rightarrow> nat \<Rightarrow> 'z kproc_scheme \<Rightarrow> bool" where
  "kbuf_holds p n s \<longleftrightarrow>
     (case mblocks (kheap s) (p - of_nat HEADER) of None \<Rightarrow> False | Some b \<Rightarrow> n \<le> unat (mb_size b))"

definition kbuf_store :: "u64 \<Rightarrow> nat \<Rightarrow> 'z kproc_scheme \<Rightarrow> unit option" where
  "kbuf_store p n s = (if kbuf_holds p n s then Some () else None)"

text \<open>\<open>strlen\<close> of a string in user memory.\<close>

partial_function (option) user_strlen :: "u64 \<Rightarrow> u64 \<Rightarrow> (u64 \<Rightarrow> u8) \<Rightarrow> u64 option" where
  "user_strlen str len m = (if m (str + len) \<noteq> 0 then user_strlen str (len + 1) m else Some len)"

section \<open>Processes\<close>

definition sys_exit :: "u64 \<Rightarrow> ('z) syscall" where
  "sys_exit status P s =
     (case get_current_process s of
        None \<Rightarrow> Some (0, s)
      | Some c \<Rightarrow>
          do { s1 \<leftarrow> exit_process (pf_handler P) (pf_depth P) (p_pid (proc s c)) status s;
               s2 \<leftarrow> schedule (pf_handler P) (pf_depth P) s1;
               Some (0, s2) })"

definition sys_fork :: "('z) syscall" where
  "sys_fork P s =
     (case get_current_process s of
        None \<Rightarrow> Some (- 1, s)
      | Some c \<Rightarrow>
          do { (child_pid, s1) \<leftarrow> create_process (p_name (proc s c)) 0 (p_pid (proc s c)) s;
               if child_pid = 0 then Some (- 1, s1)
               else (case get_process child_pid s1 of
                       None \<Rightarrow> Some (- 1, s1)
                     | Some child \<Rightarrow>
                         Some (child_pid, upd_proc child (\<lambda>p. p\<lparr>
                           p_registers := (p_registers (proc s1 c))\<lparr>p_rax := 0\<rparr>,
                           p_pending_signals := p_pending_signals (proc s1 c),
                           p_blocked_signals := p_blocked_signals (proc s1 c),
                           p_signal_actions := p_signal_actions (proc s1 c)\<rparr>) s1)) })"

definition sys_getpid :: "('z) syscall" where
  "sys_getpid P s = (case get_current_process s of Some c \<Rightarrow> Some (p_pid (proc s c), s) | None \<Rightarrow> Some (0, s))"

definition sys_getppid :: "('z) syscall" where
  "sys_getppid P s = (case get_current_process s of Some c \<Rightarrow> Some (p_parent_pid (proc s c), s) | None \<Rightarrow> Some (0, s))"

definition sys_sleep :: "u64 \<Rightarrow> ('z) syscall" where
  "sys_sleep milliseconds P s =
     do { s1 \<leftarrow> process_sleep (pf_handler P) (pf_depth P) (pf_tick P) (ucast milliseconds) s; Some (0, s1) }"

definition sys_exec :: "u64 \<Rightarrow> u64 \<Rightarrow> ('z) syscall" where
  "sys_exec path argv P s = Some (- 1, s)"

text \<open>The first pid below 64 that belongs to a zombie child of \<open>current\<close>.\<close>

definition zombie_child :: "u64 \<Rightarrow> 'z kproc_scheme \<Rightarrow> nat \<Rightarrow> bool" where
  "zombie_child pid s i \<longleftrightarrow>
     (case get_process (of_nat i) s of
        None \<Rightarrow> False
      | Some j \<Rightarrow> p_parent_pid (proc s j) = pid \<and> p_state (proc s j) = PROCESS_STATE_ZOMBIE)"

definition sys_wait :: "u64 \<Rightarrow> ('z) syscall" where
  "sys_wait status P s =
     (case get_current_process s of
        None \<Rightarrow> Some (- 1, s)
      | Some c \<Rightarrow>
          (case find (zombie_child (p_pid (proc s c)) s) [0..<MAX_PROCESSES] of
             Some i \<Rightarrow>
               if status \<noteq> 0 then
                 do { ok \<leftarrow> usermode_validate_pointer status 8 (ucast PAGE_WRITABLE) s;
                      if \<not> ok then Some (- 1, s)
                      else do { (ok', s1) \<leftarrow> usermode_copy_to_user status (replicate 8 0) s;
                                Some (if ok' then of_nat i else - 1, s1) } }
               else Some (of_nat i, s)
           | None \<Rightarrow>
               do { s1 \<leftarrow> schedule (pf_handler P) (pf_depth P) (block_process (p_pid (proc s c)) s);
                    Some (- 1, s1) }))"

definition sys_setpgid :: "u64 \<Rightarrow> u64 \<Rightarrow> ('z) syscall" where
  "sys_setpgid pid pgid P s =
     (if pid = 0 then
        (case get_current_process s of
           None \<Rightarrow> Some (- 1, s)
         | Some c \<Rightarrow> let (r, s1) = set_process_group (p_pid (proc s c)) pgid s in Some (of_int r, s1))
      else let (r, s1) = set_process_group pid pgid s in Some (of_int r, s1))"

definition sys_getpgid :: "u64 \<Rightarrow> ('z) syscall" where
  "sys_getpgid pid P s =
     (case (if pid = 0 then get_current_process s else get_process pid s) of
        None \<Rightarrow> Some (- 1, s)
      | Some i \<Rightarrow> Some (p_process_group (proc s i), s))"

definition sys_setsid :: "('z) syscall" where
  "sys_setsid P s = (let (r, s1) = create_session s in Some (of_int r, s1))"

definition sys_getsid :: "u64 \<Rightarrow> ('z) syscall" where
  "sys_getsid pid P s =
     (case (if pid = 0 then get_current_process s else get_process pid s) of
        None \<Rightarrow> Some (- 1, s)
      | Some i \<Rightarrow> Some (p_session_id (proc s i), s))"

section \<open>Reading and writing\<close>

text \<open>
  Standard input goes straight to the user's buffer, without a check of the pointer. The line is edited in the
  buffer; the interrupts waited for do not touch it.
\<close>

definition sys_read :: "u64 \<Rightarrow> u64 \<Rightarrow> u64 \<Rightarrow> ('z) syscall" where
  "sys_read fd buf cnt P s =
     (if pipe_get_by_fd fd s \<noteq> None then
        do { ok \<leftarrow> usermode_validate_pointer buf cnt (ucast PAGE_WRITABLE) s;
             if \<not> ok then Some (- 1, s)
             else do { (kbuf, s1) \<leftarrow> kbuf_alloc cnt s;
                       if kbuf = 0 then Some (- 1, s1)
                       else do { (bytes_read, bs, s2) \<leftarrow> pipe_read (pf_handler P) (pf_depth P) fd (unat cnt) s1;
                                 kbuf_store kbuf (length bs) s1;
                                 if bytes_read > 0
                                 then do { (ok', s3) \<leftarrow> usermode_copy_to_user buf bs s2;
                                           s4 \<leftarrow> kbuf_free kbuf s3;
                                           Some (if ok' then of_int bytes_read else - 1, s4) }
                                 else do { s3 \<leftarrow> kbuf_free kbuf s2; Some (of_int bytes_read, s3) } } } }
      else if fd = 0 then
        do { (read_count, str, s1) \<leftarrow> keyboard_read (pf_irq P)
               (bytes_to_string (load_bytes buf (unat cnt) (umem s))) (unat cnt) s;
             Some (of_int read_count, s1\<lparr>umem := store_bytes buf (map of_char str) (umem s1)\<rparr>) }
      else Some (- 1, s))"

definition sys_write :: "u64 \<Rightarrow> u64 \<Rightarrow> u64 \<Rightarrow> ('z) syscall" where
  "sys_write fd buf cnt P s =
     (if pipe_get_by_fd fd s \<noteq> None then
        do { ok \<leftarrow> usermode_validate_pointer buf cnt 0 s;
             if \<not> ok then Some (- 1, s)
             else do { (kbuf, s1) \<leftarrow> kbuf_alloc cnt s;
                       if kbuf = 0 then Some (- 1, s1)
                       else do { bytes \<leftarrow> usermode_copy_from_user buf cnt s1;
                                 (case bytes of
                                    None \<Rightarrow> do { s2 \<leftarrow> kbuf_free kbuf s1; Some (- 1, s2) }
                                  | Some bs \<Rightarrow>
                                      do { kbuf_store kbuf (length bs) s1;
                                           (bytes_written, s2) \<leftarrow> pipe_write (pf_handler P) (pf_depth P) fd bs s1;
                                           s3 \<leftarrow> kbuf_free kbuf s2;
                                           Some (of_int bytes_written, s3) }) } } }
      else if fd = 1 \<or> fd = 2 then
        do { ok \<leftarrow> usermode_validate_pointer buf cnt 0 s;
             if \<not> ok then Some (- 1, s)
             else do { (kbuf, s1) \<leftarrow> kbuf_alloc (cnt + 1) s;
                       if kbuf = 0 then Some (- 1, s1)
                       else do { bytes \<leftarrow> usermode_copy_from_user buf cnt s1;
                                 (case bytes of
                                    None \<Rightarrow> do { s2 \<leftarrow> kbuf_free kbuf s1; Some (- 1, s2) }
                                  | Some bs \<Rightarrow>
                                      do { kbuf_store kbuf (length bs + 1) s1;
                                           s2 \<leftarrow> kbuf_free kbuf (kprint (bytes_to_string (bs @ [0])) s1);
                                           Some (cnt, s2) }) } } }
      else Some (- 1, s))"

definition sys_open :: "u64 \<Rightarrow> u64 \<Rightarrow> ('z) syscall" where
  "sys_open pathname flags P s = Some (- 1, s)"

definition sys_close :: "u64 \<Rightarrow> ('z) syscall" where
  "sys_close fd P s =
     (if pipe_get_by_fd fd s \<noteq> None then let (r, s1) = pipe_close fd s in Some (of_int r, s1)
      else Some (- 1, s))"

definition sys_dup :: "u64 \<Rightarrow> ('z) syscall" where
  "sys_dup oldfd P s = Some (- 1, s)"

definition sys_dup2 :: "u64 \<Rightarrow> u64 \<Rightarrow> ('z) syscall" where
  "sys_dup2 oldfd newfd P s = Some (- 1, s)"

text \<open>The bytes of a 64-bit word in memory, and of a 32-bit word.\<close>

definition le_bytes :: "nat \<Rightarrow> u64 \<Rightarrow> u8 list" where
  "le_bytes n w = map (\<lambda>i. ucast (drop_bit (8 * i) w)) [0..<n]"

definition sys_pipe :: "u64 \<Rightarrow> ('z) syscall" where
  "sys_pipe fds P s =
     do { ok \<leftarrow> usermode_validate_pointer fds 16 (ucast PAGE_WRITABLE) s;
          if \<not> ok then Some (- 1, s)
          else (case pipe_create s of
                  (result, None, s1) \<Rightarrow> Some (- 1, s1)
                | (result, Some (read_fd, write_fd), s1) \<Rightarrow>
                    do { (ok1, s2) \<leftarrow> usermode_copy_to_user fds (le_bytes 8 read_fd) s1;
                         (ok2, s3) \<leftarrow> (if ok1 then usermode_copy_to_user (fds + 8) (le_bytes 8 write_fd) s2
                                       else Some (False, s2));
                         if ok2 then Some (0, s3)
                         else Some (- 1, snd (pipe_close write_fd (snd (pipe_close read_fd s3)))) }) }"

section \<open>Directories\<close>

text \<open>\<open>sys_mkdir\<close> and \<open>sys_rmdir\<close> differ in the function of the file system they call.\<close>

definition path_call :: "(u8 list \<Rightarrow> 'z kuser_scheme \<Rightarrow> (int \<times> 'z kuser_scheme) option) \<Rightarrow> u64 \<Rightarrow> 'z kuser_scheme \<Rightarrow>
    (u64 \<times> 'z kuser_scheme) option" where
  "path_call fs_op pathname s =
     do { len \<leftarrow> user_strlen pathname 0 (umem s);
          ok \<leftarrow> usermode_validate_pointer pathname (len + 1) 0 s;
          if \<not> ok then Some (- 1, s)
          else do { (kpath, s1) \<leftarrow> kbuf_alloc (len + 1) s;
                    if kpath = 0 then Some (- 1, s1)
                    else do { bytes \<leftarrow> usermode_copy_from_user pathname (len + 1) s1;
                              (case bytes of
                                 None \<Rightarrow> do { s2 \<leftarrow> kbuf_free kpath s1; Some (- 1, s2) }
                               | Some bs \<Rightarrow>
                                   do { kbuf_store kpath (length bs) s1;
                                        (result, s2) \<leftarrow> fs_op bs s1;
                                        s3 \<leftarrow> kbuf_free kpath s2;
                                        Some (of_int result, s3) }) } } }"

definition sys_mkdir :: "u64 \<Rightarrow> u64 \<Rightarrow> ('z) syscall" where
  "sys_mkdir pathname mode P s = path_call (pf_mkdir P) pathname s"

definition sys_rmdir :: "u64 \<Rightarrow> ('z) syscall" where
  "sys_rmdir pathname P s = path_call (pf_unlink P) pathname s"

section \<open>Signals\<close>

text \<open>The loop of \<open>sys_kill\<close> for pid \<open>-1\<close>, over the pids below 64.\<close>

fun kill_all_loop ::
  "'z kproc_scheme handler \<Rightarrow> nat \<Rightarrow> int \<Rightarrow> nat list \<Rightarrow> int \<Rightarrow> 'z kproc_scheme \<Rightarrow> (int \<times> 'z kproc_scheme) option" where
  "kill_all_loop H n signum [] sent s = Some (sent, s)"
| "kill_all_loop H n signum (i # is) sent s =
     (case get_process (of_nat i) s of
        None \<Rightarrow> kill_all_loop H n signum is sent s
      | Some j \<Rightarrow>
          if p_pid (proc s j) \<noteq> 0
          then do { (r, s1) \<leftarrow> signal_send H n (Some j) signum s;
                    kill_all_loop H n signum is (if r = 0 then sent + 1 else sent) s1 }
          else kill_all_loop H n signum is sent s)"

text \<open>The comparison \<open>pid < -1\<close> is one of unsigned numbers.\<close>

definition sys_kill :: "u64 \<Rightarrow> u64 \<Rightarrow> ('z) syscall" where
  "sys_kill pid signum P s =
     (if signum \<ge> of_nat MAX_SIGNALS then Some (- 1, s)
      else if pid = 0 then
        (case get_current_process s of
           None \<Rightarrow> Some (- 1, s)
         | Some c \<Rightarrow>
             do { (r, s1) \<leftarrow> send_signal_to_process_group (pf_handler P) (pf_depth P) (p_process_group (proc s c))
                    (u64_to_int signum) s;
                  Some (of_int r, s1) })
      else if pid < - 1 then
        do { (r, s1) \<leftarrow> send_signal_to_process_group (pf_handler P) (pf_depth P) (- pid) (u64_to_int signum) s;
             Some (of_int r, s1) }
      else if pid = - 1 then
        do { (sent, s1) \<leftarrow> kill_all_loop (pf_handler P) (pf_depth P) (u64_to_int signum) [0..<MAX_PROCESSES] 0 s;
             Some (of_int sent, s1) }
      else (case get_process pid s of
              None \<Rightarrow> Some (- 1, s)
            | Some i \<Rightarrow>
                do { (r, s1) \<leftarrow> signal_send (pf_handler P) (pf_depth P) (Some i) (u64_to_int signum) s;
                     Some (of_int r, s1) }))"

text \<open>The version of \<open>signals.c\<close>.\<close>

definition sys_kill_signals :: "u64 \<Rightarrow> u64 \<Rightarrow> ('z) syscall" where
  "sys_kill_signals pid signum P s =
     (if signum \<ge> of_nat MAX_SIGNALS then Some (- 1, s)
      else case get_process pid s of
             None \<Rightarrow> Some (- 1, s)
           | Some i \<Rightarrow>
               do { (r, s1) \<leftarrow> signal_send (pf_handler P) (pf_depth P) (Some i) (u64_to_int signum) s;
                    Some (of_int r, s1) })"

definition sys_signal :: "u64 \<Rightarrow> u64 \<Rightarrow> ('z) syscall" where
  "sys_signal signum handler P s =
     (if signum \<ge> of_nat MAX_SIGNALS then Some (- 1, s)
      else let (r, s1) = signal_set_handler (u64_to_int signum) handler s in Some (of_int r, s1))"

text \<open>A \<open>signal_action_t\<close> in memory: 8 bytes, 4 bytes, 4 bytes of padding, 8 bytes.\<close>

definition action_of_bytes :: "u8 list \<Rightarrow> signal_action" where
  "action_of_bytes b = \<lparr>sa_handler = le64 b 0, sa_flags = le32 b 8, sa_mask = le64 b 16\<rparr>"

definition bytes_of_action :: "u8 list \<Rightarrow> signal_action \<Rightarrow> u8 list" where
  "bytes_of_action pad a = le_bytes 8 (sa_handler a) @ le_bytes 4 (ucast (sa_flags a)) @ take 4 (drop 12 pad) @
     le_bytes 8 (sa_mask a)"

definition sys_sigaction :: "u64 \<Rightarrow> u64 \<Rightarrow> u64 \<Rightarrow> ('z) syscall" where
  "sys_sigaction signum act_ptr oldact_ptr P s =
     (if signum \<ge> of_nat MAX_SIGNALS then Some (- 1, s)
      else do { act \<leftarrow> (if act_ptr \<noteq> 0
                  then do { ok \<leftarrow> usermode_validate_pointer act_ptr 24 0 s;
                            if ok then usermode_copy_from_user act_ptr 24 s else Some None }
                  else Some (Some []));
                (case act of
                   None \<Rightarrow> Some (- 1, s)
                 | Some bs \<Rightarrow>
                     (case signal_set_action (u64_to_int signum)
                             (if act_ptr \<noteq> 0 then Some (action_of_bytes bs) else None) (oldact_ptr \<noteq> 0) s of
                        (result, old, s1) \<Rightarrow>
                          let oldact = (case old of None \<Rightarrow> pf_locals P | Some a \<Rightarrow> bytes_of_action (pf_locals P) a)
                          in if oldact_ptr \<noteq> 0
                             then do { ok \<leftarrow> usermode_validate_pointer oldact_ptr 24 (ucast PAGE_WRITABLE) s1;
                                       if \<not> ok then Some (- 1, s1)
                                       else do { (ok', s2) \<leftarrow> usermode_copy_to_user oldact_ptr (take 24 oldact) s1;
                                                 Some (if ok' then of_int result else - 1, s2) } }
                             else Some (of_int result, s1))) })"

definition sys_sigprocmask :: "u64 \<Rightarrow> u64 \<Rightarrow> u64 \<Rightarrow> ('z) syscall" where
  "sys_sigprocmask how set_ptr oldset_ptr P s =
     do { st \<leftarrow> (if set_ptr \<noteq> 0
             then do { ok \<leftarrow> usermode_validate_pointer set_ptr 8 0 s;
                       if ok then usermode_copy_from_user set_ptr 8 s else Some None }
             else Some (Some []));
          (case st of
             None \<Rightarrow> Some (- 1, s)
           | Some bs \<Rightarrow>
               (case signal_proc_mask (u64_to_int how) (if set_ptr \<noteq> 0 then Some (le64 bs 0) else None)
                       (oldset_ptr \<noteq> 0) s of
                  (result, old, s1) \<Rightarrow>
                    let oldset = (case old of None \<Rightarrow> take 8 (pf_locals P) | Some m \<Rightarrow> le_bytes 8 m)
                    in if oldset_ptr \<noteq> 0
                       then do { ok \<leftarrow> usermode_validate_pointer oldset_ptr 8 (ucast PAGE_WRITABLE) s1;
                                 if \<not> ok then Some (- 1, s1)
                                 else do { (ok', s2) \<leftarrow> usermode_copy_to_user oldset_ptr oldset s1;
                                           Some (if ok' then of_int result else - 1, s2) } }
                       else Some (of_int result, s1))) }"

definition sys_sigpending :: "u64 \<Rightarrow> ('z) syscall" where
  "sys_sigpending set_ptr P s =
     (if set_ptr = 0 then Some (- 1, s)
      else do { ok \<leftarrow> usermode_validate_pointer set_ptr 8 (ucast PAGE_WRITABLE) s;
                if \<not> ok then Some (- 1, s)
                else (case get_current_process s of
                        None \<Rightarrow> Some (- 1, s)
                      | Some c \<Rightarrow>
                          do { (ok', s1) \<leftarrow> usermode_copy_to_user set_ptr (le_bytes 8 (p_pending_signals (proc s c))) s;
                               Some (if ok' then 0 else - 1, s1) }) })"

definition sys_sigsuspend :: "u64 \<Rightarrow> ('z) syscall" where
  "sys_sigsuspend mask_ptr P s =
     (if mask_ptr = 0 then Some (- 1, s)
      else do { ok \<leftarrow> usermode_validate_pointer mask_ptr 8 0 s;
                if \<not> ok then Some (- 1, s)
                else (case get_current_process s of
                        None \<Rightarrow> Some (- 1, s)
                      | Some c \<Rightarrow>
                          do { bytes \<leftarrow> usermode_copy_from_user mask_ptr 8 s;
                               (case bytes of
                                  None \<Rightarrow> Some (- 1, s)
                                | Some bs \<Rightarrow> sigsuspend_core (pf_handler P) (pf_depth P) (le64 bs 0) c s) }) })"

section \<open>Dispatch\<close>

text \<open>The table: what the entry of a number does with the argument registers; \<^const>\<open>None\<close> for a null entry.\<close>

definition syscall_table :: "nat \<Rightarrow> (u64 \<Rightarrow> u64 \<Rightarrow> u64 \<Rightarrow> ('z) syscall) option" where
  "syscall_table n =
     (if n = 1 then Some (\<lambda>a b c. sys_exit a)
      else if n = 2 then Some (\<lambda>a b c. sys_fork)
      else if n = 3 then Some (\<lambda>a b c. sys_read a b c)
      else if n = 4 then Some (\<lambda>a b c. sys_write a b c)
      else if n = 5 then Some (\<lambda>a b c. sys_open a b)
      else if n = 6 then Some (\<lambda>a b c. sys_close a)
      else if n = 7 then Some (\<lambda>a b c. sys_sleep a)
      else if n = 8 then Some (\<lambda>a b c. sys_getpid)
      else if n = 9 then Some (\<lambda>a b c. sys_exec a b)
      else if n = 10 then Some (\<lambda>a b c. sys_getppid)
      else if n = 11 then Some (\<lambda>a b c. sys_pipe a)
      else if n = 12 then Some (\<lambda>a b c. sys_dup a)
      else if n = 13 then Some (\<lambda>a b c. sys_dup2 a b)
      else if n = 14 then Some (\<lambda>a b c. sys_mkdir a b)
      else if n = 15 then Some (\<lambda>a b c. sys_rmdir a)
      else if n = 16 then Some (\<lambda>a b c. sys_wait a)
      else if n = 17 then Some (\<lambda>a b c. sys_kill a b)
      else if n = 18 then Some (\<lambda>a b c. sys_signal a b)
      else if n = 19 then Some (\<lambda>a b c. sys_sigaction a b c)
      else if n = 20 then Some (\<lambda>a b c. sys_sigprocmask a b c)
      else if n = 21 then Some (\<lambda>a b c. sys_sigpending a)
      else if n = 22 then Some (\<lambda>a b c. sys_sigsuspend a)
      else if n = 23 then Some (\<lambda>a b c. sys_setpgid a b)
      else if n = 24 then Some (\<lambda>a b c. sys_getpgid a)
      else if n = 25 then Some (\<lambda>a b c. sys_setsid)
      else if n = 26 then Some (\<lambda>a b c. sys_getsid a)
      else None)"

definition syscall_handler ::
  "'z kuser_scheme platform \<Rightarrow> isr_registers \<Rightarrow> 'z kuser_scheme \<Rightarrow> (isr_registers \<times> 'z kuser_scheme) option" where
  "syscall_handler P regs s =
     (case (if rax regs \<ge> 64 then None else syscall_table (unat (rax regs))) of
        None \<Rightarrow> Some (regs, kprint [NL] (kprint_int (rax regs)
                  (kprint ''Hata: Gecersiz sistem cagrisi numarasi: '' s)))
      | Some func \<Rightarrow>
          do { (result, s1) \<leftarrow> func (rdi regs) (rsi regs) (rdx regs) P s;
               let regs1 = regs\<lparr>rax := result\<rparr>;
               (case get_current_process s1 of
                  None \<Rightarrow> Some (regs1, s1)
                | Some c \<Rightarrow> do { (_, s2) \<leftarrow> signal_handle_pending (pf_handler P) (pf_depth P) (Some c) s1;
                                 Some (regs1, s2) }) })"

definition init_syscalls :: "u64 \<Rightarrow> 'z kuser_scheme \<Rightarrow> 'z kuser_scheme" where
  "init_syscalls handler_addr s =
     (let s1 = s\<lparr>kidt := register_interrupt_handler 0x80 handler_addr (kidt s)\<rparr>;
          s2 = snd (pipe_init s1);
          s3 = snd (signal_init s2)
      in kprint (''Sistem cagrilari baslatildi.'' @ [NL]) s3)"

end
