(* ===== verification/Buffers.thy ===== *)
theory Buffers
  imports Syscall
begin

text \<open>
  Buffers of the kernel during a system call. A block of the heap that is allocated and is not the stack of a
  process stays so while other processes are scheduled, end and give back their stacks; so a system call
  can free its buffer when it is done, and the kernel's invariant holds again.
\<close>

section \<open>A block nobody else owns\<close>

lemma blocks_at_unique: "blocks_at m a bs \<Longrightarrow> blocks_at m a bs2 \<Longrightarrow> 0 < a \<Longrightarrow> a + extent bs < 2 ^ 64 \<Longrightarrow> a + extent bs2 < 2 ^ 64 \<Longrightarrow> bs = bs2"
proof (induction bs arbitrary: a bs2)
  case (Cons x bs)
  obtain n f where x: "x = (n, f)" by force
  obtain y bs2' where bs2: "bs2 = y # bs2'" using Cons.prems(2) by (cases bs2) auto
  obtain n' f' where y: "y = (n', f')" by force
  obtain b where b: "m (of_nat a) = Some b" using Cons.prems(1) by (auto simp: x split: option.splits)
  have nf: "n' = n" "f' = f" using Cons.prems(1,2) b by (auto simp: x bs2 y)
  have nz: "(of_nat (a + HEADER + n) :: u64) \<noteq> 0"
    if "a + HEADER + n < 2 ^ 64" using that unat_of_nat_u64 [OF that] Cons.prems(3) by (metis add_is_0 gr0I neq0_conv not_less_zero unsigned_0)
  show ?case
  proof (cases "bs = []"; cases "bs2' = []")
    assume "bs \<noteq> []" "bs2' \<noteq> []"
    then have "blocks_at m (a + HEADER + n) bs" "blocks_at m (a + HEADER + n) bs2'"
      using Cons.prems(1,2) b nf by (simp_all add: x bs2 y)
    then have "bs = bs2'" by (rule Cons.IH) (use Cons.prems(3-5) nf in \<open>simp_all add: x bs2 y\<close>)
    then show ?thesis using nf by (simp add: x bs2 y)
  qed (use Cons.prems b nf nz in \<open>auto simp: x bs2 y\<close>)
qed simp

lemma heap_rep_unique: "heap_rep h bs \<Longrightarrow> heap_rep h bs2 \<Longrightarrow> bs = bs2"
  unfolding heap_rep_def using blocks_at_unique [of "mblocks h" MEMORY_START bs bs2] by simp

definition owned :: "u64 \<Rightarrow> 'z kproc_scheme \<Rightarrow> bool" where
  "owned p s \<longleftrightarrow> p \<noteq> 0 \<and> p \<notin> set (map p_stack (processes s)) \<and>
     (\<exists>bs k. heap_rep (kheap s) bs \<and> (unat p, k) \<in> live_blocks bs)"

lemma owned_frame:
  "owned p s \<Longrightarrow> kheap s' = kheap s \<Longrightarrow> map p_stack (processes s') = map p_stack (processes s) \<Longrightarrow> owned p s'"
  by (simp add: owned_def)

lemma owned_upd_proc: "owned p s \<Longrightarrow> (\<And>q. p_stack (f q) = p_stack q) \<Longrightarrow> owned p (upd_proc i f s)"
  by (rule owned_frame) (simp_all add: processes_upd_proc map_upd_nth_same)

lemma owned_simps [simp]:
  "owned p (kprint m s) = owned p s" "owned p (kprint_int w s) = owned p s"
  "owned p (s\<lparr>current_process_index := c\<rparr>) = owned p s"
  by (simp_all add: owned_def)

lemma owned_free_stack:
  assumes inv: "kernel_inv s" and own: "owned p s" and i: "i < MAX_PROCESSES" and run: "free_stack i s = Some s'"
  shows "owned p s'"
proof (cases "p_stack (proc s i) = 0")
  case False
  obtain bs k where bs: "heap_rep (kheap s) bs" "(unat p, k) \<in> live_blocks bs" "p \<noteq> 0" "p \<notin> set (map p_stack (processes s))"
    using own by (auto simp: owned_def)
  obtain bs2 where bs2: "heap_rep (kheap s) bs2" "holds (live_blocks bs2) 4096 (map p_stack (processes s))"
    using inv by (auto simp: kernel_inv_def stacks_ok_def)
  have len: "i < length (processes s)" using kernel_invD(1) [OF inv] i by simp
  have "bs2 = bs" by (rule heap_rep_unique [OF bs2(1) bs(1)])
  then have "\<exists>l \<ge> 4096. (unat (p_stack (proc s i)), l) \<in> live_blocks bs"
    using bs2(2) False len unfolding holds_def by simp
  then obtain l where l: "(unat (p_stack (proc s i)), l) \<in> live_blocks bs" by blast
  obtain h' bs' where h': "kfree (p_stack (proc s i)) (kheap s) = Some h'" "heap_rep h' bs'"
    "live_blocks bs' = live_blocks bs - {(unat (p_stack (proc s i)), l)}"
    using kernel_heap.free_law [OF bs(1) l] by blast
  have "p \<noteq> p_stack (proc s i)" using bs(4) len by auto
  then have "unat p \<noteq> unat (p_stack (proc s i))" by (simp add: word_unat_eq_iff)
  then have "(unat p, k) \<in> live_blocks bs'" using bs(2) h'(3) by simp
  moreover have s': "s' = upd_proc i (\<lambda>p. p\<lparr>p_stack := 0\<rparr>) (s\<lparr>kheap := h'\<rparr>)"
    using run False h'(1) by (simp add: free_stack_def)
  moreover have "p \<notin> set (map p_stack (processes s'))"
  proof
    assume "p \<in> set (map p_stack (processes s'))"
    moreover have "map p_stack (processes s') = (map p_stack (processes s))[i := 0]"
      by (simp add: s' processes_upd_proc upd_nth_def map_update)
    ultimately have "p \<in> insert 0 (set (map p_stack (processes s)))"
      using set_update_subset_insert [of "map p_stack (processes s)" i 0] by auto
    then show False using bs(3,4) by simp
  qed
  ultimately show ?thesis using bs(3) h'(2) unfolding owned_def by auto
qed (use own run in \<open>simp add: free_stack_def\<close>)

lemma owned_notify: "owned p s \<Longrightarrow> owned p (notify_parent i s)"
  by (auto simp: notify_parent_def signal_add_pending_def intro!: owned_upd_proc split: option.split)

lemma owned_reparent: "owned p s \<Longrightarrow> owned p (reparent pid s)"
  by (rule owned_frame) (auto simp: reparent_def)

lemma owned_dispatch: "owned p s \<Longrightarrow> owned p (dispatch j s)"
  unfolding dispatch_def by (rule owned_upd_proc) simp_all

lemma owned_switch: "owned p s \<Longrightarrow> owned p (switch_to_process pid s)"
  by (auto simp: switch_to_process_def intro!: owned_upd_proc split: option.split)

lemma owned_block: "owned p s \<Longrightarrow> owned p (block_process pid s)"
  by (auto simp: block_process_def intro!: owned_upd_proc split: option.split)

lemma owned_unblock: "owned p s \<Longrightarrow> owned p (unblock_process pid s)"
  by (auto simp: unblock_process_def intro!: owned_upd_proc split: option.split)

lemma exit_process_owned:
  assumes inv: "kernel_inv s" and pid: "get_process pid s = Some i" and own: "owned p s"
  obtains t where "exit_process H (Suc n) pid code s = schedule H n t" "kernel_inv t" "owned p t"
proof -
  have i: "i < MAX_PROCESSES" using get_process_Some [OF pid] kernel_invD(1) [OF inv] by simp
  obtain s3 where s3: "free_stack i (notify_parent i s) = Some s3" "kernel_inv s3"
    using free_stack_ok [OF kernel_inv_notify [OF inv] i] by blast
  let ?t = "mark_zombie i code (reparent pid s3)"
  have "exit_process H (Suc n) pid code s = schedule H n ?t"
    using kernel_invD(3) [OF s3(2) i] unfolding exit_process_notify [OF inv pid] s3(1) by (simp add: free_signal_stack_def)
  moreover have "kernel_inv ?t"
    unfolding mark_zombie_def by (rule kernel_inv_upd_proc) (simp_all add: kernel_inv_reparent [OF s3(2)] benign_def)
  moreover have "owned p ?t"
    unfolding mark_zombie_def
    by (intro owned_upd_proc) (simp_all add: owned_reparent owned_free_stack [OF kernel_inv_notify [OF inv] owned_notify [OF own] i s3(1)])
  ultimately show thesis by (rule that)
qed

lemma schedule_owned:
  assumes H: "quiet_handler H" and "kernel_inv s" "owned p s" "schedule H n s = Some s'"
  shows "owned p s'"
  using assms(2-4)
proof (induction n arbitrary: s s' rule: less_induct)
  case (less n)
  obtain k where n: "n = Suc k" using less.prems(3) by (cases n) auto
  note cur = kernel_invD(2) [OF less.prems(1)]
  show ?case
  proof (cases "next_runnable (processes s) (current_process_index s)")
    case None
    with less.prems show ?thesis by (simp add: n schedule_next del: schedule.simps)
  next
    case (Some j)
    note j = next_runnable_Some [OF Some cur]
    let ?d = "dispatch j s"
    have d: "kernel_inv ?d" "owned p ?d"
      using kernel_inv_dispatch [OF less.prems(1) j(1)] owned_dispatch [OF less.prems(2)] .
    have len: "j < length (processes ?d)" using kernel_invD(1) [OF d(1)] j(1) by simp
    obtain r t where t: "signal_handle_pending H k (Some j) ?d = Some (r, t)"
      "s' = switch_to_process (p_pid (proc t (current_process_index t))) t"
      using less.prems(3) by (auto simp: n schedule_next Some bind_eq_Some_conv simp del: schedule.simps)
    have "owned p t"
    proof (cases rule: handle_pending_cases [OF len, of H k])
      case (1 m)
      then show ?thesis using t(1) owned_upd_proc [OF d(2)] by auto
    next
      case (2 m g)
      let ?u = "upd_proc j (\<lambda>p. p\<lparr>p_pending_signals := m\<rparr>) ?d"
      have u: "kernel_inv ?u" "owned p ?u" by (auto intro!: kernel_inv_upd_proc owned_upd_proc d simp: benign_def)
      have ex: "exit_process H k (p_pid (proc ?d j)) (128 + of_nat g) ?u = Some t" using 2 t(1) by (auto simp: bind_eq_Some_conv)
      then obtain l where k: "k = Suc l" by (cases k) auto
      have "p_pid (proc ?d j) \<noteq> 0" using j len by (simp add: dispatch_def proc_upd_proc runnable_def)
      then have "get_process (p_pid (proc ?u j)) ?u = Some j"
        using get_process_slot [OF u(1) j(1)] len by (simp add: proc_upd_proc)
      then have g: "get_process (p_pid (proc ?d j)) ?u = Some j" using len by (simp add: proc_upd_proc)
      obtain v where v: "exit_process H (Suc l) (p_pid (proc ?d j)) (128 + of_nat g) ?u = schedule H l v" "kernel_inv v" "owned p v"
        using exit_process_owned [OF u(1) g u(2)] by blast
      have "schedule H l v = Some t" using ex v(1) unfolding k by (simp only:)
      moreover have "l < n" by (simp add: n k)
      ultimately show ?thesis by (intro less.IH [of l v t] v(2,3))
    next
      case (3 m h g)
      let ?u = "upd_proc j (\<lambda>p. p\<lparr>p_pending_signals := m, p_handling_signal := 1\<rparr>) ?d"
      obtain v where v: "H h (int g) ?u = Some v" "t = upd_proc j (\<lambda>p. p\<lparr>p_handling_signal := 0\<rparr>) v"
        using 3 t(1) by (auto simp: bind_eq_Some_conv)
      have "owned p ?u" by (intro owned_upd_proc d) simp
      moreover have "processes v = processes ?u" "kheap v = kheap ?u" using H v(1) unfolding quiet_handler_def by blast+
      ultimately have "owned p v" by (simp add: owned_def)
      then show ?thesis unfolding v(2) by (rule owned_upd_proc) simp
    qed
    then show ?thesis unfolding t(2) by (rule owned_switch)
  qed
qed

section \<open>Getting and giving back a buffer\<close>

lemma live_header_size:
  "blocks_at m a bs \<Longrightarrow> (p, k) \<in> set (live a bs) \<Longrightarrow> \<exists>b. m (of_nat (p - HEADER)) = Some b \<and> unat (mb_size b) = k"
proof (induction bs arbitrary: a)
  case (Cons x bs)
  obtain n f where x: "x = (n, f)" by force
  show ?case
    using Cons blocks_at_headD [OF Cons.prems(1) [unfolded x]] x by (cases bs) (auto split: if_splits)
qed simp

text \<open>An allocated block of \<open>k\<close> bytes holds so many.\<close>

lemma live_block_holds:
  assumes h: "heap_rep h bs" "(p, k) \<in> live_blocks bs" "MEMORY_START + HEADER \<le> p" and n: "n \<le> k"
  shows "kbuf_holds (of_nat p) n (s\<lparr>kheap := h\<rparr>)"
proof -
  have "blocks_at (mblocks h) MEMORY_START bs" using h(1) by (simp add: heap_rep_def)
  moreover have "(p, k) \<in> set (live MEMORY_START bs)" using h(2) by auto
  ultimately obtain b where b: "mblocks h (of_nat (p - HEADER)) = Some b" "unat (mb_size b) = k"
    using live_header_size by blast
  have "(of_nat p :: u64) - of_nat HEADER = of_nat (p - HEADER)" using h(3) by simp
  then show ?thesis using b n by (simp add: kbuf_holds_def)
qed

text \<open>A new block is not the stack of a process, and leaves the stacks where they are.\<close>

lemma fresh_block_owned:
  assumes inv: "kernel_inv s" and bs: "holds (live_blocks bs) 4096 (map p_stack (processes s))" and h: "heap_rep h bs'"
    and k: "live_blocks bs' = insert (p, k) (live_blocks bs)" "p \<notin> fst ` live_blocks bs" "unat (of_nat p :: u64) = p" "p \<noteq> 0"
  shows "kernel_inv (s\<lparr>kheap := h\<rparr>)" "owned (of_nat p) (s\<lparr>kheap := h\<rparr>)"
proof -
  have st: "holds (live_blocks bs') 4096 (map p_stack (processes s))" using bs k(1) unfolding holds_def by auto
  then show "kernel_inv (s\<lparr>kheap := h\<rparr>)" using inv h by (auto simp: kernel_inv_def table_ok_def stacks_ok_def)
  have p0: "(of_nat p :: u64) \<noteq> 0" using k(3,4) by (metis unsigned_0)
  have "(of_nat p :: u64) \<notin> set (map p_stack (processes s))"
  proof
    assume "(of_nat p :: u64) \<in> set (map p_stack (processes s))"
    then have "\<exists>l. (p, l) \<in> live_blocks bs" using p0 bs k(3) unfolding holds_def by metis
    then show False using k(2) by force
  qed
  moreover have "(unat (of_nat p :: u64), k) \<in> live_blocks bs'" unfolding k(1,3) by simp
  ultimately show "owned (of_nat p) (s\<lparr>kheap := h\<rparr>)" using st h p0 unfolding owned_def by fastforce
qed

lemma kbuf_alloc_ok:
  assumes inv: "kernel_inv s"
  obtains p h where "kbuf_alloc sz s = Some (p, s\<lparr>kheap := h\<rparr>)" "kernel_inv (s\<lparr>kheap := h\<rparr>)"
    "p \<noteq> 0 \<Longrightarrow> owned p (s\<lparr>kheap := h\<rparr>)" "p \<noteq> 0 \<Longrightarrow> unat sz + 7 < 2 ^ 64 \<Longrightarrow> kbuf_holds p (unat sz) (s\<lparr>kheap := h\<rparr>)"
proof -
  obtain bs where bs: "heap_rep (kheap s) bs" "holds (live_blocks bs) 4096 (map p_stack (processes s))"
    using inv by (auto simp: kernel_inv_def stacks_ok_def)
  have keep: "kernel_inv (s\<lparr>kheap := h\<rparr>)" if "heap_rep h bs'" "holds (live_blocks bs') 4096 (map p_stack (processes s))" for h bs'
    using inv that by (auto simp: kernel_inv_def table_ok_def stacks_ok_def)
  show thesis
  proof (cases "sz = 0")
    case True
    have "memory_initialized (kheap s) \<noteq> 0" using bs(1) by (simp add: heap_rep_def)
    then have "kbuf_alloc sz s = Some (0, s\<lparr>kheap := kheap s\<rparr>)" using True by (simp add: kbuf_alloc_def kmalloc_def)
    then show thesis using keep [OF bs] by (intro that [of 0 "kheap s"]) simp_all
  next
    case False
    define n where "n = unat (align8 sz)"
    have n8: "8 dvd n"
      by (cases "unat sz + 7 < 2 ^ 64") (simp_all add: n_def align8_unat align8_wraps)
    obtain q bs' where alloc: "alloc n MEMORY_START bs = (q, bs')" by fastforce
    obtain h where h: "kmalloc sz (kheap s) = Some (case q of None \<Rightarrow> 0 | Some p \<Rightarrow> of_nat p, h)" "heap_rep h bs'"
      "dom (mblocks (kheap s)) \<subseteq> dom (mblocks h)"
      using kmalloc_alloc [OF bs(1) False n_def [symmetric] n8 alloc] .
    show thesis
    proof (cases q)
      case None
      then have "bs' = bs" using alloc_live [OF alloc] by auto
      then show thesis
        using h None keep [OF h(2)] bs(2) by (intro that [of 0 h]) (simp_all add: kbuf_alloc_def)
    next
      case (Some p)
      have ext: "extent bs = MEMORY_SIZE" using bs(1) by (simp add: heap_rep_def)
      obtain k where k: "n \<le> k" "live_blocks bs' = insert (p, k) (live_blocks bs)"
        "p \<notin> fst ` live_blocks bs" "unat (of_nat p :: u64) = p" "p \<noteq> 0" "MEMORY_START + HEADER \<le> p"
        "p + k \<le> MEMORY_START + MEMORY_SIZE"
        using alloc_address [OF alloc [unfolded Some] ext] .
      have "kbuf_holds (of_nat p) (unat sz) (s\<lparr>kheap := h\<rparr>)" if "unat sz + 7 < 2 ^ 64"
      proof (rule live_block_holds [OF h(2) _ k(6)])
        have "unat sz \<le> n" unfolding n_def align8_unat [OF that] by linarith
        then show "unat sz \<le> k" using k(1) by (rule order_trans)
      qed (simp add: k(2))
      moreover have "kbuf_alloc sz s = Some (of_nat p, s\<lparr>kheap := h\<rparr>)" using h(1) Some by (simp add: kbuf_alloc_def)
      ultimately show thesis using fresh_block_owned [OF inv bs(2) h(2) k(2-5)] by (intro that [of "of_nat p" h])
    qed
  qed
qed

lemma kbuf_free_ok:
  assumes inv: "kernel_inv s" and own: "owned p s"
  obtains h where "kbuf_free p s = Some (s\<lparr>kheap := h\<rparr>)" "kernel_inv (s\<lparr>kheap := h\<rparr>)"
proof -
  obtain bs k where bs: "heap_rep (kheap s) bs" "(unat p, k) \<in> live_blocks bs" "p \<notin> set (map p_stack (processes s))"
    using own by (auto simp: owned_def)
  obtain bs2 where bs2: "heap_rep (kheap s) bs2" "holds (live_blocks bs2) 4096 (map p_stack (processes s))"
    using inv by (auto simp: kernel_inv_def stacks_ok_def)
  have eq: "bs2 = bs" by (rule heap_rep_unique [OF bs2(1) bs(1)])
  obtain h' bs' where h': "kfree p (kheap s) = Some h'" "heap_rep h' bs'" "live_blocks bs' = live_blocks bs - {(unat p, k)}"
    using kernel_heap.free_law [OF bs(1,2)] by blast
  have "unat q \<noteq> unat p" if "q \<in> set (map p_stack (processes s))" for q
    using that bs(3) by (metis word_unat_eq_iff)
  then have "holds (live_blocks bs') 4096 (map p_stack (processes s))"
    using bs2(2) h'(3) unfolding eq holds_def by fastforce
  then have "kernel_inv (s\<lparr>kheap := h'\<rparr>)"
    using inv h'(2) by (auto simp: kernel_inv_def table_ok_def stacks_ok_def)
  then show thesis using that [of h'] h'(1) by (simp add: kbuf_free_def)
qed

text \<open>With a large enough free block a buffer is got, and giving it back restores the list of blocks.\<close>

lemma kbuf_roundtrip:
  fixes s :: "'z kproc_scheme"
  assumes rep: "heap_rep (kheap s) bs" "coalesced bs" and room: "(k, True) \<in> set bs" "unat sz \<le> k"
    and sz: "sz \<noteq> 0" "unat sz + 7 < 2 ^ 64"
  obtains p h' h'' where "kbuf_alloc sz s = Some (p, s\<lparr>kheap := h'\<rparr>)" "p \<noteq> 0"
    "\<And>t :: 'z kproc_scheme. kheap t = h' \<Longrightarrow> kbuf_store p (unat sz) t = Some ()"
    "\<And>t :: 'z kproc_scheme. kheap t = h' \<Longrightarrow> kbuf_free p t = Some (t\<lparr>kheap := h''\<rparr>)" "heap_rep h'' bs"
proof -
  obtain p h' bs' where m: "kmalloc sz (kheap s) = Some (p, h')" "heap_rep h' bs'" and
    if_: "if p = 0 then bs' = bs \<and> (\<forall>(k, f) \<in> set bs. f \<longrightarrow> k < unat sz)
     else \<exists>k \<ge> unat sz. live_blocks bs' = insert (unat p, k) (live_blocks bs) \<and>
       unat p \<notin> fst ` live_blocks bs \<and> 8 dvd unat p \<and>
       MEMORY_START + HEADER \<le> unat p \<and> unat p + k \<le> MEMORY_START + MEMORY_SIZE \<and>
       (\<forall>(q, l) \<in> live_blocks bs. unat p + k \<le> q \<or> q + l \<le> unat p)"
    using kmalloc_spec [OF rep(1) sz] by (elim exE conjE)
  have nz: "p \<noteq> 0"
  proof
    assume "p = 0"
    then have "k < unat sz" using if_ room(1) by auto
    then show False using room(2) by simp
  qed
  then obtain l where l: "unat sz \<le> l" "live_blocks bs' = insert (unat p, l) (live_blocks bs)" "MEMORY_START + HEADER \<le> unat p"
    using if_ by auto
  obtain h'' where f: "kfree p h' = Some h''" "heap_rep h'' bs" using malloc_free_rep [OF rep sz m(1) nz] by (elim exE conjE)
  have "blocks_at (mblocks h') MEMORY_START bs'" using m(2) by (simp add: heap_rep_def)
  moreover have "(unat p, l) \<in> set (live MEMORY_START bs')" using l(2) by auto
  ultimately obtain b where b: "mblocks h' (of_nat (unat p - HEADER)) = Some b" "unat (mb_size b) = l"
    using live_header_size by blast
  have "p - of_nat HEADER = of_nat (unat p - HEADER)" using l(3) by simp
  then have "kbuf_store p (unat sz) t = Some ()" if "kheap t = h'" for t :: "'z kproc_scheme"
    using that b l(1) by (simp add: kbuf_store_def kbuf_holds_def)
  moreover have "kbuf_free p t = Some (t\<lparr>kheap := h''\<rparr>)" if "kheap t = h'" for t :: "'z kproc_scheme"
    using that f(1) by (simp add: kbuf_free_def)
  moreover have "kbuf_alloc sz s = Some (p, s\<lparr>kheap := h'\<rparr>)" using m(1) by (simp add: kbuf_alloc_def)
  ultimately show thesis by (intro that [of p h' h''] nz f(2)) simp_all
qed

end
