(* ===== verification/SyscallInv.thy ===== *)
theory SyscallInv
  imports Buffers
begin

text \<open>
  Every system call that returns leaves a well-formed kernel state: the process table and the ownership of the
  stacks are intact, whatever the arguments are and whichever processes were scheduled or ended meanwhile.
\<close>

section \<open>What does not touch the process table\<close>

lemma kernel_inv_same:
  "kernel_inv s \<Longrightarrow> processes s' = processes s \<Longrightarrow> kheap s' = kheap s \<Longrightarrow> next_pid s' = next_pid s \<Longrightarrow>
    current_process_index s' = current_process_index s \<Longrightarrow> kernel_inv s'"
  by (simp add: kernel_inv_def table_ok_def stacks_ok_def)

lemma kernel_inv_fields [simp]:
  "kernel_inv (s1\<lparr>umem := m\<rparr>) = kernel_inv s1" "kernel_inv (s2\<lparr>keyboard_state := k\<rparr>) = kernel_inv s2"
  "kernel_inv (s3\<lparr>pipes := ps\<rparr>) = kernel_inv s3" "kernel_inv (s3\<lparr>next_pipe_id := j\<rparr>) = kernel_inv s3"
  "kernel_inv (upd_pipe l f s3) = kernel_inv s3" "kernel_inv (echo c s4) = kernel_inv s4"
  by (simp_all add: kernel_inv_def table_ok_def stacks_ok_def upd_pipe_def echo_def)

lemma owned_fields [simp]: "owned p (s1\<lparr>umem := m\<rparr>) = owned p s1" "owned p (upd_pipe k f s2) = owned p s2"
  by (simp_all add: owned_def upd_pipe_def)

lemma copy_to_user_cases: "usermode_copy_to_user d b s = Some (ok, s') \<Longrightarrow> s' = s \<or> (\<exists>m. s' = s\<lparr>umem := m\<rparr>)"
  by (auto simp: usermode_copy_to_user_def split: bind_splits if_splits)

lemma copy_to_user_inv:
  assumes "usermode_copy_to_user d b s = Some (ok, s')"
  shows "kernel_inv s' = kernel_inv s" "owned p s' = owned p s"
  using copy_to_user_cases [OF assms] by auto

section \<open>Scheduling and signals\<close>

lemma schedule_inv: "quiet_handler H \<Longrightarrow> schedule H n s = Some s' \<Longrightarrow> kernel_inv s \<Longrightarrow> kernel_inv s'"
  using schedule_survives [of H s n s'] by (simp add: survives_def)

lemma exit_process_inv:
  assumes H: "quiet_handler H" and run: "exit_process H n pid code s = Some s'" and inv: "kernel_inv s"
  shows "kernel_inv s'"
proof -
  obtain l where n: "n = Suc l" using run by (cases n) auto
  show ?thesis
  proof (cases "get_process pid s")
    case None
    then show ?thesis using run inv n by simp
  next
    case (Some i)
    obtain t where t: "exit_process H (Suc l) pid code s = schedule H l t" "kernel_inv t"
      using exit_process_effect [OF inv Some, of H l code] by metis
    have "schedule H l t = Some s'" using run t(1) unfolding n by (simp only:)
    then show ?thesis by (rule schedule_inv [OF H _ t(2)])
  qed
qed

lemma stop_process_inv:
  assumes H: "quiet_handler H" and run: "stop_process H n pid s = Some s'" and inv: "kernel_inv s"
  shows "kernel_inv s'"
proof -
  obtain l where n: "n = Suc l" using run by (cases n) auto
  have m: "kernel_inv (mark_stopped i s)" for i
    unfolding mark_stopped_def by (simp add: kernel_inv_upd_proc inv benign_def)
  show ?thesis
    using run inv schedule_inv [OF H _ m] unfolding n by (auto split: option.splits simp del: schedule.simps)
qed

lemma continue_process_inv: "kernel_inv s \<Longrightarrow> kernel_inv (continue_process pid s)"
  by (auto simp: continue_process_def benign_def intro!: kernel_inv_upd_proc split: option.split)

lemma signal_send_inv:
  assumes H: "quiet_handler H" and run: "signal_send H n (Some i) g s = Some (r, s')" and inv: "kernel_inv s"
  shows "kernel_inv s'"
  using run inv exit_process_inv [OF H] stop_process_inv [OF H] continue_process_inv [OF inv]
    kernel_inv_add_pending [OF inv, of "Some i" g]
  by (auto split: if_splits bind_splits simp del: exit_process.simps stop_process.simps)

lemma handle_pending_inv:
  assumes H: "quiet_handler H" and run: "signal_handle_pending H n (Some i) s = Some (r, s')" and inv: "kernel_inv s"
    and i: "i < MAX_PROCESSES"
  shows "kernel_inv s'"
proof -
  have len: "i < length (processes s)" using i kernel_invD(1) [OF inv] by simp
  have u: "kernel_inv (upd_proc i (\<lambda>p. p\<lparr>p_pending_signals := m\<rparr>) s)" for m
    by (rule kernel_inv_upd_proc [OF inv]) (simp add: benign_def)
  show ?thesis
  proof (cases rule: handle_pending_cases [OF len, of H n])
    case (1 m)
    then show ?thesis using run u by auto
  next
    case (2 m g)
    then show ?thesis using run exit_process_inv [OF H _ u] by (auto split: bind_splits)
  next
    case (3 m h g)
    let ?u = "upd_proc i (\<lambda>p. p\<lparr>p_pending_signals := m, p_handling_signal := 1\<rparr>) s"
    have "kernel_inv ?u" by (rule kernel_inv_upd_proc [OF inv]) (simp add: benign_def)
    moreover obtain v where v: "H h (int g) ?u = Some v" "s' = upd_proc i (\<lambda>p. p\<lparr>p_handling_signal := 0\<rparr>) v"
      using 3 run by (auto simp: bind_eq_Some_conv)
    moreover have "processes v = processes ?u \<and> current_process_index v = current_process_index ?u \<and>
        kheap v = kheap ?u \<and> next_pid v = next_pid ?u" using H v(1) unfolding quiet_handler_def by blast
    ultimately have "kernel_inv v" by (elim conjE) (rule kernel_inv_same)
    then show ?thesis unfolding v(2) by (rule kernel_inv_upd_proc) (simp add: benign_def)
  qed
qed

lemma send_group_inv:
  "quiet_handler H \<Longrightarrow> send_group_loop H n pgid g is sent s = Some (r, s') \<Longrightarrow> kernel_inv s \<Longrightarrow> kernel_inv s'"
  by (induction "is" arbitrary: sent s) (auto dest: signal_send_inv split: if_splits bind_splits simp del: signal_send.simps)

lemma kill_all_inv:
  "quiet_handler H \<Longrightarrow> kill_all_loop H n g is sent s = Some (r, s') \<Longrightarrow> kernel_inv s \<Longrightarrow> kernel_inv s'"
  by (induction "is" arbitrary: sent s) (auto dest: signal_send_inv split: if_splits bind_splits option.splits simp del: signal_send.simps)

section \<open>Loops that wait\<close>

text \<open>A property of states that a context switch keeps holds after the waits of a pipe.\<close>

lemma pipe_read_wait_keeps:
  assumes run: "pipe_read_wait H n k c s = Some s'"
  shows "(\<forall>pid s s'. I s \<longrightarrow> schedule H n (block_process pid s) = Some s' \<longrightarrow> I s') \<longrightarrow> I s \<longrightarrow> I s'"
    (is "?step H n \<longrightarrow> _")
proof (rule pipe_read_wait.raw_induct [OF _ run, where P = "\<lambda>H n k c s s'. ?step H n \<longrightarrow> I s \<longrightarrow> I s'"], intro impI)
  fix f :: "'a kpipe_scheme handler \<Rightarrow> nat \<Rightarrow> nat \<Rightarrow> nat \<Rightarrow> 'a kpipe_scheme \<Rightarrow> 'a kpipe_scheme option" and H n k c s s'
  assume rec: "\<And>H n k c s s'. f H n k c s = Some s' \<Longrightarrow> ?step H n \<longrightarrow> I s \<longrightarrow> I s'"
    and body: "(if data_size (pipe_at s k) = 0 \<and> writer_open (pipe_at s k) \<noteq> 0
      then do { s1 \<leftarrow> schedule H n (block_process (p_pid (proc s c)) s); f H n k c s1 } else Some s) = Some s'"
    and step: "?step H n" and I: "I s"
  show "I s'"
  proof (cases "data_size (pipe_at s k) = 0 \<and> writer_open (pipe_at s k) \<noteq> 0")
    case True
    then obtain s1 where "schedule H n (block_process (p_pid (proc s c)) s) = Some s1" "f H n k c s1 = Some s'"
      using body by (auto simp: bind_eq_Some_conv)
    then show ?thesis using rec step I by blast
  qed (use body I in auto)
qed

lemma pipe_write_loop_keeps:
  assumes run: "pipe_write_loop H n k buf w s = Some r"
  shows "(\<forall>pid s s'. I s \<longrightarrow> schedule H n (block_process pid s) = Some s' \<longrightarrow> I s') \<longrightarrow>
    (\<forall>k w s. I s \<longrightarrow> I (snd (pipe_write_chunk k buf w s))) \<longrightarrow> I s \<longrightarrow> I (snd r)"
    (is "?step H n \<longrightarrow> ?chunk buf \<longrightarrow> _")
proof (rule pipe_write_loop.raw_induct
    [OF _ run, where P = "\<lambda>H n k buf w s r. ?step H n \<longrightarrow> ?chunk buf \<longrightarrow> I s \<longrightarrow> I (snd r)"], intro impI)
  fix f :: "'a kpipe_scheme handler \<Rightarrow> nat \<Rightarrow> nat \<Rightarrow> u8 list \<Rightarrow> nat \<Rightarrow> 'a kpipe_scheme \<Rightarrow> (int \<times> 'a kpipe_scheme) option"
    and H n k buf w s r
  assume rec: "\<And>H n k buf w s r. f H n k buf w s = Some r \<Longrightarrow> ?step H n \<longrightarrow> ?chunk buf \<longrightarrow> I s \<longrightarrow> I (snd r)"
    and body: "(if w < length buf then
      (if data_size (pipe_at s k) = PIPE_BUFFER_SIZE then
         (if pipe_flags (pipe_at s k) AND PIPE_FLAG_NONBLOCK \<noteq> 0
          then Some (if w > 0 then wrap32 (int w) else PIPE_ERROR_FULL, s)
          else do { c \<leftarrow> get_current_process s;
                    s1 \<leftarrow> schedule H n (block_process (p_pid (proc s c)) s);
                    if reader_open (pipe_at s1 k) = 0 then Some (PIPE_ERROR_CLOSED, s1)
                    else case pipe_write_chunk k buf w s1 of (w', s2) \<Rightarrow> f H n k buf w' s2 })
       else case pipe_write_chunk k buf w s of (w', s2) \<Rightarrow> f H n k buf w' s2)
      else Some (wrap32 (int w), s)) = Some r"
    and step: "?step H n" and chunk: "?chunk buf" and I: "I s"
  have next_: "I (snd r)" if t: "I t" and go: "(case pipe_write_chunk k buf w t of (w', s2) \<Rightarrow> f H n k buf w' s2) = Some r" for t
  proof -
    obtain w' s2 where c: "pipe_write_chunk k buf w t = (w', s2)" by fastforce
    then have "I s2" using chunk t by (metis snd_conv)
    moreover have "f H n k buf w' s2 = Some r" using go unfolding c by simp
    from rec [OF this] have "I s2 \<longrightarrow> I (snd r)" using step chunk by (rule mp [OF mp])
    ultimately show ?thesis by (rule mp [rotated])
  qed
  have switch: "I s1" if "schedule H n (block_process pid s) = Some s1" for pid s1 using step I that by blast
  show "I (snd r)"
    using body I switch by (auto split: if_splits bind_splits dest: next_)
qed

lemma kernel_inv_unblock: "kernel_inv s \<Longrightarrow> kernel_inv (unblock_process pid s)"
  by (auto simp: unblock_process_def benign_def intro!: kernel_inv_upd_proc split: option.split)

lemma write_chunk_inv:
  "kernel_inv s \<Longrightarrow> kernel_inv (snd (pipe_write_chunk k buf w s))" "owned p s \<Longrightarrow> owned p (snd (pipe_write_chunk k buf w s))"
  by (auto simp: pipe_write_chunk_def Let_def intro: kernel_inv_unblock owned_unblock)

lemma read_data_inv:
  assumes "pipe_read_data k cnt s = (r, bs, s')"
  shows "kernel_inv s \<Longrightarrow> kernel_inv s'" "owned p s \<Longrightarrow> owned p s'"
  using assms by (auto simp: pipe_read_data_def Let_def intro: kernel_inv_unblock owned_unblock split: prod.splits if_splits)

text \<open>The invariant together with a buffer of the running system call.\<close>

definition inv_own :: "u64 \<Rightarrow> 'z kproc_scheme \<Rightarrow> bool" where
  "inv_own p s \<longleftrightarrow> kernel_inv s \<and> owned p s"

lemma inv_own_switch:
  assumes "quiet_handler H" "inv_own p s" "schedule H n (block_process pid s) = Some s'"
  shows "inv_own p s'"
  using assms schedule_inv [OF assms(1,3)] schedule_owned [OF assms(1) _ _ assms(3), of p] kernel_inv_block [of s pid] owned_block [of p s pid]
  by (simp add: inv_own_def)

lemma pipe_read_inv:
  assumes "quiet_handler H" "pipe_read H n fd cnt s = Some (r, bs, s')" "inv_own p s"
  shows "inv_own p s'"
proof -
  have data: "inv_own p s'" if "inv_own p t" "pipe_read_data k cnt t = (r, bs, s')" for t k
    using that read_data_inv [OF that(2)] by (auto simp: inv_own_def)
  have wait: "inv_own p t" if "pipe_read_wait H n k c s = Some t" for k c t
    using pipe_read_wait_keeps [OF that, of "inv_own p"] inv_own_switch [OF assms(1)] assms(3) by blast
  show ?thesis
    using assms(2,3) by (auto simp: pipe_read_def split: option.splits if_splits bind_splits dest: wait intro: data [OF wait] data)
qed

lemma pipe_write_inv:
  assumes "quiet_handler H" "pipe_write H n fd buf s = Some (r, s')" "inv_own p s"
  shows "inv_own p s'"
proof -
  have chunk: "\<forall>k w s. inv_own p s \<longrightarrow> inv_own p (snd (pipe_write_chunk k buf w s))"
    using write_chunk_inv by (auto simp: inv_own_def)
  have step: "\<forall>pid s s'. inv_own p s \<longrightarrow> schedule H n (block_process pid s) = Some s' \<longrightarrow> inv_own p s'"
    using inv_own_switch [OF assms(1)] by blast
  have "inv_own p s'" if "pipe_write_loop H n k buf 0 s = Some (r, s')" for k
    using pipe_write_loop_keeps [OF that, THEN mp, OF step, THEN mp, OF chunk] assms(3) by simp
  then show ?thesis using assms(2,3) by (auto simp: pipe_write_def split: option.splits if_splits)
qed

lemma keyboard_wait_keeps:
  assumes run: "keyboard_wait irq s = Some s'"
  shows "(\<forall>s s'. I s \<longrightarrow> irq s = Some s' \<longrightarrow> I s') \<longrightarrow> I s \<longrightarrow> I s'" (is "?step irq \<longrightarrow> _")
proof (rule keyboard_wait.raw_induct [OF _ run, where P = "\<lambda>irq s s'. ?step irq \<longrightarrow> I s \<longrightarrow> I s'"], intro impI)
  fix f :: "('a kkbd_scheme \<Rightarrow> 'a kkbd_scheme option) \<Rightarrow> 'a kkbd_scheme \<Rightarrow> 'a kkbd_scheme option" and irq s s'
  assume rec: "\<And>irq s s'. f irq s = Some s' \<Longrightarrow> ?step irq \<longrightarrow> I s \<longrightarrow> I s'" and step: "?step irq" and I: "I s"
    and body: "(if keyboard_buffer_empty (keyboard_state s) then do { s1 \<leftarrow> irq s; f irq s1 } else Some s) = Some s'"
  show "I s'"
  proof (cases "keyboard_buffer_empty (keyboard_state s)")
    case True
    then obtain s1 where "irq s = Some s1" "f irq s1 = Some s'" using body by (auto simp: bind_eq_Some_conv)
    then show ?thesis using rec step I by blast
  qed (use body I in auto)
qed

lemma timer_wait_keeps:
  assumes run: "timer_wait tick target s = Some s'"
  shows "(\<forall>s s'. I s \<longrightarrow> tick s = Some s' \<longrightarrow> I s') \<longrightarrow> I s \<longrightarrow> I s'" (is "?step tick \<longrightarrow> _")
proof (rule timer_wait.raw_induct [OF _ run, where P = "\<lambda>tick target s s'. ?step tick \<longrightarrow> I s \<longrightarrow> I s'"], intro impI)
  fix f :: "('a kdev_scheme \<Rightarrow> 'a kdev_scheme option) \<Rightarrow> u64 \<Rightarrow> 'a kdev_scheme \<Rightarrow> 'a kdev_scheme option" and tick target s s'
  assume rec: "\<And>tick target s s'. f tick target s = Some s' \<Longrightarrow> ?step tick \<longrightarrow> I s \<longrightarrow> I s'" and step: "?step tick" and I: "I s"
    and body: "(if timer_ticks s < target then do { s1 \<leftarrow> tick s; f tick target s1 } else Some s) = Some s'"
  show "I s'"
  proof (cases "timer_ticks s < target")
    case True
    then obtain s1 where "tick s = Some s1" "f tick target s1 = Some s'" using body by (auto simp: bind_eq_Some_conv)
    then show ?thesis using rec step I by blast
  qed (use body I in auto)
qed

lemma keyboard_read_keeps:
  assumes run: "keyboard_read_loop irq cnt i buf s = Some r"
    and frame: "\<And>c s. I (echo c s) = I s" "\<And>k s. I (s\<lparr>keyboard_state := k\<rparr>) = I s"
  shows "(\<forall>s s'. I s \<longrightarrow> irq s = Some s' \<longrightarrow> I s') \<longrightarrow> I s \<longrightarrow> I (snd (snd r))" (is "?step irq \<longrightarrow> _")
proof (rule keyboard_read_loop.raw_induct [OF _ run, where P = "\<lambda>irq cnt i buf s r. ?step irq \<longrightarrow> I s \<longrightarrow> I (snd (snd r))"], intro impI)
  fix f :: "('a kkbd_scheme \<Rightarrow> 'a kkbd_scheme option) \<Rightarrow> nat \<Rightarrow> nat \<Rightarrow> string \<Rightarrow> 'a kkbd_scheme \<Rightarrow> (int \<times> string \<times> 'a kkbd_scheme) option"
    and irq cnt i buf s r
  assume rec: "\<And>irq cnt i buf s r. f irq cnt i buf s = Some r \<Longrightarrow> ?step irq \<longrightarrow> I s \<longrightarrow> I (snd (snd r))"
    and step: "?step irq" and I: "I s"
    and body: "(if i < cnt then
      do { (c, s1) \<leftarrow> keyboard_getchar irq s;
           if c = NL then Some (wrap32 (int (i + 1)), buf[i := c], s1)
           else if c = BS then
             f irq cnt (i - 1) buf (if i > 0 then echo BS (echo (CHR '' '') (echo BS s1)) else s1)
           else f irq cnt (i + 1) (buf[i := c]) (echo c s1) }
      else Some (wrap32 (int i), buf, s)) = Some r"
  show "I (snd (snd r))"
  proof (cases "i < cnt")
    case True
    then obtain c s1 where g: "keyboard_getchar irq s = Some (c, s1)"
      and go: "(if c = NL then Some (wrap32 (int (i + 1)), buf[i := c], s1)
         else if c = BS then f irq cnt (i - 1) buf (if i > 0 then echo BS (echo (CHR '' '') (echo BS s1)) else s1)
         else f irq cnt (i + 1) (buf[i := c]) (echo c s1)) = Some r"
      using body by (auto simp: bind_eq_Some_conv)
    obtain t where t: "keyboard_wait irq s = Some t" "s1 = t\<lparr>keyboard_state := snd (keyboard_buffer_get (keyboard_state t))\<rparr>"
      using g by (auto simp: keyboard_getchar_def Let_def bind_eq_Some_conv split_beta)
    have "I s1" using keyboard_wait_keeps [OF t(1), of I] step I t(2) frame(2) by simp
    then have e: "I (if i > 0 then echo BS (echo (CHR '' '') (echo BS s1)) else s1)" "I (echo c s1)" by (simp_all add: frame(1))
    show ?thesis using go \<open>I s1\<close> rec [OF _ , THEN mp, OF _ step, THEN mp] e by (auto split: if_splits)
  qed (use body I in auto)
qed

section \<open>The system calls\<close>

text \<open>What is expected of the platform: handlers, interrupts and the file system do not corrupt the table.\<close>

definition fs_op_ok :: "(u8 list \<Rightarrow> 'z kuser_scheme \<Rightarrow> (int \<times> 'z kuser_scheme) option) \<Rightarrow> bool" where
  "fs_op_ok fs_op \<longleftrightarrow> (\<forall>b s r s' p. fs_op b s = Some (r, s') \<longrightarrow> inv_own p s \<longrightarrow> inv_own p s')"

definition platform_ok :: "'z kuser_scheme platform \<Rightarrow> bool" where
  "platform_ok P \<longleftrightarrow> quiet_handler (pf_handler P) \<and>
     (\<forall>s s'. kernel_inv s \<longrightarrow> pf_irq P s = Some s' \<longrightarrow> kernel_inv s') \<and>
     (\<forall>s s'. kernel_inv s \<longrightarrow> pf_tick P s = Some s' \<longrightarrow> kernel_inv s') \<and>
     fs_op_ok (pf_mkdir P) \<and> fs_op_ok (pf_unlink P)"

definition keeps_kernel :: "('z) syscall \<Rightarrow> bool" where
  "keeps_kernel c \<longleftrightarrow> (\<forall>P s r s'. platform_ok P \<longrightarrow> kernel_inv s \<longrightarrow> next_pid s \<noteq> - 1 \<longrightarrow> c P s = Some (r, s') \<longrightarrow> kernel_inv s')"

lemma platform_okD:
  assumes "platform_ok P"
  shows "quiet_handler (pf_handler P)" "\<forall>s s'. kernel_inv s \<longrightarrow> pf_irq P s = Some s' \<longrightarrow> kernel_inv s'"
    "\<forall>s s'. kernel_inv s \<longrightarrow> pf_tick P s = Some s' \<longrightarrow> kernel_inv s'" "fs_op_ok (pf_mkdir P)" "fs_op_ok (pf_unlink P)"
  using assms unfolding platform_ok_def by blast+

lemma keeps_kernelI:
  "(\<And>P s r s'. platform_ok P \<Longrightarrow> quiet_handler (pf_handler P) \<Longrightarrow> kernel_inv s \<Longrightarrow> next_pid s \<noteq> - 1 \<Longrightarrow> c P s = Some (r, s') \<Longrightarrow>
      kernel_inv s') \<Longrightarrow> keeps_kernel c"
  unfolding keeps_kernel_def using platform_okD(1) by blast

lemma current_slot: "get_current_process s = Some c \<Longrightarrow> kernel_inv s \<Longrightarrow> c < MAX_PROCESSES \<and> p_pid (proc s c) \<noteq> 0"
  using kernel_invD(2) [of s] by (auto simp: get_current_process_def split: if_splits)

lemma keeps_exit: "keeps_kernel (sys_exit st)"
proof (rule keeps_kernelI)
  fix P :: "'a kuser_scheme platform" and s r s'
  assume "quiet_handler (pf_handler P)" "kernel_inv s" "sys_exit st P s = Some (r, s')"
  then show "kernel_inv s'"
    by (auto simp: sys_exit_def intro: exit_process_inv schedule_inv split: option.splits bind_splits)
qed

lemma kernel_inv_child:
  assumes "kernel_inv s" "length sa = 32"
  shows "kernel_inv (upd_proc i (\<lambda>p. p\<lparr>p_registers := r, p_pending_signals := m, p_blocked_signals := b, p_signal_actions := sa\<rparr>) s)"
proof -
  have "table_ok s" using assms(1) by (simp add: kernel_inv_def)
  then show ?thesis
    using assms(2) table_okD(1,4) [of s]
    by (intro kernel_inv_frame [OF assms(1)])
      (auto simp: processes_upd_proc kernel_invD(2) [OF assms(1)] benign_def slot_ok_def list_all2_conv_all_nth nth_upd_nth)
qed

lemma keeps_fork: "keeps_kernel sys_fork"
proof (rule keeps_kernelI)
  fix P :: "'a kuser_scheme platform" and s r s'
  assume inv: "kernel_inv s" and max: "next_pid s \<noteq> - 1" and run: "sys_fork P s = Some (r, s')"
  show "kernel_inv s'"
  proof (cases "get_current_process s")
    case None
    then show ?thesis using run inv by (simp add: sys_fork_def)
  next
    case (Some c)
    let ?name = "p_name (proc s c)" and ?ppid = "p_pid (proc s c)"
    obtain pid s1 where cr: "create_process ?name 0 ?ppid s = Some (pid, s1)" and ok: "table_ok s1" "stacks_ok s1"
      using create_process_spec [of s ?name 0 ?ppid] inv max by (auto simp: kernel_inv_def)
    have inv1: "kernel_inv s1" using ok by (simp add: kernel_inv_def)
    have "length (p_signal_actions (proc s1 c)) = 32"
      using table_okD(4) [OF ok(1)] current_slot [OF Some inv] by (simp add: slot_ok_def)
    then show ?thesis
      using run Some cr inv1 by (auto simp: sys_fork_def split: if_splits option.splits intro!: kernel_inv_child)
  qed
qed

lemma keeps_get: "keeps_kernel sys_getpid" "keeps_kernel sys_getppid" "keeps_kernel (sys_exec a b)" "keeps_kernel (sys_open a b)"
  "keeps_kernel (sys_dup a)" "keeps_kernel (sys_dup2 a b)" "keeps_kernel (sys_getpgid a)" "keeps_kernel (sys_getsid a)"
  by (rule keeps_kernelI; auto simp: sys_getpid_def sys_getppid_def sys_exec_def sys_open_def sys_dup_def sys_dup2_def
      sys_getpgid_def sys_getsid_def split: option.splits if_splits)+

lemma keeps_group: "keeps_kernel (sys_setpgid a b)" "keeps_kernel sys_setsid"
  by (rule keeps_kernelI; auto simp: sys_setpgid_def sys_setsid_def set_process_group_def create_session_def Let_def benign_def
      intro!: kernel_inv_upd_proc split: option.splits if_splits)+

lemma keeps_sleep: "keeps_kernel (sys_sleep ms)"
proof (rule keeps_kernelI)
  fix P :: "'a kuser_scheme platform" and s r s'
  assume P: "platform_ok P" and H: "quiet_handler (pf_handler P)" and inv: "kernel_inv s" and run: "sys_sleep ms P s = Some (r, s')"
  have wait: "kernel_inv s'" if "timer_sleep (pf_tick P) (ucast ms) s = Some s'"
    using timer_wait_keeps [OF that [unfolded timer_sleep_def Let_def], THEN mp, OF platform_okD(3) [OF P]] inv by (rule mp)
  have "kernel_inv s'" if "schedule (pf_handler P) (pf_depth P) (upd_proc c (\<lambda>p. p\<lparr>p_sleep_until := u, p_state := st\<rparr>) s) = Some s'" for c u st
    by (rule schedule_inv [OF H that kernel_inv_upd_proc [OF inv]]) (simp add: benign_def)
  then show "kernel_inv s'"
    using run wait by (auto simp: sys_sleep_def process_sleep_def split: option.splits if_splits bind_splits)
qed

lemma keeps_wait: "keeps_kernel (sys_wait a)"
proof (rule keeps_kernelI)
  fix P :: "'a kuser_scheme platform" and s r s'
  assume H: "quiet_handler (pf_handler P)" and inv: "kernel_inv s" and run: "sys_wait a P s = Some (r, s')"
  then show "kernel_inv s'"
    using schedule_inv [OF H _ kernel_inv_block [OF inv]]
    by (auto simp: sys_wait_def copy_to_user_inv(1) split: option.splits if_splits bind_splits)
qed

lemma keeps_signals: "keeps_kernel (sys_signal a b)" "keeps_kernel (sys_sigaction a b c)" "keeps_kernel (sys_sigprocmask a b c)"
  "keeps_kernel (sys_sigpending a)"
  by (rule keeps_kernelI; auto simp: sys_signal_def signal_set_handler_def sys_sigaction_def signal_set_action_def
      sys_sigprocmask_def signal_proc_mask_def sys_sigpending_def Let_def benign_def set_action_def copy_to_user_inv(1)
      intro!: kernel_inv_upd_proc split: option.splits if_splits bind_splits)+

lemma keeps_sigsuspend: "keeps_kernel (sys_sigsuspend a)"
proof (rule keeps_kernelI)
  fix P :: "'a kuser_scheme platform" and s r s'
  assume H: "quiet_handler (pf_handler P)" and inv: "kernel_inv s" and run: "sys_sigsuspend a P s = Some (r, s')"
  have "kernel_inv s'" if core: "sigsuspend_core (pf_handler P) (pf_depth P) m c s = Some (r, s')" for m c
  proof -
    let ?s = "upd_proc c (\<lambda>p. p\<lparr>p_blocked_signals := m AND NOT unblockable\<rparr>) s"
    have "kernel_inv ?s" by (rule kernel_inv_upd_proc [OF inv]) (simp add: benign_def)
    then have "kernel_inv t" if "schedule (pf_handler P) (pf_depth P) (block_process pid ?s) = Some t" for pid t
      using schedule_inv [OF H that] kernel_inv_block by blast
    then show ?thesis
      using core by (auto simp: sigsuspend_core_def Let_def benign_def intro!: kernel_inv_upd_proc split: bind_splits)
  qed
  then show "kernel_inv s'"
    using run inv by (auto simp: sys_sigsuspend_def split: option.splits if_splits bind_splits)
qed

lemma keeps_kill: "keeps_kernel (sys_kill a b)"
proof (rule keeps_kernelI)
  fix P :: "'a kuser_scheme platform" and s r s'
  assume H: "quiet_handler (pf_handler P)" and inv: "kernel_inv s" and run: "sys_kill a b P s = Some (r, s')"
  then show "kernel_inv s'"
    by (auto simp: sys_kill_def send_signal_to_process_group_def intro: send_group_inv kill_all_inv signal_send_inv
        split: option.splits if_splits bind_splits simp del: signal_send.simps)
qed

lemma kbuf_alloc_inv: "kbuf_alloc sz s = Some (p, s') \<Longrightarrow> kernel_inv s \<Longrightarrow> kernel_inv s' \<and> (p \<noteq> 0 \<longrightarrow> inv_own p s')"
  using kbuf_alloc_ok [of s sz] by (metis inv_own_def option.inject prod.inject)

lemma kbuf_free_inv: "kbuf_free p s = Some s' \<Longrightarrow> inv_own p s \<Longrightarrow> kernel_inv s'"
  unfolding inv_own_def using kbuf_free_ok [of s p] by (metis option.inject)

lemma inv_own_simps [simp]: "inv_own p (kprint m s) = inv_own p s"
  by (simp add: inv_own_def)

lemma copy_to_user_own: "usermode_copy_to_user d b s = Some (ok, s') \<Longrightarrow> inv_own p s' = inv_own p s"
  by (simp add: inv_own_def copy_to_user_inv)

lemma keeps_read: "keeps_kernel (sys_read fd buf cnt)"
proof (rule keeps_kernelI)
  fix P :: "'a kuser_scheme platform" and s r s'
  assume P: "platform_ok P" and H: "quiet_handler (pf_handler P)" and inv: "kernel_inv s"
    and run: "sys_read fd buf cnt P s = Some (r, s')"
  have pipe: "inv_own p s2" if "pipe_read (pf_handler P) (pf_depth P) fd (unat cnt) s1 = Some (n, bs, s2)" "inv_own p s1" for p s1 s2 n bs
    using pipe_read_inv [OF H that] .
  show "kernel_inv s'"
  proof (cases "pipe_get_by_fd fd s = None")
    case True
    have "kernel_inv s1" if "keyboard_read (pf_irq P) str (unat cnt) s = Some (n, b, s1)" for str n b s1
      using keyboard_read_keeps [OF that [unfolded keyboard_read_def], of kernel_inv, THEN mp, OF _ _ platform_okD(2) [OF P]] inv by simp
    then show ?thesis using run inv True by (auto simp: sys_read_def split: if_splits bind_splits)
  next
    case False
    then show ?thesis
      using run inv
      by (auto simp: sys_read_def copy_to_user_own dest!: kbuf_alloc_inv split: if_splits bind_splits)
        (blast intro: kbuf_free_inv pipe | simp add: kbuf_free_inv pipe copy_to_user_own)+
  qed
qed

lemma keeps_write: "keeps_kernel (sys_write fd buf cnt)"
proof (rule keeps_kernelI)
  fix P :: "'a kuser_scheme platform" and s r s'
  assume H: "quiet_handler (pf_handler P)" and inv: "kernel_inv s" and run: "sys_write fd buf cnt P s = Some (r, s')"
  have pipe: "inv_own p s2" if "pipe_write (pf_handler P) (pf_depth P) fd bs s1 = Some (n, s2)" "inv_own p s1" for p s1 s2 n bs
    using pipe_write_inv [OF H that] .
  show "kernel_inv s'"
    using run inv
    by (auto simp: sys_write_def dest!: kbuf_alloc_inv split: if_splits bind_splits option.splits)
      (metis kbuf_free_inv pipe inv_own_simps)+
qed

lemma keeps_pipe: "keeps_kernel (sys_pipe a)" "keeps_kernel (sys_close a)"
  by (rule keeps_kernelI; auto simp: sys_pipe_def sys_close_def pipe_create_def pipe_close_def Let_def copy_to_user_inv(1)
      split: option.splits if_splits bind_splits)+

lemma path_call_inv:
  assumes "fs_op_ok fs_op" "kernel_inv s" "path_call fs_op path s = Some (r, s')"
  shows "kernel_inv s'"
proof -
  have op: "inv_own p t'" if "fs_op b t = Some (n, t')" "inv_own p t" for p b t n t'
    using assms(1) that unfolding fs_op_ok_def by blast
  show ?thesis
    using assms(2,3)
    by (auto simp: path_call_def dest!: kbuf_alloc_inv split: if_splits bind_splits option.splits)
      (metis kbuf_free_inv op)+
qed

lemma keeps_path: "keeps_kernel (sys_mkdir a b)" "keeps_kernel (sys_rmdir a)"
  by (rule keeps_kernelI; unfold sys_mkdir_def sys_rmdir_def; erule path_call_inv [rotated 2]; blast dest: platform_okD)+

lemmas keeps_all = keeps_exit keeps_fork keeps_get keeps_group keeps_sleep keeps_wait keeps_signals keeps_sigsuspend
  keeps_kill keeps_read keeps_write keeps_pipe keeps_path

lemma syscall_table_keeps: "syscall_table n = Some f \<Longrightarrow> keeps_kernel (f a b c)"
  by (auto simp: syscall_table_def keeps_all split: if_splits)

lemma syscall_handler_inv:
  fixes P :: "'z kuser_scheme platform"
  assumes P: "platform_ok P" and inv: "kernel_inv s" and max: "next_pid s \<noteq> - 1"
    and run: "syscall_handler P regs s = Some (regs', s')"
  shows "kernel_inv s'"
proof -
  note H = platform_okD(1) [OF P]
  have func: "kernel_inv s1" if "syscall_table n = Some f" "f a b c P s = Some (r, s1)" for n f a b c r s1
    using syscall_table_keeps [OF that(1), of a b c] P inv max that(2) unfolding keeps_kernel_def by blast
  have pend: "kernel_inv s2" if "get_current_process s1 = Some c" "signal_handle_pending (pf_handler P) (pf_depth P) (Some c) s1 = Some (r, s2)"
    "kernel_inv s1" for s1 c r s2
    using handle_pending_inv [OF H that(2,3)] current_slot [OF that(1,3)] by blast
  show ?thesis
  proof (cases "if rax regs \<ge> 64 then None else syscall_table (unat (rax regs)) :: (u64 \<Rightarrow> u64 \<Rightarrow> u64 \<Rightarrow> ('z) syscall) option")
    case None
    then show ?thesis using run inv by (auto simp: syscall_handler_def)
  next
    case (Some f)
    then have tab: "syscall_table (unat (rax regs)) = Some f" by (simp split: if_splits)
    obtain r s1 where f: "f (rdi regs) (rsi regs) (rdx regs) P s = Some (r, s1)"
      and go: "(case get_current_process s1 of None \<Rightarrow> Some (regs\<lparr>rax := r\<rparr>, s1)
        | Some c \<Rightarrow> do { (_, s2) \<leftarrow> signal_handle_pending (pf_handler P) (pf_depth P) (Some c) s1; Some (regs\<lparr>rax := r\<rparr>, s2) }) =
          Some (regs', s')"
      using run unfolding syscall_handler_def Some by (auto simp: Let_def bind_eq_Some_conv simp del: signal_handle_pending.simps)
    note inv1 = func [OF tab f]
    show ?thesis
    proof (cases "get_current_process s1")
      case None
      then show ?thesis using go inv1 by simp
    next
      case (Some c)
      then obtain q where "signal_handle_pending (pf_handler P) (pf_depth P) (Some c) s1 = Some (q, s')"
        using go by (auto simp: bind_eq_Some_conv simp del: signal_handle_pending.simps)
      then show ?thesis by (rule pend [OF Some _ inv1])
    qed
  qed
qed

lemma timer_handler_inv:
  assumes H: "quiet_handler H" and CB: "\<And>a t s s'. kernel_inv s \<Longrightarrow> CB a t s = Some s' \<Longrightarrow> kernel_inv s'"
    and inv: "kernel_inv s" and run: "timer_handler H CB n s = Some s'"
  shows "kernel_inv s'"
proof -
  let ?s1 = "s\<lparr>timer_ticks := timer_ticks s + 1\<rparr>"
  obtain s2 where s2: "(if timer_callback ?s1 \<noteq> 0 then CB (timer_callback ?s1) (timer_ticks ?s1) ?s1 else Some ?s1) = Some s2"
    and go: "schedule H n (wake_sleepers s2) = Some s' \<or> s' = wake_sleepers s2"
    using run by (auto simp: timer_handler_def Let_def bind_eq_Some_conv split: if_splits)
  have "kernel_inv s2" using s2 CB [of ?s1] inv by (auto split: if_splits)
  from wake_sleepers_ok(1) [OF this] show ?thesis using go schedule_inv [OF H] by blast
qed

lemma keyboard_handler_inv: "kernel_inv s \<Longrightarrow> kernel_inv (keyboard_handler sc s)"
  by (rule kernel_inv_same, assumption)
    (simp_all add: keyboard_handler_def Let_def upd_kbd_def keyboard_update_leds_def outb_def)

end
