(* ===== verification/SyscallProps.thy ===== *)
theory SyscallProps
  imports SyscallInv UserAccess
begin

text \<open>
  What the system calls do: a child process is a copy of its parent, bytes written to a pipe arrive in the
  memory of the reader, signal actions are read back as they were set; and where the calls go wrong:
  \<open>sys_kill\<close> never sends to a single process, a waiting parent sees the same child forever, and a
  failing \<open>sys_sigaction\<close> hands out the kernel's stack.
\<close>

section \<open>User pointers in a changed state\<close>

lemma validate_page_cong:
  assumes "phys s' = phys s" "pml4 s' = pml4 s"
  shows "validate_page p f s' = validate_page p f s"
  using assms by (cases "walk (phys s) (pml4 s) (upper_path p)")
    (simp_all add: validate_page_def paging_get_physical_address_def paging_walk_lookup)

lemma validate_loop_mono:
  assumes "validate_loop p e f s = Some b"
  shows "(\<forall>q. validate_page q f s' = validate_page q f s) \<longrightarrow> validate_loop p e f s' = Some b"
proof (rule validate_loop.raw_induct
    [OF _ assms, where P = "\<lambda>p e f s b. (\<forall>q. validate_page q f s' = validate_page q f s) \<longrightarrow> validate_loop p e f s' = Some b"], intro impI)
  fix g :: "u64 \<Rightarrow> u64 \<Rightarrow> u32 \<Rightarrow> 'a kuser_scheme \<Rightarrow> bool option" and p e f s b
  assume rec: "\<And>p e f s b. g p e f s = Some b \<Longrightarrow> (\<forall>q. validate_page q f s' = validate_page q f s) \<longrightarrow> validate_loop p e f s' = Some b"
    and body: "(if p \<le> e then if validate_page p f s then g (p + of_nat PAGE_SIZE) e f s else Some False else Some True) = Some b"
    and same: "\<forall>q. validate_page q f s' = validate_page q f s"
  show "validate_loop p e f s' = Some b"
    using body rec [of "p + of_nat PAGE_SIZE" e f s b] same by (subst validate_loop.simps) (auto split: if_splits)
qed

lemma validate_pointer_cong:
  assumes "phys s' = phys s" "pml4 s' = pml4 s"
  shows "usermode_validate_pointer p n f s' = usermode_validate_pointer p n f s"
proof -
  have same: "\<forall>q. validate_page q f s' = validate_page q f s" using validate_page_cong [OF assms] by blast
  have "validate_loop a e f s' = validate_loop a e f s" for a e
  proof (cases "validate_loop a e f s")
    case None
    show ?thesis
    proof (cases "validate_loop a e f s'")
      case (Some b)
      then have "validate_loop a e f s = Some b" using validate_loop_mono [OF Some, of s] same by simp
      then show ?thesis using Some by simp
    qed (simp add: None)
  next
    case (Some b)
    then show ?thesis using validate_loop_mono [OF Some, of s'] same by simp
  qed
  then show ?thesis by (simp add: usermode_validate_pointer_def)
qed

section \<open>Pipes that do not block\<close>

definition user_view :: "'z kuser_scheme \<Rightarrow> heap \<times> (u64 \<Rightarrow> u64) \<times> u64 \<times> (u64 \<Rightarrow> u8)" where
  "user_view s = (kheap s, phys s, pml4 s, umem s)"

lemma user_view_upd [simp]:
  "user_view (upd_proc i f s) = user_view s" "user_view (upd_pipe k g s) = user_view s" "user_view (unblock_process pid s) = user_view s"
  by (simp_all add: user_view_def upd_proc_def upd_pipe_def unblock_process_def split: option.split)

lemma user_viewD:
  assumes "user_view s' = user_view s"
  shows "kheap s' = kheap s" "umem s' = umem s" "usermode_validate_pointer p n f s' = usermode_validate_pointer p n f s"
  using assms validate_pointer_cong [of s' s] by (simp_all add: user_view_def)

lemma write_chunk_view: "user_view (snd (pipe_write_chunk k buf w s)) = user_view s"
  by (simp add: pipe_write_chunk_def Let_def)

lemma read_data_view: "user_view (snd (snd (pipe_read_data k cnt s))) = user_view s"
  by (simp add: pipe_read_data_def Let_def split_beta)

lemma pipe_write_now:
  assumes k: "pipe_get_by_fd fd s = Some k" "fd AND PIPE_FLAG_WRITABLE \<noteq> 0" "writer_open (pipe_at s k) \<noteq> 0"
    "reader_open (pipe_at s k) \<noteq> 0" and ok: "pipe_ok (pipe_at s k)"
    and fits: "data_size (pipe_at s k) + length buf \<le> PIPE_BUFFER_SIZE" "buf \<noteq> []"
  obtains s' where "pipe_write H n fd buf s = Some (int (length buf), s')" "user_view s' = user_view s"
    "length (pipes s') = length (pipes s)" "pipe_ok (pipe_at s' k)" "pipe_contents (pipe_at s' k) = pipe_contents (pipe_at s k) @ buf"
    "\<And>j. j \<noteq> k \<Longrightarrow> pipe_at s' j = pipe_at s j" "reader_open (pipe_at s' k) = reader_open (pipe_at s k)"
    "pipe_id (pipe_at s' k) = pipe_id (pipe_at s k)"
proof -
  have kl: "k < length (pipes s)" using pipe_get_by_fd_Some [OF k(1)] by simp
  obtain s' where s': "pipe_write_loop H n k buf 0 s = Some (int (length buf), s')" "length (pipes s') = length (pipes s)"
    "pipe_ok (pipe_at s' k)" "pipe_contents (pipe_at s' k) = pipe_contents (pipe_at s k) @ buf"
    "\<And>j. j \<noteq> k \<Longrightarrow> pipe_at s' j = pipe_at s j" "reader_open (pipe_at s' k) = reader_open (pipe_at s k)"
    "pipe_id (pipe_at s' k) = pipe_id (pipe_at s k)"
    using pipe_write_loop_fits [OF kl ok fits, of H n] by blast
  have c: "fst (pipe_write_chunk k buf 0 s) = length buf" using fits(1) by (auto simp: pipe_write_chunk_def Let_def)
  have "data_size (pipe_at s k) \<noteq> PIPE_BUFFER_SIZE" using fits by (cases buf) auto
  then have "pipe_write_loop H n k buf 0 s = pipe_write_loop H n k buf (length buf) (snd (pipe_write_chunk k buf 0 s))"
    using fits(2) c by (subst pipe_write_loop.simps) (simp add: split_beta)
  also have "\<dots> = Some (wrap32 (int (length buf)), snd (pipe_write_chunk k buf 0 s))" by (subst pipe_write_loop.simps) simp
  finally have "s' = snd (pipe_write_chunk k buf 0 s)" using s'(1) by simp
  then have "user_view s' = user_view s" by (simp add: write_chunk_view)
  moreover have "pipe_write H n fd buf s = Some (int (length buf), s')" using s'(1) k by (simp add: pipe_write_def)
  ultimately show thesis using s'(2-7) by (intro that [of s'])
qed

lemma pipe_read_now:
  assumes k: "pipe_get_by_fd fd s = Some k" "fd AND PIPE_FLAG_READABLE \<noteq> 0" "reader_open (pipe_at s k) \<noteq> 0"
    and ok: "pipe_ok (pipe_at s k)" and data: "pipe_contents (pipe_at s k) = buf" "buf \<noteq> []"
  obtains s' where "pipe_read H n fd (length buf) s = Some (int (length buf), buf, s')" "user_view s' = user_view s"
    "pipe_contents (pipe_at s' k) = []" "\<And>j. j \<noteq> k \<Longrightarrow> pipe_at s' j = pipe_at s j"
proof -
  have kl: "k < length (pipes s)" using pipe_get_by_fd_Some [OF k(1)] by simp
  have size: "data_size (pipe_at s k) = length buf" using data(1) by (metis length_ring_slice pipe_contents_def)
  have m: "min (length buf) (data_size (pipe_at s k)) = length buf" using size by simp
  obtain s' where s': "pipe_read_data k (length buf) s = (int (length buf), take (length buf) (pipe_contents (pipe_at s k)), s')"
    "pipe_contents (pipe_at s' k) = drop (length buf) (pipe_contents (pipe_at s k))" "\<And>j. j \<noteq> k \<Longrightarrow> pipe_at s' j = pipe_at s j"
    using pipe_read_data_takes [OF kl ok, of "length buf"] unfolding m by blast
  have "pipe_read H n fd (length buf) s = Some (int (length buf), buf, s')"
    using k size data s'(1) by (simp add: pipe_read_def)
  moreover have "user_view s' = user_view s" using read_data_view [of k "length buf" s] s'(1) by simp
  ultimately show thesis using s'(2,3) data(1) by (intro that [of s']) simp_all
qed

section \<open>Reading and writing through a pipe\<close>

lemma sys_write_pipe:
  assumes heap: "heap_rep (kheap s) bs" "coalesced bs" "(room, True) \<in> set bs" "unat cnt \<le> room"
    and cnt: "0 < unat cnt" "unat cnt \<le> PIPE_BUFFER_SIZE"
    and k: "pipe_get_by_fd fd s = Some k" "fd AND PIPE_FLAG_WRITABLE \<noteq> 0" "writer_open (pipe_at s k) \<noteq> 0"
    "reader_open (pipe_at s k) \<noteq> 0" "pipe_ok (pipe_at s k)" "pipe_contents (pipe_at s k) = []"
    and ptr: "usermode_validate_pointer src cnt 0 s = Some True"
  obtains s' where "sys_write fd src cnt P s = Some (cnt, s')" "heap_rep (kheap s') bs" "umem s' = umem s"
    "\<And>p n f. usermode_validate_pointer p n f s' = usermode_validate_pointer p n f s"
    "length (pipes s') = length (pipes s)" "pipe_ok (pipe_at s' k)" "pipe_contents (pipe_at s' k) = load_bytes src (unat cnt) (umem s)"
    "\<And>j. j \<noteq> k \<Longrightarrow> pipe_at s' j = pipe_at s j" "reader_open (pipe_at s' k) = reader_open (pipe_at s k)"
    "pipe_id (pipe_at s' k) = pipe_id (pipe_at s k)"
proof -
  let ?buf = "load_bytes src (unat cnt) (umem s)"
  have sz: "cnt \<noteq> 0" "unat cnt + 7 < 2 ^ 64" using cnt by auto
  obtain p h' h'' where b: "kbuf_alloc cnt s = Some (p, s\<lparr>kheap := h'\<rparr>)" "p \<noteq> 0"
    "\<And>t :: 'a kuser_scheme. kheap t = h' \<Longrightarrow> kbuf_store p (unat cnt) t = Some ()"
    "\<And>t :: 'a kuser_scheme. kheap t = h' \<Longrightarrow> kbuf_free p t = Some (t\<lparr>kheap := h''\<rparr>)" "heap_rep h'' bs"
    using kbuf_roundtrip [OF heap sz] by blast
  let ?s = "s\<lparr>kheap := h'\<rparr>"
  have v: "usermode_validate_pointer q n f ?s = usermode_validate_pointer q n f s" for q n f
    by (rule validate_pointer_cong) simp_all
  have len: "length ?buf = unat cnt" by (simp add: load_bytes_nth)
  have size: "data_size (pipe_at s k) = 0" using k(6) by (metis length_0_conv length_ring_slice pipe_contents_def)
  have k': "pipe_get_by_fd fd ?s = Some k" "writer_open (pipe_at ?s k) \<noteq> 0" "reader_open (pipe_at ?s k) \<noteq> 0" "pipe_ok (pipe_at ?s k)"
    "data_size (pipe_at ?s k) + length ?buf \<le> PIPE_BUFFER_SIZE" "?buf \<noteq> []"
    using k cnt size len by (auto simp: pipe_get_by_fd_def)
  obtain s1 where s1: "pipe_write (pf_handler P) (pf_depth P) fd ?buf ?s = Some (int (length ?buf), s1)" "user_view s1 = user_view ?s"
    "length (pipes s1) = length (pipes ?s)" "pipe_ok (pipe_at s1 k)" "pipe_contents (pipe_at s1 k) = pipe_contents (pipe_at ?s k) @ ?buf"
    "\<And>j. j \<noteq> k \<Longrightarrow> pipe_at s1 j = pipe_at ?s j" "reader_open (pipe_at s1 k) = reader_open (pipe_at ?s k)"
    "pipe_id (pipe_at s1 k) = pipe_id (pipe_at ?s k)"
    using pipe_write_now [OF k'(1) k(2) k'(2-6)] by blast
  note view = user_viewD [OF s1(2)]
  have free: "kbuf_free p s1 = Some (s1\<lparr>kheap := h''\<rparr>)" using b(4) [of s1] view(1) by simp
  have cp: "usermode_copy_from_user src cnt ?s = Some (Some ?buf)" using ptr by (simp add: usermode_copy_from_user_def v)
  show thesis
  proof (rule that [of "s1\<lparr>kheap := h''\<rparr>"])
    show "sys_write fd src cnt P s = Some (cnt, s1\<lparr>kheap := h''\<rparr>)"
      using k(1) ptr b(1,2) cp b(3) [of ?s] s1(1) free len by (simp add: sys_write_def)
    show "usermode_validate_pointer q n f (s1\<lparr>kheap := h''\<rparr>) = usermode_validate_pointer q n f s" for q n f
      using view(3) v validate_pointer_cong [of "s1\<lparr>kheap := h''\<rparr>" s1] by simp
  qed (use s1 view b(5) k(6) in simp_all)
qed

lemma sys_read_pipe:
  assumes heap: "heap_rep (kheap s) bs" "coalesced bs" "(room, True) \<in> set bs" "unat cnt \<le> room"
    and cnt: "0 < unat cnt" "unat cnt \<le> PIPE_BUFFER_SIZE"
    and k: "pipe_get_by_fd fd s = Some k" "fd AND PIPE_FLAG_READABLE \<noteq> 0" "reader_open (pipe_at s k) \<noteq> 0" "pipe_ok (pipe_at s k)"
    and data: "pipe_contents (pipe_at s k) = buf" "length buf = unat cnt"
    and ptr: "usermode_validate_pointer dst cnt 2 s = Some True"
  obtains s' where "sys_read fd dst cnt P s = Some (cnt, s')" "heap_rep (kheap s') bs" "umem s' = store_bytes dst buf (umem s)"
    "pipe_contents (pipe_at s' k) = []" "\<And>j. j \<noteq> k \<Longrightarrow> pipe_at s' j = pipe_at s j"
proof -
  have sz: "cnt \<noteq> 0" "unat cnt + 7 < 2 ^ 64" using cnt by auto
  obtain p h' h'' where b: "kbuf_alloc cnt s = Some (p, s\<lparr>kheap := h'\<rparr>)" "p \<noteq> 0"
    "\<And>t :: 'a kuser_scheme. kheap t = h' \<Longrightarrow> kbuf_store p (unat cnt) t = Some ()"
    "\<And>t :: 'a kuser_scheme. kheap t = h' \<Longrightarrow> kbuf_free p t = Some (t\<lparr>kheap := h''\<rparr>)" "heap_rep h'' bs"
    using kbuf_roundtrip [OF heap sz] by blast
  let ?s = "s\<lparr>kheap := h'\<rparr>"
  have k': "pipe_get_by_fd fd ?s = Some k" "reader_open (pipe_at ?s k) \<noteq> 0" "pipe_ok (pipe_at ?s k)"
    "pipe_contents (pipe_at ?s k) = buf" "buf \<noteq> []"
    using k data cnt by (auto simp: pipe_get_by_fd_def)
  obtain s1 where s1: "pipe_read (pf_handler P) (pf_depth P) fd (length buf) ?s = Some (int (length buf), buf, s1)"
    "user_view s1 = user_view ?s" "pipe_contents (pipe_at s1 k) = []" "\<And>j. j \<noteq> k \<Longrightarrow> pipe_at s1 j = pipe_at ?s j"
    using pipe_read_now [OF k'(1) k(2) k'(2-5)] by blast
  note view = user_viewD [OF s1(2)]
  let ?s2 = "s1\<lparr>umem := store_bytes dst buf (umem s1)\<rparr>"
  have "usermode_validate_pointer dst cnt 2 s1 = Some True"
    using ptr view(3) validate_pointer_cong [of ?s s] by simp
  moreover have "of_nat (length buf) = cnt" using data(2) by simp
  ultimately have cp: "usermode_copy_to_user dst buf s1 = Some (True, ?s2)" by (simp add: usermode_copy_to_user_def)
  have free: "kbuf_free p ?s2 = Some (?s2\<lparr>kheap := h''\<rparr>)" using b(4) [of ?s2] view(1) by simp
  have w: "ucast PAGE_WRITABLE = (2 :: u32)" by simp
  have pos: "0 < uint cnt" using sz(1) by (simp add: order_less_le uint_0_iff)
  show thesis
  proof (rule that [of "?s2\<lparr>kheap := h''\<rparr>"])
    show "sys_read fd dst cnt P s = Some (cnt, ?s2\<lparr>kheap := h''\<rparr>)"
      unfolding sys_read_def w using k(1) ptr b(1,2) b(3) [of ?s] s1(1) cp free data(2) pos by simp
  qed (use s1 view b(5) in simp_all)
qed

section \<open>Words in user memory\<close>

lemma length_le_bytes [simp]: "length (le_bytes n w) = n"
  by (simp add: le_bytes_def)

lemma le_bytes_nth: "i < n \<Longrightarrow> le_bytes n w ! i = ucast (drop_bit (8 * i) w)"
  by (simp add: le_bytes_def)

lemma le32_le_bytes:
  fixes w :: u64
  assumes "\<And>j. j < 4 \<Longrightarrow> b ! (i + j) = ucast (drop_bit (8 * (m + j)) w)"
  shows "le32 b i = ucast (drop_bit (8 * m) w)"
proof -
  have "b ! i = ucast (drop_bit (8 * m) w)" "b ! (i + 1) = ucast (drop_bit (8 * m + 8) w)"
    "b ! (i + 2) = ucast (drop_bit (8 * m + 16) w)" "b ! (i + 3) = ucast (drop_bit (8 * m + 24) w)"
    using assms [of 0] assms [of 1] assms [of 2] assms [of 3] by (simp_all add: algebra_simps)
  note b = this
  have high: "n - 16 < 8" if "bit w (8 * m + n)" "\<not> bit w (8 * m + 24 + (n - 24))" for n
  proof (cases "24 \<le> n")
    case True
    then have "8 * m + 24 + (n - 24) = 8 * m + n" by simp
    then show ?thesis using that by simp
  qed simp
  show ?thesis unfolding le32_def b by (rule bit_word_eqI) (auto simp: bit_simps intro: high)
qed

lemma le64_le_bytes:
  fixes w :: u64
  assumes "\<And>j. j < 8 \<Longrightarrow> b ! (i + j) = ucast (drop_bit (8 * j) w)"
  shows "le64 b i = w"
proof -
  have "le32 b i = ucast (drop_bit (8 * 0) w)" by (rule le32_le_bytes) (simp add: assms)
  moreover have "le32 b (i + 4) = ucast (drop_bit (8 * 4) w)"
    by (rule le32_le_bytes) (use assms [of "4 + _"] in \<open>simp add: add.assoc\<close>)
  ultimately show ?thesis unfolding le64_def by (intro bit_word_eqI) (auto simp: bit_simps)
qed

lemma action_bytes_roundtrip:
  assumes "16 \<le> length pad"
  shows "action_of_bytes (bytes_of_action pad a) = a"
proof -
  let ?b = "bytes_of_action pad a"
  have "le64 ?b 0 = sa_handler a"
    by (rule le64_le_bytes) (simp add: bytes_of_action_def nth_append le_bytes_nth)
  moreover have "le64 ?b 16 = sa_mask a"
    by (rule le64_le_bytes) (use assms in \<open>simp add: bytes_of_action_def nth_append le_bytes_nth\<close>)
  moreover have "le32 ?b 8 = ucast (drop_bit (8 * 0) (ucast (sa_flags a) :: u64))"
    by (rule le32_le_bytes) (simp add: bytes_of_action_def nth_append le_bytes_nth)
  moreover have "ucast (ucast (sa_flags a) :: u64) = sa_flags a" by (rule bit_word_eqI) (simp add: bit_simps)
  ultimately show ?thesis by (simp add: action_of_bytes_def)
qed

section \<open>A sample state\<close>

text \<open>Two processes, one pipe, and a user page at \<open>0x400000\<close>; nothing installed.\<close>

definition sample_platform :: "kuser platform" where
  "sample_platform = \<lparr>pf_handler = (\<lambda>_ _. Some), pf_depth = 200, pf_irq = Some, pf_tick = Some,
     pf_mkdir = (\<lambda>_ s. Some (0, s)), pf_unlink = (\<lambda>_ s. Some (0, s)), pf_locals = replicate 24 7\<rparr>"

abbreviation sample_user :: kuser where
  "sample_user \<equiv> sample_kuser sample_tables"

lemma sample_platform_ok: "platform_ok sample_platform" "handler_ok (pf_handler sample_platform)"
  "quiet_handler (pf_handler sample_platform)" "130 \<le> pf_depth sample_platform" "length (pf_locals sample_platform) = 24"
  using no_handlers by (simp_all add: platform_ok_def sample_platform_def fs_op_ok_def)

lemma sample_user_fields [simp]:
  "kheap (sample_kuser m) = kheap sample_kproc" "next_pid (sample_kuser m) = 3" "pipes (sample_kuser m) = pipes sample_kpipe"
  "next_pipe_id (sample_kuser m) = next_pipe_id sample_kpipe"
  by (simp_all add: sample_kuser_def kpage.defs sample_kpage_def kkbd.defs sample_kkbd_def kpipe.defs sample_kpipe_def
      kdev.defs sample_kdev_def kproc.defs) (simp add: sample_kproc_def)

lemma sample_user_inv: "kernel_inv (sample_kuser m)"
proof -
  have "next_pid sample_kproc = 3" "current_process_index sample_kproc = 0"
    by (simp_all add: sample_kproc_def boot_kproc_def init_processes_def)
  then show ?thesis using sample_kernel_inv by (simp add: kernel_inv_def table_ok_def stacks_ok_def)
qed

lemma sample_user_current: "get_current_process (sample_kuser m) = Some 0"
  by (simp add: get_current_process_def) (simp add: sample_kproc_def)

lemma sample_user_heap: "heap_rep (kheap (sample_kuser m)) initial_blocks" "coalesced initial_blocks"
  "(MEMORY_SIZE - HEADER, True) \<in> set initial_blocks"
  using empty_heap_rep by (simp_all add: sample_kproc_def boot_kproc_def init_processes_def initial_blocks_def)

lemma sample_user_pipes: "pipes_ok (sample_kuser m)" "pipe_get_by_fd 10 (sample_kuser m) = Some 0"
  "pipe_at (sample_kuser m) 0 = zero_pipe\<lparr>pipe_id := 1, reader_open := 1, writer_open := 1\<rparr>"
  using sample_kpipe(2,4,5) by (simp_all add: pipes_ok_def pipe_get_by_fd_def)

lemma sample_pointer:
  assumes "0x400000 \<le> ptr" "unat ptr + unat sz \<le> 0x401000" "sz \<noteq> 0" "f = 0 \<or> f = 2"
  shows "usermode_validate_pointer ptr sz f sample_user = Some True"
proof -
  have "0x400000 \<le> unat ptr" "0 < unat sz" using assms(1,3) by (simp_all add: word_le_nat_alt unat_gt_0)
  have "page_align a = 0x400000" if "ptr \<le> a" "unat a < unat ptr + unat sz" for a
  proof -
    have "unat a div 4096 = 1024" using that assms(2) \<open>0x400000 \<le> unat ptr\<close> by (simp add: word_le_nat_alt)
    then show ?thesis by (simp add: word_unat_eq_iff unat_page_align)
  qed
  moreover have "validate_page 0x400000 f sample_user"
    using sample_user_page validate_page_weaken [OF sample_user_page] assms(4) by auto
  moreover have "ptr < USER_STACK_TOP"
    using assms(2) \<open>0 < unat sz\<close> by (simp add: word_less_nat_alt)
  ultimately show ?thesis
    using validate_pointer_exact [OF assms(3), of ptr f sample_user] assms(1,2) by simp
qed

section \<open>Properties\<close>



text \<open>C15: 
  Through a pipe from one user buffer to another: what \<open>sys_write\<close> takes from \<open>src\<close>, \<open>sys_read\<close> on the other
  descriptor puts to \<open>dst\<close>, byte for byte. Both calls return the count, no other pipe changes, and the
  buffers of the kernel are given back: the list of heap blocks is the one before.
\<close>

theorem pipe_syscalls_transfer:
  assumes "heap_rep (kheap s) bs" "coalesced bs" "(room, True) \<in> set bs" "unat cnt \<le> room"
    and cnt: "0 < unat cnt" "unat cnt \<le> PIPE_BUFFER_SIZE"
    and ok: "pipes_ok s" and k: "pipe_get_by_fd wfd s = Some k" "drop_bit 3 rfd = drop_bit 3 wfd"
    and fl: "wfd AND PIPE_FLAG_WRITABLE \<noteq> 0" "rfd AND PIPE_FLAG_READABLE \<noteq> 0"
    and op: "writer_open (pipe_at s k) \<noteq> 0" "reader_open (pipe_at s k) \<noteq> 0" "data_size (pipe_at s k) = 0"
    and ptr: "usermode_validate_pointer src cnt 0 s = Some True" "usermode_validate_pointer dst cnt 2 s = Some True"
  shows "\<exists>s1 s2. sys_write wfd src cnt P s = Some (cnt, s1) \<and> sys_read rfd dst cnt P s1 = Some (cnt, s2) \<and>
    load_bytes dst (unat cnt) (umem s2) = load_bytes src (unat cnt) (umem s) \<and>
    heap_rep (kheap s2) bs \<and> (\<forall>j. j \<noteq> k \<longrightarrow> pipe_at s2 j = pipe_at s j)"
proof -
  let ?buf = "load_bytes src (unat cnt) (umem s)"
  have kl: "k < length (pipes s)" using pipe_get_by_fd_Some [OF k(1)] by simp
  have pk: "pipe_ok (pipe_at s k)" using ok kl by (simp add: pipes_ok_def)
  have e: "pipe_contents (pipe_at s k) = []" using op(3) by (simp add: pipe_contents_def ring_slice_def)
  obtain s1 where w: "sys_write wfd src cnt P s = Some (cnt, s1)" "heap_rep (kheap s1) bs" "umem s1 = umem s"
    "\<And>p n f. usermode_validate_pointer p n f s1 = usermode_validate_pointer p n f s"
    "length (pipes s1) = length (pipes s)" "pipe_ok (pipe_at s1 k)" "pipe_contents (pipe_at s1 k) = ?buf"
    "\<And>j. j \<noteq> k \<Longrightarrow> pipe_at s1 j = pipe_at s j" "reader_open (pipe_at s1 k) = reader_open (pipe_at s k)"
    "pipe_id (pipe_at s1 k) = pipe_id (pipe_at s k)"
    using sys_write_pipe [OF assms(1-4) cnt k(1) fl(1) op(1,2) pk e ptr(1)] by blast
  have g: "pipe_get_by_fd rfd s1 = Some k"
    using k find_index_cong [of "pipes s1" "pipes s"] w(5,8,10) unfolding pipe_get_by_fd_def by metis
  have len: "length ?buf = unat cnt" by (simp add: load_bytes_nth)
  obtain s2 where r: "sys_read rfd dst cnt P s1 = Some (cnt, s2)" "heap_rep (kheap s2) bs" "umem s2 = store_bytes dst ?buf (umem s1)"
    "\<And>j. j \<noteq> k \<Longrightarrow> pipe_at s2 j = pipe_at s1 j"
    using sys_read_pipe [OF w(2) assms(2-4) cnt g fl(2) _ w(6,7) len, of dst P] w(4,9) op(2) ptr(2) by metis
  have "load_bytes dst (unat cnt) (umem s2) = ?buf"
    using load_store [of ?buf dst "umem s1"] len r(3) cnt(2) by simp
  then show ?thesis using w(1,8) r(1,2,4) by auto
qed

theorem pipe_syscalls_transfer_witness:
  "\<exists>s1 s2. sys_write 10 0x400010 3 sample_platform sample_user = Some (3, s1) \<and>
    sys_read 9 0x400100 3 sample_platform s1 = Some (3, s2) \<and> heap_rep (kheap s2) initial_blocks"
proof -
  have v: "usermode_validate_pointer 0x400010 3 0 sample_user = Some True" "usermode_validate_pointer 0x400100 3 2 sample_user = Some True"
    by (rule sample_pointer; simp)+
  show ?thesis
    using pipe_syscalls_transfer [OF sample_user_heap _ _ _ sample_user_pipes(1,2) _ _ _ _ _ _ v, of 9 sample_platform]
    by (simp add: HEADER_def) (simp add: sample_kpipe_def kdev.defs zero_pipe_def; blast)
qed

text \<open>C36: 
  The standard streams do not work while a pipe is unused: the descriptors 1 and 2 belong to the pipe with number 0,
  and the number of an unused slot is 0, so that output is taken for a write to a closed pipe. The call returns
  -3 and nothing is printed.
\<close>

theorem sys_write_stdout_refused:
  assumes "heap_rep (kheap s) bs" "coalesced bs" "(room, True) \<in> set bs" "unat cnt \<le> room" "cnt \<noteq> 0" "unat cnt + 7 < 2 ^ 64"
    and k: "find_index (\<lambda>p. pipe_id p = 0) (pipes s) = Some k" "writer_open (pipe_at s k) = 0"
    and fd: "fd = 1 \<or> fd = 2" and ptr: "usermode_validate_pointer src cnt 0 s = Some True"
  shows "\<exists>h. sys_write fd src cnt P s = Some (- 3, s\<lparr>kheap := h\<rparr>) \<and> heap_rep h bs"
proof -
  obtain p h' h'' where b: "kbuf_alloc cnt s = Some (p, s\<lparr>kheap := h'\<rparr>)" "p \<noteq> 0"
    "\<And>t :: 'a kuser_scheme. kheap t = h' \<Longrightarrow> kbuf_store p (unat cnt) t = Some ()"
    "\<And>t :: 'a kuser_scheme. kheap t = h' \<Longrightarrow> kbuf_free p t = Some (t\<lparr>kheap := h''\<rparr>)" "heap_rep h'' bs"
    using kbuf_roundtrip [OF assms(1-6)] by blast
  let ?s = "s\<lparr>kheap := h'\<rparr>" and ?buf = "load_bytes src (unat cnt) (umem s)"
  have fd0: "drop_bit 3 fd = 0" using fd by auto
  have g: "pipe_get_by_fd fd s = Some k" "pipe_get_by_fd fd ?s = Some k" using k(1) by (simp_all add: pipe_get_by_fd_def fd0)
  have "usermode_validate_pointer src cnt 0 ?s = Some True" using ptr validate_pointer_cong [of ?s s] by simp
  then have cp: "usermode_copy_from_user src cnt ?s = Some (Some ?buf)" by (simp add: usermode_copy_from_user_def)
  have "pipe_write (pf_handler P) (pf_depth P) fd ?buf ?s = Some (- 3, ?s)" using g(2) k(2) by (simp add: pipe_write_def)
  then have "sys_write fd src cnt P s = Some (- 3, s\<lparr>kheap := h''\<rparr>)"
    using g(1) ptr b(1,2) b(3,4) [of ?s] cp by (simp add: sys_write_def load_bytes_nth)
  then show ?thesis using b(5) by blast
qed

theorem sys_write_stdout_refused_witness:
  "\<exists>h. sys_write 1 0x400010 3 sample_platform sample_user = Some (- 3, sample_user\<lparr>kheap := h\<rparr>)"
proof -
  have v: "usermode_validate_pointer 0x400010 3 0 sample_user = Some True" by (rule sample_pointer; simp)
  have k: "find_index (\<lambda>p. pipe_id p = 0) (pipes sample_user) = Some 1" "writer_open (pipe_at sample_user 1) = 0"
    unfolding find_index_Some by (simp_all add: sample_kpipe_def kdev.defs zero_pipe_def)
  show ?thesis
    using sys_write_stdout_refused [OF sample_user_heap _ _ _ k _ v, of 1 sample_platform] by (auto simp: HEADER_def)
qed

text \<open>C37: 
  Killing a process by its pid does nothing: because the pids are unsigned, every pid but 0 and -1 is below -1 and
  taken for the negative of a process group. If no process is in the group \<open>- pid\<close>, \<open>sys_kill\<close> of \<open>syscall.c\<close>
  returns 0 and changes nothing, while the function of the same name in \<open>signals.c\<close> ends the process.
\<close>

theorem sys_kill_misses:
  assumes "handler_ok (pf_handler P)" "quiet_handler (pf_handler P)" "130 \<le> pf_depth P" "kernel_inv s"
    and "get_process pid s = Some i" "pid \<noteq> 0" "pid \<noteq> - 1"
    and "\<forall>j < MAX_PROCESSES. p_pid (proc s j) \<noteq> 0 \<longrightarrow> p_process_group (proc s j) \<noteq> - pid"
  shows "sys_kill pid 9 P s = Some (0, s) \<and>
    (\<exists>s'. sys_kill_signals pid 9 P s = Some (0, s') \<and> p_state (proc s' i) = PROCESS_STATE_ZOMBIE)"
proof -
  have nine: "u64_to_int 9 = 9" by (simp add: u64_to_int_small)
  have "send_group_loop (pf_handler P) (pf_depth P) (- pid) 9 is n s = Some (n, s)" if "set is \<subseteq> {..<MAX_PROCESSES}" for "is" n
    using that by (induction "is") (use assms(8) in \<open>auto simp del: signal_send.simps\<close>)
  then have group: "send_signal_to_process_group (pf_handler P) (pf_depth P) (- pid) 9 s = Some (0, s)"
    unfolding send_signal_to_process_group_def by (simp add: subset_iff)
  have "pid < - 1" using assms(7) word_order.extremum [of pid] by (simp add: order_less_le)
  then have "sys_kill pid 9 P s = Some (0, s)" using group assms(6) by (simp add: sys_kill_def nine)
  moreover have "p_pid (proc s i) = pid" using get_process_Some [OF assms(5)] by simp
  moreover obtain s' where "exit_process (pf_handler P) (pf_depth P) pid (of_int 137) s = Some s'" "p_state (proc s' i) = PROCESS_STATE_ZOMBIE"
    using exit_process_total [OF assms(1,2,4) _ assms(5), of "pf_depth P" "of_int 137"] assms(3) by auto
  ultimately show ?thesis using assms(5) by (simp add: sys_kill_signals_def nine del: exit_process.simps)
qed

theorem sys_kill_misses_witness:
  "sys_kill 2 9 sample_platform sample_user = Some (0, sample_user) \<and>
    (\<exists>s'. sys_kill_signals 2 9 sample_platform sample_user = Some (0, s') \<and> p_state (proc s' 1) = PROCESS_STATE_ZOMBIE)"
proof (rule sys_kill_misses [OF sample_platform_ok(2-4) sample_user_inv])
  show "get_process 2 sample_user = Some 1" using sample_slot(1) by (simp add: get_process_def)
  show "\<forall>j < MAX_PROCESSES. p_pid (proc sample_user j) \<noteq> 0 \<longrightarrow> p_process_group (proc sample_user j) \<noteq> - 2"
    by (auto simp: sample_kproc_def zero_process_def nth_Cons split: nat.splits)
qed simp_all

text \<open>
  Waiting for a child: \<open>sys_wait\<close> with a null pointer returns the pid of a zombie child exactly when there is one with a
  pid below 64; the table is not changed, so that the same call gives the same child again. Otherwise the caller
  is blocked and -1 is returned.
\<close>

theorem sys_wait_finds:
  assumes "handler_ok (pf_handler P)" "quiet_handler (pf_handler P)" "130 \<le> pf_depth P" "kernel_inv s" "get_current_process s = Some c"
  shows "\<exists>r s'. sys_wait 0 P s = Some (r, s') \<and>
    (if \<exists>pid j. unat pid < 64 \<and> get_process pid s = Some j \<and> p_parent_pid (proc s j) = p_pid (proc s c) \<and> p_state (proc s j) = PROCESS_STATE_ZOMBIE
     then s' = s \<and> (\<exists>j. get_process r s = Some j \<and> p_parent_pid (proc s j) = p_pid (proc s c) \<and> p_state (proc s j) = PROCESS_STATE_ZOMBIE)
     else r = - 1 \<and> p_state (proc s' c) = PROCESS_STATE_BLOCKED)"
    (is "\<exists>r s'. _ \<and> (if ?Z then _ else _)")
proof (cases "find (zombie_child (p_pid (proc s c)) s) [0..<MAX_PROCESSES]")
  case (Some i)
  then have i: "zombie_child (p_pid (proc s c)) s i" "i < 64" by (auto simp: find_Some_iff)
  then have "unat (of_nat i :: u64) = i" by (simp add: unat_of_nat take_bit_nat_eq_self)
  then have z: ?Z "\<exists>j. get_process (of_nat i) s = Some j \<and> p_parent_pid (proc s j) = p_pid (proc s c) \<and> p_state (proc s j) = PROCESS_STATE_ZOMBIE"
    using i by (auto simp: zombie_child_def split: option.splits intro!: exI [of _ "of_nat i :: u64"])
  have "sys_wait 0 P s = Some (of_nat i, s)" using assms(5) Some by (simp add: sys_wait_def)
  then show ?thesis using z by auto
next
  case None
  have "\<not> ?Z"
  proof
    assume ?Z
    then obtain pid j where z: "unat pid < 64" "get_process pid s = Some j" "p_parent_pid (proc s j) = p_pid (proc s c)"
      "p_state (proc s j) = PROCESS_STATE_ZOMBIE" by blast
    then have "zombie_child (p_pid (proc s c)) s (unat pid)" by (simp add: zombie_child_def)
    then show False using None z(1) by (auto simp: find_None_iff)
  qed
  let ?b = "block_process (p_pid (proc s c)) s"
  have c: "c < MAX_PROCESSES" "p_pid (proc s c) \<noteq> 0" using current_slot [OF assms(5,4)] by simp_all
  have len: "c < length (processes s)" using c(1) kernel_invD(1) [OF assms(4)] by simp
  have "?b = upd_proc c (\<lambda>p. p\<lparr>p_state := PROCESS_STATE_BLOCKED\<rparr>) s"
    using get_process_slot [OF assms(4) c] by (simp add: block_process_def)
  then have blocked: "p_state (proc ?b c) = PROCESS_STATE_BLOCKED" using len by (simp add: proc_upd_proc)
  have depth: "2 * MAX_PROCESSES < pf_depth P" using assms(3) by simp
  obtain s' where s': "schedule (pf_handler P) (pf_depth P) ?b = Some s'" "survives ?b s'"
    using schedule_total [OF assms(1,2) kernel_inv_block [OF assms(4)] depth] .
  have "c \<notin> runnables ?b" using blocked by (simp add: runnables_def runnable_def)
  then have "p_state (proc s' c) = PROCESS_STATE_BLOCKED" using s'(2) blocked c(1) by (simp add: survives_def)
  moreover have "sys_wait 0 P s = Some (- 1, s')" using assms(5) None s'(1) by (simp add: sys_wait_def)
  ultimately show ?thesis using \<open>\<not> ?Z\<close> by auto
qed

theorem sys_wait_finds_witness:
  "\<exists>r s'. sys_wait 0 sample_platform sample_user = Some (r, s')"
  using sys_wait_finds [OF sample_platform_ok(2-4) sample_user_inv sample_user_current] by blast



text \<open>
  A leak: for \<open>SIGKILL\<close> the call fails without storing the old action, but copies the local variable for it to
  user memory all the same: what the kernel's stack held before.
\<close>

theorem sys_sigaction_leaks:
  assumes "get_current_process s = Some c" "old \<noteq> 0" "usermode_validate_pointer old 24 2 s = Some True" "length (pf_locals P) = 24"
  shows "\<exists>s'. sys_sigaction 9 0 old P s = Some (- 1, s') \<and> load_bytes old 24 (umem s') = pf_locals P"
proof -
  have "u64_to_int 9 = 9" by (simp add: u64_to_int_small)
  then have "signal_set_action (u64_to_int 9) None True s = (- 1, None, s)" using assms(1) by (simp add: signal_set_action_def)
  moreover have "usermode_copy_to_user old (pf_locals P) s = Some (True, s\<lparr>umem := store_bytes old (pf_locals P) (umem s)\<rparr>)"
    using assms(3,4) by (simp add: usermode_copy_to_user_def)
  ultimately have "sys_sigaction 9 0 old P s = Some (- 1, s\<lparr>umem := store_bytes old (pf_locals P) (umem s)\<rparr>)"
    using assms(2-4) by (simp add: sys_sigaction_def)
  then show ?thesis using load_store [of "pf_locals P" old "umem s"] assms(4) by auto
qed

theorem sys_sigaction_leaks_witness:
  "\<exists>s'. sys_sigaction 9 0 0x400010 sample_platform sample_user = Some (- 1, s') \<and> load_bytes 0x400010 24 (umem s') = replicate 24 7"
proof -
  have v: "usermode_validate_pointer 0x400010 24 2 sample_user = Some True" by (rule sample_pointer; simp)
  show ?thesis
    using sys_sigaction_leaks [OF sample_user_current _ v, of sample_platform] by (simp add: sample_platform_def)
qed

end
