(* ===== verification/Coreutils.thy ===== *)
theory Coreutils
  imports Syscall
begin

text \<open>
  The built-in commands, \<open>coreutils.c\<close>: splitting a command line in place, the table of commands, and
  the commands. A \<open>char*\<close> into the command line is an offset into the buffer. The commands use a file interface
  (\<open>fs_open\<close> with a mode that returns a handle, \<open>fs_chdir\<close>, \<open>fs_rename\<close> and others) that \<open>filesystem.h\<close> does not declare; it is the
  record \<open>file_api\<close>, an argument of the commands. A handle is an address, 0 for \<open>NULL\<close>.
\<close>

abbreviation VGA_COLOR_LIGHT_GREY :: u8 where "VGA_COLOR_LIGHT_GREY \<equiv> 7"
abbreviation VGA_COLOR_LIGHT_BLUE :: u8 where "VGA_COLOR_LIGHT_BLUE \<equiv> 9"
abbreviation VGA_COLOR_LIGHT_GREEN :: u8 where "VGA_COLOR_LIGHT_GREEN \<equiv> 10"
abbreviation VGA_COLOR_LIGHT_CYAN :: u8 where "VGA_COLOR_LIGHT_CYAN \<equiv> 11"

record dir_entry =
  entry_name :: string
  entry_is_dir :: bool

record 's file_api =
  api_opendir :: "string \<Rightarrow> 's \<Rightarrow> (u64 \<times> 's) option"
  api_readdir :: "u64 \<Rightarrow> 's \<Rightarrow> (int \<times> dir_entry \<times> 's) option"
  api_closedir :: "u64 \<Rightarrow> 's \<Rightarrow> 's option"
  api_chdir :: "string \<Rightarrow> 's \<Rightarrow> (int \<times> 's) option"
  api_getcwd :: "string \<Rightarrow> 's \<Rightarrow> (bool \<times> string \<times> 's) option"
  api_mkdir :: "string \<Rightarrow> 's \<Rightarrow> (int \<times> 's) option"
  api_rmdir :: "string \<Rightarrow> 's \<Rightarrow> (int \<times> 's) option"
  api_unlink :: "string \<Rightarrow> 's \<Rightarrow> (int \<times> 's) option"
  api_rename :: "string \<Rightarrow> string \<Rightarrow> 's \<Rightarrow> (int \<times> 's) option"
  api_open :: "string \<Rightarrow> string \<Rightarrow> 's \<Rightarrow> (u64 \<times> 's) option"
  api_read :: "u64 \<Rightarrow> nat \<Rightarrow> 's \<Rightarrow> (u64 \<times> string \<times> 's) option"
  api_write :: "u64 \<Rightarrow> string \<Rightarrow> 's \<Rightarrow> 's option"
  api_close :: "u64 \<Rightarrow> 's \<Rightarrow> 's option"

type_synonym ('z) command_func =
  "string list \<Rightarrow> 'z kuser_scheme platform \<Rightarrow> 'z kuser_scheme file_api \<Rightarrow> 'z kuser_scheme \<Rightarrow> (int \<times> 'z kuser_scheme) option"

section \<open>Output\<close>

definition kputchar :: "char \<Rightarrow> 'z kproc_scheme \<Rightarrow> 'z kproc_scheme" where
  "kputchar c s = s\<lparr>kterm := terminal_putchar c (kterm s)\<rparr>"

definition ksetcolor :: "u8 \<Rightarrow> 'z kproc_scheme \<Rightarrow> 'z kproc_scheme" where
  "ksetcolor fg s = s\<lparr>kterm := terminal_setcolor (vga_entry_color fg 0) (kterm s)\<rparr>"

definition kclear :: "'z kproc_scheme \<Rightarrow> 'z kproc_scheme" where
  "kclear s = s\<lparr>kterm := terminal_initialize (kterm s)\<rparr>"

definition kprint_times :: "nat \<Rightarrow> string \<Rightarrow> 'z kproc_scheme \<Rightarrow> 'z kproc_scheme" where
  "kprint_times n msg s = (kprint msg ^^ n) s"

text \<open>A message, the argument it is about, and a new line.\<close>

definition complain :: "string \<Rightarrow> string \<Rightarrow> 'z kproc_scheme \<Rightarrow> 'z kproc_scheme" where
  "complain msg arg s = kprint [NL] (kprint arg (kprint msg s))"

section \<open>The command line\<close>

text \<open>
  \<open>i\<close> is the position, \<open>argv\<close> the offsets found so far; the blank behind an argument is overwritten by NUL.
  The loop stops when all but the last slot of \<open>argv\<close> are used.
\<close>

function parse_loop :: "nat \<Rightarrow> nat \<Rightarrow> bool \<Rightarrow> nat list \<Rightarrow> string \<Rightarrow> nat list \<times> string" where
  "parse_loop max_args i in_word argv line =
     (if i < length line \<and> line ! i \<noteq> NUL \<and> length argv < max_args - 1 then
        if line ! i = CHR '' '' \<or> line ! i = TAB
        then parse_loop max_args (Suc i) False argv (if in_word then line[i := NUL] else line)
        else parse_loop max_args (Suc i) True (if in_word then argv else argv @ [i]) line
      else (argv, line))"
  by pat_completeness auto
termination by (relation "measure (\<lambda>(_, i, _, _, line). length line - i)") auto

declare parse_loop.simps [simp del]

definition parse_command_line :: "string \<Rightarrow> nat \<Rightarrow> nat list \<times> string" where
  "parse_command_line command_line max_args = parse_loop max_args 0 False [] command_line"

section \<open>Directories\<close>

partial_function (option) ls_loop ::
  "'z kuser_scheme file_api \<Rightarrow> u64 \<Rightarrow> nat \<Rightarrow> 'z kuser_scheme \<Rightarrow> (nat \<times> 'z kuser_scheme) option" where
  "ls_loop A dir count s =
     do { (r, entry, s1) \<leftarrow> api_readdir A dir s;
          if r \<noteq> 0 then Some (count, s1)
          else if cstr (entry_name entry) = ''.'' \<or> cstr (entry_name entry) = ''..'' then ls_loop A dir count s1
          else
            (let s2 = (if entry_is_dir entry
                       then kprint ''/'' (kprint (entry_name entry) (ksetcolor VGA_COLOR_LIGHT_BLUE s1))
                       else kprint (entry_name entry) (ksetcolor VGA_COLOR_LIGHT_GREY s1));
                 s3 = kprint_times (20 - strlen (entry_name entry)) '' '' s2
             in ls_loop A dir (Suc count) (if Suc count mod 4 = 0 then kprint [NL] s3 else s3)) }"

definition cmd_ls :: "('z) command_func" where
  "cmd_ls argv P A s =
     (let path = (if length argv > 1 then argv ! 1 else ''.'')
      in do { (dir, s1) \<leftarrow> api_opendir A path s;
              if dir = 0 then Some (- 1, complain ''Hata: Dizin acilamadi: '' path s1)
              else
                do { (count, s2) \<leftarrow> ls_loop A dir 0
                       (kprint (''----------------------------------'' @ [NL]) (complain ''Dizin listesi: '' path s1));
                     s3 \<leftarrow> api_closedir A dir (ksetcolor VGA_COLOR_LIGHT_GREY (if count mod 4 \<noteq> 0 then kprint [NL] s2 else s2));
                     Some (0, s3) } })"

definition cmd_cd :: "('z) command_func" where
  "cmd_cd argv P A s =
     (if length argv < 2 then Some (- 1, kprint (''Hata: Dizin belirtilmedi'' @ [NL]) s)
      else do { (r, s1) \<leftarrow> api_chdir A (argv ! 1) s;
                if r \<noteq> 0
                then Some (- 1, complain (''Hata: Dizin de'' @ [CHR 0xC4, CHR 0x9F] @ ''i'' @ [CHR 0xC5, CHR 0x9F] @ ''tirilemedi: '') (argv ! 1) s1)
                else Some (0, s1) })"

text \<open>\<open>path\<close> is an uninitialised local array of 256 bytes, filled by \<open>fs_getcwd\<close>.\<close>

definition cmd_pwd :: "('z) command_func" where
  "cmd_pwd argv P A s =
     do { (same, path, s1) \<leftarrow> api_getcwd A (replicate 256 NUL) s;
          if \<not> same then Some (- 1, kprint (''Hata: '' @ [CHR 0xC3, CHR 0x87] @ ''al'' @ [CHR 0xC4, CHR 0xB1, CHR 0xC5, CHR 0x9F] @ ''ma dizini al'' @ [CHR 0xC4, CHR 0xB1] @ ''namad'' @ [CHR 0xC4, CHR 0xB1, NL]) s1)
          else Some (0, kprint [NL] (kprint path s1)) }"

definition cmd_mkdir :: "('z) command_func" where
  "cmd_mkdir argv P A s =
     (if length argv < 2 then Some (- 1, kprint (''Hata: Dizin ad'' @ [CHR 0xC4, CHR 0xB1] @ '' belirtilmedi'' @ [NL]) s)
      else do { (r, s1) \<leftarrow> api_mkdir A (argv ! 1) s;
                if r \<noteq> 0
                then Some (- 1, complain (''Hata: Dizin olu'' @ [CHR 0xC5, CHR 0x9F] @ ''turulamad'' @ [CHR 0xC4, CHR 0xB1] @ '': '') (argv ! 1) s1)
                else Some (0, s1) })"

definition cmd_rmdir :: "('z) command_func" where
  "cmd_rmdir argv P A s =
     (if length argv < 2 then Some (- 1, kprint (''Hata: Dizin ad'' @ [CHR 0xC4, CHR 0xB1] @ '' belirtilmedi'' @ [NL]) s)
      else do { (r, s1) \<leftarrow> api_rmdir A (argv ! 1) s;
                if r \<noteq> 0
                then Some (- 1, complain ''Hata: Dizin silinemedi: '' (argv ! 1) s1)
                else Some (0, s1) })"

section \<open>Files\<close>

definition cmd_rm :: "('z) command_func" where
  "cmd_rm argv P A s =
     (if length argv < 2 then Some (- 1, kprint (''Hata: Dosya ad'' @ [CHR 0xC4, CHR 0xB1] @ '' belirtilmedi'' @ [NL]) s)
      else do { (r, s1) \<leftarrow> api_unlink A (argv ! 1) s;
                if r \<noteq> 0
                then Some (- 1, complain ''Hata: Dosya silinemedi: '' (argv ! 1) s1)
                else Some (0, s1) })"

text \<open>A count above the size of the buffer would make \<open>fs_write\<close> read beyond it.\<close>

partial_function (option) cp_loop ::
  "'z kuser_scheme file_api \<Rightarrow> u64 \<Rightarrow> u64 \<Rightarrow> 'z kuser_scheme \<Rightarrow> 'z kuser_scheme option" where
  "cp_loop A src dst s =
     do { (nread, buffer, s1) \<leftarrow> api_read A src 512 s;
          if nread > 0 then
            if nread > 512 then None
            else do { s2 \<leftarrow> api_write A dst (take (unat nread) buffer) s1; cp_loop A src dst s2 }
          else Some s1 }"

definition cmd_cp :: "('z) command_func" where
  "cmd_cp argv P A s =
     (if length argv < 3
      then Some (- 1, kprint (''Kullan'' @ [CHR 0xC4, CHR 0xB1] @ ''m: cp <kaynak> <hedef>'' @ [NL]) (kprint (''Hata: Eksik arg'' @ [CHR 0xC3, CHR 0xBC] @ ''man'' @ [NL]) s))
      else do { (src, s1) \<leftarrow> api_open A (argv ! 1) ''r'' s;
                if src = 0
                then Some (- 1, complain (''Hata: Kaynak dosya a'' @ [CHR 0xC3, CHR 0xA7, CHR 0xC4, CHR 0xB1] @ ''lamad'' @ [CHR 0xC4, CHR 0xB1] @ '': '') (argv ! 1) s1)
                else
                  do { (dst, s2) \<leftarrow> api_open A (argv ! 2) ''w'' s1;
                       if dst = 0
                       then do { s3 \<leftarrow> api_close A src s2;
                                 Some (- 1, complain (''Hata: Hedef dosya a'' @ [CHR 0xC3, CHR 0xA7, CHR 0xC4, CHR 0xB1] @ ''lamad'' @ [CHR 0xC4, CHR 0xB1] @ '': '') (argv ! 2) s3) }
                       else do { s3 \<leftarrow> cp_loop A src dst s2;
                                 s4 \<leftarrow> api_close A src s3;
                                 s5 \<leftarrow> api_close A dst s4;
                                 Some (0, s5) } } })"

definition cmd_mv :: "('z) command_func" where
  "cmd_mv argv P A s =
     (if length argv < 3
      then Some (- 1, kprint (''Kullan'' @ [CHR 0xC4, CHR 0xB1] @ ''m: mv <kaynak> <hedef>'' @ [NL]) (kprint (''Hata: Eksik arg'' @ [CHR 0xC3, CHR 0xBC] @ ''man'' @ [NL]) s))
      else do { (r, s1) \<leftarrow> api_rename A (argv ! 1) (argv ! 2) s;
                if r \<noteq> 0
                then Some (- 1, kprint [NL] (kprint (argv ! 2) (kprint '' -> '' (kprint (argv ! 1)
                       (kprint (''Hata: Dosya ta'' @ [CHR 0xC5, CHR 0x9F, CHR 0xC4, CHR 0xB1] @ ''namad'' @ [CHR 0xC4, CHR 0xB1] @ '': '') s1)))))
                else Some (0, s1) })"

partial_function (option) cat_loop ::
  "'z kuser_scheme file_api \<Rightarrow> u64 \<Rightarrow> 'z kuser_scheme \<Rightarrow> 'z kuser_scheme option" where
  "cat_loop A file s =
     do { (nread, buffer, s1) \<leftarrow> api_read A file 511 s;
          if nread > 0 then
            if nread > 511 then None
            else cat_loop A file (kprint (take (unat nread) buffer @ [NUL]) s1)
          else Some s1 }"

definition cmd_cat :: "('z) command_func" where
  "cmd_cat argv P A s =
     (if length argv < 2 then Some (- 1, kprint (''Hata: Dosya ad'' @ [CHR 0xC4, CHR 0xB1] @ '' belirtilmedi'' @ [NL]) s)
      else do { (file, s1) \<leftarrow> api_open A (argv ! 1) ''r'' s;
                if file = 0
                then Some (- 1, complain (''Hata: Dosya a'' @ [CHR 0xC3, CHR 0xA7, CHR 0xC4, CHR 0xB1] @ ''lamad'' @ [CHR 0xC4, CHR 0xB1] @ '': '') (argv ! 1) s1)
                else do { s2 \<leftarrow> cat_loop A file s1;
                          s3 \<leftarrow> api_close A file (kprint [NL] s2);
                          Some (0, s3) } })"

definition cmd_touch :: "('z) command_func" where
  "cmd_touch argv P A s =
     (if length argv < 2 then Some (- 1, kprint (''Hata: Dosya ad'' @ [CHR 0xC4, CHR 0xB1] @ '' belirtilmedi'' @ [NL]) s)
      else do { (file, s1) \<leftarrow> api_open A (argv ! 1) ''a'' s;
                if file = 0
                then Some (- 1, complain (''Hata: Dosya olu'' @ [CHR 0xC5, CHR 0x9F] @ ''turulamad'' @ [CHR 0xC4, CHR 0xB1] @ '': '') (argv ! 1) s1)
                else do { s2 \<leftarrow> api_close A file s1; Some (0, s2) } })"

section \<open>Processes and the screen\<close>

fun echo_args :: "string list \<Rightarrow> 'z kproc_scheme \<Rightarrow> 'z kproc_scheme" where
  "echo_args [] s = s"
| "echo_args [a] s = kprint a s"
| "echo_args (a # b # as) s = echo_args (b # as) (kprint '' '' (kprint a s))"

definition cmd_echo :: "('z) command_func" where
  "cmd_echo argv P A s = Some (0, kprint [NL] (echo_args (tl argv) s))"

definition state_str :: "u8 \<Rightarrow> string" where
  "state_str st =
     (if st = PROCESS_STATE_READY then ''READY''
      else if st = PROCESS_STATE_RUNNING then ''RUNNING''
      else if st = PROCESS_STATE_BLOCKED then ''BLOCKED''
      else if st = PROCESS_STATE_SLEEPING then ''SLEEPING''
      else if st = PROCESS_STATE_ZOMBIE then ''ZOMBIE''
      else if st = PROCESS_STATE_STOPPED then ''STOPPED''
      else ''UNKNOWN'')"

text \<open>One line of \<open>ps\<close>, for the pid \<open>i\<close>.\<close>

definition ps_line :: "nat \<Rightarrow> 'z kproc_scheme \<Rightarrow> 'z kproc_scheme" where
  "ps_line i s =
     (case get_process (of_nat i) s of
        None \<Rightarrow> s
      | Some j \<Rightarrow>
          if p_pid (proc s j) \<noteq> 0
          then kprint [NL] (kprint (p_name (proc s j)) (kprint [TAB] (kprint_int (p_cpu_time (proc s j))
                 (kprint [TAB] (kprint (state_str (p_state (proc s j))) (kprint [TAB] (kprint_int (p_pid (proc s j)) s)))))))
          else s)"

definition cmd_ps :: "('z) command_func" where
  "cmd_ps argv P A s =
     Some (0, fold ps_line [0..<MAX_PROCESSES]
       (kprint (''-----------------------------------'' @ [NL]) (kprint (''PID'' @ [TAB] @ ''DURUM'' @ [TAB] @ ''CPU'' @ [TAB] @ ''AD'' @ [NL]) s)))"

text \<open>The signal named by the argument of \<open>-s\<close>, \<^const>\<open>None\<close> when it is refused.\<close>

definition kill_signum :: "string \<Rightarrow> int option" where
  "kill_signum arg =
     (if strcmp arg ''SIGTERM'' = 0 \<or> strcmp arg ''15'' = 0 then Some 15
      else if strcmp arg ''SIGKILL'' = 0 \<or> strcmp arg ''9'' = 0 then Some 9
      else if strcmp arg ''SIGINT'' = 0 \<or> strcmp arg ''2'' = 0 then Some 2
      else if strcmp arg ''SIGHUP'' = 0 \<or> strcmp arg ''1'' = 0 then Some 1
      else if strcmp arg ''SIGCONT'' = 0 \<or> strcmp arg ''18'' = 0 then Some 18
      else if strcmp arg ''SIGSTOP'' = 0 \<or> strcmp arg ''19'' = 0 then Some 19
      else let signum = atoi arg in if signum \<le> 0 \<or> signum \<ge> 32 then None else Some signum)"

definition cmd_kill :: "('z) command_func" where
  "cmd_kill argv P A s =
     (let opt = length argv \<ge> 3 \<and> strcmp (argv ! 1) ''-s'' = 0;
          pid_arg_index = (if opt then 3 else 1)
      in case (if opt then kill_signum (argv ! 2) else Some 15) of
           None \<Rightarrow> Some (- 1, kprint (''Hata: Ge'' @ [CHR 0xC3, CHR 0xA7] @ ''ersiz sinyal numaras'' @ [CHR 0xC4, CHR 0xB1, NL]) s)
         | Some signum \<Rightarrow>
             if pid_arg_index \<ge> length argv then Some (- 1, kprint (''Hata: PID belirtilmedi'' @ [NL]) s)
             else do { (r, s1) \<leftarrow> sys_kill (int_to_u64 (atoi (argv ! pid_arg_index))) (int_to_u64 signum) P s;
                       if r \<noteq> 0 then Some (- 1, kprint (''Hata: Sinyal g'' @ [CHR 0xC3, CHR 0xB6] @ ''nderilemedi'' @ [NL]) s1)
                       else Some (0, s1) })"

definition cmd_sleep :: "('z) command_func" where
  "cmd_sleep argv P A s =
     (if length argv < 2 then Some (- 1, kprint (''Hata: S'' @ [CHR 0xC3, CHR 0xBC] @ ''re belirtilmedi'' @ [NL]) s)
      else let seconds = atoi (argv ! 1)
           in if seconds \<le> 0 then Some (- 1, kprint (''Hata: Ge'' @ [CHR 0xC3, CHR 0xA7] @ ''ersiz s'' @ [CHR 0xC3, CHR 0xBC] @ ''re'' @ [NL]) s)
              else do { (_, s1) \<leftarrow> sys_sleep (int_to_u64 (wrap32 (seconds * 1000))) P s; Some (0, s1) })"

definition cmd_clear :: "('z) command_func" where
  "cmd_clear argv P A s = Some (0, kclear s)"

definition cmd_exit :: "('z) command_func" where
  "cmd_exit argv P A s =
     (let status = (if length argv > 1 then atoi (argv ! 1) else 0)
      in do { (pid, s1) \<leftarrow> sys_getpid P s;
              s2 \<leftarrow> exit_process (pf_handler P) (pf_depth P) pid (int_to_u64 status) s1;
              Some (0, s2) })"

section \<open>The table of commands\<close>

text \<open>
  The array \<open>commands\<close> as two tables with the same indices, since \<open>cmd_help\<close> reads the texts of the array that
  holds it.
\<close>

record command =
  cmd_name :: string
  cmd_description :: string
  cmd_usage :: string

definition commands :: "command list" where
  "commands =
     [\<lparr>cmd_name = ''ls'', cmd_description = (''Dizin i'' @ [CHR 0xC3, CHR 0xA7] @ ''eri'' @ [CHR 0xC4, CHR 0x9F] @ ''ini listele''), cmd_usage = ''ls [dizin]''\<rparr>,
      \<lparr>cmd_name = ''cd'', cmd_description = ([CHR 0xC3, CHR 0x87] @ ''al'' @ [CHR 0xC4, CHR 0xB1, CHR 0xC5, CHR 0x9F] @ ''ma dizinini de'' @ [CHR 0xC4, CHR 0x9F] @ ''i'' @ [CHR 0xC5, CHR 0x9F] @ ''tir''), cmd_usage = ''cd [dizin]''\<rparr>,
      \<lparr>cmd_name = ''pwd'', cmd_description = (''Mevcut '' @ [CHR 0xC3, CHR 0xA7] @ ''al'' @ [CHR 0xC4, CHR 0xB1, CHR 0xC5, CHR 0x9F] @ ''ma dizinini g'' @ [CHR 0xC3, CHR 0xB6] @ ''ster''), cmd_usage = ''pwd''\<rparr>,
      \<lparr>cmd_name = ''mkdir'', cmd_description = (''Yeni dizin olu'' @ [CHR 0xC5, CHR 0x9F] @ ''tur''), cmd_usage = ''mkdir <dizin>''\<rparr>,
      \<lparr>cmd_name = ''rmdir'', cmd_description = ''Dizini sil'', cmd_usage = ''rmdir <dizin>''\<rparr>,
      \<lparr>cmd_name = ''rm'', cmd_description = ''Dosya sil'', cmd_usage = ''rm <dosya>''\<rparr>,
      \<lparr>cmd_name = ''cp'', cmd_description = ''Dosya kopyala'', cmd_usage = ''cp <kaynak> <hedef>''\<rparr>,
      \<lparr>cmd_name = ''mv'', cmd_description = (''Dosya ta'' @ [CHR 0xC5, CHR 0x9F, CHR 0xC4, CHR 0xB1] @ '' veya yeniden adland'' @ [CHR 0xC4, CHR 0xB1] @ ''r''), cmd_usage = ''mv <kaynak> <hedef>''\<rparr>,
      \<lparr>cmd_name = ''cat'', cmd_description = (''Dosya i'' @ [CHR 0xC3, CHR 0xA7] @ ''eri'' @ [CHR 0xC4, CHR 0x9F] @ ''ini g'' @ [CHR 0xC3, CHR 0xB6] @ ''r'' @ [CHR 0xC3, CHR 0xBC] @ ''nt'' @ [CHR 0xC3, CHR 0xBC] @ ''le''), cmd_usage = ''cat <dosya>''\<rparr>,
      \<lparr>cmd_name = ''echo'', cmd_description = (''Metni ekrana yazd'' @ [CHR 0xC4, CHR 0xB1] @ ''r''), cmd_usage = ''echo [metin...]''\<rparr>,
      \<lparr>cmd_name = ''ps'', cmd_description = ([CHR 0xC3, CHR 0x87] @ ''al'' @ [CHR 0xC4, CHR 0xB1, CHR 0xC5, CHR 0x9F] @ ''an s'' @ [CHR 0xC3, CHR 0xBC] @ ''re'' @ [CHR 0xC3, CHR 0xA7] @ ''leri g'' @ [CHR 0xC3, CHR 0xB6] @ ''ster''), cmd_usage = ''ps''\<rparr>,
      \<lparr>cmd_name = ''kill'', cmd_description = (''S'' @ [CHR 0xC3, CHR 0xBC] @ ''rece sinyal g'' @ [CHR 0xC3, CHR 0xB6] @ ''nder''), cmd_usage = ''kill [-s sinyal] <pid>''\<rparr>,
      \<lparr>cmd_name = ''sleep'', cmd_description = (''Belirtilen s'' @ [CHR 0xC3, CHR 0xBC] @ ''re kadar bekle''), cmd_usage = ''sleep <saniye>''\<rparr>,
      \<lparr>cmd_name = ''touch'', cmd_description = (''Bo'' @ [CHR 0xC5, CHR 0x9F] @ '' dosya olu'' @ [CHR 0xC5, CHR 0x9F] @ ''tur veya zaman damgas'' @ [CHR 0xC4, CHR 0xB1] @ ''n'' @ [CHR 0xC4, CHR 0xB1] @ '' g'' @ [CHR 0xC3, CHR 0xBC] @ ''ncelle''), cmd_usage = ''touch <dosya>''\<rparr>,
      \<lparr>cmd_name = ''clear'', cmd_description = (''Ekran'' @ [CHR 0xC4, CHR 0xB1] @ '' temizle''), cmd_usage = ''clear''\<rparr>,
      \<lparr>cmd_name = ''help'', cmd_description = (''Komut yard'' @ [CHR 0xC4, CHR 0xB1] @ ''m'' @ [CHR 0xC4, CHR 0xB1] @ ''n'' @ [CHR 0xC4, CHR 0xB1] @ '' g'' @ [CHR 0xC3, CHR 0xB6] @ ''ster''), cmd_usage = ''help [komut]''\<rparr>,
      \<lparr>cmd_name = ''exit'', cmd_description = (''Kabuktan '' @ [CHR 0xC3, CHR 0xA7, CHR 0xC4, CHR 0xB1] @ ''k''), cmd_usage = ''exit [durum]''\<rparr>]"

definition print_command_help :: "command \<Rightarrow> 'z kproc_scheme \<Rightarrow> 'z kproc_scheme" where
  "print_command_help cmd s =
     (let s1 = kprint [NL, NL] (kprint (cmd_name cmd) (kprint ''Komut: '' s));
          s2 = kprint [NL, NL] (kprint (cmd_description cmd) (kprint (''A'' @ [CHR 0xC3, CHR 0xA7, CHR 0xC4, CHR 0xB1] @ ''klama: '') s1))
      in kprint [NL] (kprint (cmd_usage cmd) (kprint (''Kullan'' @ [CHR 0xC4, CHR 0xB1] @ ''m: '') s2)))"

definition help_line :: "command \<Rightarrow> 'z kproc_scheme \<Rightarrow> 'z kproc_scheme" where
  "help_line cmd s =
     kprint [NL] (kprint (cmd_description cmd) (kprint '' - '' (kprint_times (10 - strlen (cmd_name cmd)) '' '' (kprint (cmd_name cmd) s))))"

definition cmd_help :: "('z) command_func" where
  "cmd_help argv P A s =
     (if length argv > 1 then
        (case find_index (\<lambda>c. strcmp (argv ! 1) (cmd_name c) = 0) commands of
           Some i \<Rightarrow> Some (0, print_command_help (commands ! i) s)
         | None \<Rightarrow> Some (- 1, complain ''Hata: Bilinmeyen komut: '' (argv ! 1) s))
      else
        Some (0, kprint ([NL] @ ''Daha fazla bilgi i'' @ [CHR 0xC3, CHR 0xA7] @ ''in: help <komut>'' @ [NL]) (fold help_line commands
          (kprint (''---------------------'' @ [NL]) (kprint (''Kullan'' @ [CHR 0xC4, CHR 0xB1] @ ''labilir komutlar:'' @ [NL]) s)))))"

definition command_functions :: "('z) command_func list" where
  "command_functions = [cmd_ls, cmd_cd, cmd_pwd, cmd_mkdir, cmd_rmdir, cmd_rm, cmd_cp, cmd_mv, cmd_cat, cmd_echo, cmd_ps,
     cmd_kill, cmd_sleep, cmd_touch, cmd_clear, cmd_help, cmd_exit]"

text \<open>
  The result is the value of the command, the command line as the splitting leaves it, and the state.
\<close>

definition execute_command ::
  "string \<Rightarrow> 'z kuser_scheme platform \<Rightarrow> 'z kuser_scheme file_api \<Rightarrow> 'z kuser_scheme \<Rightarrow> (int \<times> string \<times> 'z kuser_scheme) option" where
  "execute_command command_line P A s =
     (let (offsets, line) = parse_command_line command_line 64;
          argv = map (\<lambda>i. cstr (drop i line)) offsets
      in if offsets = [] then Some (0, line, s)
         else (case find_index (\<lambda>c. strcmp (argv ! 0) (cmd_name c) = 0) commands of
                 Some i \<Rightarrow> do { (r, s1) \<leftarrow> (command_functions ! i) argv P A s; Some (r, line, s1) }
               | None \<Rightarrow> Some (- 1, line, complain ''Komut bulunamadi: '' (argv ! 0) s)))"

end
