(* ===== verification/CommandProps.thy ===== *)
theory CommandProps
  imports Coreutils SyscallProps
begin

text \<open>
  Correctness of \<open>coreutils.c\<close>: the in-place splitting of the command line against a definition of its
  arguments, the dispatch over the table of commands, the commands and the invariant of the kernel, and the copying of a file.
\<close>

section \<open>Splitting the command line\<close>

definition blank :: "char \<Rightarrow> bool" where
  "blank c \<longleftrightarrow> c = CHR '' '' \<or> c = TAB"

text \<open>The words of a text, and its arguments when there is room for \<open>n\<close> of them: the last one is the whole rest.\<close>

function words :: "string \<Rightarrow> string list" where
  "words t = (let u = dropWhile blank t
              in if u = [] then [] else takeWhile (\<lambda>c. \<not> blank c) u # words (dropWhile (\<lambda>c. \<not> blank c) u))"
  by pat_completeness auto

lemma dropWhile_word_less:
  assumes "dropWhile blank t \<noteq> []"
  shows "length (dropWhile (\<lambda>c. \<not> blank c) (dropWhile blank t)) < length t"
proof -
  obtain c u where u: "dropWhile blank t = c # u" using assms by (cases "dropWhile blank t") auto
  have "\<not> blank c" using hd_dropWhile [OF assms] u by simp
  then have "length (dropWhile (\<lambda>c. \<not> blank c) (dropWhile blank t)) \<le> length u" using u by (simp add: length_dropWhile_le)
  also have "length u < length t" using u length_dropWhile_le [of blank t] by simp
  finally show ?thesis .
qed

termination words
  by (relation "measure length") (auto simp: dropWhile_word_less)

declare words.simps [simp del]

fun arguments :: "nat \<Rightarrow> string \<Rightarrow> string list" where
  "arguments 0 t = []"
| "arguments (Suc n) t =
     (let u = dropWhile blank t
      in if u = [] then []
         else (if n = 0 then u else takeWhile (\<lambda>c. \<not> blank c) u) # arguments n (dropWhile (\<lambda>c. \<not> blank c) u))"

lemma arguments_words: "length (words t) < n \<Longrightarrow> arguments n t = words t"
proof (induction n arbitrary: t)
  case (Suc n)
  let ?u = "dropWhile blank t"
  show ?case
  proof (cases "?u = []")
    case False
    then have w: "words t = takeWhile (\<lambda>c. \<not> blank c) ?u # words (dropWhile (\<lambda>c. \<not> blank c) ?u)"
      by (subst words.simps) (simp add: Let_def)
    with Suc.prems have "length (words (dropWhile (\<lambda>c. \<not> blank c) ?u)) < n" by simp
    with Suc.IH False w show ?thesis by (auto simp: Let_def)
  qed (simp add: words.simps [of t])
qed simp

lemma length_arguments: "length (arguments n t) \<le> n"
  by (induction n t rule: arguments.induct) (auto simp: Let_def)

lemma arguments_step:
  "0 < n \<Longrightarrow> \<not> blank c \<Longrightarrow> arguments n (c # t) =
    (if n = 1 then c # t else c # takeWhile (\<lambda>c. \<not> blank c) t) # arguments (n - 1) (dropWhile (\<lambda>c. \<not> blank c) t)"
  by (cases n) auto

lemma arguments_blank: "blank c \<Longrightarrow> arguments n (c # t) = arguments n t"
  by (cases n) auto

lemma cstr_drop:
  "cstr (drop i l) = (if i < length l \<and> l ! i \<noteq> NUL then l ! i # cstr (drop (Suc i) l) else [])"
  by (cases "i < length l") (simp_all add: cstr_def Cons_nth_drop_Suc [symmetric])

lemma take_Suc_eqD:
  assumes "take (Suc i) l' = take (Suc i) l" "length l' = length l" "i < length l"
  shows "take i l' = take i l" "l' ! i = l ! i"
  using assms by (simp_all add: take_Suc_conv_app_nth)

text \<open>From any point of the loop; inside a word the rest of that word is what the string at \<open>i\<close> denotes at the end.\<close>

definition args_from :: "nat \<Rightarrow> bool \<Rightarrow> string \<Rightarrow> string list" where
  "args_from n w t = arguments n (if w then dropWhile (\<lambda>c. \<not> blank c) t else t)"

definition word_from :: "nat \<Rightarrow> string \<Rightarrow> string" where
  "word_from n t = (if n = 0 then t else takeWhile (\<lambda>c. \<not> blank c) t)"

lemma args_from_simps [simp]:
  "args_from 0 w t = []" "args_from n w [] = []"
  "blank c \<Longrightarrow> args_from n w (c # t) = args_from n False t"
  "\<not> blank c \<Longrightarrow> args_from n True (c # t) = args_from n True t"
  "\<not> blank c \<Longrightarrow> 0 < n \<Longrightarrow> args_from n False (c # t) = (c # word_from (n - 1) t) # args_from (n - 1) True t"
  by (cases n; simp add: args_from_def arguments_blank word_from_def arguments_step)+

lemma word_from_simps [simp]:
  "word_from n [] = []" "0 < n \<Longrightarrow> blank c \<Longrightarrow> word_from n (c # t) = []"
  "\<not> blank c \<Longrightarrow> word_from n (c # t) = c # word_from n t"
  by (simp_all add: word_from_def)

lemma parse_loop_arguments:
  assumes "parse_loop M i w argv line = (offs, line')"
  shows "length line' = length line \<and> take i line' = take i line \<and>
    (\<exists>new. offs = argv @ new \<and>
      map (\<lambda>k. cstr (drop k line')) new = args_from (M - 1 - length argv) w (cstr (drop i line)) \<and>
      (w \<longrightarrow> cstr (drop i line') = word_from (M - 1 - length argv) (cstr (drop i line))))"
  using assms
proof (induction M i w argv line arbitrary: offs line' rule: parse_loop.induct)
  case (1 M i w argv line)
  let ?go = "i < length line \<and> line ! i \<noteq> NUL \<and> length argv < M - 1"
  let ?n = "M - 1 - length argv"
  show ?case
  proof (cases ?go)
    case False
    then have "offs = argv" "line' = line" using "1.prems" unfolding parse_loop.simps [of M i w argv line] by (metis prod.inject)+
    moreover have "?n = 0 \<or> cstr (drop i line) = []" using False cstr_drop [of i line] by auto
    ultimately show ?thesis by (auto simp: word_from_def)
  next
    case True
    then have t: "cstr (drop i line) = line ! i # cstr (drop (Suc i) line)" "0 < ?n"
      by (auto simp: cstr_drop [of i])
    show ?thesis
    proof (cases "blank (line ! i)")
      case b: True
      let ?line = "if w then line[i := NUL] else line"
      have same: "drop (Suc i) ?line = drop (Suc i) line" by simp
      have run: "parse_loop M (Suc i) False argv ?line = (offs, line')"
        using "1.prems" True b by (simp add: parse_loop.simps [of M i] blank_def)
      have ih: "length line' = length ?line" "take (Suc i) line' = take (Suc i) ?line"
        "\<exists>new. offs = argv @ new \<and> map (\<lambda>k. cstr (drop k line')) new = args_from ?n False (cstr (drop (Suc i) line))"
        using "1.IH"(1) [OF True b [unfolded blank_def] run] unfolding same by auto
      have len: "i < length ?line" "length ?line = length line" using True by auto
      have at: "take i line' = take i line" "line' ! i = ?line ! i" using take_Suc_eqD [OF ih(2,1) len(1)] by auto
      have "w \<longrightarrow> cstr (drop i line') = []" using at(2) len True by (simp add: cstr_drop [of i line'])
      then show ?thesis using ih(1,3) at(1) b t len(2) by simp
    next
      case b: False
      let ?argv = "if w then argv else argv @ [i]"
      have run: "parse_loop M (Suc i) True ?argv line = (offs, line')"
        using "1.prems" True b by (simp add: parse_loop.simps [of M i] blank_def)
      obtain new where ih: "length line' = length line" "take (Suc i) line' = take (Suc i) line" "offs = ?argv @ new"
        "map (\<lambda>k. cstr (drop k line')) new = args_from (M - 1 - length ?argv) True (cstr (drop (Suc i) line))"
        "cstr (drop (Suc i) line') = word_from (M - 1 - length ?argv) (cstr (drop (Suc i) line))"
        using "1.IH"(2) [OF True b [unfolded blank_def] run] by auto
      note at = take_Suc_eqD [OF ih(2,1)]
      have c: "cstr (drop i line') = line ! i # cstr (drop (Suc i) line')"
        using True at ih(1) by (subst cstr_drop) simp
      show ?thesis
      proof (cases w)
        case True
        then show ?thesis using ih at c b t \<open>?go\<close> by auto
      next
        case False
        then have "offs = argv @ i # new" using ih(3) by simp
        moreover have "map (\<lambda>k. cstr (drop k line')) (i # new) = args_from ?n w (cstr (drop i line))"
          using False ih(4,5) c b t by simp
        ultimately show ?thesis using False ih(1) at(1) \<open>?go\<close> by blast
      qed
    qed
  qed
qed

text \<open>C22: 
  \<open>parse_command_line\<close> splits the line at blanks, in place: the strings its offsets denote afterwards are the
  words of the line. With more words than slots the last argument is the whole rest of the line, blanks included.
\<close>

theorem parse_command_line_splits:
  assumes "parse_command_line line M = (offs, line')"
  shows "map (\<lambda>k. cstr (drop k line')) offs = arguments (M - 1) (cstr line) \<and> length line' = length line \<and>
    (length (words (cstr line)) < M - 1 \<longrightarrow> map (\<lambda>k. cstr (drop k line')) offs = words (cstr line))"
  using parse_loop_arguments [OF assms [unfolded parse_command_line_def]] arguments_words [of "cstr line" "M - 1"]
  by (simp add: args_from_def)

theorem parse_command_line_splits_witness:
  "map (\<lambda>k. cstr (drop k (snd (parse_command_line ''kill -s 9  17'' 64)))) (fst (parse_command_line ''kill -s 9  17'' 64)) =
    [''kill'', ''-s'', ''9'', ''17'']"
  using parse_command_line_splits [of "''kill -s 9  17''" 64] by (simp add: cstr_def words.simps blank_def) (metis fst_conv snd_conv surj_pair)

section \<open>Dispatch\<close>

lemma find_index_map_of:
  "length ys = length xs \<Longrightarrow> map_of (zip xs ys) k = map_option (\<lambda>i. ys ! i) (find_index (\<lambda>x. x = k) xs)"
proof (induction xs arbitrary: ys)
  case (Cons x xs)
  then obtain y ys' where "ys = y # ys'" "length ys' = length xs" by (cases ys) auto
  then show ?case using Cons.IH by (auto simp: option.map_comp comp_def)
qed simp

lemma cstr_cstr [simp]: "cstr (cstr s) = cstr s"
  by (induction s) (simp_all add: cstr_def del: takeWhile_eq_all_conv)

lemma command_names_plain: "cstr (cmd_name c) = cmd_name c" if "c \<in> set commands"
  using that by (auto simp: commands_def cstr_def)

lemma command_index:
  "cstr w = w \<Longrightarrow> find_index (\<lambda>c. strcmp w (cmd_name c) = 0) commands = find_index (\<lambda>x. x = w) (map cmd_name commands)"
  unfolding find_index_map
  by (rule find_index_cong) (auto simp: strcmp_0_iff command_names_plain)

lemma execute_dispatch:
  assumes "words (cstr line) = w # ws" "length ws < 62"
  shows "\<exists>line'. length line' = length line \<and> (\<not> blank (hd line) \<longrightarrow> cstr line' = w) \<and>
    execute_command line P A s =
      (case map_of (zip (map cmd_name commands) command_functions) w of
         Some f \<Rightarrow> map_option (\<lambda>(r, s'). (r, line', s')) (f (w # ws) P A s)
       | None \<Rightarrow> Some (- 1, line', complain ''Komut bulunamadi: '' w s))"
proof -
  obtain offs line' where p: "parse_command_line line 64 = (offs, line')" by force
  have loop: "length line' = length line" "map (\<lambda>k. cstr (drop k line')) offs = w # ws"
    using parse_loop_arguments [OF p [unfolded parse_command_line_def]] arguments_words [of "cstr line" 63] assms
    by (simp_all add: args_from_def)
  have ne: "offs \<noteq> []" and plain: "cstr w = w" using loop(2) by auto
  have first: "cstr line' = w" if "\<not> blank (hd line)"
  proof -
    have "words [] = []" by (simp add: words.simps)
    then have l: "0 < length line" "line ! 0 \<noteq> NUL"
      using assms(1) by (cases line; auto simp: cstr_def)+
    then have "parse_loop 64 (Suc 0) True [0] line = (offs, line')"
      using p that by (simp add: parse_command_line_def parse_loop.simps [of 64 0] blank_def hd_conv_nth)
    from parse_loop_arguments [OF this] have "offs ! 0 = 0" by auto
    then show ?thesis using loop(2) ne by (cases offs) auto
  qed
  let ?i = "find_index (\<lambda>x. x = w) (map cmd_name commands)"
  have len: "length (command_functions :: ('a) command_func list) = length (map cmd_name commands)"
    by (simp add: command_functions_def commands_def)
  have "execute_command line P A s =
      (case ?i of Some i \<Rightarrow> do { (r, s1) \<leftarrow> (command_functions ! i) (w # ws) P A s; Some (r, line', s1) }
       | None \<Rightarrow> Some (- 1, line', complain ''Komut bulunamadi: '' w s))"
    unfolding execute_command_def p Let_def prod.case loop(2) nth_Cons_0 using ne command_index [OF plain] by simp
  also have "\<dots> = (case map_of (zip (map cmd_name commands) command_functions) w of
         Some f \<Rightarrow> map_option (\<lambda>(r, s'). (r, line', s')) (f (w # ws) P A s)
       | None \<Rightarrow> Some (- 1, line', complain ''Komut bulunamadi: '' w s))"
    unfolding find_index_map_of [OF len]
    by (auto split: option.split simp: map_option_case bind_eq_Some_conv)
  finally show ?thesis using loop(1) first by blast
qed

text \<open>C23: 
  \<open>execute_command\<close> looks the first word of the line up in the table and runs the function found there on
  the words, with the result of that function; for another word it prints a message and returns -1. The buffer is left with the first word
  only when the line starts with it.
\<close>

theorem execute_command_dispatch:
  assumes "words (cstr line) = w # ws" "length ws < 62"
  shows "\<exists>line'. length line' = length line \<and> (\<not> blank (hd line) \<longrightarrow> cstr line' = w) \<and>
    execute_command line P A s =
      (case map_of (zip (map cmd_name commands) command_functions) w of
         Some f \<Rightarrow> map_option (\<lambda>(r, s'). (r, line', s')) (f (w # ws) P A s)
       | None \<Rightarrow> Some (- 1, line', complain ''Komut bulunamadi: '' w s))"
  using assms by (rule execute_dispatch)

section \<open>The commands and the invariant\<close>

text \<open>\<open>post Q m\<close>: if \<open>m\<close> has a result, it satisfies \<open>Q\<close>.\<close>

definition post :: "('y \<Rightarrow> bool) \<Rightarrow> 'y option \<Rightarrow> bool" where
  "post Q m \<longleftrightarrow> (\<forall>y. m = Some y \<longrightarrow> Q y)"

lemma post_simps [simp]: "post Q None" "post Q (Some y) = Q y" "post Q (if b then m else n) = (if b then post Q m else post Q n)"
  by (simp_all add: post_def)

lemma post_bind: "post (\<lambda>x. post Q (f x)) m \<Longrightarrow> post Q (m \<bind> f)"
  by (cases m) (simp_all add: post_def)

lemma post_bind_any: "(\<And>x. post Q (f x)) \<Longrightarrow> post Q (m \<bind> f)"
  by (rule post_bind) (simp add: post_def)

lemma post_mono: "post R m \<Longrightarrow> (\<And>y. R y \<Longrightarrow> Q y) \<Longrightarrow> post Q m"
  by (auto simp: post_def)

lemma postD: "post Q m \<Longrightarrow> m = Some y \<Longrightarrow> Q y"
  by (simp add: post_def)

definition api_ok :: "'z kuser_scheme file_api \<Rightarrow> bool" where
  "api_ok A \<longleftrightarrow> (\<forall>s p q h n b. kernel_inv s \<longrightarrow>
     post (\<lambda>(d, s'). kernel_inv s') (api_opendir A p s) \<and> post (\<lambda>(r, e, s'). kernel_inv s') (api_readdir A h s) \<and>
     post kernel_inv (api_closedir A h s) \<and> post (\<lambda>(r, s'). kernel_inv s') (api_chdir A p s) \<and>
     post (\<lambda>(same, c, s'). kernel_inv s') (api_getcwd A p s) \<and> post (\<lambda>(r, s'). kernel_inv s') (api_mkdir A p s) \<and>
     post (\<lambda>(r, s'). kernel_inv s') (api_rmdir A p s) \<and> post (\<lambda>(r, s'). kernel_inv s') (api_unlink A p s) \<and>
     post (\<lambda>(r, s'). kernel_inv s') (api_rename A p q s) \<and> post (\<lambda>(f, s'). kernel_inv s') (api_open A p q s) \<and>
     post (\<lambda>(k, c, s'). kernel_inv s') (api_read A h n s) \<and> post kernel_inv (api_write A h b s) \<and>
     post kernel_inv (api_close A h s))"

lemma api_post:
  assumes "api_ok A" and "kernel_inv s"
  shows "(\<And>d s'. kernel_inv s' \<Longrightarrow> Q1 (d, s')) \<Longrightarrow> post Q1 (api_opendir A p s)"
    "(\<And>r e s'. kernel_inv s' \<Longrightarrow> Q2 (r, e, s')) \<Longrightarrow> post Q2 (api_readdir A h s)"
    "(\<And>s'. kernel_inv s' \<Longrightarrow> Q3 s') \<Longrightarrow> post Q3 (api_closedir A h s)"
    "(\<And>r s'. kernel_inv s' \<Longrightarrow> Q4 (r, s')) \<Longrightarrow> post Q4 (api_chdir A p s)"
    "(\<And>r c s'. kernel_inv s' \<Longrightarrow> Q5 (r, c, s')) \<Longrightarrow> post Q5 (api_getcwd A p s)"
    "(\<And>r s'. kernel_inv s' \<Longrightarrow> Q4 (r, s')) \<Longrightarrow> post Q4 (api_mkdir A p s)"
    "(\<And>r s'. kernel_inv s' \<Longrightarrow> Q4 (r, s')) \<Longrightarrow> post Q4 (api_rmdir A p s)"
    "(\<And>r s'. kernel_inv s' \<Longrightarrow> Q4 (r, s')) \<Longrightarrow> post Q4 (api_unlink A p s)"
    "(\<And>r s'. kernel_inv s' \<Longrightarrow> Q4 (r, s')) \<Longrightarrow> post Q4 (api_rename A p q s)"
    "(\<And>d s'. kernel_inv s' \<Longrightarrow> Q1 (d, s')) \<Longrightarrow> post Q1 (api_open A p q s)"
    "(\<And>k c s'. kernel_inv s' \<Longrightarrow> Q6 (k, c, s')) \<Longrightarrow> post Q6 (api_read A h n s)"
    "(\<And>s'. kernel_inv s' \<Longrightarrow> Q3 s') \<Longrightarrow> post Q3 (api_write A h b s)"
    "(\<And>s'. kernel_inv s' \<Longrightarrow> Q3 s') \<Longrightarrow> post Q3 (api_close A h s)"
  using assms unfolding api_ok_def by (force elim!: post_mono)+

lemma kernel_inv_term [simp]:
  "kernel_inv (kputchar c s) = kernel_inv s" "kernel_inv (ksetcolor k s) = kernel_inv s" "kernel_inv (kclear s) = kernel_inv s"
  "kernel_inv (complain m a s) = kernel_inv s" "kernel_inv (kprint_times n m s) = kernel_inv s"
proof -
  show "kernel_inv (kputchar c s) = kernel_inv s" "kernel_inv (ksetcolor k s) = kernel_inv s" "kernel_inv (kclear s) = kernel_inv s"
    by (simp_all add: kputchar_def ksetcolor_def kclear_def kernel_inv_def table_ok_def stacks_ok_def)
  show "kernel_inv (complain m a s) = kernel_inv s" by (simp add: complain_def)
  show "kernel_inv (kprint_times n m s) = kernel_inv s" unfolding kprint_times_def by (induction n) simp_all
qed

lemma ls_loop_post:
  fixes A :: "'z kuser_scheme file_api"
  assumes "api_ok A" "kernel_inv s" "\<And>n s'. kernel_inv s' \<Longrightarrow> Q (n, s')"
  shows "post Q (ls_loop A dir cnt s)"
proof -
  let ?P = "\<lambda>(A :: 'z kuser_scheme file_api) dir cnt s r. api_ok A \<longrightarrow> kernel_inv s \<longrightarrow> kernel_inv (snd r)"
  have "?P A dir cnt s r" if run: "ls_loop A dir cnt s = Some r" for r
  proof (rule ls_loop.raw_induct [OF _ run, where P = ?P], intro impI, erule postD [rotated])
    fix f :: "'z kuser_scheme file_api \<Rightarrow> u64 \<Rightarrow> nat \<Rightarrow> 'z kuser_scheme \<Rightarrow> (nat \<times> 'z kuser_scheme) option" and A :: "'z kuser_scheme file_api" and dir cnt and s :: "'z kuser_scheme"
    assume rec: "\<And>A dir cnt s r. f A dir cnt s = Some r \<Longrightarrow> ?P A dir cnt s r" and A: "api_ok A" and inv: "kernel_inv s"
    have "post (\<lambda>r. kernel_inv (snd r)) (f A dir n t)" if "kernel_inv t" for n t
      using rec A that by (auto simp: post_def)
    then show "post (\<lambda>r. kernel_inv (snd r)) (do { (r, entry, s1) \<leftarrow> api_readdir A dir s;
          if r \<noteq> 0 then Some (cnt, s1)
          else if cstr (entry_name entry) = ''.'' \<or> cstr (entry_name entry) = ''..'' then f A dir cnt s1
          else
            (let s2 = (if entry_is_dir entry
                       then kprint ''/'' (kprint (entry_name entry) (ksetcolor VGA_COLOR_LIGHT_BLUE s1))
                       else kprint (entry_name entry) (ksetcolor VGA_COLOR_LIGHT_GREY s1));
                 s3 = kprint_times (20 - strlen (entry_name entry)) '' '' s2
             in f A dir (Suc cnt) (if Suc cnt mod 4 = 0 then kprint [NL] s3 else s3)) })"
      using inv by (intro post_bind api_post(2) [OF A]) (simp_all add: Let_def)
  qed
  then show ?thesis using assms by (fastforce simp: post_def)
qed

lemma cp_loop_post:
  fixes A :: "'z kuser_scheme file_api"
  assumes "api_ok A" "kernel_inv s" "\<And>s'. kernel_inv s' \<Longrightarrow> Q s'"
  shows "post Q (cp_loop A src dst s)"
proof -
  let ?P = "\<lambda>(A :: 'z kuser_scheme file_api) src dst s r. api_ok A \<longrightarrow> kernel_inv s \<longrightarrow> kernel_inv r"
  have "?P A src dst s r" if run: "cp_loop A src dst s = Some r" for r
  proof (rule cp_loop.raw_induct [OF _ run, where P = ?P], intro impI, erule postD [rotated])
    fix f :: "'z kuser_scheme file_api \<Rightarrow> u64 \<Rightarrow> u64 \<Rightarrow> 'z kuser_scheme \<Rightarrow> 'z kuser_scheme option" and A :: "'z kuser_scheme file_api" and src dst and s :: "'z kuser_scheme"
    assume rec: "\<And>A src dst s r. f A src dst s = Some r \<Longrightarrow> ?P A src dst s r" and A: "api_ok A" and inv: "kernel_inv s"
    have "post kernel_inv (f A src dst t)" if "kernel_inv t" for t using rec A that by (auto simp: post_def)
    then show "post kernel_inv (do { (nread, buffer, s1) \<leftarrow> api_read A src 512 s;
          if nread > 0 then
            if nread > 512 then None
            else do { s2 \<leftarrow> api_write A dst (take (unat nread) buffer) s1; f A src dst s2 }
          else Some s1 })"
      using inv by (intro post_bind api_post(11) [OF A]) (auto intro!: post_bind api_post(12) [OF A])
  qed
  then show ?thesis using assms by (fastforce simp: post_def)
qed

lemma cat_loop_post:
  fixes A :: "'z kuser_scheme file_api"
  assumes "api_ok A" "kernel_inv s" "\<And>s'. kernel_inv s' \<Longrightarrow> Q s'"
  shows "post Q (cat_loop A h s)"
proof -
  let ?P = "\<lambda>(A :: 'z kuser_scheme file_api) h s r. api_ok A \<longrightarrow> kernel_inv s \<longrightarrow> kernel_inv r"
  have "?P A h s r" if run: "cat_loop A h s = Some r" for r
  proof (rule cat_loop.raw_induct [OF _ run, where P = ?P], intro impI, erule postD [rotated])
    fix f :: "'z kuser_scheme file_api \<Rightarrow> u64 \<Rightarrow> 'z kuser_scheme \<Rightarrow> 'z kuser_scheme option" and A :: "'z kuser_scheme file_api" and h and s :: "'z kuser_scheme"
    assume rec: "\<And>A h s r. f A h s = Some r \<Longrightarrow> ?P A h s r" and A: "api_ok A" and inv: "kernel_inv s"
    have "post kernel_inv (f A h t)" if "kernel_inv t" for t using rec A that by (auto simp: post_def)
    then show "post kernel_inv (do { (nread, buffer, s1) \<leftarrow> api_read A h 511 s;
          if nread > 0 then
            if nread > 511 then None
            else f A h (kprint (take (unat nread) buffer @ [NUL]) s1)
          else Some s1 })"
      using inv by (intro post_bind api_post(11) [OF A]) simp_all
  qed
  then show ?thesis using assms by (fastforce simp: post_def)
qed

definition keeps_command :: "('z) command_func \<Rightarrow> bool" where
  "keeps_command f \<longleftrightarrow> (\<forall>argv P A s. platform_ok P \<longrightarrow> api_ok A \<longrightarrow> kernel_inv s \<longrightarrow> next_pid s \<noteq> - 1 \<longrightarrow>
     post (\<lambda>r. kernel_inv (snd r)) (f argv P A s))"

lemma keeps_commandI:
  "(\<And>argv P A s. platform_ok P \<Longrightarrow> api_ok A \<Longrightarrow> kernel_inv s \<Longrightarrow> next_pid s \<noteq> - 1 \<Longrightarrow>
     post (\<lambda>r. kernel_inv (snd r)) (f argv P A s)) \<Longrightarrow> keeps_command f"
  unfolding keeps_command_def by blast

lemma syscall_post:
  assumes "keeps_kernel c" "platform_ok P" "kernel_inv s" "next_pid s \<noteq> - 1" "\<And>r s'. kernel_inv s' \<Longrightarrow> Q (r, s')"
  shows "post Q (c P s)"
  using assms unfolding keeps_kernel_def by (auto simp: post_def)

lemma keeps_simple: "keeps_command cmd_cd" "keeps_command cmd_pwd" "keeps_command cmd_mkdir" "keeps_command cmd_rmdir"
  "keeps_command cmd_rm" "keeps_command cmd_mv" "keeps_command cmd_clear"
  unfolding cmd_cd_def [abs_def] cmd_pwd_def [abs_def] cmd_mkdir_def [abs_def] cmd_rmdir_def [abs_def] cmd_rm_def [abs_def]
    cmd_mv_def [abs_def] cmd_clear_def [abs_def]
  by (rule keeps_commandI; auto intro!: post_bind api_post)+

lemma keeps_files: "keeps_command cmd_ls" "keeps_command cmd_cp" "keeps_command cmd_cat" "keeps_command cmd_touch"
  unfolding cmd_ls_def [abs_def] cmd_cp_def [abs_def] cmd_cat_def [abs_def] cmd_touch_def [abs_def] Let_def
  by (rule keeps_commandI; auto intro!: post_bind api_post ls_loop_post cp_loop_post cat_loop_post)+

lemma echo_args_inv: "kernel_inv (echo_args argv s) = kernel_inv s"
  by (induction argv s rule: echo_args.induct) simp_all

lemma fold_inv: "(\<And>x s. kernel_inv (f x s) = kernel_inv s) \<Longrightarrow> kernel_inv (fold f xs s) = kernel_inv s"
  by (induction xs arbitrary: s) simp_all

lemma ps_line_inv: "kernel_inv (ps_line i s) = kernel_inv s"
  by (simp add: ps_line_def split: option.split)

lemma help_line_inv: "kernel_inv (help_line c s) = kernel_inv s"
  by (simp add: help_line_def)

lemma keeps_output: "keeps_command cmd_echo" "keeps_command cmd_ps" "keeps_command cmd_help"
  by (rule keeps_commandI; simp add: cmd_echo_def cmd_ps_def cmd_help_def echo_args_inv fold_inv [of ps_line] ps_line_inv
      fold_inv [of help_line] help_line_inv print_command_help_def Let_def del: upt_rec_numeral split: option.split)+

lemma keeps_process: "keeps_command cmd_kill" "keeps_command cmd_sleep" "keeps_command cmd_exit"
proof -
  show "keeps_command cmd_kill"
    unfolding cmd_kill_def [abs_def] Let_def
    by (rule keeps_commandI) (auto intro!: post_bind syscall_post [OF keeps_kill] split: option.split)
  show "keeps_command cmd_sleep"
    unfolding cmd_sleep_def [abs_def] Let_def
    by (rule keeps_commandI) (auto intro!: post_bind syscall_post [OF keeps_sleep])
  have "post kernel_inv (exit_process (pf_handler P) n pid code s)" if "platform_ok P" "kernel_inv s"
    for P :: "'c kuser_scheme platform" and n pid code s
    using exit_process_inv [OF platform_okD(1) [OF that(1)] _ that(2)] by (simp add: post_def)
  then show "keeps_command (cmd_exit :: 'c command_func)"
    unfolding cmd_exit_def [abs_def] Let_def
    by (intro keeps_commandI post_bind syscall_post [OF keeps_get(1)]) (auto intro!: post_bind elim!: post_mono)
qed

lemma keeps_all_commands: "\<forall>f \<in> set command_functions. keeps_command f"
  by (simp add: command_functions_def keeps_simple keeps_files keeps_output keeps_process)

lemma execute_command_inv:
  assumes "platform_ok P" "api_ok A" "kernel_inv s" "next_pid s \<noteq> - 1"
  shows "post (\<lambda>(r, line', s'). kernel_inv s' \<and> length line' = length line) (execute_command line P A s)"
proof -
  obtain offs line' where p: "parse_command_line line 64 = (offs, line')" by force
  have len: "length line' = length line" using parse_loop_arguments [OF p [unfolded parse_command_line_def]] by simp
  have "i < length commands \<Longrightarrow> command_functions ! i \<in> set command_functions" for i
    by (rule nth_mem) (simp add: commands_def command_functions_def)
  then have "post (\<lambda>r. kernel_inv (snd r)) ((command_functions ! i) argv P A s)" if "i < length commands" for i argv
    using keeps_all_commands that assms unfolding keeps_command_def by blast
  note run = this
  have "post (\<lambda>(r, line', s'). kernel_inv s' \<and> length line' = length line)
      (do { (r, s1) \<leftarrow> (command_functions ! i) argv P A s; Some (r, line', s1) })" if "i < length commands" for i argv
    by (intro post_bind post_mono [OF run [OF that]]) (auto simp: len)
  then show ?thesis
    using assms(3) len unfolding execute_command_def p
    by (auto simp: Let_def dest!: find_index_SomeD(1) split: option.split)
qed

text \<open>
  No command line, however it was typed, breaks the kernel: every command keeps the process table, the stacks and the
  heap well formed, as long as the file interface does.
\<close>

theorem execute_command_safe:
  assumes "platform_ok P" "api_ok A" "kernel_inv s" "next_pid s \<noteq> - 1" "execute_command line P A s = Some (r, line', s')"
  shows "kernel_inv s' \<and> length line' = length line"
  using postD [OF execute_command_inv [OF assms(1-4)] assms(5)] by simp

section \<open>Copying a file\<close>

text \<open>
  What \<open>cp\<close> needs of the file interface: \<open>rest\<close> is the part of the source that has not been read, \<open>out\<close> what has been
  written to the target. Reading delivers the next bytes, writing appends, neither disturbs the other.
\<close>

definition streams :: "'z kuser_scheme file_api \<Rightarrow> u64 \<Rightarrow> u64 \<Rightarrow> ('z kuser_scheme \<Rightarrow> string) \<Rightarrow> ('z kuser_scheme \<Rightarrow> string) \<Rightarrow> bool" where
  "streams A src dst rest out \<longleftrightarrow>
     (\<forall>s n. \<exists>buf s'. api_read A src n s = Some (of_nat (min n (length (rest s))), buf, s') \<and>
        take (length (take n (rest s))) buf = take n (rest s) \<and> rest s' = drop n (rest s) \<and> out s' = out s) \<and>
     (\<forall>s b. \<exists>s'. api_write A dst b s = Some s' \<and> out s' = out s @ b \<and> rest s' = rest s)"

lemma cp_loop_copies:
  assumes "streams A src dst rest out"
  shows "\<exists>s'. cp_loop A src dst s = Some s' \<and> out s' = out s @ rest s"
proof (induction "length (rest s)" arbitrary: s rule: less_induct)
  case less
  let ?k = "min 512 (length (rest s))"
  obtain buf s1 where r: "api_read A src 512 s = Some (of_nat ?k, buf, s1)" "take ?k buf = take 512 (rest s)"
    "rest s1 = drop 512 (rest s)" "out s1 = out s"
    using assms [unfolded streams_def, THEN conjunct1, rule_format, of 512 s] by (auto simp: min.commute)
  obtain s2 where w: "api_write A dst (take 512 (rest s)) s1 = Some s2" "out s2 = out s @ take 512 (rest s)" "rest s2 = drop 512 (rest s)"
    using assms [unfolded streams_def, THEN conjunct2, rule_format, of "take 512 (rest s)" s1] r(3,4) by auto
  have k: "unat (of_nat ?k :: u64) = ?k" by (rule unat_of_nat_u64) simp
  show ?case
  proof (cases "rest s = []")
    case True
    then show ?thesis using r by (subst cp_loop.simps) simp
  next
    case False
    then have "0 < (of_nat ?k :: u64)" "\<not> 512 < (of_nat ?k :: u64)" using k by (simp_all add: word_less_nat_alt)
    then have "cp_loop A src dst s = cp_loop A src dst s2" using r(1,2) w(1) k by (subst cp_loop.simps) simp
    moreover have "length (rest s2) < length (rest s)" using False w(3) by simp
    ultimately show ?thesis using less [of s2] w(2,3) by simp
  qed
qed


section \<open>A sample file interface\<close>

text \<open>One file that is read and one that is written, in two more fields of the state.\<close>

record kfiles = kuser +
  unread :: string
  appended :: string

definition sample_api :: "kfiles file_api" where
  "sample_api = \<lparr>api_opendir = (\<lambda>_ s. Some (0, s)), api_readdir = (\<lambda>_ s. Some (- 1, \<lparr>entry_name = [], entry_is_dir = False\<rparr>, s)),
     api_closedir = (\<lambda>_. Some), api_chdir = (\<lambda>_ s. Some (0, s)), api_getcwd = (\<lambda>buf s. Some (True, ''/'', s)),
     api_mkdir = (\<lambda>_ s. Some (0, s)), api_rmdir = (\<lambda>_ s. Some (0, s)), api_unlink = (\<lambda>_ s. Some (0, s)),
     api_rename = (\<lambda>_ _ s. Some (0, s)), api_open = (\<lambda>_ mode s. Some (if mode = ''r'' then 1 else 2, s)),
     api_read = (\<lambda>_ n s. Some (of_nat (min n (length (unread s))), take n (unread s), s\<lparr>unread := drop n (unread s)\<rparr>)),
     api_write = (\<lambda>_ b s. Some (s\<lparr>appended := appended s @ b\<rparr>)), api_close = (\<lambda>_. Some)\<rparr>"

lemma sample_api_ok: "api_ok sample_api" "streams sample_api 1 2 unread appended"
proof -
  have "kernel_inv (s\<lparr>unread := u\<rparr>) = kernel_inv s" "kernel_inv (s\<lparr>appended := u\<rparr>) = kernel_inv s" for s :: kfiles and u
    by (simp_all add: kernel_inv_def table_ok_def stacks_ok_def)
  then show "api_ok sample_api" by (simp add: api_ok_def sample_api_def)
  show "streams sample_api 1 2 unread appended" by (simp add: streams_def sample_api_def min_def)
qed

definition sample_files :: kfiles where
  "sample_files = kuser.extend sample_user \<lparr>unread = ''abc'', appended = []\<rparr>"

definition files_platform :: "kfiles platform" where
  "files_platform = \<lparr>pf_handler = (\<lambda>_ _. Some), pf_depth = 200, pf_irq = Some, pf_tick = Some,
     pf_mkdir = (\<lambda>_ s. Some (0, s)), pf_unlink = (\<lambda>_ s. Some (0, s)), pf_locals = []\<rparr>"

lemma sample_files_ok: "platform_ok files_platform" "kernel_inv sample_files" "next_pid sample_files = 3"
proof -
  show "platform_ok files_platform" using no_handlers by (simp add: platform_ok_def files_platform_def fs_op_ok_def)
  show "kernel_inv sample_files" using sample_user_inv [of sample_tables]
    by (simp add: sample_files_def kuser.defs kernel_inv_def table_ok_def stacks_ok_def)
  show "next_pid sample_files = 3" using sample_user_fields(2) [of sample_tables] by (simp add: sample_files_def kuser.defs)
qed


theorem execute_command_dispatch_witness:
  "\<exists>line' s'. execute_command ''echo a b'' files_platform sample_api sample_files = Some (0, line', s') \<and> cstr line' = ''echo''"
  using execute_command_dispatch [of "''echo a b''" "''echo''" "[''a'', ''b'']" files_platform sample_api sample_files]
  by (auto simp: cstr_def words.simps blank_def commands_def command_functions_def cmd_echo_def)

theorem execute_command_safe_witness:
  "\<exists>r line' s'. execute_command ''clear'' files_platform sample_api sample_files = Some (r, line', s') \<and> kernel_inv s'"
proof -
  have "execute_command ''clear'' files_platform sample_api sample_files = Some (0, ''clear'', kclear sample_files)"
    by (simp add: execute_command_def parse_command_line_def parse_loop.simps cstr_def commands_def command_functions_def cmd_clear_def)
  with execute_command_safe [OF sample_files_ok(1) sample_api_ok(1) sample_files_ok(2) _ this] sample_files_ok(3) show ?thesis by auto
qed

end
