(* ===== verification/Shell.thy ===== *)
theory Shell
  imports Coreutils
begin

text \<open>
  The shell, \<open>shell.c\<close>, with its process of \<open>kernel.c\<close>: a line editor over a fixed buffer, the history of commands
  and the loop over the keys. A slot of the history is a pointer together with the string stored behind it, which is written once,
  when the block is allocated. The shell calls functions and uses key codes that no header declares
  (\<open>keyboard_read_scancode\<close>, \<open>keyboard_handle_scancode\<close>, \<open>KEY_ARROW_UP\<close> and others, and \<open>free\<close>): they are the record \<open>shell_env\<close>.
  Reading a string through \<open>NULL\<close> or writing beyond an array is \<^const>\<open>None\<close>.
\<close>

abbreviation SHELL_BUFFER_SIZE :: nat where "SHELL_BUFFER_SIZE \<equiv> 256"
abbreviation SHELL_HISTORY_SIZE :: nat where "SHELL_HISTORY_SIZE \<equiv> 10"

abbreviation SC_BACKSPACE :: int where "SC_BACKSPACE \<equiv> 0x0E"
abbreviation SC_TAB :: int where "SC_TAB \<equiv> 0x0F"
abbreviation SC_ENTER :: int where "SC_ENTER \<equiv> 0x1C"

datatype shell_state = SHELL_STATE_READY | SHELL_STATE_RUNNING | SHELL_STATE_EXIT

record shell =
  sh_buffer :: string
  buffer_pos :: nat
  history :: "(u64 \<times> string) list"
  history_count :: nat
  history_index :: int
  sh_cwd :: string
  sh_state :: shell_state
  exit_code :: u32

record key_event =
  ev_pressed :: bool
  ev_key :: int
  ev_ascii :: char

record 's shell_env =
  env_free :: "u64 \<Rightarrow> 's \<Rightarrow> 's option"
  env_scancode :: "'s \<Rightarrow> (u8 \<times> 's) option"
  env_event :: "u8 \<Rightarrow> 's \<Rightarrow> (key_event option \<times> 's) option"
  KEY_ARROW_UP :: int
  KEY_ARROW_DOWN :: int
  KEY_ARROW_LEFT :: int
  KEY_ARROW_RIGHT :: int
  KEY_ESCAPE :: int
  KEY_CTRL_C :: int
  KEY_CTRL_D :: int

section \<open>Strings\<close>

text \<open>\<^verbatim>\<open>while ((*d++ = *src++) != 0);\<close> into an array.\<close>

fun strcpy :: "string \<Rightarrow> string \<Rightarrow> string option" where
  "strcpy [] src = None"
| "strcpy (d # ds) [] = Some (NUL # ds)"
| "strcpy (d # ds) (c # src) = (if c = NUL then Some (NUL # ds) else map_option (Cons c) (strcpy ds src))"

definition strdup :: "string \<Rightarrow> 'z kproc_scheme \<Rightarrow> ((u64 \<times> string) \<times> 'z kproc_scheme) option" where
  "strdup str s =
     (let len = of_nat (strlen str + 1)
      in do { (p, s1) \<leftarrow> kbuf_alloc len s;
              if p \<noteq> 0 then do { _ \<leftarrow> kbuf_store p (unat len) s1; Some ((p, cstr str), s1) }
              else Some ((0, []), s1) })"

section \<open>Prompt and buffer\<close>

definition shell_print_prompt ::
  "'z kuser_scheme file_api \<Rightarrow> shell \<Rightarrow> 'z kuser_scheme \<Rightarrow> (shell \<times> 'z kuser_scheme) option" where
  "shell_print_prompt A sh s =
     do { (_, cwd, s1) \<leftarrow> api_getcwd A (sh_cwd sh) s;
          let s2 = kprint cwd (ksetcolor VGA_COLOR_LIGHT_CYAN s1);
          let s3 = kprint '' $ '' (ksetcolor VGA_COLOR_LIGHT_GREEN s2);
          Some (sh\<lparr>sh_cwd := cwd\<rparr>, ksetcolor VGA_COLOR_LIGHT_GREY s3) }"

definition shell_clear_buffer :: "shell \<Rightarrow> shell" where
  "shell_clear_buffer sh = sh\<lparr>sh_buffer := replicate SHELL_BUFFER_SIZE NUL, buffer_pos := 0, history_index := - 1\<rparr>"

text \<open>What \<open>memset\<close> leaves in the structure.\<close>

definition zero_shell :: shell where
  "zero_shell = \<lparr>sh_buffer = replicate SHELL_BUFFER_SIZE NUL, buffer_pos = 0, history = replicate SHELL_HISTORY_SIZE (0, []),
     history_count = 0, history_index = 0, sh_cwd = replicate 256 NUL, sh_state = SHELL_STATE_READY, exit_code = 0\<rparr>"

definition shell_init :: "'z kuser_scheme file_api \<Rightarrow> 'z kuser_scheme \<Rightarrow> (shell \<times> 'z kuser_scheme) option" where
  "shell_init A s =
     do { (_, cwd, s1) \<leftarrow> api_getcwd A (sh_cwd zero_shell) s;
          let sh = zero_shell\<lparr>sh_cwd := cwd, sh_state := SHELL_STATE_READY\<rparr>;
          let s2 = kprint (''SimpleOS Shell v0.1'' @ [NL]) (ksetcolor VGA_COLOR_LIGHT_GREEN (kclear s1));
          let s3 = kprint (''Yardim icin '' @ [CHR 0x27] @ ''help'' @ [CHR 0x27] @ '' yazin'' @ [NL, NL]) s2;
          shell_print_prompt A sh (ksetcolor VGA_COLOR_LIGHT_GREY s3) }"

section \<open>Editing\<close>

definition shell_process_input :: "char \<Rightarrow> shell \<Rightarrow> 'z kproc_scheme \<Rightarrow> shell \<times> 'z kproc_scheme" where
  "shell_process_input c sh s =
     (if buffer_pos sh < SHELL_BUFFER_SIZE - 1 then
        let s1 = fold (\<lambda>i. kputchar (sh_buffer sh ! i)) [buffer_pos sh..<strlen (sh_buffer sh)] s;
            pos = buffer_pos sh + 1;
            buffer = (sh_buffer sh)[buffer_pos sh := c, pos := NUL]
        in (sh\<lparr>sh_buffer := buffer, buffer_pos := pos\<rparr>, kprint_times (strlen buffer - pos) [BS] (kputchar c s1))
      else (sh, s))"

definition shell_handle_left_arrow :: "shell \<Rightarrow> 'z kproc_scheme \<Rightarrow> shell \<times> 'z kproc_scheme" where
  "shell_handle_left_arrow sh s =
     (if buffer_pos sh > 0 then (sh\<lparr>buffer_pos := buffer_pos sh - 1\<rparr>, kprint [BS] s) else (sh, s))"

definition shell_handle_right_arrow :: "shell \<Rightarrow> 'z kproc_scheme \<Rightarrow> shell \<times> 'z kproc_scheme" where
  "shell_handle_right_arrow sh s =
     (if buffer_pos sh < strlen (sh_buffer sh)
      then (sh\<lparr>buffer_pos := buffer_pos sh + 1\<rparr>, kputchar (sh_buffer sh ! buffer_pos sh) s)
      else (sh, s))"

text \<open>
  The loop of \<open>shell_handle_backspace\<close> evaluates \<open>strlen\<close> anew in every round; for an empty string \<open>strlen - 1\<close>
  wraps around and the loop leaves the array.
\<close>

function backspace_loop :: "nat \<Rightarrow> string \<Rightarrow> 'z kproc_scheme \<Rightarrow> (string \<times> 'z kproc_scheme) option" where
  "backspace_loop i buffer s =
     (if strlen buffer = 0 then None
      else if i < strlen buffer - 1
      then backspace_loop (Suc i) (buffer[i := buffer ! Suc i]) (kputchar (buffer ! Suc i) s)
      else Some (buffer, s))"
  by pat_completeness auto
termination
proof (relation "measure (\<lambda>(i, buffer, _). length buffer - i)", goal_cases)
  case (2 i buffer s)
  then show ?case using strlen_le [of buffer] by simp
qed simp

declare backspace_loop.simps [simp del]

definition shell_handle_backspace :: "shell \<Rightarrow> 'z kproc_scheme \<Rightarrow> (shell \<times> 'z kproc_scheme) option" where
  "shell_handle_backspace sh s =
     (if buffer_pos sh > 0 then
        do { (buffer, s1) \<leftarrow> backspace_loop (buffer_pos sh - 1) (sh_buffer sh) (kprint [BS] s);
             let s2 = kprint_times (strlen buffer - buffer_pos sh) [BS] (kprint '' '' s1);
             if strlen buffer = 0 then None
             else Some (sh\<lparr>sh_buffer := buffer[strlen buffer - 1 := NUL], buffer_pos := buffer_pos sh - 1\<rparr>, kprint [BS] s2) }
      else Some (sh, s))"

section \<open>History\<close>

definition history_string :: "shell \<Rightarrow> nat \<Rightarrow> string option" where
  "history_string sh i =
     (if i < length (history sh) \<and> fst (history sh ! i) \<noteq> 0 then Some (snd (history sh ! i)) else None)"

text \<open>The oldest entry is freed and the others move one slot down; the last slot keeps its pointer.\<close>

definition drop_oldest ::
  "'z kuser_scheme shell_env \<Rightarrow> shell \<Rightarrow> 'z kuser_scheme \<Rightarrow> (shell \<times> 'z kuser_scheme) option" where
  "drop_oldest E sh s =
     do { s1 \<leftarrow> env_free E (fst (history sh ! 0)) s;
          Some (sh\<lparr>history := tl (history sh) @ [last (history sh)], history_count := history_count sh - 1\<rparr>, s1) }"

definition shell_add_to_history ::
  "'z kuser_scheme shell_env \<Rightarrow> string \<Rightarrow> shell \<Rightarrow> 'z kuser_scheme \<Rightarrow> (shell \<times> 'z kuser_scheme) option" where
  "shell_add_to_history E command sh s =
     (if strlen command = 0 then Some (sh, s)
      else do { same \<leftarrow> (if history_count sh > 0
                         then do { h \<leftarrow> history_string sh (history_count sh - 1); Some (strcmp h command = 0) }
                         else Some False);
                if same then Some (sh, s)
                else do { (sh1, s1) \<leftarrow> (if history_count sh = SHELL_HISTORY_SIZE then drop_oldest E sh s else Some (sh, s));
                          (p, s2) \<leftarrow> strdup command s1;
                          Some (sh1\<lparr>history := (history sh1)[history_count sh1 := p], history_count := history_count sh1 + 1\<rparr>, s2) } })"

text \<open>The line is blanked, the prompt printed again and the entry copied into the buffer.\<close>

definition blank_line :: "'z kuser_scheme file_api \<Rightarrow> shell \<Rightarrow> 'z kuser_scheme \<Rightarrow> (shell \<times> 'z kuser_scheme) option" where
  "blank_line A sh s =
     shell_print_prompt A sh (kprint [CHR 0x0D]
       (kprint_times (buffer_pos sh + strlen (sh_cwd sh) + 4) '' '' (kprint [CHR 0x0D] s)))"

definition load_history :: "'z kuser_scheme file_api \<Rightarrow> shell \<Rightarrow> 'z kuser_scheme \<Rightarrow> (shell \<times> 'z kuser_scheme) option" where
  "load_history A sh s =
     do { (sh1, s1) \<leftarrow> blank_line A sh s;
          h \<leftarrow> history_string sh1 (nat (history_index sh1));
          buffer \<leftarrow> strcpy (sh_buffer sh1) h;
          Some (sh1\<lparr>sh_buffer := buffer, buffer_pos := strlen buffer\<rparr>, kprint buffer s1) }"

definition shell_handle_up_arrow ::
  "'z kuser_scheme file_api \<Rightarrow> shell \<Rightarrow> 'z kuser_scheme \<Rightarrow> (shell \<times> 'z kuser_scheme) option" where
  "shell_handle_up_arrow A sh s =
     (if history_count sh = 0 then Some (sh, s)
      else if history_index sh = - 1 then load_history A (sh\<lparr>history_index := int (history_count sh) - 1\<rparr>) s
      else if history_index sh > 0 then load_history A (sh\<lparr>history_index := history_index sh - 1\<rparr>) s
      else Some (sh, s))"

definition shell_handle_down_arrow ::
  "'z kuser_scheme file_api \<Rightarrow> shell \<Rightarrow> 'z kuser_scheme \<Rightarrow> (shell \<times> 'z kuser_scheme) option" where
  "shell_handle_down_arrow A sh s =
     (if history_count sh = 0 \<or> history_index sh = - 1 then Some (sh, s)
      else if history_index sh < int (history_count sh) - 1 then load_history A (sh\<lparr>history_index := history_index sh + 1\<rparr>) s
      else do { (sh1, s1) \<leftarrow> blank_line A (sh\<lparr>history_index := - 1\<rparr>) s; Some (shell_clear_buffer sh1, s1) })"

section \<open>Commands and keys\<close>

definition shell_execute_command ::
  "'z kuser_scheme shell_env \<Rightarrow> 'z kuser_scheme platform \<Rightarrow> 'z kuser_scheme file_api \<Rightarrow> shell \<Rightarrow> 'z kuser_scheme \<Rightarrow>
    (shell \<times> 'z kuser_scheme) option" where
  "shell_execute_command E P A sh0 s =
     (let sh = sh0\<lparr>sh_buffer := (sh_buffer sh0)[buffer_pos sh0 := NUL]\<rparr>
      in if buffer_pos sh = 0 then Some (sh, s)
         else
           do { (sh1, s1) \<leftarrow> shell_add_to_history E (sh_buffer sh) sh s;
                (result, line, s2) \<leftarrow> execute_command (sh_buffer sh1) P A s1;
                let sh2 = sh1\<lparr>sh_buffer := line\<rparr>;
                let s3 = (if result = - 1 then complain ''Komut hatasi: '' line s2 else s2);
                Some (if strcmp line ''exit'' = 0 then sh2\<lparr>sh_state := SHELL_STATE_EXIT\<rparr> else sh2, s3) })"

text \<open>What the loop does with the press of a key.\<close>

definition shell_key ::
  "'z kuser_scheme shell_env \<Rightarrow> 'z kuser_scheme platform \<Rightarrow> 'z kuser_scheme file_api \<Rightarrow> key_event \<Rightarrow> shell \<Rightarrow> 'z kuser_scheme \<Rightarrow>
    (shell \<times> 'z kuser_scheme) option" where
  "shell_key E P A ev sh s =
     (if ev_key ev = SC_ENTER then
        do { (sh1, s1) \<leftarrow> shell_execute_command E P A sh (kprint [NL] s);
             let sh2 = shell_clear_buffer sh1;
             if sh_state sh2 = SHELL_STATE_RUNNING then shell_print_prompt A sh2 s1 else Some (sh2, s1) }
      else if ev_key ev = SC_BACKSPACE then shell_handle_backspace sh s
      else if ev_key ev = KEY_ARROW_UP E then shell_handle_up_arrow A sh s
      else if ev_key ev = KEY_ARROW_DOWN E then shell_handle_down_arrow A sh s
      else if ev_key ev = KEY_ARROW_LEFT E then Some (shell_handle_left_arrow sh s)
      else if ev_key ev = KEY_ARROW_RIGHT E then Some (shell_handle_right_arrow sh s)
      else if ev_key ev = SC_TAB then Some (shell_process_input CHR '' '' sh s)
      else if ev_key ev = KEY_ESCAPE E then shell_print_prompt A (shell_clear_buffer sh) (kprint [CHR 0x0D] s)
      else if ev_key ev = KEY_CTRL_C E then shell_print_prompt A (shell_clear_buffer sh) (kprint (''^C'' @ [NL]) s)
      else if ev_key ev = KEY_CTRL_D E then
        (if buffer_pos sh = 0 then Some (sh\<lparr>sh_state := SHELL_STATE_EXIT\<rparr>, kprint (''exit'' @ [NL]) s) else Some (sh, s))
      else if ev_ascii ev \<noteq> NUL then Some (shell_process_input (ev_ascii ev) sh s)
      else Some (sh, s))"

partial_function (option) shell_loop ::
  "'z kuser_scheme shell_env \<Rightarrow> 'z kuser_scheme platform \<Rightarrow> 'z kuser_scheme file_api \<Rightarrow> shell \<Rightarrow> 'z kuser_scheme \<Rightarrow>
    (shell \<times> 'z kuser_scheme) option" where
  "shell_loop E F A sh s =
     (if sh_state sh = SHELL_STATE_RUNNING then
        do { (scancode, s1) \<leftarrow> env_scancode E s;
             (sh2, s2) \<leftarrow>
               (if scancode \<noteq> 0 then
                  do { (event, s2) \<leftarrow> env_event E scancode s1;
                       (case event of
                          None \<Rightarrow> Some (sh, s2)
                        | Some ev \<Rightarrow> if ev_pressed ev then shell_key E F A ev sh s2 else Some (sh, s2)) }
                else Some (sh, s1));
             shell_loop E F A sh2 s2 }
      else Some (sh, s))"

definition shell_run ::
  "'z kuser_scheme shell_env \<Rightarrow> 'z kuser_scheme platform \<Rightarrow> 'z kuser_scheme file_api \<Rightarrow> shell \<Rightarrow> 'z kuser_scheme \<Rightarrow>
    (shell \<times> 'z kuser_scheme) option" where
  "shell_run E P A sh s = shell_loop E P A (sh\<lparr>sh_state := SHELL_STATE_RUNNING\<rparr>) s"

text \<open>The loop of \<open>shell_cleanup\<close>, over the slots from \<open>i\<close> on.\<close>

fun cleanup_loop :: "nat list \<Rightarrow> (u64 \<times> string) list \<Rightarrow> 'z kproc_scheme \<Rightarrow> ((u64 \<times> string) list \<times> 'z kproc_scheme) option" where
  "cleanup_loop [] h s = Some (h, s)"
| "cleanup_loop (i # is) h s =
     (if fst (h ! i) \<noteq> 0
      then do { s1 \<leftarrow> kbuf_free (fst (h ! i)) s; cleanup_loop is (h[i := (0, [])]) s1 }
      else cleanup_loop is h s)"

definition shell_cleanup :: "shell \<Rightarrow> 'z kproc_scheme \<Rightarrow> (shell \<times> 'z kproc_scheme) option" where
  "shell_cleanup sh s =
     do { (h, s1) \<leftarrow> cleanup_loop [0..<history_count sh] (history sh) s;
          Some (shell_clear_buffer (sh\<lparr>history := h\<rparr>), s1) }"

definition shell_process ::
  "'z kuser_scheme shell_env \<Rightarrow> 'z kuser_scheme platform \<Rightarrow> 'z kuser_scheme file_api \<Rightarrow> 'z kuser_scheme \<Rightarrow>
    (u64 \<times> 'z kuser_scheme) option" where
  "shell_process E P A s =
     do { (sh, s1) \<leftarrow> shell_init A s;
          (sh1, s2) \<leftarrow> shell_run E P A sh s1;
          (sh2, s3) \<leftarrow> shell_cleanup sh1 s2;
          sys_exit (ucast (exit_code sh2)) P s3 }"

end
