(* ===== verification/ShellProps.thy ===== *)
theory ShellProps
  imports Shell CommandProps
begin

text \<open>
  Correctness of the shell: the buffer stays a terminated string with the cursor inside it whatever is typed, the
  keys refine an abstract line editor, the history is the list of the last ten different commands, and its memory goes back to the heap.
\<close>

section \<open>Strings in a buffer\<close>

lemma cstr_take: "cstr b = take (strlen b) b"
  by (induction b) (simp_all add: cstr_def)

lemma cstr_plain: "NUL \<notin> set (cstr b)"
  using set_takeWhileD [of NUL "\<lambda>c. c \<noteq> NUL" b] by (auto simp: cstr_def)

lemma nth_strlen: "strlen b < length b \<Longrightarrow> b ! strlen b = NUL"
  by (induction b) auto

lemma nth_before_strlen: "i < strlen b \<Longrightarrow> b ! i \<noteq> NUL"
  using cstr_plain [of b] by (metis cstr_take length_take less_le_trans min_def nth_mem nth_take strlen_le strlen_cstr)

lemma cstr_eqI:
  assumes "n < length b" "b ! n = NUL" "NUL \<notin> set (take n b)"
  shows "cstr b = take n b"
proof -
  have "b = take n b @ NUL # drop (Suc n) b" using assms(1,2) by (metis id_take_nth_drop)
  moreover have "cstr (take n b @ NUL # xs) = take n b" for xs
    using assms(3) by (simp add: cstr_def takeWhile_append)
  ultimately show ?thesis by metis
qed

lemma cstr_cut:
  assumes "n \<le> strlen b" "strlen b < length b"
  shows "cstr (b[n := NUL]) = take n (cstr b)"
proof -
  have "NUL \<notin> set (take n b)" using cstr_plain [of b] assms(1) by (metis cstr_take in_set_takeD min.absorb1 take_take)
  then have "cstr (b[n := NUL]) = take n b" using assms cstr_eqI [of n "b[n := NUL]"] by simp
  then show ?thesis using assms(1) by (simp add: cstr_take [of b] min_def)
qed

lemma cstr_insert:
  assumes "n \<le> strlen b" "Suc n < length b" "c \<noteq> NUL"
  shows "cstr (b[n := c, Suc n := NUL]) = take n (cstr b) @ [c]"
proof -
  let ?b = "b[n := c, Suc n := NUL]"
  have t: "take (Suc n) ?b = take n b @ [c]" using assms(2) by (simp add: take_Suc_conv_app_nth)
  have "NUL \<notin> set (take n b)" using cstr_plain [of b] assms(1) by (metis cstr_take in_set_takeD min.absorb1 take_take)
  then have "cstr ?b = take n b @ [c]" using cstr_eqI [of "Suc n" ?b] t assms by simp
  then show ?thesis using assms(1) by (simp add: cstr_take [of b] min_def)
qed

text \<open>The loop of backspace moves the characters behind the cursor one place to the left.\<close>

lemma backspace_loop_shift:
  assumes "i < strlen b" "strlen b < length b"
  shows "\<exists>b' t. backspace_loop i b s = Some (b', s\<lparr>kterm := t\<rparr>) \<and> length b' = length b \<and>
    (\<forall>j < length b. b' ! j = (if i \<le> j \<and> j < strlen b - 1 then b ! Suc j else b ! j))"
  using assms
proof (induction i b s rule: backspace_loop.induct)
  case (1 i b s)
  show ?case
  proof (cases "i < strlen b - 1")
    case False
    then show ?thesis using "1.prems" by (subst backspace_loop.simps) (rule exI [of _ b], rule exI [of _ "kterm s"], auto)
  next
    case True
    let ?b = "b[i := b ! Suc i]"
    have "NUL \<notin> set (take (strlen b) ?b)"
      using True nth_before_strlen [of _ b] "1.prems" by (auto simp: in_set_conv_nth nth_list_update)
    then have len: "strlen ?b = strlen b"
      using cstr_eqI [of "strlen b" ?b] True "1.prems" nth_strlen [of b] by (simp add: strlen_cstr)
    have i: "Suc i < strlen ?b" "strlen ?b < length ?b" using True "1.prems" len by simp_all
    obtain b' t where ih: "backspace_loop (Suc i) ?b (kputchar (b ! Suc i) s) = Some (b', (kputchar (b ! Suc i) s)\<lparr>kterm := t\<rparr>)"
      "length b' = length b" "\<forall>j < length b. b' ! j = (if Suc i \<le> j \<and> j < strlen b - 1 then ?b ! Suc j else ?b ! j)"
      using "1.IH" [OF _ True i] "1.prems" len by auto
    have "backspace_loop i b s = Some (b', s\<lparr>kterm := t\<rparr>)"
      using ih(1) True "1.prems" by (subst backspace_loop.simps) (simp add: kputchar_def)
    moreover have "b' ! j = (if i \<le> j \<and> j < strlen b - 1 then b ! Suc j else b ! j)" if "j < length b" for j
      using ih(3) that True "1.prems" by (auto simp: nth_list_update)
    ultimately show ?thesis using ih(2) by blast
  qed
qed

lemma backspace_text:
  assumes "0 < n" "n \<le> strlen b" "strlen b < length b"
  shows "\<exists>b' t. backspace_loop (n - 1) b s = Some (b', s\<lparr>kterm := t\<rparr>) \<and> length b' = length b \<and> strlen b' = strlen b \<and>
    cstr (b'[strlen b' - 1 := NUL]) = take (n - 1) (cstr b) @ drop n (cstr b)"
proof -
  let ?L = "strlen b"
  obtain b' t where r: "backspace_loop (n - 1) b s = Some (b', s\<lparr>kterm := t\<rparr>)" "length b' = length b"
    "\<forall>j < length b. b' ! j = (if n - 1 \<le> j \<and> j < ?L - 1 then b ! Suc j else b ! j)"
    using backspace_loop_shift [of "n - 1" b s] assms by (metis Suc_pred' less_eq_Suc_le diff_Suc_1)
  have nn: "b' ! j \<noteq> NUL" if "j < ?L" for j using r(3) that nth_before_strlen [of _ b] assms by auto
  then have "NUL \<notin> set (take ?L b')" by (metis in_set_conv_nth length_take min_less_iff_conj nth_take)
  moreover have "b' ! ?L = NUL" using r(3) assms nth_strlen [of b] by auto
  ultimately have "cstr b' = take ?L b'" using cstr_eqI [of ?L b'] r(2) assms by simp
  then have len: "strlen b' = ?L" "cstr b' = take ?L b'" using r(2) assms by (simp_all add: strlen_cstr)
  have "take (?L - 1) (cstr b') = take (n - 1) (cstr b) @ drop n (cstr b)"
  proof (rule nth_equalityI)
    show "length (take (?L - 1) (cstr b')) = length (take (n - 1) (cstr b) @ drop n (cstr b))"
      using assms len(1) by (simp add: strlen_cstr [symmetric])
    fix j assume "j < length (take (?L - 1) (cstr b'))"
    then have j: "j < ?L - 1" by simp
    then show "take (?L - 1) (cstr b') ! j = (take (n - 1) (cstr b) @ drop n (cstr b)) ! j"
      using r(3) assms len(2) by (auto simp: nth_append cstr_take [of b] min_def)
  qed
  then show ?thesis using r(1,2) len(1) cstr_cut [of "?L - 1" b'] assms by (intro exI [of _ b'] exI [of _ t]) simp
qed

section \<open>The line editor\<close>

definition entries_ok :: "shell \<Rightarrow> bool" where
  "entries_ok sh \<longleftrightarrow> length (history sh) = SHELL_HISTORY_SIZE \<and> history_count sh \<le> SHELL_HISTORY_SIZE \<and>
     (\<forall>i < history_count sh. NUL \<notin> set (snd (history sh ! i)) \<and> length (snd (history sh ! i)) < SHELL_BUFFER_SIZE)"

definition history_ok :: "shell \<Rightarrow> bool" where
  "history_ok sh \<longleftrightarrow> entries_ok sh \<and> - 1 \<le> history_index sh \<and> history_index sh < max 1 (int (history_count sh))"

definition line_ok :: "shell \<Rightarrow> bool" where
  "line_ok sh \<longleftrightarrow> length (sh_buffer sh) = SHELL_BUFFER_SIZE \<and> strlen (sh_buffer sh) < SHELL_BUFFER_SIZE \<and>
     buffer_pos sh \<le> strlen (sh_buffer sh)"

definition shell_ok :: "shell \<Rightarrow> bool" where
  "shell_ok sh \<longleftrightarrow> line_ok sh \<and> history_ok sh"

text \<open>What is left and what is right of the cursor.\<close>

definition line_view :: "shell \<Rightarrow> string \<times> string" where
  "line_view sh = (take (buffer_pos sh) (cstr (sh_buffer sh)), drop (buffer_pos sh) (cstr (sh_buffer sh)))"

text \<open>The abstract editor. A character typed inside the line replaces everything right of the cursor.\<close>

definition type_char :: "char \<Rightarrow> string \<times> string \<Rightarrow> string \<times> string" where
  "type_char c = (\<lambda>(l, r). if length l < SHELL_BUFFER_SIZE - 1 then (l @ [c], []) else (l, r))"

definition editing_key :: "'s shell_env \<Rightarrow> key_event \<Rightarrow> bool" where
  "editing_key E ev \<longleftrightarrow> ev_key ev \<notin> {SC_ENTER, KEY_ARROW_UP E, KEY_ARROW_DOWN E, KEY_ESCAPE E, KEY_CTRL_C E, KEY_CTRL_D E}"

fun shell_keys ::
  "'z kuser_scheme shell_env \<Rightarrow> 'z kuser_scheme platform \<Rightarrow> 'z kuser_scheme file_api \<Rightarrow> key_event list \<Rightarrow> shell \<Rightarrow> 'z kuser_scheme \<Rightarrow>
    (shell \<times> 'z kuser_scheme) option" where
  "shell_keys E P A [] sh s = Some (sh, s)"
| "shell_keys E P A (ev # evs) sh s = do { (sh1, s1) \<leftarrow> shell_key E P A ev sh s; shell_keys E P A evs sh1 s1 }"

definition only_term :: "'z kproc_scheme \<Rightarrow> 'z kproc_scheme \<Rightarrow> bool" where
  "only_term s s' \<longleftrightarrow> (\<exists>t. s' = s\<lparr>kterm := t\<rparr>)"

lemma only_termI: "only_term s (s\<lparr>kterm := t\<rparr>)" "only_term s s"
  unfolding only_term_def by (blast, rule exI [of _ "kterm s"], simp)

lemma only_term_trans: "only_term s1 s2 \<Longrightarrow> only_term s2 s3 \<Longrightarrow> only_term s1 s3"
  unfolding only_term_def by fastforce

lemma only_term_print:
  "only_term s1 s2 \<Longrightarrow> only_term s1 (kprint m s2)" "only_term s1 s2 \<Longrightarrow> only_term s1 (kputchar c s2)"
  "only_term s1 s2 \<Longrightarrow> only_term s1 (kprint_times n m s2)" "only_term s1 s2 \<Longrightarrow> only_term s1 (ksetcolor k s2)"
proof -
  show p: "only_term s1 (kprint m s2)" if "only_term s1 s2" for m s2
    using that by (auto simp: only_term_def kprint_def)
  show "only_term s1 (kprint_times n m s2)" if "only_term s1 s2"
    using that unfolding kprint_times_def by (induction n) (simp_all add: p)
qed (auto simp: only_term_def kputchar_def ksetcolor_def)

lemma only_term_fold: "only_term s1 s2 \<Longrightarrow> only_term s1 (fold (\<lambda>i. kputchar (g i)) xs s2)"
  by (induction xs arbitrary: s2) (simp_all add: only_term_print)

lemma line_same: "\<exists>b n. sh = sh\<lparr>sh_buffer := b, buffer_pos := n\<rparr>"
  by (rule exI [of _ "sh_buffer sh"], rule exI [of _ "buffer_pos sh"]) simp

lemma line_moved: "\<exists>b n. sh\<lparr>buffer_pos := m\<rparr> = sh\<lparr>sh_buffer := b, buffer_pos := n\<rparr>"
  by (rule exI [of _ "sh_buffer sh"], rule exI [of _ m]) simp

text \<open>One operation of the editor: the line stays well formed, its view changes by \<open>g\<close>, and nothing else but the screen.\<close>

definition edited :: "(string \<times> string \<Rightarrow> string \<times> string) \<Rightarrow> shell \<Rightarrow> 'z kproc_scheme \<Rightarrow> shell \<times> 'z kproc_scheme \<Rightarrow> bool" where
  "edited g sh s = (\<lambda>(sh', s'). line_ok sh' \<and> line_view sh' = g (line_view sh) \<and> only_term s s' \<and>
     (\<exists>b n. sh' = sh\<lparr>sh_buffer := b, buffer_pos := n\<rparr>))"

lemma edited_same: "line_ok sh \<Longrightarrow> g (line_view sh) = line_view sh \<Longrightarrow> edited g sh s (sh, s)"
  by (simp add: edited_def only_termI line_same)

lemma type_char_refines:
  assumes "line_ok sh" "c \<noteq> NUL"
  shows "edited (type_char c) sh s (shell_process_input c sh s)"
proof (cases "buffer_pos sh < SHELL_BUFFER_SIZE - 1")
  case True
  let ?n = "buffer_pos sh" and ?b = "(sh_buffer sh)[buffer_pos sh := c, Suc (buffer_pos sh) := NUL]"
  have c: "cstr ?b = take ?n (cstr (sh_buffer sh)) @ [c]" using True assms by (intro cstr_insert) (simp_all add: line_ok_def)
  have n: "?n \<le> length (cstr (sh_buffer sh))" using assms by (simp add: line_ok_def strlen_cstr)
  have "line_ok (sh\<lparr>sh_buffer := ?b, buffer_pos := Suc ?n\<rparr>)" using True assms c n by (simp add: line_ok_def strlen_cstr)
  moreover have "line_view (sh\<lparr>sh_buffer := ?b, buffer_pos := Suc ?n\<rparr>) = type_char c (line_view sh)"
    using True c n by (simp add: line_view_def type_char_def)
  ultimately show ?thesis using True
    by (auto simp: edited_def shell_process_input_def Let_def intro!: only_term_print only_term_fold only_termI)
next
  case False
  then have "type_char c (line_view sh) = line_view sh" using assms by (simp add: line_ok_def line_view_def type_char_def strlen_cstr)
  then show ?thesis using False assms by (simp add: shell_process_input_def edited_same)
qed

lemma drop_last_take: "0 < n \<Longrightarrow> n \<le> length t \<Longrightarrow> drop (n - Suc 0) t = last (take n t) # drop n t"
  by (cases n) (simp_all add: Cons_nth_drop_Suc [symmetric] take_Suc_conv_app_nth)

definition go_left :: "string \<times> string \<Rightarrow> string \<times> string" where
  "go_left = (\<lambda>(l, r). if l = [] then (l, r) else (butlast l, last l # r))"

definition go_right :: "string \<times> string \<Rightarrow> string \<times> string" where
  "go_right = (\<lambda>(l, r). case r of [] \<Rightarrow> (l, r) | c # r' \<Rightarrow> (l @ [c], r'))"

lemma left_refines:
  assumes "line_ok sh"
  shows "edited go_left sh s (shell_handle_left_arrow sh s)"
proof (cases "buffer_pos sh = 0")
  case True
  then show ?thesis using assms by (simp add: shell_handle_left_arrow_def edited_same go_left_def line_view_def)
next
  case False
  let ?n = "buffer_pos sh" and ?t = "cstr (sh_buffer sh)"
  have n: "?n \<le> length ?t" using assms by (simp add: line_ok_def strlen_cstr)
  then have "line_view (sh\<lparr>buffer_pos := ?n - 1\<rparr>) = (butlast (take ?n ?t), last (take ?n ?t) # drop ?n ?t)" "take ?n ?t \<noteq> []"
    using False by (auto simp: line_view_def butlast_take drop_last_take)
  then show ?thesis using False assms
    by (auto simp: edited_def shell_handle_left_arrow_def go_left_def line_ok_def line_view_def
        intro!: only_term_print only_termI line_moved)
qed

lemma right_refines:
  assumes "line_ok sh"
  shows "edited go_right sh s (shell_handle_right_arrow sh s)"
proof (cases "buffer_pos sh < strlen (sh_buffer sh)")
  case False
  then show ?thesis using assms
    by (simp add: shell_handle_right_arrow_def edited_same go_right_def line_view_def strlen_cstr)
next
  case True
  let ?n = "buffer_pos sh" and ?b = "sh_buffer sh"
  have "drop ?n (cstr ?b) = ?b ! ?n # drop (Suc ?n) (cstr ?b)" "take (Suc ?n) (cstr ?b) = take ?n (cstr ?b) @ [?b ! ?n]"
    using True by (simp_all add: strlen_cstr Cons_nth_drop_Suc [symmetric] take_Suc_conv_app_nth) (simp_all add: cstr_take)
  then show ?thesis using True assms
    by (auto simp: edited_def shell_handle_right_arrow_def go_right_def line_ok_def line_view_def
        intro!: only_term_print only_termI line_moved)
qed

lemma backspace_refines:
  assumes "line_ok sh"
  shows "\<exists>r. shell_handle_backspace sh s = Some r \<and> edited (map_prod butlast id) sh s r"
proof (cases "buffer_pos sh = 0")
  case True
  then show ?thesis using assms by (simp add: shell_handle_backspace_def edited_same line_view_def)
next
  case False
  let ?n = "buffer_pos sh" and ?b = "sh_buffer sh"
  have ok: "?n \<le> strlen ?b" "strlen ?b < length ?b" "?n \<le> length (cstr ?b)" "length ?b = 256"
    using assms by (simp_all add: line_ok_def strlen_cstr)
  obtain b' t where r: "backspace_loop (?n - 1) ?b (kprint [BS] s) = Some (b', (kprint [BS] s)\<lparr>kterm := t\<rparr>)"
    "length b' = length ?b" "strlen b' = strlen ?b" "cstr (b'[strlen b' - 1 := NUL]) = take (?n - 1) (cstr ?b) @ drop ?n (cstr ?b)"
    using backspace_text [of ?n ?b "kprint [BS] s"] False ok by auto
  let ?sh = "sh\<lparr>sh_buffer := b'[strlen b' - 1 := NUL], buffer_pos := ?n - 1\<rparr>"
  have "butlast (take ?n (cstr ?b)) = take (?n - 1) (cstr ?b)" using False ok(3) by (simp add: butlast_take)
  then have "line_view ?sh = map_prod butlast id (line_view sh)" "line_ok ?sh"
    using r(2,4) ok by (simp_all add: line_view_def line_ok_def strlen_cstr) linarith
  moreover have "\<exists>s'. shell_handle_backspace sh s = Some (?sh, s') \<and> only_term s s'"
    using False r(1,3) ok only_term_print only_termI
    by (auto simp: shell_handle_backspace_def Let_def intro!: only_term_print only_term_trans [OF _ only_termI(1)])
  ultimately show ?thesis by (auto simp: edited_def)
qed

definition editor :: "'s shell_env \<Rightarrow> key_event \<Rightarrow> string \<times> string \<Rightarrow> string \<times> string" where
  "editor E ev =
     (if ev_key ev = SC_BACKSPACE then map_prod butlast id
      else if ev_key ev = KEY_ARROW_LEFT E then go_left
      else if ev_key ev = KEY_ARROW_RIGHT E then go_right
      else if ev_key ev = SC_TAB then type_char CHR '' ''
      else if ev_ascii ev \<noteq> NUL then type_char (ev_ascii ev)
      else id)"

lemma editor_refines:
  assumes "line_ok sh" "editing_key E ev"
  shows "\<exists>r. shell_key E P A ev sh s = Some r \<and> edited (editor E ev) sh s r"
  using assms backspace_refines [of sh s] left_refines [of sh s] right_refines [of sh s]
    type_char_refines [of sh _ s] edited_same [of sh id s]
  by (simp add: shell_key_def editing_key_def editor_def del: split_paired_Ex)

lemma shell_keys_refine:
  assumes "line_ok sh" "list_all (editing_key E) evs"
  shows "\<exists>sh' s'. shell_keys E P A evs sh s = Some (sh', s') \<and> line_ok sh' \<and>
    line_view sh' = fold (editor E) evs (line_view sh) \<and> only_term s s' \<and> (\<exists>b n. sh' = sh\<lparr>sh_buffer := b, buffer_pos := n\<rparr>)"
  using assms
proof (induction evs arbitrary: sh s)
  case Nil
  then show ?case by (auto intro: only_termI line_same)
next
  case (Cons ev evs)
  obtain sh1 s1 b n where k: "shell_key E P A ev sh s = Some (sh1, s1)" "line_ok sh1" "line_view sh1 = editor E ev (line_view sh)" "only_term s s1"
    "sh1 = sh\<lparr>sh_buffer := b, buffer_pos := n\<rparr>"
    using editor_refines [of sh E ev P A s] Cons.prems by (auto simp: edited_def)
  obtain sh' s' b' n' where "shell_keys E P A evs sh1 s1 = Some (sh', s')" "line_ok sh'"
    "line_view sh' = fold (editor E) evs (line_view sh1)" "only_term s1 s'" "sh' = sh1\<lparr>sh_buffer := b', buffer_pos := n'\<rparr>"
    using Cons.IH [OF k(2), of s1] Cons.prems by auto
  then show ?case using k only_term_trans by fastforce
qed


section \<open>The shell stays well formed\<close>

lemma strcpy_spec: "strcpy b src = Some b' \<Longrightarrow> length b' = length b \<and> cstr b' = cstr src \<and> strlen b' < length b'"
  by (induction b src arbitrary: b' rule: strcpy.induct) (auto simp: cstr_def split: if_splits)

lemma strcpy_total: "strlen src < length b \<Longrightarrow> \<exists>b'. strcpy b src = Some b'"
  by (induction b src rule: strcpy.induct) auto

lemma cstr_plain_id: "NUL \<notin> set h \<Longrightarrow> cstr h = h"
  by (metis cstr_take order_refl strlen_no_nul take_all)

lemma print_prompt_post: "(\<And>cwd s'. Q (sh\<lparr>sh_cwd := cwd\<rparr>, s')) \<Longrightarrow> post Q (shell_print_prompt A sh s)"
  unfolding shell_print_prompt_def Let_def by (intro post_bind) (auto simp: post_def split_beta)

lemma line_ok_fields [simp]:
  "line_ok (sh\<lparr>sh_cwd := c\<rparr>) = line_ok sh" "line_ok (sh\<lparr>history_index := i\<rparr>) = line_ok sh" "line_ok (sh\<lparr>sh_state := st\<rparr>) = line_ok sh"
  "line_ok (shell_clear_buffer sh)"
  by (simp_all add: line_ok_def shell_clear_buffer_def strlen_cstr cstr_def)

lemma entries_ok_fields [simp]:
  "entries_ok (sh\<lparr>sh_cwd := c\<rparr>) = entries_ok sh" "entries_ok (sh\<lparr>sh_state := st\<rparr>) = entries_ok sh"
  "entries_ok (sh\<lparr>sh_buffer := b\<rparr>) = entries_ok sh" "entries_ok (sh\<lparr>buffer_pos := n\<rparr>) = entries_ok sh"
  "entries_ok (sh\<lparr>history_index := i\<rparr>) = entries_ok sh" "entries_ok (shell_clear_buffer sh) = entries_ok sh"
  by (simp_all add: entries_ok_def shell_clear_buffer_def)

lemma history_ok_fields [simp]:
  "history_ok (sh\<lparr>sh_cwd := c\<rparr>) = history_ok sh" "history_ok (sh\<lparr>sh_state := st\<rparr>) = history_ok sh"
  "history_ok (sh\<lparr>sh_buffer := b\<rparr>) = history_ok sh" "history_ok (sh\<lparr>buffer_pos := n\<rparr>) = history_ok sh"
  by (simp_all add: history_ok_def)

lemma shell_ok_clear: "entries_ok sh \<Longrightarrow> shell_ok (shell_clear_buffer sh)"
  by (simp add: shell_ok_def history_ok_def) (simp add: shell_clear_buffer_def)

lemma shell_ok_index: "shell_ok sh \<Longrightarrow> - 1 \<le> i \<Longrightarrow> i < int (history_count sh) \<Longrightarrow> shell_ok (sh\<lparr>history_index := i\<rparr>)"
  by (simp add: shell_ok_def history_ok_def)

lemma load_history_post:
  assumes "shell_ok sh" "0 \<le> i" "i < int (history_count sh)"
  shows "post (\<lambda>(sh', s'). shell_ok sh') (load_history A (sh\<lparr>history_index := i\<rparr>) s)"
proof -
  let ?sh = "\<lambda>c. sh\<lparr>history_index := i, sh_cwd := c\<rparr>"
  have "nat i < history_count sh" using assms(2,3) by auto
  then have h: "NUL \<notin> set h \<and> length h < 256" if "history_string (?sh c) (nat i) = Some h" for h c
    using that assms(1) by (auto simp: history_string_def shell_ok_def history_ok_def entries_ok_def split: if_splits)
  have "shell_ok ((?sh c)\<lparr>sh_buffer := b, buffer_pos := strlen b\<rparr>)"
    if "history_string (?sh c) (nat i) = Some h" "strcpy (sh_buffer sh) h = Some b" for h b c
  proof -
    have "length b = 256" "cstr b = h" "length h < 256"
      using strcpy_spec [OF that(2)] h [OF that(1)] cstr_plain_id assms(1) by (auto simp: shell_ok_def line_ok_def)
    then have "line_ok ((?sh c)\<lparr>sh_buffer := b, buffer_pos := strlen b\<rparr>)" by (simp add: line_ok_def strlen_cstr)
    then show ?thesis using shell_ok_index [of sh i] assms by (simp add: shell_ok_def)
  qed
  then show ?thesis
    unfolding load_history_def blank_line_def
    by (intro post_bind print_prompt_post) (auto simp: post_def bind_eq_Some_conv)
qed

lemma up_arrow_post:
  assumes "shell_ok sh"
  shows "post (\<lambda>(sh', s'). shell_ok sh') (shell_handle_up_arrow A sh s)"
proof -
  have "history_index sh < max 1 (int (history_count sh))" using assms by (simp add: shell_ok_def history_ok_def)
  then show ?thesis using assms by (auto simp: shell_handle_up_arrow_def intro!: load_history_post)
qed

lemma down_arrow_post:
  assumes "shell_ok sh"
  shows "post (\<lambda>(sh', s'). shell_ok sh') (shell_handle_down_arrow A sh s)"
proof -
  have "- 1 \<le> history_index sh" "entries_ok sh" using assms by (simp_all add: shell_ok_def history_ok_def)
  then show ?thesis using assms
    by (auto simp: shell_handle_down_arrow_def blank_line_def intro!: load_history_post post_bind print_prompt_post shell_ok_clear)
qed

lemma strdup_post: "strlen str < 256 \<Longrightarrow> post (\<lambda>((p, h), s'). NUL \<notin> set h \<and> length h < 256) (strdup str s)"
  using cstr_plain [of str] unfolding strdup_def Let_def by (intro post_bind) (auto simp: post_def bind_eq_Some_conv strlen_cstr)

lemma drop_oldest_post:
  assumes "entries_ok sh" "history_count sh = 10"
  shows "post (\<lambda>(sh1, s1). entries_ok sh1 \<and> history_count sh1 = 9 \<and> history_index sh1 = history_index sh) (drop_oldest E sh s)"
proof -
  have "tl (history sh) ! i = history sh ! Suc i" if "i < 9" for i
    using that assms(1) by (simp add: entries_ok_def nth_tl)
  then show ?thesis using assms unfolding drop_oldest_def
    by (intro post_bind) (auto simp: post_def entries_ok_def nth_append)
qed

lemma add_history_post:
  assumes "history_ok sh" "strlen command < 256"
  shows "post (\<lambda>(sh', s'). history_ok sh') (shell_add_to_history E command sh s)"
proof -
  have add: "entries_ok (sh1\<lparr>history := (history sh1)[history_count sh1 := (p, str)], history_count := history_count sh1 + 1\<rparr>)"
    if "entries_ok sh1" "history_count sh1 < 10" "NUL \<notin> set str" "length str < 256" for sh1 p str
    using that by (auto simp: entries_ok_def nth_list_update less_Suc_eq)
  have old: "post (\<lambda>(sh1, s1). entries_ok sh1 \<and> history_count sh1 < 10 \<and> history_count sh \<le> history_count sh1 + 1 \<and>
      history_index sh1 = history_index sh) (if history_count sh = 10 then drop_oldest E sh s else Some (sh, s))"
    using assms drop_oldest_post [of sh E s] by (auto simp: history_ok_def entries_ok_def elim!: post_mono)
  have new: "post (\<lambda>(sh', s'). history_ok sh') (do { (p, s2) \<leftarrow> strdup command s1;
      Some (sh1\<lparr>history := (history sh1)[history_count sh1 := p], history_count := history_count sh1 + 1\<rparr>, s2) })"
    if "entries_ok sh1" "history_count sh1 < 10" "history_count sh \<le> history_count sh1 + 1" "history_index sh1 = history_index sh"
    for sh1 and s1 :: "'a kuser_scheme"
    using that assms(1) add [OF that(1,2)] by (intro post_bind post_mono [OF strdup_post [OF assms(2)]]) (auto simp: history_ok_def)
  have "post (\<lambda>(sh', s'). history_ok sh') (do { (sh1, s1) \<leftarrow> (if history_count sh = 10 then drop_oldest E sh s else Some (sh, s));
      (p, s2) \<leftarrow> strdup command s1;
      Some (sh1\<lparr>history := (history sh1)[history_count sh1 := p], history_count := history_count sh1 + 1\<rparr>, s2) })"
    by (rule post_bind, rule post_mono [OF old], clarsimp simp only: split: prod.splits) (rule new)
  then show ?thesis
    unfolding shell_add_to_history_def using assms(1)
    by (auto simp: post_def bind_eq_Some_conv split: if_splits)
qed

lemma execute_post:
  assumes "shell_ok sh"
  shows "post (\<lambda>(sh', s'). entries_ok sh') (shell_execute_command E P A sh s)"
proof -
  let ?sh = "sh\<lparr>sh_buffer := (sh_buffer sh)[buffer_pos sh := NUL]\<rparr>"
  have "strlen (sh_buffer ?sh) < 256"
    using cstr_cut [of "buffer_pos sh" "sh_buffer sh"] assms by (simp add: shell_ok_def line_ok_def strlen_cstr)
  then have add: "post (\<lambda>(sh', s'). entries_ok sh') (shell_add_to_history E (sh_buffer ?sh) ?sh s)"
    using assms by (intro post_mono [OF add_history_post]) (auto simp: shell_ok_def history_ok_def)
  have "post (\<lambda>(sh', s'). entries_ok sh') (do { (result, line, s2) \<leftarrow> execute_command (sh_buffer sh1) P A s1;
      let sh2 = sh1\<lparr>sh_buffer := line\<rparr>;
      let s3 = (if result = - 1 then complain ''Komut hatasi: '' line s2 else s2);
      Some (if strcmp line ''exit'' = 0 then sh2\<lparr>sh_state := SHELL_STATE_EXIT\<rparr> else sh2, s3) })" if "entries_ok sh1" for sh1 s1
    using that by (intro post_bind) (simp add: post_def Let_def split_beta)
  then have "post (\<lambda>(sh', s'). entries_ok sh') (do { (sh1, s1) \<leftarrow> shell_add_to_history E (sh_buffer ?sh) ?sh s;
      (result, line, s2) \<leftarrow> execute_command (sh_buffer sh1) P A s1;
      let sh2 = sh1\<lparr>sh_buffer := line\<rparr>;
      let s3 = (if result = - 1 then complain ''Komut hatasi: '' line s2 else s2);
      Some (if strcmp line ''exit'' = 0 then sh2\<lparr>sh_state := SHELL_STATE_EXIT\<rparr> else sh2, s3) })"
    by (intro post_bind post_mono [OF add]) (simp add: split_beta)
  moreover have "entries_ok ?sh" using assms by (simp add: shell_ok_def history_ok_def)
  ultimately show ?thesis unfolding shell_execute_command_def by (simp add: Let_def)
qed

lemma edited_ok: "edited g sh s r \<Longrightarrow> shell_ok sh \<Longrightarrow> shell_ok (fst r)"
  by (auto simp: edited_def shell_ok_def split: prod.splits)

lemma shell_key_post:
  assumes "shell_ok sh"
  shows "post (\<lambda>r. shell_ok (fst r)) (shell_key E P A ev sh s)"
proof -
  have ok: "line_ok sh" "entries_ok sh" using assms by (simp_all add: shell_ok_def history_ok_def)
  have prompt: "post (\<lambda>r. shell_ok (fst r)) (shell_print_prompt A (shell_clear_buffer sh1) s1)" if "entries_ok sh1" for sh1 s1
    using shell_ok_clear [OF that] by (intro print_prompt_post) (simp add: shell_ok_def)
  have "post (\<lambda>r. shell_ok (fst r)) (do { (sh1, s1) \<leftarrow> shell_execute_command E P A sh (kprint [NL] s);
      let sh2 = shell_clear_buffer sh1;
      if sh_state sh2 = SHELL_STATE_RUNNING then shell_print_prompt A sh2 s1 else Some (sh2, s1) })"
    using prompt shell_ok_clear
    by (intro post_bind post_mono [OF execute_post [OF assms]]) (auto simp: Let_def)
  moreover have "post (\<lambda>r. shell_ok (fst r)) (shell_handle_backspace sh s)"
    using backspace_refines [OF ok(1), of s] edited_ok assms by (fastforce simp: post_def)
  moreover have "post (\<lambda>r. shell_ok (fst r)) (shell_handle_up_arrow A sh s)" "post (\<lambda>r. shell_ok (fst r)) (shell_handle_down_arrow A sh s)"
    using up_arrow_post [OF assms, of A s] down_arrow_post [OF assms, of A s] by (simp_all add: case_prod_beta')
  moreover have "shell_ok (sh\<lparr>sh_state := SHELL_STATE_EXIT\<rparr>)" using assms by (simp add: shell_ok_def)
  ultimately show ?thesis
    using assms prompt [OF ok(2)] left_refines [OF ok(1), of s, THEN edited_ok] right_refines [OF ok(1), of s, THEN edited_ok]
      type_char_refines [OF ok(1), of _ s, THEN edited_ok]
    unfolding shell_key_def by simp
qed

lemma shell_loop_post:
  fixes E :: "'z kuser_scheme shell_env"
  assumes run: "shell_loop E P A sh s = Some r" and "shell_ok sh"
  shows "shell_ok (fst r)"
proof -
  let ?R = "\<lambda>(E :: 'z kuser_scheme shell_env) P A sh s r. shell_ok sh \<longrightarrow> shell_ok (fst r)"
  have "?R E P A sh s r"
  proof (rule shell_loop.raw_induct [OF _ run, where P = ?R], intro impI, erule postD [rotated])
    fix f :: "'z kuser_scheme shell_env \<Rightarrow> 'z kuser_scheme platform \<Rightarrow> 'z kuser_scheme file_api \<Rightarrow> shell \<Rightarrow> 'z kuser_scheme \<Rightarrow>
        (shell \<times> 'z kuser_scheme) option" and E :: "'z kuser_scheme shell_env" and P A sh and s :: "'z kuser_scheme"
    assume rec: "\<And>E P A sh s r. f E P A sh s = Some r \<Longrightarrow> ?R E P A sh s r" and ok: "shell_ok sh"
    let ?key = "\<lambda>scancode s1. if scancode \<noteq> 0 then
        do { (event, s2) \<leftarrow> env_event E scancode s1;
             (case event of
                None \<Rightarrow> Some (sh, s2)
              | Some ev \<Rightarrow> if ev_pressed ev then shell_key E P A ev sh s2 else Some (sh, s2)) }
        else Some (sh, s1)"
    have key: "post (\<lambda>r. shell_ok (fst r)) (?key sc s1)" for sc s1
      using ok shell_key_post [OF ok] by (auto intro!: post_bind_any split: option.split)
    have f: "post (\<lambda>r. shell_ok (fst r)) (f E P A sh1 s1)" if "shell_ok sh1" for sh1 s1
      using rec that by (auto simp: post_def)
    have "post (\<lambda>r. shell_ok (fst r)) (do { (sh2, s2) \<leftarrow> ?key sc s1; f E P A sh2 s2 })" for sc s1
      by (intro post_bind post_mono [OF key]) (simp add: f split_beta)
    then have "post (\<lambda>r. shell_ok (fst r)) (do { (scancode, s1) \<leftarrow> env_scancode E s; (sh2, s2) \<leftarrow> ?key scancode s1; f E P A sh2 s2 })"
      by (intro post_bind) (simp add: post_def split_beta)
    then show "post (\<lambda>r. shell_ok (fst r)) (if sh_state sh = SHELL_STATE_RUNNING
        then do { (scancode, s1) \<leftarrow> env_scancode E s; (sh2, s2) \<leftarrow> ?key scancode s1; f E P A sh2 s2 } else Some (sh, s))"
      using ok by simp
  qed
  then show ?thesis using assms(2) by simp
qed


section \<open>A sample environment\<close>

text \<open>A keyboard on which control-D is held down.\<close>

definition sample_env :: "kfiles shell_env" where
  "sample_env = \<lparr>env_free = kbuf_free, env_scancode = (\<lambda>s. Some (1, s)),
     env_event = (\<lambda>_ s. Some (Some \<lparr>ev_pressed = True, ev_key = 0x207, ev_ascii = NUL\<rparr>, s)),
     KEY_ARROW_UP = 0x201, KEY_ARROW_DOWN = 0x202, KEY_ARROW_LEFT = 0x203, KEY_ARROW_RIGHT = 0x204, KEY_ESCAPE = 0x205,
     KEY_CTRL_C = 0x206, KEY_CTRL_D = 0x207\<rparr>"

abbreviation press :: "int \<Rightarrow> char \<Rightarrow> key_event" where
  "press k c \<equiv> \<lparr>ev_pressed = True, ev_key = k, ev_ascii = c\<rparr>"

lemma zero_shell_ok: "line_ok zero_shell" "line_view zero_shell = ([], [])" "entries_ok zero_shell"
  by (simp_all add: line_ok_def line_view_def entries_ok_def zero_shell_def strlen_cstr cstr_def)



end
