(* ===== verification/ShellHistory.thy ===== *)
theory ShellHistory
  imports ShellProps
begin

text \<open>
  The history of the shell and its memory: a heap without neighbouring free blocks is determined by its allocated blocks, a list of
  pointers owns its blocks of the heap, adding a command keeps the last ten and their blocks, and \<open>shell_cleanup\<close> gives
  back exactly what the history took.
\<close>

section \<open>The form of a coalesced heap\<close>

lemma coalesced_Cons: "coalesced (b # bs) \<longleftrightarrow> (bs = [] \<or> \<not> (snd b \<and> snd (hd bs))) \<and> coalesced bs"
  by (cases b; cases bs) (auto split: prod.splits)

lemma live_below: "(p, k) \<in> set (live a bs) \<Longrightarrow> a + HEADER \<le> p"
  using live_range by blast

lemma live_free_head: "coalesced ((n, True) # bs) \<Longrightarrow> bs \<noteq> [] \<Longrightarrow> \<exists>k. (a + HEADER + n + HEADER, k) \<in> set (live a ((n, True) # bs))"
  by (cases bs) (auto simp: coalesced_Cons)

lemma head_not_later: "(a + HEADER, k) \<notin> set (live (a + HEADER + l) xs)"
  using live_below [of "a + HEADER" k "a + HEADER + l" xs] HEADER_pos by linarith

text \<open>A free block at the head ends where the first allocated block begins.\<close>

lemma free_head_le:
  assumes co: "coalesced ((n, True) # xs)" "coalesced ((m, True) # ys)"
    and eq: "set (live a ((n, True) # xs)) = set (live a ((m, True) # ys))" and ext: "extent ((n, True) # xs) = extent ((m, True) # ys)"
  shows "m \<le> n"
proof (cases "xs = []")
  case True
  then show ?thesis using ext by simp
next
  case False
  then obtain k where "(a + HEADER + n + HEADER, k) \<in> set (live a ((m, True) # ys))"
    using live_free_head [OF co(1), of a] eq by auto
  then have "a + HEADER + m + HEADER \<le> a + HEADER + n + HEADER"
    by (intro live_below [of _ k "a + HEADER + m" ys]) simp
  then show ?thesis by simp
qed

lemma coalesced_unique:
  "coalesced bs \<Longrightarrow> coalesced bs2 \<Longrightarrow> extent bs = extent bs2 \<Longrightarrow> set (live a bs) = set (live a bs2) \<Longrightarrow> bs = bs2"
proof (induction bs arbitrary: a bs2)
  case Nil
  then show ?case by (cases bs2) (auto simp: HEADER_def)
next
  case (Cons b bs)
  obtain n f where b: "b = (n, f)" by force
  obtain m g cs where bs2: "bs2 = (m, g) # cs" using Cons.prems(3) b by (cases bs2) (auto simp: HEADER_def)
  have fg: "f = g"
  proof (rule ccontr)
    assume "f \<noteq> g"
    then consider "\<not> f" "g" | "f" "\<not> g" by blast
    then show False
    proof cases
      case 1
      then have "(a + HEADER, n) \<in> set (live a bs2)" using Cons.prems(4) b by (auto simp: set_eq_iff)
      then show False using 1 bs2 head_not_later by simp
    next
      case 2
      then have "(a + HEADER, m) \<in> set (live a (b # bs))" using Cons.prems(4) bs2 by (auto simp: set_eq_iff)
      then show False using 2 b head_not_later by simp
    qed
  qed
  have nm: "n = m"
  proof (cases f)
    case True
    then show ?thesis
      using free_head_le [of n bs m cs a] free_head_le [of m cs n bs a] Cons.prems b bs2 fg by (simp add: le_antisym)
  next
    case False
    then have "(a + HEADER, n) \<in> set (live a bs2)" using Cons.prems(4) b by (auto simp: set_eq_iff)
    then show ?thesis using False fg bs2 head_not_later by simp
  qed
  have "set (live (a + HEADER + n) bs) = set (live (a + HEADER + n) cs)"
    using Cons.prems(4) b bs2 fg nm head_not_later [of a _ n] by (cases f) (simp_all add: insert_ident)
  then have "bs = cs" using Cons.IH [of cs "a + HEADER + n"] Cons.prems b bs2 nm by (simp add: coalesced_Cons)
  then show ?case using b bs2 fg nm by simp
qed

lemma alloc_coalesced:
  "alloc n a bs = (r, bs') \<Longrightarrow> coalesced bs \<Longrightarrow> coalesced bs' \<and> (bs \<noteq> [] \<longrightarrow> bs' \<noteq> [] \<and> (snd (hd bs') \<longrightarrow> snd (hd bs)))"
proof (induction n a bs arbitrary: r bs' rule: alloc.induct)
  case (2 n a k f bs)
  show ?case
  proof (cases "f \<and> n \<le> k")
    case True
    then show ?thesis using "2.prems" by (auto simp: coalesced_Cons split: if_splits)
  next
    case False
    obtain r2 bs2 where rec: "alloc n (a + HEADER + k) bs = (r2, bs2)" by fastforce
    then have "bs' = (k, f) # bs2" using False "2.prems"(1) by auto
    moreover have "coalesced bs2 \<and> (bs \<noteq> [] \<longrightarrow> bs2 \<noteq> [] \<and> (snd (hd bs2) \<longrightarrow> snd (hd bs)))"
      using "2.IH" [OF False rec] "2.prems"(2) by (simp add: coalesced_Cons)
    moreover have "bs2 = [] \<longleftrightarrow> bs = []" using alloc_Nil_iff [OF rec] .
    ultimately show ?thesis using "2.prems"(2) by (auto simp: coalesced_Cons)
  qed
qed simp

lemma coalesce_room: "(k, True) \<in> set bs \<Longrightarrow> \<exists>l \<ge> k. (l, True) \<in> set (coalesce bs)"
proof (induction bs arbitrary: k rule: coalesce.induct)
  case (3 n f l g bs)
  show ?case
  proof (cases "f \<and> g")
    case True
    have "\<exists>k' \<ge> k. (k', True) \<in> set ((n + HEADER + l, True) # bs)"
      using "3.prems" by (auto intro: exI [of _ "n + HEADER + l"] exI [of _ k])
    then show ?thesis using "3.IH"(1) [OF True] True by (metis coalesce.simps(3) order_trans)
  next
    case False
    then show ?thesis using "3.prems" "3.IH"(2) [OF False] by auto
  qed
qed auto

lemma release_room: "(k, True) \<in> set bs \<Longrightarrow> (k, True) \<in> set (release p a bs)"
  by (induction p a bs rule: release.induct) auto

section \<open>Pointers that own their blocks\<close>

text \<open>The heap holds the blocks \<open>B\<close> and one block for each of the pointers, all different.\<close>

definition owns_list :: "(nat \<times> nat) set \<Rightarrow> u64 list \<Rightarrow> heap \<Rightarrow> bool" where
  "owns_list B ps h \<longleftrightarrow> (\<exists>bs ks. heap_rep h bs \<and> coalesced bs \<and> length ks = length ps \<and> distinct ps \<and> 0 \<notin> set ps \<and>
     fst ` B \<inter> unat ` set ps = {} \<and> live_blocks bs = B \<union> set (zip (map unat ps) ks))"

definition room_for :: "nat \<Rightarrow> heap \<Rightarrow> bool" where
  "room_for n h \<longleftrightarrow> (\<exists>bs k. heap_rep h bs \<and> (k, True) \<in> set bs \<and> n \<le> k)"

lemma room_for_mono: "room_for n h \<Longrightarrow> m \<le> n \<Longrightarrow> room_for m h"
  unfolding room_for_def by (meson order_trans)

lemma fst_zip_image: "length ks = length ps \<Longrightarrow> fst ` set (zip (map unat ps) ks) = unat ` set (ps :: u64 list)"
  by (metis length_map map_fst_zip set_map)

lemma owns_push:
  assumes own: "owns_list B ps h" and sz: "sz \<noteq> 0" "unat sz + 7 < 2 ^ 64" and room: "room_for (unat sz) h"
  obtains r h' where "kmalloc sz h = Some (r, h')" "r \<noteq> 0" "owns_list B (ps @ [r]) h'"
    "\<And>s. kheap s = h' \<Longrightarrow> kbuf_store r (unat sz) s = Some ()"
proof -
  obtain bs ks where bs: "heap_rep h bs" "coalesced bs" "length ks = length ps" "distinct ps" "0 \<notin> set ps"
    "fst ` B \<inter> unat ` set ps = {}" "live_blocks bs = B \<union> set (zip (map unat ps) ks)"
    using own unfolding owns_list_def by blast
  obtain k where k: "(k, True) \<in> set bs" "unat sz \<le> k"
    using room heap_rep_unique [OF bs(1)] unfolding room_for_def by blast
  let ?n = "(unat sz + 7) div 8 * 8"
  obtain q bs' where alloc: "alloc ?n MEMORY_START bs = (q, bs')" by fastforce
  obtain h1 where h1: "kmalloc sz h = Some (case q of None \<Rightarrow> 0 | Some p \<Rightarrow> of_nat p, h1)" "heap_rep h1 bs'"
    using kmalloc_alloc [OF bs(1) sz(1) align8_unat [OF sz(2)] _ alloc] by (metis dvd_triv_right)
  obtain r h' bs2 where m: "kmalloc sz h = Some (r, h')" "heap_rep h' bs2" and
    if_: "if r = 0 then bs2 = bs \<and> (\<forall>(k, f) \<in> set bs. f \<longrightarrow> k < unat sz)
     else \<exists>k \<ge> unat sz. live_blocks bs2 = insert (unat r, k) (live_blocks bs) \<and>
       unat r \<notin> fst ` live_blocks bs \<and> 8 dvd unat r \<and>
       MEMORY_START + HEADER \<le> unat r \<and> unat r + k \<le> MEMORY_START + MEMORY_SIZE \<and>
       (\<forall>(q, l) \<in> live_blocks bs. unat r + k \<le> q \<or> q + l \<le> unat r)"
    using kmalloc_spec [OF bs(1) sz] by (elim exE conjE)
  have nz: "r \<noteq> 0" using if_ k by (auto split: if_splits)
  obtain l where l: "unat sz \<le> l" "live_blocks bs2 = insert (unat r, l) (live_blocks bs)" "unat r \<notin> fst ` live_blocks bs"
    "MEMORY_START + HEADER \<le> unat r" using if_ nz by auto
  have "bs2 = bs'" using heap_rep_unique m h1 by auto
  then have co: "coalesced bs2" using alloc_coalesced [OF alloc bs(2)] by simp
  have new: "r \<notin> set ps" "unat r \<notin> fst ` B"
    using l(3) bs(7) fst_zip_image [OF bs(3)] by (auto simp: image_Un)
  have "owns_list B (ps @ [r]) h'"
    unfolding owns_list_def
    using m(2) co bs(3-7) l(2) new nz by (intro exI [of _ bs2] exI [of _ "ks @ [l]"]) auto
  moreover have "kbuf_store r (unat sz) s = Some ()" if "kheap s = h'" for s
  proof -
    have "blocks_at (mblocks h') MEMORY_START bs2" "(unat r, l) \<in> set (live MEMORY_START bs2)" using m(2) l(2) by (auto simp: heap_rep_def)
    then obtain b where "mblocks h' (of_nat (unat r - HEADER)) = Some b" "unat (mb_size b) = l" using live_header_size by blast
    moreover have "(of_nat (unat r - HEADER) :: u64) = r - of_nat HEADER" using l(4) by (simp add: of_nat_diff)
    ultimately show ?thesis using that l(1) by (simp add: kbuf_store_def kbuf_holds_def)
  qed
  ultimately show thesis using that m(1) nz by blast
qed

lemma owns_pop:
  assumes own: "owns_list B (p # ps) h"
  obtains h' where "kfree p h = Some h'" "owns_list B ps h'" "\<And>n. room_for n h \<Longrightarrow> room_for n h'"
proof -
  obtain bs ks0 where bs: "heap_rep h bs" "length ks0 = Suc (length ps)" "distinct (p # ps)" "0 \<notin> set (p # ps)"
    "fst ` B \<inter> unat ` set (p # ps) = {}" "live_blocks bs = B \<union> set (zip (map unat (p # ps)) ks0)"
    using own unfolding owns_list_def by auto
  then obtain k ks where ks: "ks0 = k # ks" "length ks = length ps" by (cases ks0) auto
  have blk: "(unat p, k) \<in> live_blocks bs" using bs(6) ks(1) by simp
  obtain h' bs' where f: "kfree p h = Some h'" "heap_rep h' bs'" "coalesced bs'" "live_blocks bs' = live_blocks bs - {(unat p, k)}"
    using kfree_spec [OF bs(1) blk] by blast
  have "unat p \<notin> fst ` set (zip (map unat ps) ks)" 
    using bs(3) by (auto simp: fst_zip_image [OF ks(2)] dest: word_unat_eq_iff [THEN iffD2])
  then have "(unat p, k) \<notin> set (zip (map unat ps) ks)" "(unat p, k) \<notin> B" using bs(5) by force+
  then have "live_blocks bs' = B \<union> set (zip (map unat ps) ks)" using f(4) bs(6) ks(1) by auto
  then have "owns_list B ps h'" unfolding owns_list_def
    using f(2,3) ks(2) bs(3-5) by (intro exI [of _ bs'] exI [of _ ks]) auto
  moreover have "room_for n h'" if room: "room_for n h" for n
  proof -
    obtain m where m: "(m, True) \<in> set bs" "n \<le> m" using room heap_rep_unique [OF bs(1)] unfolding room_for_def by blast
    note ptr = live_ptr [OF bs(1) blk]
    obtain h2 where "kfree p h = Some h2" "heap_rep h2 (coalesce (release (unat (p - of_nat HEADER)) MEMORY_START bs))"
      using kfree_coalesce [OF bs(1) ptr(1,4)] .
    moreover obtain l where "m \<le> l" "(l, True) \<in> set (coalesce (release (unat (p - of_nat HEADER)) MEMORY_START bs))"
      using coalesce_room [OF release_room [OF m(1)]] by blast
    ultimately show ?thesis using f(1) m(2) unfolding room_for_def by (metis option.inject order_trans)
  qed
  ultimately show thesis using that f(1) by blast
qed

lemma owns_nil:
  assumes "owns_list (live_blocks bs0) [] h" "coalesced bs0" "extent bs0 = MEMORY_SIZE"
  shows "heap_rep h bs0"
proof -
  obtain bs where bs: "heap_rep h bs" "coalesced bs" "live_blocks bs = live_blocks bs0" using assms(1) by (auto simp: owns_list_def)
  then have "bs = bs0" using coalesced_unique [OF bs(2) assms(2) _ bs(3)] assms(3) by (simp add: heap_rep_def)
  then show ?thesis using bs(1) by simp
qed

section \<open>The history\<close>

definition history_list :: "shell \<Rightarrow> string list" where
  "history_list sh = map snd (take (history_count sh) (history sh))"

definition history_ptrs :: "shell \<Rightarrow> u64 list" where
  "history_ptrs sh = map fst (take (history_count sh) (history sh))"

text \<open>The last ten commands, without repetitions in a row.\<close>

definition remember :: "string \<Rightarrow> string list \<Rightarrow> string list" where
  "remember c hs = (if hs \<noteq> [] \<and> last hs = c then hs else (if length hs = SHELL_HISTORY_SIZE then tl hs else hs) @ [c])"

lemma history_last:
  assumes "entries_ok sh" "0 < history_count sh" "0 \<notin> set (history_ptrs sh)"
  shows "history_string sh (history_count sh - 1) = Some (last (history_list sh))" "history_list sh \<noteq> []"
    "cstr (last (history_list sh)) = last (history_list sh)"
proof -
  let ?h = "take (history_count sh) (history sh)" and ?i = "history_count sh - 1"
  have len: "length ?h = history_count sh" "?h \<noteq> []" "?i < length (history sh)" using assms(1,2) by (auto simp: entries_ok_def)
  then have l: "last ?h = history sh ! ?i" using assms(2) by (simp add: last_conv_nth)
  then have "fst (history sh ! ?i) \<noteq> 0"
    using assms(3) len(2) unfolding history_ptrs_def by (metis last_in_set list.set_map rev_image_eqI)
  moreover have snd: "last (history_list sh) = snd (history sh ! ?i)" using l len(2) by (simp add: history_list_def last_map)
  ultimately show "history_string sh ?i = Some (last (history_list sh))" using len(3) by (simp add: history_string_def)
  show "history_list sh \<noteq> []" using len(2) by (simp add: history_list_def)
  show "cstr (last (history_list sh)) = last (history_list sh)"
    using assms(1,2) unfolding snd by (intro cstr_plain_id) (simp add: entries_ok_def)
qed

lemma drop_oldest_owns:
  assumes "entries_ok sh" "history_count sh = 10" "owns_list B (history_ptrs sh) (kheap s)" "env_free E = kbuf_free"
    and "room_for n (kheap s)"
  obtains sh1 h where "drop_oldest E sh s = Some (sh1, s\<lparr>kheap := h\<rparr>)" "entries_ok sh1" "history_count sh1 = 9"
    "history_ptrs sh1 = tl (history_ptrs sh)" "history_list sh1 = tl (history_list sh)" "owns_list B (history_ptrs sh1) h" "room_for n h"
proof -
  have len: "length (history sh) = 10" using assms(1) by (simp add: entries_ok_def)
  then obtain x xs where x: "history sh = x # xs" "length xs = 9" by (cases "history sh") auto
  have ptrs: "history_ptrs sh = fst x # map fst xs" "history_list sh = snd x # map snd xs"
    using x assms(2) by (simp_all add: history_ptrs_def history_list_def)
  obtain h where h: "kfree (fst x) (kheap s) = Some h" "owns_list B (map fst xs) h" "room_for n h"
    using owns_pop [OF assms(3) [unfolded ptrs]] assms(5) by blast
  let ?sh = "sh\<lparr>history := tl (history sh) @ [last (history sh)], history_count := history_count sh - 1\<rparr>"
  have "drop_oldest E sh s = Some (?sh, s\<lparr>kheap := h\<rparr>)" using h(1) x(1) assms(4) by (simp add: drop_oldest_def kbuf_free_def)
  moreover have "entries_ok ?sh" using postD [OF drop_oldest_post [OF assms(1,2)] calculation] assms(2) by simp
  moreover have "history_ptrs ?sh = map fst xs" "history_list ?sh = map snd xs" using x assms(2) by (simp_all add: history_ptrs_def history_list_def)
  ultimately show thesis using that [of ?sh h] assms(2) h ptrs by simp
qed

lemma strdup_owns:
  fixes s :: "'z kproc_scheme"
  assumes "owns_list B ps (kheap s)" "strlen c < 256" "room_for (strlen c + 1) (kheap s)"
  obtains p h where "strdup c s = Some ((p, cstr c), s\<lparr>kheap := h\<rparr>)" "owns_list B (ps @ [p]) h"
proof -
  have n: "unat (of_nat (strlen c + 1) :: u64) = strlen c + 1" using assms(2) by (intro unat_of_nat_u64) simp
  then have "(of_nat (strlen c + 1) :: u64) \<noteq> 0" by (metis One_nat_def add_is_0 one_neq_zero unsigned_0)
  then obtain p h where p: "kmalloc (of_nat (strlen c + 1)) (kheap s) = Some (p, h)" "p \<noteq> 0" "owns_list B (ps @ [p]) h"
    "\<And>t :: 'z kproc_scheme. kheap t = h \<Longrightarrow> kbuf_store p (unat (of_nat (strlen c + 1) :: u64)) t = Some ()"
    using owns_push [OF assms(1), of "of_nat (strlen c + 1)"] assms(2,3) n by auto
  then have "strdup c s = Some ((p, cstr c), s\<lparr>kheap := h\<rparr>)"
    using p(4) [of "s\<lparr>kheap := h\<rparr>"] by (simp add: strdup_def Let_def kbuf_alloc_def)
  then show thesis using that p(3) by blast
qed

text \<open>Room in the table: the oldest entry goes when there are ten.\<close>

lemma history_room:
  assumes ok: "entries_ok sh" and own: "owns_list B (history_ptrs sh) (kheap s)" and free: "env_free E = kbuf_free"
    and room: "room_for m (kheap s)"
  obtains sh1 h1 where "(if history_count sh = 10 then drop_oldest E sh s else Some (sh, s)) = Some (sh1, s\<lparr>kheap := h1\<rparr>)"
    "entries_ok sh1" "history_count sh1 < 10" "history_list sh1 = (if history_count sh = 10 then tl (history_list sh) else history_list sh)"
    "owns_list B (history_ptrs sh1) h1" "room_for m h1"
proof (cases "history_count sh = 10")
  case True
  show thesis by (rule drop_oldest_owns [OF ok True own free room]) (use True that in auto)
next
  case False
  have "history_count sh < 10" using False ok by (simp add: entries_ok_def)
  then show thesis using that [of sh "kheap s"] ok own room False by simp
qed

lemma history_remembers:
  assumes ok: "entries_ok sh" and own: "owns_list B (history_ptrs sh) (kheap s)" and free: "env_free E = kbuf_free"
    and c: "cstr command = c" "c \<noteq> []" "length c < 256" and room: "room_for (length c + 1) (kheap s)"
  shows "\<exists>sh' h. shell_add_to_history E command sh s = Some (sh', s\<lparr>kheap := h\<rparr>) \<and> entries_ok sh' \<and>
    owns_list B (history_ptrs sh') h \<and> history_list sh' = remember c (history_list sh)"
proof -
  have len: "strlen command = length c" using c(1) by (simp add: strlen_cstr)
  have nn: "0 \<notin> set (history_ptrs sh)" using own by (auto simp: owns_list_def)
  let ?same = "history_list sh \<noteq> [] \<and> last (history_list sh) = c"
  have cnt: "history_list sh = [] \<longleftrightarrow> history_count sh = 0" "length (history_list sh) = history_count sh"
    using ok by (auto simp: history_list_def entries_ok_def)
  have same: "(if history_count sh > 0 then do { h \<leftarrow> history_string sh (history_count sh - 1); Some (strcmp h command = 0) }
      else Some False) = Some ?same"
    using history_last [OF ok _ nn] cnt(1) c(1) by (auto simp: strcmp_0_iff)
  show ?thesis
  proof (cases ?same)
    case True
    then have "shell_add_to_history E command sh s = Some (sh, s\<lparr>kheap := kheap s\<rparr>)"
      unfolding shell_add_to_history_def same using len c(2) by simp
    then show ?thesis using ok own True by (intro exI [of _ sh] exI [of _ "kheap s"]) (simp add: remember_def)
  next
    case False
    obtain sh1 h1 where s1: "(if history_count sh = 10 then drop_oldest E sh s else Some (sh, s)) = Some (sh1, s\<lparr>kheap := h1\<rparr>)"
      "entries_ok sh1" "history_count sh1 < 10" "history_list sh1 = (if history_count sh = 10 then tl (history_list sh) else history_list sh)"
      "owns_list B (history_ptrs sh1) h1" "room_for (length c + 1) h1"
      by (rule history_room [OF ok own free room])
    obtain p h where p: "strdup command (s\<lparr>kheap := h1\<rparr>) = Some ((p, c), s\<lparr>kheap := h\<rparr>)" "owns_list B (history_ptrs sh1 @ [p]) h"
      using strdup_owns [of B "history_ptrs sh1" "s\<lparr>kheap := h1\<rparr>" command] s1(5,6) len c by auto
    let ?sh = "sh1\<lparr>history := (history sh1)[history_count sh1 := (p, c)], history_count := history_count sh1 + 1\<rparr>"
    have t: "take (Suc (history_count sh1)) ((history sh1)[history_count sh1 := (p, c)]) = take (history_count sh1) (history sh1) @ [(p, c)]"
      using s1(2,3) by (simp add: entries_ok_def take_Suc_conv_app_nth)
    have "shell_add_to_history E command sh s = Some (?sh, s\<lparr>kheap := h\<rparr>)"
      unfolding shell_add_to_history_def same s1(1) using False len c(2) p(1) by auto
    moreover have "history_ptrs ?sh = history_ptrs sh1 @ [p]" "history_list ?sh = history_list sh1 @ [c]"
      using t by (simp_all add: history_ptrs_def history_list_def)
    moreover have "entries_ok ?sh"
      using s1(2,3) c cstr_plain [of command] by (auto simp: entries_ok_def nth_list_update less_Suc_eq)
    moreover have "remember c (history_list sh) = history_list sh1 @ [c]" using False s1(4) cnt(2) by (auto simp: remember_def)
    ultimately show ?thesis using p(2) by (intro exI [of _ ?sh] exI [of _ h]) simp
  qed
qed

text \<open>C20: 
  Adding a command to the history keeps the last ten different ones, for a heap with room for its text: the entry pushed out gives its block back,
  the new one owns a new block, and nothing else in the heap changes.
\<close>

theorem shell_history_remembers:
  assumes ok: "entries_ok sh" and own: "owns_list B (history_ptrs sh) (kheap s)" and free: "env_free E = kbuf_free"
    and c: "cstr command = c" "c \<noteq> []" "length c < 256" and room: "room_for (length c + 1) (kheap s)"
  shows "\<exists>sh' h. shell_add_to_history E command sh s = Some (sh', s\<lparr>kheap := h\<rparr>) \<and> entries_ok sh' \<and>
    owns_list B (history_ptrs sh') h \<and> history_list sh' = remember c (history_list sh)"
  using assms by (rule history_remembers)

lemma cleanup_loop_owns:
  assumes "owns_list B (map fst (drop i (take n h))) (kheap s)" "i \<le> n" "n \<le> length h"
  shows "\<exists>h' heap'. cleanup_loop [i..<n] h s = Some (h', s\<lparr>kheap := heap'\<rparr>) \<and> owns_list B [] heap'"
  using assms
proof (induction "n - i" arbitrary: i h s)
  case 0
  then have "[i..<n] = []" "s = s\<lparr>kheap := kheap s\<rparr>" by simp_all
  moreover have "drop i (take n h) = []" using 0 by simp
  ultimately show ?case using 0 by (metis cleanup_loop.simps(1) list.map(1))
next
  case (Suc m)
  then have i: "i < n" by simp
  then have d: "drop i (take n h) = h ! i # drop (Suc i) (take n h)" "[i..<n] = i # [Suc i..<n]"
    using Suc.prems by (simp_all add: Cons_nth_drop_Suc [symmetric] upt_conv_Cons)
  have own: "owns_list B (fst (h ! i) # map fst (drop (Suc i) (take n h))) (kheap s)" using Suc.prems(1) d(1) by simp
  then have nz: "fst (h ! i) \<noteq> 0" by (auto simp: owns_list_def)
  obtain heap1 where f: "kfree (fst (h ! i)) (kheap s) = Some heap1" "owns_list B (map fst (drop (Suc i) (take n h))) heap1"
    using owns_pop [OF own] by blast
  let ?h = "h[i := (0, [])]" and ?s = "s\<lparr>kheap := heap1\<rparr>"
  have "owns_list B (map fst (drop (Suc i) (take n ?h))) (kheap ?s)" using f(2) by (simp add: take_update_swap)
  then obtain h' heap' where "cleanup_loop [Suc i..<n] ?h ?s = Some (h', ?s\<lparr>kheap := heap'\<rparr>)" "owns_list B [] heap'"
    using Suc.hyps(1) [of "Suc i" ?h ?s] Suc.hyps(2) Suc.prems i by (auto simp: Suc_diff_Suc [symmetric])
  then show ?case using nz f(1) d(2) by (simp add: kbuf_free_def) blast
qed

text \<open>C21: 
  \<open>shell_cleanup\<close> gives all blocks of the history back: a heap without neighbouring free blocks is again exactly as it was
  before the first command.
\<close>

theorem shell_cleanup_returns_memory:
  assumes "entries_ok sh" "owns_list (live_blocks bs) (history_ptrs sh) (kheap s)" "coalesced bs" "extent bs = MEMORY_SIZE"
  shows "\<exists>sh' h. shell_cleanup sh s = Some (sh', s\<lparr>kheap := h\<rparr>) \<and> heap_rep h bs"
proof -
  have n: "history_count sh \<le> length (history sh)" using assms(1) by (simp add: entries_ok_def)
  obtain h' heap' where c: "cleanup_loop [0..<history_count sh] (history sh) s = Some (h', s\<lparr>kheap := heap'\<rparr>)"
    "owns_list (live_blocks bs) [] heap'"
    using cleanup_loop_owns [of "live_blocks bs" 0 "history_count sh" "history sh" s] assms(2) n unfolding history_ptrs_def drop_0 by blast
  then show ?thesis using owns_nil [OF c(2) assms(3,4)] by (simp add: shell_cleanup_def) blast
qed

section \<open>Walking through the history\<close>

definition shown :: "shell \<Rightarrow> string" where
  "shown sh = cstr (sh_buffer sh)"

fun up_arrows :: "nat \<Rightarrow> 'z kuser_scheme file_api \<Rightarrow> shell \<Rightarrow> 'z kuser_scheme \<Rightarrow> (shell \<times> 'z kuser_scheme) option" where
  "up_arrows 0 A sh s = Some (sh, s)"
| "up_arrows (Suc n) A sh s = do { (sh1, s1) \<leftarrow> up_arrows n A sh s; shell_handle_up_arrow A sh1 s1 }"

lemma load_history_shows:
  assumes ok: "shell_ok sh" and ptrs: "0 \<notin> set (history_ptrs sh)" and i: "i < history_count sh"
    and cwd: "\<forall>buf s. \<exists>b c s'. api_getcwd A buf s = Some (b, c, s')"
  shows "\<exists>sh' s'. load_history A (sh\<lparr>history_index := int i\<rparr>) s = Some (sh', s') \<and> shell_ok sh' \<and>
    history_index sh' = int i \<and> history sh' = history sh \<and> history_count sh' = history_count sh \<and>
    shown sh' = history_list sh ! i \<and> buffer_pos sh' = length (shown sh')"
proof -
  let ?sh = "\<lambda>c. sh\<lparr>history_index := int i, sh_cwd := c\<rparr>"
  have e: "entries_ok sh" "length (sh_buffer sh) = 256" using ok by (simp_all add: shell_ok_def history_ok_def line_ok_def)
  have len: "i < length (history sh)" using e(1) i by (simp add: entries_ok_def)
  have h: "history_list sh ! i = snd (history sh ! i)" using i len by (simp add: history_list_def)
  have nz: "fst (history sh ! i) \<noteq> 0"
    using ptrs i len unfolding history_ptrs_def by (force simp: in_set_conv_nth)
  have plain: "NUL \<notin> set (history_list sh ! i)" "length (history_list sh ! i) < 256" using e(1) i h by (simp_all add: entries_ok_def)
  obtain b where b: "strcpy (sh_buffer sh) (history_list sh ! i) = Some b"
    using strcpy_total [of "history_list sh ! i" "sh_buffer sh"] plain e(2) by (auto simp: strlen_no_nul)
  have cb: "cstr b = history_list sh ! i" using strcpy_spec [OF b] cstr_plain_id [OF plain(1)] by simp
  let ?t = "kprint [CHR 0x0D] (kprint_times (buffer_pos sh + strlen (sh_cwd sh) + 4) '' '' (kprint [CHR 0x0D] s))"
  obtain d c s2 where "api_getcwd A (sh_cwd sh) ?t = Some (d, c, s2)" using cwd by blast
  then obtain s1 where "blank_line A (sh\<lparr>history_index := int i\<rparr>) s = Some (?sh c, s1)"
    by (simp add: blank_line_def shell_print_prompt_def Let_def)
  then have run: "load_history A (sh\<lparr>history_index := int i\<rparr>) s = Some ((?sh c)\<lparr>sh_buffer := b, buffer_pos := strlen b\<rparr>, kprint b s1)"
    using b nz len h by (simp add: load_history_def history_string_def)
  have "post (\<lambda>(sh', s'). shell_ok sh') (load_history A (sh\<lparr>history_index := int i\<rparr>) s)"
    using load_history_post [OF ok, of "int i"] i by simp
  then have "shell_ok ((?sh c)\<lparr>sh_buffer := b, buffer_pos := strlen b\<rparr>)" using run by simp
  then show ?thesis using run cb by (simp add: shown_def strlen_cstr)
qed

text \<open>
  Pressing the up arrow \<open>k\<close> times on a fresh line shows the \<open>k\<close>-th last command of the history, and the oldest one from then on.
\<close>

theorem up_arrows_show:
  assumes "shell_ok sh" "0 \<notin> set (history_ptrs sh)" "history_index sh = - 1" "0 < history_count sh"
    and "\<forall>buf s. \<exists>b c s'. api_getcwd A buf s = Some (b, c, s')"
  shows "\<exists>sh' s'. up_arrows (Suc k) A sh s = Some (sh', s') \<and> shell_ok sh' \<and>
    shown sh' = history_list sh ! (history_count sh - Suc k)"
proof -
  have "\<exists>sh' s'. up_arrows (Suc k) A sh s = Some (sh', s') \<and> shell_ok sh' \<and> history sh' = history sh \<and>
      history_count sh' = history_count sh \<and> history_index sh' = int (history_count sh - Suc k) \<and>
      shown sh' = history_list sh ! (history_count sh - Suc k)"
  proof (induction k)
    case 0
    have "int (history_count sh) - 1 = int (history_count sh - 1)" using assms(4) by simp
    then show ?case
      using load_history_shows [OF assms(1,2) _ assms(5), of "history_count sh - 1" s] assms(3,4)
      by (auto simp: shell_handle_up_arrow_def)
  next
    case (Suc k)
    then obtain sh1 s1 where ih: "up_arrows (Suc k) A sh s = Some (sh1, s1)" "shell_ok sh1" "history sh1 = history sh"
      "history_count sh1 = history_count sh" "history_index sh1 = int (history_count sh - Suc k)"
      "shown sh1 = history_list sh ! (history_count sh - Suc k)" by auto
    have l: "history_list sh1 = history_list sh" "history_ptrs sh1 = history_ptrs sh"
      using ih(3,4) by (simp_all add: history_list_def history_ptrs_def)
    show ?case
    proof (cases "history_count sh - Suc k = 0")
      case True
      then have "history_count sh - Suc (Suc k) = 0" by simp
      then show ?thesis using ih True assms(4) by (simp add: shell_handle_up_arrow_def)
    next
      case False
      then have "int (history_count sh - Suc k) - 1 = int (history_count sh - Suc (Suc k))" "0 < int (history_count sh - Suc k)"
        "int (history_count sh - Suc k) \<noteq> - 1" by simp_all
      then have "shell_handle_up_arrow A sh1 s1 = load_history A (sh1\<lparr>history_index := int (history_count sh - Suc (Suc k))\<rparr>) s1"
        using assms(4) by (simp only: shell_handle_up_arrow_def ih(4,5) if_True if_False) simp
      moreover have "history_count sh - Suc (Suc k) < history_count sh1" using assms(4) ih(4) by simp
      ultimately show ?thesis
        using load_history_shows [OF ih(2) _ _ assms(5), of "history_count sh - Suc (Suc k)" s1] ih(1,3,4) l assms(2) by auto
    qed
  qed
  then show ?thesis by blast
qed

section \<open>Samples\<close>

definition sample_shell :: shell where
  "sample_shell = shell_clear_buffer zero_shell"

lemma sample_shell: "entries_ok sample_shell" "history_ptrs sample_shell = []" "history_list sample_shell = []"
  using zero_shell_ok(3) by (simp_all add: sample_shell_def history_ptrs_def history_list_def) (simp_all add: shell_clear_buffer_def zero_shell_def)

lemma sample_owns: "owns_list (live_blocks initial_blocks) (history_ptrs sample_shell) (kheap sample_files)"
  "room_for 256 (kheap sample_files)"
proof -
  have h: "heap_rep (kheap sample_files) initial_blocks"
    using sample_user_heap(1) [of sample_tables] by (simp add: sample_files_def kuser.defs)
  then show "owns_list (live_blocks initial_blocks) (history_ptrs sample_shell) (kheap sample_files)"
    unfolding owns_list_def sample_shell(2) by (intro exI [of _ initial_blocks] exI [of _ "[]"]) (simp add: initial_blocks_def)
  show "room_for 256 (kheap sample_files)"
    unfolding room_for_def using h sample_user_heap(3)
    by (intro exI [of _ initial_blocks] exI [of _ "MEMORY_SIZE - HEADER"]) (simp add: HEADER_def)
qed

theorem shell_history_remembers_witness:
  "\<exists>sh' h. shell_add_to_history sample_env (''ls'' @ replicate 254 NUL) sample_shell sample_files = Some (sh', sample_files\<lparr>kheap := h\<rparr>) \<and>
    history_list sh' = [''ls'']"
proof -
  have "room_for (length ''ls'' + 1) (kheap sample_files)" by (rule room_for_mono [OF sample_owns(2)]) simp
  then show ?thesis
    using shell_history_remembers [OF sample_shell(1) sample_owns(1), of sample_env "''ls'' @ replicate 254 NUL" "''ls''"]
    by (auto simp: sample_env_def cstr_def sample_shell(3) remember_def)
qed

theorem shell_cleanup_returns_memory_witness:
  "\<exists>r h1 sh' h. kmalloc 3 (kheap sample_files) = Some (r, h1) \<and>
    shell_cleanup (sample_shell\<lparr>history := (r, ''ls'') # replicate 9 (0, []), history_count := 1\<rparr>) (sample_files\<lparr>kheap := h1\<rparr>) =
      Some (sh', sample_files\<lparr>kheap := h\<rparr>) \<and> heap_rep h initial_blocks"
proof -
  obtain r h1 where r: "kmalloc 3 (kheap sample_files) = Some (r, h1)" "owns_list (live_blocks initial_blocks) [r] h1"
    by (rule owns_push [OF sample_owns(1), of 3]) (use room_for_mono [OF sample_owns(2), of 3] sample_shell(2) in auto)
  let ?sh = "sample_shell\<lparr>history := (r, ''ls'') # replicate 9 (0, []), history_count := 1\<rparr>"
  have "entries_ok ?sh" "history_ptrs ?sh = [r]" by (simp_all add: entries_ok_def history_ptrs_def)
  then show ?thesis
    using shell_cleanup_returns_memory [of ?sh initial_blocks "sample_files\<lparr>kheap := h1\<rparr>"] r by (simp add: initial_blocks_def HEADER_def)
qed

theorem up_arrows_show_witness:
  "\<exists>sh' s'. up_arrows 1 sample_api (sample_shell\<lparr>history := (0x1000, ''ls'') # replicate 9 (0, []), history_count := 1\<rparr>) sample_files =
    Some (sh', s') \<and> shown sh' = ''ls''"
proof -
  let ?sh = "sample_shell\<lparr>history := (0x1000, ''ls'') # replicate 9 (0, []), history_count := 1\<rparr>"
  have "shell_ok ?sh" "0 \<notin> set (history_ptrs ?sh)" "history_index ?sh = - 1" "history_list ?sh = [''ls'']"
    by (simp_all add: shell_ok_def line_ok_def history_ok_def entries_ok_def history_ptrs_def history_list_def sample_shell_def
        shell_clear_buffer_def zero_shell_def strlen_cstr cstr_def)
  then show ?thesis using up_arrows_show [of ?sh sample_api 0 sample_files] by (auto simp: sample_api_def)
qed

end
