(* ===== verification/ShellSession.thy ===== *)
theory ShellSession
  imports ShellHistory
begin

text \<open>
  A line typed into the shell and ended with the enter key: the editor, the history with its memory and the table of commands together.
\<close>

section \<open>Typing a line\<close>

text \<open>A key that enters its character.\<close>

definition plain_key :: "'s shell_env \<Rightarrow> key_event \<Rightarrow> bool" where
  "plain_key E ev \<longleftrightarrow> editing_key E ev \<and> ev_key ev \<notin> {SC_BACKSPACE, KEY_ARROW_LEFT E, KEY_ARROW_RIGHT E, SC_TAB} \<and> ev_ascii ev \<noteq> NUL"

lemma plain_keys_type:
  "list_all (plain_key E) evs \<Longrightarrow> length l + length evs < SHELL_BUFFER_SIZE \<Longrightarrow>
    fold (editor E) evs (l, []) = (l @ map ev_ascii evs, [])"
  by (induction evs arbitrary: l) (auto simp: plain_key_def editor_def type_char_def)

lemma shell_keys_append:
  "shell_keys E P A (es @ fs) sh s = do { (sh1, s1) \<leftarrow> shell_keys E P A es sh s; shell_keys E P A fs sh1 s1 }"
  by (induction es arbitrary: sh s) (auto split: bind_splits)

lemma plain_keys_show:
  assumes "line_ok sh" "line_view sh = ([], [])" "list_all (plain_key E) evs" "length evs < SHELL_BUFFER_SIZE"
  obtains b n t where "shell_keys E P A evs sh s = Some (sh\<lparr>sh_buffer := b, buffer_pos := n\<rparr>, s\<lparr>kterm := t\<rparr>)"
    "length b = SHELL_BUFFER_SIZE" "cstr b = map ev_ascii evs" "n = length evs"
proof -
  have e: "list_all (editing_key E) evs" using assms(3) by (auto simp: list_all_iff plain_key_def)
  obtain b n t where k: "shell_keys E P A evs sh s = Some (sh\<lparr>sh_buffer := b, buffer_pos := n\<rparr>, s\<lparr>kterm := t\<rparr>)"
    "line_ok (sh\<lparr>sh_buffer := b, buffer_pos := n\<rparr>)"
    "line_view (sh\<lparr>sh_buffer := b, buffer_pos := n\<rparr>) = fold (editor E) evs (line_view sh)"
    using shell_keys_refine [OF assms(1) e, of P A s] by (auto simp: only_term_def)
  moreover have "fold (editor E) evs (line_view sh) = (map ev_ascii evs, [])"
    using plain_keys_type [OF assms(3), of "[]"] assms(2,4) by simp
  ultimately have v: "take n (cstr b) = map ev_ascii evs" "drop n (cstr b) = []" by (simp_all add: line_view_def)
  have l: "length b = SHELL_BUFFER_SIZE" "n \<le> length (cstr b)" using k(2) by (simp_all add: line_ok_def strlen_cstr)
  have "cstr b = map ev_ascii evs" using v by (metis append_Nil2 append_take_drop_id)
  moreover have "n = length evs" using l(2) v by (metis append_Nil2 append_take_drop_id length_map length_take min.absorb2)
  ultimately show thesis using that k(1) l(1) by blast
qed

section \<open>Running it\<close>

text \<open>The command of the table, with its result.\<close>

definition run_command ::
  "string \<Rightarrow> string list \<Rightarrow> 'z kuser_scheme platform \<Rightarrow> 'z kuser_scheme file_api \<Rightarrow> 'z kuser_scheme \<Rightarrow> (int \<times> 'z kuser_scheme) option" where
  "run_command w ws P A s =
     (case map_of (zip (map cmd_name commands) command_functions) w of
        Some f \<Rightarrow> f (w # ws) P A s
      | None \<Rightarrow> Some (- 1, complain ''Komut bulunamadi: '' w s))"

lemma execute_runs:
  assumes "words (cstr line) = w # ws" "length ws < 62" "\<not> blank (hd line)"
  obtains line' where "length line' = length line" "cstr line' = w"
    "execute_command line P A s = map_option (\<lambda>(r, s'). (r, line', s')) (run_command w ws P A s)"
  using execute_dispatch [OF assms(1,2), of P A s] assms(3) that
  by (auto simp: run_command_def split: option.splits)

lemma add_to_history_frame:
  assumes "shell_add_to_history E c sh s = Some (sh', s')"
  shows "sh_buffer sh' = sh_buffer sh \<and> sh_state sh' = sh_state sh"
  using assms by (auto simp: shell_add_to_history_def drop_oldest_def Let_def split: if_splits bind_splits)

text \<open>What the shell does once the command has returned: an error message, then the end of the session or the next prompt.\<close>

definition after_command ::
  "string \<Rightarrow> string \<Rightarrow> 'z kuser_scheme file_api \<Rightarrow> shell \<Rightarrow> int \<times> 'z kuser_scheme \<Rightarrow> (shell \<times> 'z kuser_scheme) option" where
  "after_command w line A sh = (\<lambda>(r, s).
     let s1 = (if r = - 1 then complain ''Komut hatasi: '' line s else s)
     in if w = ''exit'' then Some (sh\<lparr>sh_state := SHELL_STATE_EXIT\<rparr>, s1) else shell_print_prompt A sh s1)"

lemma exit_word: "cstr line = w \<Longrightarrow> strcmp line ''exit'' = 0 \<longleftrightarrow> w = ''exit''"
  by (simp add: strcmp_0_iff) (simp add: cstr_def)

lemma cleared_fields [simp]:
  "sh_state (shell_clear_buffer sh) = sh_state sh" "history_list (shell_clear_buffer sh) = history_list sh"
  "history_ptrs (shell_clear_buffer sh) = history_ptrs sh" "line_view (shell_clear_buffer sh) = ([], [])"
  by (simp_all add: shell_clear_buffer_def history_list_def history_ptrs_def line_view_def cstr_def)

lemma terminated_buffer:
  assumes "cstr b = l" "length l < length b"
  shows "b[length l := NUL] = b"
proof -
  have "b ! length l = NUL" using assms nth_length_takeWhile [of "\<lambda>c. c \<noteq> NUL" b] by (auto simp: cstr_def)
  then show ?thesis by (metis list_update_id)
qed

lemma kprint_kterm: "(kprint m s)\<lparr>kheap := h\<rparr> = s\<lparr>kterm := kterm (kprint m s), kheap := h\<rparr>"
  by (simp add: kprint_def)

text \<open>The enter key, when the line is not empty and its words fit the argument vector.\<close>

lemma enter_runs:
  assumes ok: "entries_ok sh" and own: "owns_list B (history_ptrs sh) (kheap s)" and free: "env_free E = kbuf_free"
    and room: "room_for (length line + 1) (kheap s)" and state: "sh_state sh = SHELL_STATE_RUNNING"
    and buf: "length (sh_buffer sh) = SHELL_BUFFER_SIZE" "cstr (sh_buffer sh) = line" "buffer_pos sh = length line"
    and line: "words line = w # ws" "length ws < 62" "\<not> blank (hd line)" "length line < SHELL_BUFFER_SIZE"
    and key: "ev_key enter = SC_ENTER"
  shows "\<exists>t h sh1 line'. cstr line' = w \<and> shell_key E P A enter sh s =
      Option.bind (run_command w ws P A (s\<lparr>kterm := t, kheap := h\<rparr>)) (after_command w line' A sh1) \<and>
    history_list sh1 = remember line (history_list sh) \<and> owns_list B (history_ptrs sh1) h \<and> line_view sh1 = ([], [])"
proof -
  let ?s = "kprint [NL] s"
  have ne: "line \<noteq> []" using line(1) by (auto simp: words.simps)
  then have hd: "\<not> blank (hd (sh_buffer sh))" using buf(2) line(3) by (cases "sh_buffer sh") (auto simp: cstr_def split: if_splits)
  have b: "(sh_buffer sh)[buffer_pos sh := NUL] = sh_buffer sh" using terminated_buffer [OF buf(2)] buf line(4) by simp
  obtain sh1 h where h: "shell_add_to_history E (sh_buffer sh) sh ?s = Some (sh1, ?s\<lparr>kheap := h\<rparr>)"
    "owns_list B (history_ptrs sh1) h" "history_list sh1 = remember line (history_list sh)"
    using history_remembers [OF ok _ free buf(2) ne line(4), of B ?s] own room by auto
  have f: "sh_buffer sh1 = sh_buffer sh" "sh_state sh1 = SHELL_STATE_RUNNING" using add_to_history_frame [OF h(1)] state by simp_all
  obtain line' where e: "cstr line' = w"
    "execute_command (sh_buffer sh1) P A (?s\<lparr>kheap := h\<rparr>) = map_option (\<lambda>(r, s'). (r, line', s')) (run_command w ws P A (?s\<lparr>kheap := h\<rparr>))"
    using execute_runs [of "sh_buffer sh1" w ws P A "?s\<lparr>kheap := h\<rparr>"] line hd f(1) buf(2) by metis
  have x: "shell_execute_command E P A sh ?s = map_option (\<lambda>(r, s').
      (if w = ''exit'' then sh1\<lparr>sh_buffer := line', sh_state := SHELL_STATE_EXIT\<rparr> else sh1\<lparr>sh_buffer := line'\<rparr>,
       if r = - 1 then complain ''Komut hatasi: '' line' s' else s')) (run_command w ws P A (?s\<lparr>kheap := h\<rparr>))"
    unfolding shell_execute_command_def b Let_def using ne buf(3) h(1) e(2) exit_word [OF e(1)]
    by (auto simp: map_option_case split: option.splits)
  have "shell_key E P A enter sh s =
      Option.bind (run_command w ws P A (?s\<lparr>kheap := h\<rparr>)) (after_command w line' A (shell_clear_buffer sh1))"
    unfolding shell_key_def key if_P [OF refl] x
    by (auto simp: after_command_def shell_clear_buffer_def f(2) Let_def map_option_case split: option.split)
  with e(1) h(2,3) show ?thesis unfolding kprint_kterm by (intro exI conjI) (assumption | simp)+
qed

text \<open>C17: 
  A line typed into an empty prompt and ended with enter runs the command of its first word on its words, in a state that differs from the one before only by the
  screen and the heap; the line is remembered in the history, which owns its memory; after the command the shell ends if the word
  was \<open>exit\<close>, and prompts again with an empty line otherwise.
\<close>

theorem typed_line_runs:
  assumes "line_ok sh" "line_view sh = ([], [])" "sh_state sh = SHELL_STATE_RUNNING"
    and "entries_ok sh" "owns_list B (history_ptrs sh) (kheap s)" "env_free E = kbuf_free"
    and "list_all (plain_key E) evs" "ev_key enter = SC_ENTER" "map ev_ascii evs = line" "length line < SHELL_BUFFER_SIZE"
    and "words line = w # ws" "length ws < 62" "\<not> blank (hd line)" "room_for (length line + 1) (kheap s)"
  shows "\<exists>t h sh1 line'. cstr line' = w \<and> shell_keys E P A (evs @ [enter]) sh s =
      Option.bind (run_command w ws P A (s\<lparr>kterm := t, kheap := h\<rparr>)) (after_command w line' A sh1) \<and>
    history_list sh1 = remember line (history_list sh) \<and> owns_list B (history_ptrs sh1) h \<and> line_view sh1 = ([], [])"
proof -
  have "length evs < SHELL_BUFFER_SIZE" using assms(9,10) by auto
  then obtain b n t where k: "shell_keys E P A evs sh s = Some (sh\<lparr>sh_buffer := b, buffer_pos := n\<rparr>, s\<lparr>kterm := t\<rparr>)"
    "length b = SHELL_BUFFER_SIZE" "cstr b = line" "n = length line"
    using plain_keys_show [OF assms(1,2,7)] assms(9) by (metis length_map)
  let ?sh = "sh\<lparr>sh_buffer := b, buffer_pos := n\<rparr>" and ?s = "s\<lparr>kterm := t\<rparr>"
  have same: "history_list ?sh = history_list sh" "history_ptrs ?sh = history_ptrs sh" "entries_ok ?sh"
    using assms(4) by (simp_all add: history_list_def history_ptrs_def entries_ok_def)
  have "shell_keys E P A (evs @ [enter]) sh s = shell_key E P A enter ?sh ?s"
    by (cases "shell_key E P A enter ?sh ?s") (auto simp: shell_keys_append k(1))
  with enter_runs [of ?sh B ?s E line w ws enter P A] same assms k show ?thesis by simp
qed

theorem typed_line_runs_witness:
  "\<exists>sh' s'. shell_keys sample_env files_platform sample_api (map (press 0x1E) ''echo hi'' @ [press 0x1C NUL])
      (sample_shell\<lparr>sh_state := SHELL_STATE_RUNNING\<rparr>) sample_files = Some (sh', s') \<and> history_list sh' = [''echo hi'']"
proof -
  let ?sh = "sample_shell\<lparr>sh_state := SHELL_STATE_RUNNING\<rparr>" and ?evs = "map (press 0x1E) ''echo hi''"
  have ok: "line_ok ?sh" "line_view ?sh = ([], [])" "entries_ok ?sh" "history_ptrs ?sh = []" "history_list ?sh = []"
    using sample_shell
    by (simp_all add: line_ok_def line_view_def sample_shell_def shell_clear_buffer_def strlen_cstr cstr_def entries_ok_def history_ptrs_def history_list_def zero_shell_def)
  have w: "words ''echo hi'' = [''echo'', ''hi'']" by (simp add: words.simps blank_def)
  have room: "room_for (length ''echo hi'' + 1) (kheap sample_files)" by (rule room_for_mono [OF sample_owns(2)]) simp
  obtain t h sh1 line' where r: "shell_keys sample_env files_platform sample_api (?evs @ [press 0x1C NUL]) ?sh sample_files =
      Option.bind (run_command ''echo'' [''hi''] files_platform sample_api (sample_files\<lparr>kterm := t, kheap := h\<rparr>))
        (after_command ''echo'' line' sample_api sh1)" "history_list sh1 = remember ''echo hi'' []"
    using typed_line_runs [OF ok(1,2) _ ok(3) _ _ _ _ _ _ w _ _ room, of "live_blocks initial_blocks" sample_env ?evs "press 0x1C NUL"
        files_platform sample_api] sample_owns(1) ok(4,5) sample_shell(2)
    by (auto simp: sample_env_def plain_key_def editing_key_def blank_def)
  show ?thesis unfolding r(1)
    using r(2) by (auto simp: run_command_def commands_def command_functions_def cmd_echo_def after_command_def shell_print_prompt_def
        sample_api_def remember_def history_list_def Let_def)
qed

end
