(* ===== verification/Boot.thy ===== *)
theory Boot
  imports CommandProps
begin

text \<open>
  Starting the kernel, \<open>kernel_main\<close> of \<open>kernel.c\<close>, up to its main loop, and one round of that loop. The state at entry is an argument: the
  boot code has cleared the static variables and initialised the two that have an initialiser. The addresses of functions and tables, which the linker assigns,
  are the record \<open>image\<close>; the mounted file system is a second component of the state.
\<close>

record image =
  im_isr :: "nat \<Rightarrow> u64"
  im_idt_entries :: u64
  im_gdt :: u64
  im_tss :: u64
  im_boot_pml4 :: u64
  im_timer_handler :: u64
  im_keyboard_handler :: u64
  im_syscall_handler :: u64
  im_shell_process :: u64

abbreviation VGA_COLOR_GREEN :: u8 where "VGA_COLOR_GREEN \<equiv> 2"

definition mem_map :: "memory_map_entry list" where
  "mem_map = [\<lparr>mm_start = 0x100000, mm_size = 128 * 1024 * 1024, mm_type = 1\<rparr>]"

text \<open>The messages and the initialisations in front of the paging.\<close>

definition boot_tables :: "image \<Rightarrow> 'z kuser_scheme \<Rightarrow> 'z kuser_scheme" where
  "boot_tables im s =
     (let s1 = kprint (''-------------------------------'' @ [NL]) (kprint (''64-bit Basit Linux-Benzeri Kernel'' @ [NL]) (kclear s));
          s2 = kprint (''Kernel basariyla 64-bit Long Mode'' @ [CHR 0x27] @ ''a gecti!'' @ [NL]) (ksetcolor VGA_COLOR_GREEN s1);
          s3 = kprint ([NL] @ ''Kernel modullerini baslatiyorum...'' @ [NL]) (ksetcolor VGA_COLOR_LIGHT_GREY s2);
          s4 = kprint (''Bellek yonetimi baslatildi.'' @ [NL]) (s3\<lparr>kheap := memory_init (kheap s3)\<rparr>)
      in kprint (''Kesme tanimlama tablosu (IDT) baslatildi.'' @ [NL]) (s4\<lparr>kidt := init_idt (im_idt_entries im) (im_isr im) (kidt s4)\<rparr>))"

text \<open>The devices, the process table and the system calls.\<close>

definition boot_services :: "image \<Rightarrow> 'z kuser_scheme \<Rightarrow> 'd kfs \<Rightarrow> 'z kuser_scheme \<times> 'd kfs" where
  "boot_services im s f =
     (let s1 = timer_init (im_timer_handler im) 100 s;
          s2 = init_processes (keyboard_init (im_keyboard_handler im) s1);
          f1 = snd (fs_init f)
      in (init_syscalls (im_syscall_handler im) s2, f1))"

definition kernel_boot :: "image \<Rightarrow> 'z kuser_scheme \<Rightarrow> 'd kfs \<Rightarrow> ('z kuser_scheme \<times> 'd kfs) option" where
  "kernel_boot im s f =
     do { s1 \<leftarrow> paging_init (im_boot_pml4 im) mem_map (boot_tables im s);
          (kernel_stack, s2) \<leftarrow> kmalloc_page (gdt_init (im_gdt im) (im_tss im) s1);
          let (s3, f1) = boot_services im (tss_init kernel_stack s2) f;
          (shell_pid, s4) \<leftarrow> create_process ''shell'' (im_shell_process im) 0 s3;
          let s5 = (if shell_pid \<noteq> 0
                    then kprint [NL] (kprint_int shell_pid (kprint ''Shell sureci olusturuldu. PID: '' s4))
                    else s4);
          let s6 = kprint ([NL] @ ''Tum moduller basariyla yuklendi!'' @ [NL]) (ksetcolor VGA_COLOR_LIGHT_GREEN s5);
          Some (ksetcolor VGA_COLOR_LIGHT_GREY s6, f1) }"

text \<open>One round of the main loop: \<open>schedule\<close>, then \<open>hlt\<close> until the next interrupt.\<close>

definition kernel_idle :: "'z kuser_scheme platform \<Rightarrow> 'z kuser_scheme \<Rightarrow> 'z kuser_scheme option" where
  "kernel_idle P s = do { s1 \<leftarrow> schedule (pf_handler P) (pf_depth P) s; pf_irq P s1 }"

end
