(* ===== verification/BootProps.thy ===== *)
theory BootProps
  imports Boot
begin

text \<open>
  The state \<open>kernel_main\<close> reaches: the boot always completes, establishes the invariant and leaves the shell ready in the table; the
  first call of the scheduler does not select it.
\<close>

section \<open>What the paging leaves alone\<close>

definition boot_view :: "'z kpage_scheme \<Rightarrow> heap \<times> nat \<times> u64 \<times> idt \<times> nat" where
  "boot_view s = (kheap s, current_process_index s, next_pid s, kidt s, length (bitmap (pmm s)))"

lemma boot_view_kprint [simp]: "boot_view (kprint m s) = boot_view s"
  by (simp add: boot_view_def kprint_def)

lemma view_alloc: "pmm_alloc_page s = (r, s') \<Longrightarrow> boot_view s' = boot_view s"
  by (auto simp: pmm_alloc_page_def split: option.splits) (simp add: boot_view_def)

lemma view_walk_level: "walk_level alc f tbl i s = (r, s') \<Longrightarrow> boot_view s' = boot_view s"
  by (auto simp: walk_level_def Let_def split: prod.splits if_splits dest!: view_alloc) (simp add: boot_view_def)

lemma view_walk: "paging_walk v alc f s = (r, s') \<Longrightarrow> boot_view s' = boot_view s"
  by (auto simp: paging_walk_def dest!: view_walk_level split: prod.splits option.splits)

lemma view_map: "paging_map_page p v f s = (r, s') \<Longrightarrow> boot_view s' = boot_view s"
  by (auto simp: paging_map_page_def Let_def dest!: view_walk split: prod.splits option.splits if_splits) (simp add: boot_view_def)

lemma view_free: "pmm_free_page a s = Some s' \<Longrightarrow> boot_view s' = boot_view s"
  by (auto simp: pmm_free_page_def Let_def split: if_splits) (simp add: boot_view_def)

lemma kmalloc_page_total:
  assumes "8 * length (bitmap (pmm s)) \<le> 2 ^ 40"
  obtains a s' where "kmalloc_page s = Some (a, s')" "boot_view s' = boot_view s"
proof -
  obtain a s1 where al: "pmm_alloc_page s = (a, s1)" by fastforce
  obtain v s2 where mp: "paging_map_page a (kernel_heap s1) PAGE_WRITABLE s1 = (v, s2)" by fastforce
  have v: "boot_view s1 = boot_view s" "boot_view s2 = boot_view s" using view_alloc [OF al] view_map [OF mp] by simp_all
  have "\<exists>s3. pmm_free_page a s2 = Some s3" if nz: "a \<noteq> 0"
  proof -
    obtain k where k: "first_free (bitmap (pmm s)) = Some k" "a = frame k"
      using al nz by (auto simp: pmm_alloc_page_eq split: option.splits)
    then have "k < 8 * length (bitmap (pmm s))" by (simp add: first_free_SomeD)
    then have "k < 2 ^ 40" "k div 8 < length (bitmap (pmm s2))"
      using assms v(2) by (simp_all add: boot_view_def less_mult_imp_div_less mult.commute)
    then have "unat (frame k div of_nat PAGE_SIZE) = k" using unat_frame [of k] by (simp add: unat_div)
    then show ?thesis using \<open>k div 8 < _\<close> k(2) by (simp add: pmm_free_page_def Let_def)
  qed
  then obtain s3 where "a \<noteq> 0 \<Longrightarrow> pmm_free_page a s2 = Some s3" by blast
  then show thesis
    using that v view_free al mp by (fastforce simp: kmalloc_page_def boot_view_def split: if_splits)
qed

lemma mark_pages_total:
  "\<forall>i \<in> set is. i div 8 < length bm \<Longrightarrow> \<exists>bm'. mark_pages is bm = Some bm' \<and> length bm' = length bm"
proof (induction "is" arbitrary: bm)
  case (Cons i "is")
  then show ?case using Cons.IH [of "upd_nth (i div 8) (\<lambda>b. b OR page_bit i) bm"] by simp
qed simp

lemma paging_init_boot:
  obtains s' where "paging_init root mem_map s = Some s'" "length (bitmap (pmm s')) = 4096"
    "kheap s' = kheap s" "current_process_index s' = current_process_index s" "next_pid s' = next_pid s" "kidt s' = kidt s"
proof -
  have sz: "(128 * 1024 * 1024 :: u64) div of_nat PAGE_SIZE div 8 = 4096" "(4096 * 8 * of_nat PAGE_SIZE :: u64) = 128 * 1024 * 1024"
    "unat ((4096 + 4095) div of_nat PAGE_SIZE :: u64) = 1" by simp_all
  have "i div 8 < 4096" if "i \<in> set [0..<1024]" for i
    using that div_le_dividend [of i 8] by (simp del: upt_rec_numeral)
  then obtain bm1 where bm1: "mark_pages [0..<1024] (replicate 4096 0) = Some bm1" "length bm1 = 4096"
    using mark_pages_total [of "[0..<1024]" "replicate 4096 0"] by (auto simp del: upt_rec_numeral)
  obtain bm2 where bm2: "mark_pages [256..<256 + 1] bm1 = Some bm2" "length bm2 = 4096"
    using mark_pages_total [of "[256..<256 + 1]" bm1] bm1(2) by auto
  show thesis
    using that bm1 bm2 by (simp add: paging_init_def mem_map_def sz Let_def kprint_def del: upt_rec_numeral)
qed

section \<open>The booted kernel\<close>

text \<open>What the start-up code and the loader leave in the static variables.\<close>

definition powered_on :: "'z kuser_scheme \<Rightarrow> bool" where
  "powered_on s \<longleftrightarrow> memory_initialized (kheap s) = 0 \<and> next_pid s = 1 \<and> current_process_index s = 0"

lemma boot_tables_fields:
  "kheap (boot_tables im s) = memory_init (kheap s)" "current_process_index (boot_tables im s) = current_process_index s"
  "next_pid (boot_tables im s) = next_pid s" "length (interrupt_handlers (kidt (boot_tables im s))) = 256"
  by (simp_all add: boot_tables_def Let_def ksetcolor_def kclear_def kprint_def init_idt_def)

lemma boot_services_fields:
  assumes "boot_services im s f = (s', f')"
  shows "kheap s' = kheap s" "current_process_index s' = current_process_index s" "next_pid s' = next_pid s"
    "processes s' = replicate MAX_PROCESSES zero_process" "signal_handling_enabled s' = 1" "pipes s' = replicate MAX_PIPES zero_pipe"
    "interrupt_handlers (kidt s') = (interrupt_handlers (kidt s))[32 := im_timer_handler im, 33 := im_keyboard_handler im, 128 := im_syscall_handler im]"
  using assms
  by (auto simp: boot_services_def Let_def timer_init_def keyboard_init_def init_processes_def init_syscalls_def pipe_init_def
      signal_init_def outb_def register_interrupt_handler_def kprint_def)

lemma create_first_process:
  assumes "heap_rep (kheap s) initial_blocks" "processes s = replicate MAX_PROCESSES zero_process" "next_pid s = 1"
    "current_process_index s = 0"
  obtains s' where "create_process name entry parent s = Some (1, s')" "kernel_inv s'" "next_pid s' = 2" "current_process_index s' = 0"
    "kidt s' = kidt s" "p_pid (proc s' 0) = 1" "p_pending_signals (proc s' 0) = 0" "p_name (proc s' 0) = copy_name 31 name" "p_state (proc s' 0) = PROCESS_STATE_READY"
    "p_rip (p_registers (proc s' 0)) = entry" "\<forall>j. 0 < j \<and> j < MAX_PROCESSES \<longrightarrow> proc s' j = zero_process"
proof -
  have t: "table_ok s" "stacks_ok s"
    using assms by (auto simp: table_ok_def stacks_ok_def zero_process_def holds_def slot_ok_def unique_pids_def)
  have f: "find_index (\<lambda>p. p_pid p = 0) (processes s) = Some 0"
    using assms(2) by (simp add: find_index_Some zero_process_def)
  obtain stk h where m: "kmalloc 4096 (kheap s) = Some (stk, h)" using create_process_Some [OF t f] .
  let ?s = "upd_proc 0 (new_process name entry parent 1 stk (timer_ticks s)) (s\<lparr>next_pid := 2, kheap := h\<rparr>)"
  let ?s' = "kprint [NL] (kprint (p_name (proc ?s 0)) (kprint '', Isim='' (kprint_int 1 (kprint ''Yeni surec olusturuldu: PID='' ?s))))"
  have run: "create_process name entry parent s = Some (1, ?s')" using f m assms(3) by (simp add: create_process_def Let_def)
  have "kernel_inv ?s'" using create_process_spec [OF t, of name entry parent] run assms(3) by (auto simp: kernel_inv_def)
  moreover have "proc ?s' j = (if j = 0 then new_process name entry parent 1 stk (timer_ticks s) zero_process else zero_process)"
    if "j < MAX_PROCESSES" for j
    using that assms(2) by (simp add: proc_upd_proc)
  then have "proc ?s' 0 = new_process name entry parent 1 stk (timer_ticks s) zero_process"
    "\<forall>j. 0 < j \<and> j < MAX_PROCESSES \<longrightarrow> proc ?s' j = zero_process" by simp_all
  moreover have "next_pid ?s' = 2" "current_process_index ?s' = 0" "kidt ?s' = kidt s"
    using assms(4) by (simp_all add: upd_proc_def kprint_def kprint_int_def)
  ultimately show thesis using that run by (simp add: new_process_def)
qed

lemma lone_process_idle:
  assumes "kernel_inv s" "current_process_index s = 0" "\<forall>j. 0 < j \<and> j < MAX_PROCESSES \<longrightarrow> proc s j = zero_process"
  shows "schedule H (Suc n) s = Some s"
proof -
  have "\<not> runnable (proc s (Suc k mod MAX_PROCESSES))" if "k < MAX_PROCESSES - 1" for k
    using that assms(3) by (simp add: runnable_def zero_process_def)
  then have "next_runnable (processes s) (current_process_index s) = None"
    unfolding next_runnable_def assms(2) by (auto simp: find_index_None simp del: upt_rec_numeral)
  then show ?thesis by (simp only: schedule_next option.case)
qed

lemma kernel_boot_spec:
  fixes s :: "'z kuser_scheme"
  assumes "powered_on s"
  shows "\<exists>s' f'. kernel_boot im s f = Some (s', f') \<and> kernel_inv s' \<and> get_process 1 s' = Some 0 \<and>
    next_pid s' = 2 \<and> current_process_index s' = 0 \<and> p_pid (proc s' 0) = 1 \<and> p_pending_signals (proc s' 0) = 0 \<and>
    p_name (proc s' 0) = ''shell'' \<and> p_state (proc s' 0) = PROCESS_STATE_READY \<and>
    p_rip (p_registers (proc s' 0)) = im_shell_process im \<and>
    interrupt_handlers (kidt s') ! 32 = im_timer_handler im \<and> interrupt_handlers (kidt s') ! 33 = im_keyboard_handler im \<and>
    interrupt_handlers (kidt s') ! 128 = im_syscall_handler im \<and> (\<forall>H n. schedule H (Suc n) s' = Some s')"
proof -
  let ?b = "boot_tables im s"
  have h: "heap_rep (kheap ?b) initial_blocks" using assms memory_init_rep by (simp add: boot_tables_fields powered_on_def)
  obtain s1 where s1: "paging_init (im_boot_pml4 im) mem_map ?b = Some s1" "length (bitmap (pmm s1)) = 4096" "kheap s1 = kheap ?b"
    "current_process_index s1 = 0" "next_pid s1 = 1" "kidt s1 = kidt ?b"
    using paging_init_boot [of "im_boot_pml4 im" ?b] assms by (auto simp: boot_tables_fields powered_on_def)
  let ?g = "gdt_init (im_gdt im) (im_tss im) s1"
  have g: "kheap ?g = kheap ?b" "current_process_index ?g = 0" "next_pid ?g = 1" "kidt ?g = kidt ?b" "length (bitmap (pmm ?g)) = 4096"
    using s1(2-6) by (simp_all add: gdt_init_def gdt_set_gate_def gdt_set_tss_def Let_def kprint_def)
  obtain a s2 where s2: "kmalloc_page ?g = Some (a, s2)" "boot_view s2 = boot_view ?g" using kmalloc_page_total [of ?g] g(5) by auto
  obtain s3 f' where s3: "boot_services im (tss_init a s2) f = (s3, f')" by fastforce
  have t: "kheap (tss_init a s2) = kheap ?b" "current_process_index (tss_init a s2) = 0" "next_pid (tss_init a s2) = 1"
    "length (interrupt_handlers (kidt (tss_init a s2))) = 256"
    using s2(2) g boot_tables_fields(4) [of im s] by (simp_all add: boot_view_def tss_init_def kprint_def)
  note b = boot_services_fields [OF s3]
  obtain s4 where s4: "create_process ''shell'' (im_shell_process im) 0 s3 = Some (1, s4)" "kernel_inv s4" "current_process_index s4 = 0"
    "next_pid s4 = 2"
    "kidt s4 = kidt s3" "p_pid (proc s4 0) = 1" "p_pending_signals (proc s4 0) = 0" "p_name (proc s4 0) = copy_name 31 ''shell''" "p_state (proc s4 0) = PROCESS_STATE_READY"
    "p_rip (p_registers (proc s4 0)) = im_shell_process im" "\<forall>j. 0 < j \<and> j < MAX_PROCESSES \<longrightarrow> proc s4 j = zero_process"
    using create_first_process [of s3 "''shell''" "im_shell_process im" 0] b t h by auto
  define s5 where "s5 = ksetcolor VGA_COLOR_LIGHT_GREY (kprint ([NL] @ ''Tum moduller basariyla yuklendi!'' @ [NL])
    (ksetcolor VGA_COLOR_LIGHT_GREEN (kprint [NL] (kprint_int 1 (kprint ''Shell sureci olusturuldu. PID: '' s4)))))"
  have run: "kernel_boot im s f = Some (s5, f')" using s1(1) s2(1) s3 s4(1) by (simp add: kernel_boot_def Let_def s5_def)
  have same: "processes s5 = processes s4" "current_process_index s5 = 0" "kidt s5 = kidt s4" "kernel_inv s5"
    "next_pid s5 = next_pid s4"
    using s4(2,3) by (simp_all add: s5_def) (simp_all add: ksetcolor_def kprint_int_def kprint_def)
  have "get_process 1 s5 = Some 0" using same(1) s4(6) kernel_invD(1) [OF same(4)] by (simp add: get_process_def find_index_Some)
  moreover have "copy_name 31 ''shell'' = ''shell''" by (simp add: numeral_eq_Suc)
  moreover have "schedule H (Suc n) s5 = Some s5" for H :: "'z kuser_scheme handler" and n
    using lone_process_idle [OF same(4,2)] same(1) s4(11) by simp
  ultimately show ?thesis using run same s4(4-11) b(7) t(4) by (intro exI [of _ s5] exI [of _ f']) simp
qed


section \<open>A sample machine\<close>

definition sample_image :: image where
  "sample_image = \<lparr>im_isr = (\<lambda>i. 0x100000 + of_nat (16 * i)), im_idt_entries = 0x110000, im_gdt = 0x112000, im_tss = 0x113000,
     im_boot_pml4 = 0x120000, im_timer_handler = 0x101000, im_keyboard_handler = 0x102000, im_syscall_handler = 0x103000,
     im_shell_process = 0x104000\<rparr>"

definition cold_machine :: kfiles where
  "cold_machine = sample_files\<lparr>kheap := empty_heap, next_pid := 1, current_process_index := 0\<rparr>"

definition no_volume :: "unit kfs" where
  "no_volume = \<lparr>fsi = zero_fs_info, disk = ()\<rparr>"

lemma cold_machine_on: "powered_on cold_machine"
  by (simp add: powered_on_def cold_machine_def empty_heap_def)


text \<open>The invariant after the boot, for the histories of the kernel.\<close>

lemma kernel_boot_inv:
  assumes "powered_on s" "kernel_boot im s f = Some (s', f')"
  shows "kernel_inv s'"
  using kernel_boot_spec [OF assms(1), of im f] assms(2) by auto

lemma kernel_idle_inv: "platform_ok P \<Longrightarrow> kernel_idle P s = Some s' \<Longrightarrow> kernel_inv s \<Longrightarrow> kernel_inv s'"
  using schedule_inv [OF platform_okD(1)] platform_okD(2) unfolding kernel_idle_def bind_eq_Some_conv by blast

end
