(* ===== verification/TestPrograms.thy ===== *)
theory TestPrograms
  imports SyscallProps
begin

text \<open>
  The test programs of \<open>kernel.c\<close>, \<open>test_pipe\<close>, \<open>test_signals\<close>, \<open>test_process\<close> and \<open>test_process_groups\<close>, as straight line code over the system
  calls. They are kernel functions: their local variables and string literals are at the addresses of the record \<open>test_frame\<close>.
\<close>

record test_frame =
  tf_fds :: u64
  tf_buf :: u64
  tf_status :: u64
  tf_message :: u64
  tf_text :: u64
  tf_handler :: u64

abbreviation SIGTERM_CALL :: u64 where "SIGTERM_CALL \<equiv> 15"

type_synonym ('z) test_program = "test_frame \<Rightarrow> 'z kuser_scheme platform \<Rightarrow> 'z kuser_scheme \<Rightarrow> 'z kuser_scheme option"

section \<open>The programs\<close>

text \<open>\<open>buf[bytes_read] = '\0'\<close> and the output of \<open>buf\<close>.\<close>

definition print_message :: "u64 \<Rightarrow> nat \<Rightarrow> 'z kuser_scheme \<Rightarrow> 'z kuser_scheme" where
  "print_message buf n s =
     (let s1 = s\<lparr>umem := (umem s)(buf + of_nat n := 0)\<rparr>;
          s2 = kprint ''Cocuk sureci okudu: '' s1
      in kprint [NL] (kprint (bytes_to_string (load_bytes buf (Suc n) (umem s2))) s2))"

definition pipe_child :: "('z) test_program" where
  "pipe_child T P s =
     do { let fds = load_bytes (tf_fds T) 16 (umem s);
          (_, s1) \<leftarrow> sys_close (le64 fds 8) P s;
          (r, s2) \<leftarrow> sys_read (le64 fds 0) (tf_buf T) 63 P s1;
          let bytes_read = u64_to_int r;
          let s3 = (if bytes_read > 0 then print_message (tf_buf T) (nat bytes_read) s2 else s2);
          (_, s4) \<leftarrow> sys_close (le64 fds 0) P s3;
          (_, s5) \<leftarrow> sys_exit 0 P s4;
          Some s5 }"

definition pipe_parent :: "('z) test_program" where
  "pipe_parent T P s =
     do { let fds = load_bytes (tf_fds T) 16 (umem s);
          (_, s1) \<leftarrow> sys_close (le64 fds 0) P s;
          (_, s2) \<leftarrow> sys_write (le64 fds 8) (tf_message T) (of_nat (strlen ''Merhaba pipe!'')) P s1;
          (_, s3) \<leftarrow> sys_close (le64 fds 8) P s2;
          (_, s4) \<leftarrow> sys_wait (tf_status T) P s3;
          Some (kprint (''Pipe testi tamamlandi.'' @ [NL]) s4) }"

definition test_pipe :: "('z) test_program" where
  "test_pipe T P s =
     do { (r, s1) \<leftarrow> sys_pipe (tf_fds T) P (kprint (''Pipe testi baslatiliyor...'' @ [NL]) s);
          if r \<noteq> 0 then Some (kprint (''Pipe olusturulamadi!'' @ [NL]) s1)
          else do { (child_pid, s2) \<leftarrow> sys_fork P (kprint (''Pipe olusturuldu.'' @ [NL]) s1);
                    if child_pid = 0 then pipe_child T P s2
                    else if child_pid > 0 then pipe_parent T P s2
                    else Some (kprint (''Fork hatasi!'' @ [NL]) s2) } }"

definition test_signal_handler :: "int \<Rightarrow> 'z kproc_scheme \<Rightarrow> 'z kproc_scheme" where
  "test_signal_handler signum s = kprint [NL] (kprint (int_to_string signum) (kprint ''Sinyal alindi: '' s))"

definition signals_child :: "('z) test_program" where
  "signals_child T P s =
     do { (_, s1) \<leftarrow> sys_signal SIGTERM_CALL (tf_handler T) P s;
          let s2 = kprint (''Cocuk surec: 3 saniye bekliyor...'' @ [NL])
                     (kprint (''Cocuk surec: SIGTERM icin isleyici kaydedildi'' @ [NL]) s1);
          (_, s3) \<leftarrow> sys_sleep 3000 P s2;
          (_, s4) \<leftarrow> sys_sleep 2000 P (kprint (''Cocuk surec: Hala calisiyorum!'' @ [NL]) s3);
          (_, s5) \<leftarrow> sys_exit 0 P s4;
          Some s5 }"

definition signals_parent :: "u64 \<Rightarrow> ('z) test_program" where
  "signals_parent child_pid T P s =
     do { (_, s1) \<leftarrow> sys_sleep 2000 P (kprint (''Ebeveyn surec: Cocuk surece 2 saniye sonra SIGTERM gonderecek'' @ [NL]) s);
          (_, s2) \<leftarrow> sys_kill child_pid SIGTERM_CALL P
            (kprint (''Ebeveyn surec: Cocuk surece SIGTERM gonderiliyor...'' @ [NL]) s1);
          (_, s3) \<leftarrow> sys_wait (tf_status T) P s2;
          Some (kprint (''Sinyal testi tamamlandi.'' @ [NL]) s3) }"

definition test_signals :: "('z) test_program" where
  "test_signals T P s =
     do { (child_pid, s1) \<leftarrow> sys_fork P (kprint (''Sinyal testi baslatiliyor...'' @ [NL]) s);
          if child_pid = 0 then signals_child T P s1
          else if child_pid > 0 then signals_parent child_pid T P s1
          else Some (kprint (''Fork hatasi!'' @ [NL]) s1) }"

definition test_process :: "('z) test_program" where
  "test_process T P s =
     do { s1 \<leftarrow> test_pipe T P (kprint (''Test sureci calistirildi!'' @ [NL]) s);
          s2 \<leftarrow> test_signals T P s1;
          (_, s3) \<leftarrow> sys_write 1 (tf_text T) 35 P s2;
          (_, s4) \<leftarrow> sys_exit 0 P s3;
          Some s4 }"

text \<open>The child of the first child in \<open>test_process_groups\<close>, and what its parent does.\<close>

definition second_child :: "u64 \<Rightarrow> ('z) test_program" where
  "second_child child2_pid T P s =
     (if child2_pid = 0 then
        do { (_, s1) \<leftarrow> sys_signal SIGTERM_CALL (tf_handler T) P s;
             (_, s2) \<leftarrow> sys_sleep 5000 P (kprint (''Cocuk 2: SIGTERM icin isleyici kaydedildi'' @ [NL]) s1);
             (_, s3) \<leftarrow> sys_exit 0 P (kprint (''Cocuk 2: Cikis yapiliyor'' @ [NL]) s2);
             Some s3 }
      else
        do { (_, s1) \<leftarrow> sys_sleep 10000 P s;
             (_, s2) \<leftarrow> sys_exit 0 P (kprint (''Cocuk 1: Cikis yapiliyor'' @ [NL]) s1);
             Some s2 })"

definition group_child :: "('z) test_program" where
  "group_child T P s =
     do { (_, s1) \<leftarrow> sys_setpgid 0 0 P s;
          (pgid, s2) \<leftarrow> sys_getpgid 0 P s1;
          let s3 = kprint [NL] (kprint_int pgid (kprint ''Cocuk 1: Yeni surec grubu olusturuldu: '' s2));
          (_, s4) \<leftarrow> sys_signal SIGTERM_CALL (tf_handler T) P s3;
          (child2_pid, s5) \<leftarrow> sys_fork P s4;
          second_child child2_pid T P s5 }"

definition group_parent :: "u64 \<Rightarrow> ('z) test_program" where
  "group_parent child1_pid T P s =
     do { (_, s1) \<leftarrow> sys_sleep 2000 P s;
          (child1_pgid, s2) \<leftarrow> sys_getpgid child1_pid P s1;
          let s3 = kprint [NL] (kprint_int (- child1_pgid) (kprint ''Ana surec: Tum surec grubuna sinyal gonderiyor: '' s2));
          (_, s4) \<leftarrow> sys_kill (- child1_pgid) SIGTERM_CALL P s3;
          (_, s5) \<leftarrow> sys_wait (tf_status T) P s4;
          Some (kprint (''Surec grubu testi tamamlandi.'' @ [NL]) s5) }"

definition test_process_groups :: "('z) test_program" where
  "test_process_groups T P s =
     do { (parent_pid, s1) \<leftarrow> sys_getpid P (kprint (''Surec grubu testi baslatiliyor...'' @ [NL]) s);
          (child1_pid, s2) \<leftarrow> sys_fork P s1;
          if child1_pid = 0 then group_child T P s2 else group_parent child1_pid T P s2 }"

section \<open>A signal to every process\<close>

text \<open>What an ordinary signal does to a process whose pid is below \<open>n\<close>.\<close>

definition notify :: "nat \<Rightarrow> nat \<Rightarrow> process \<Rightarrow> process" where
  "notify g n p =
     (if p_pid p \<noteq> 0 \<and> unat (p_pid p) < n \<and> p_blocked_signals p AND sigbit g = 0
      then p\<lparr>p_pending_signals := p_pending_signals p OR sigbit g\<rparr> else p)"

definition known_pid :: "'z kproc_scheme \<Rightarrow> nat \<Rightarrow> bool" where
  "known_pid s k \<longleftrightarrow> k \<noteq> 0 \<and> get_process (of_nat k) s \<noteq> None"

lemma notify_pid [simp]: "p_pid (notify g n p) = p_pid p" "p_blocked_signals (notify g n p) = p_blocked_signals p"
  by (simp_all add: notify_def)

lemma get_process_notify [simp]: "get_process pid (s\<lparr>processes := map (notify g n) (processes s)\<rparr>) = get_process pid s"
  by (simp add: get_process_def find_index_map comp_def)

lemma notify_Suc_same: "(p_pid p = of_nat n \<Longrightarrow> p_pid p = 0) \<Longrightarrow> n < 64 \<Longrightarrow> notify g (Suc n) p = notify g n p"
  by (auto simp: notify_def less_Suc_eq)

lemma kill_all_append:
  "kill_all_loop H d g (is @ js) sent s = do { (r, t) \<leftarrow> kill_all_loop H d g is sent s; kill_all_loop H d g js r t }"
  by (induction "is" arbitrary: sent s) (auto split: option.splits bind_splits simp del: signal_send.simps)

text \<open>The round of the loop for the pid \<open>n\<close>.\<close>

lemma kill_round:
  fixes s :: "'z kproc_scheme" and g :: nat
  assumes tab: "table_ok s" and g: "0 < g" "g < 32" "int g \<notin> {SIGKILL, SIGSTOP, SIGCONT}" and n: "n < 64"
  shows "kill_all_loop H d (int g) [n] sent (s\<lparr>processes := map (notify g n) (processes s)\<rparr>) =
    Some (sent + (if known_pid s n then 1 else 0), s\<lparr>processes := map (notify g (Suc n)) (processes s)\<rparr>)"
proof (cases "known_pid s n")
  case False
  then have "map (notify g (Suc n)) (processes s) = map (notify g n) (processes s)"
    using n by (auto simp: known_pid_def get_process_def find_index_None intro!: notify_Suc_same)
  then show ?thesis using False get_process_Some [of 0 s] table_okD(1) [OF tab]
    by (auto simp: known_pid_def split: option.split)
next
  case True
  then obtain j where j: "get_process (of_nat n) s = Some j" and n0: "n \<noteq> 0" by (auto simp: known_pid_def)
  let ?t = "s\<lparr>processes := map (notify g n) (processes s)\<rparr>"
  have u: "unat (of_nat n :: u64) = n" using n by (simp add: unat_of_nat)
  then have w0: "(of_nat n :: u64) \<noteq> 0" using n0 by auto
  have pj: "j < 64" "p_pid (proc s j) = of_nat n" using j get_process_eq [OF tab w0] by auto
  have other: "p_pid (proc s i) \<noteq> of_nat n" if "i < 64" "i \<noteq> j" for i
    using that j get_process_eq [OF tab w0] by (metis option.inject)
  have len: "length (processes s) = 64" using table_okD(1) [OF tab] .
  have new: "notify g (Suc n) (proc s j) =
      (if p_blocked_signals (proc s j) AND sigbit g = 0
       then (proc s j)\<lparr>p_pending_signals := p_pending_signals (proc s j) OR sigbit g\<rparr> else proc s j)"
    using pj(2) u n0 w0 by (simp add: notify_def)
  have old: "notify g n (proc s j) = proc s j" using pj(2) u by (simp add: notify_def)
  have "map (notify g (Suc n)) (processes s) = (map (notify g n) (processes s))[j := notify g (Suc n) (proc s j)]"
  proof (rule nth_equalityI)
    fix i assume "i < length (map (notify g (Suc n)) (processes s))"
    then show "map (notify g (Suc n)) (processes s) ! i = (map (notify g n) (processes s))[j := notify g (Suc n) (proc s j)] ! i"
      using other [of i] len notify_Suc_same [of "proc s i" n g] n by (cases "i = j") simp_all
  qed simp
  then show ?thesis
    using True j pj w0 g len old new list_update_id [of "map (notify g n) (processes s)" j]
    by (simp add: signal_add_pending_def upd_proc_def upd_nth_def)
qed

lemma kill_all_notifies:
  assumes "table_ok s" "0 < g" "g < 32" "int g \<notin> {SIGKILL, SIGSTOP, SIGCONT}" "n \<le> 64"
  shows "kill_all_loop H d (int g) [0..<n] 0 s =
    Some (int (length (filter (known_pid s) [0..<n])), s\<lparr>processes := map (notify g n) (processes s)\<rparr>)"
  using assms(5)
proof (induction n)
  case 0
  have "notify g 0 = (\<lambda>p. p)" by (auto simp: notify_def)
  then show ?case by simp
next
  case (Suc n)
  then show ?case
    using kill_round [OF assms(1-4), of n] by (simp add: kill_all_append del: kill_all_loop.simps)
qed

lemma kill_broadcast:
  assumes "table_ok s" "0 < g" "g < 32" "int g \<notin> {SIGKILL, SIGSTOP, SIGCONT}"
  shows "sys_kill (- 1) (of_nat g) P s =
    Some (of_nat (length (filter (known_pid s) [0..<64])), s\<lparr>processes := map (notify g 64) (processes s)\<rparr>)"
proof -
  have u: "unat (of_nat g :: u64) = g" using assms(3) by (simp add: unat_of_nat)
  have i: "u64_to_int (of_nat g) = int g"
    using u64_to_int_small [of "of_nat g"] assms(3) u by simp
  have "\<not> (32 :: u64) \<le> of_nat g" using assms(3) u by (simp add: word_le_nat_alt)
  then show ?thesis
    using kill_all_notifies [OF assms, of 64 "pf_handler P" "pf_depth P"] i
    by (simp add: sys_kill_def del: upt_rec_numeral)
qed


section \<open>What the test programs do\<close>

lemma validate_kernel_pointer:
  "p < USER_BASE \<or> USER_STACK_TOP \<le> p \<Longrightarrow> usermode_validate_pointer p n f s = Some False"
  by (auto simp: usermode_validate_pointer_def)

text \<open>
  The locals and literals of the test programs are in kernel memory, which the system calls refuse: \<open>test_pipe\<close> reports that it
  cannot create a pipe and changes nothing but the screen, and the output of \<open>test_process\<close> through \<open>sys_write\<close> fails.
\<close>

theorem tests_need_user_memory:
  assumes "tf_fds T < USER_BASE \<or> USER_STACK_TOP \<le> tf_fds T" "tf_text T < USER_BASE \<or> USER_STACK_TOP \<le> tf_text T"
  shows "test_pipe T P s = Some (kprint (''Pipe olusturulamadi!'' @ [NL]) (kprint (''Pipe testi baslatiliyor...'' @ [NL]) s)) \<and>
    sys_write 1 (tf_text T) 35 P s = Some (- 1, s)"
  by (simp add: test_pipe_def sys_pipe_def sys_write_def validate_kernel_pointer [OF assms(1)] validate_kernel_pointer [OF assms(2)])

text \<open>The result -1 of a failing \<open>sys_fork\<close> is the largest unsigned number.\<close>

lemma sys_fork_full:
  assumes "table_ok s" "get_current_process s \<noteq> None" "\<forall>i < MAX_PROCESSES. p_pid (proc s i) \<noteq> 0"
  shows "sys_fork P s = Some (- 1, kprint (''Hata: Surec tablosu dolu!'' @ [NL]) s)"
proof -
  have "find_index (\<lambda>p. p_pid p = 0) (processes s) = None"
    using assms(3) table_okD(1) [OF assms(1)] by (auto simp: find_index_None in_set_conv_nth)
  then show ?thesis using assms(2) by (auto simp: sys_fork_def create_process_def)
qed

text \<open>
  When the process table is full, \<open>test_signals\<close> does not report the failing fork: it goes on with the process -1, and what it
  sends to its child is a signal that ends every process.
\<close>

theorem test_signals_full_table:
  assumes "table_ok s" "get_current_process s \<noteq> None" "\<forall>i < MAX_PROCESSES. p_pid (proc s i) \<noteq> 0"
  shows "test_signals T P s = signals_parent (- 1) T P
      (kprint (''Hata: Surec tablosu dolu!'' @ [NL]) (kprint (''Sinyal testi baslatiliyor...'' @ [NL]) s)) \<and>
    (table_ok t \<longrightarrow> (\<exists>r. sys_kill (- 1) SIGTERM_CALL P t = Some (r, t\<lparr>processes := map (notify 15 64) (processes t)\<rparr>)))"
proof -
  let ?s = "kprint (''Sinyal testi baslatiliyor...'' @ [NL]) s"
  have "table_ok ?s" "get_current_process ?s \<noteq> None" "\<forall>i < MAX_PROCESSES. p_pid (proc ?s i) \<noteq> 0"
    using assms by (simp_all add: table_ok_def get_current_process_def)
  from sys_fork_full [OF this, of P] show ?thesis
    using kill_broadcast [of t 15 P] by (simp add: test_signals_def word_gt_0)
qed

section \<open>Witnesses\<close>

definition kernel_frame :: test_frame where
  "kernel_frame = \<lparr>tf_fds = 0x10F00, tf_buf = 0x10E00, tf_status = 0x10DF8, tf_message = 0x104000, tf_text = 0x104010, tf_handler = 0x101000\<rparr>"

definition crowded :: kuser where
  "crowded = sample_user\<lparr>processes := map (\<lambda>i. zero_process\<lparr>p_pid := of_nat (Suc i)\<rparr>) [0..<64], next_pid := 65\<rparr>"

lemma crowded_pid: "i < 64 \<Longrightarrow> p_pid (proc crowded i) = of_nat (Suc i)"
  by (simp add: crowded_def del: upt_rec_numeral)

lemma small_pid: "i < 64 \<Longrightarrow> unat (of_nat (Suc i) :: u64) = Suc i"
  by (simp add: unat_of_nat del: of_nat_Suc)

lemma crowded_ok: "table_ok crowded" "get_current_process crowded = Some 0" "\<forall>i < MAX_PROCESSES. p_pid (proc crowded i) \<noteq> 0"
proof -
  have nz: "(of_nat (Suc i) :: u64) \<noteq> 0" if "i < 64" for i using small_pid [OF that] by (metis Zero_not_Suc unat_0)
  show "\<forall>i < MAX_PROCESSES. p_pid (proc crowded i) \<noteq> 0" using nz crowded_pid by simp
  have "i = j" if "i < 64" "j < 64" "(of_nat (Suc i) :: u64) = of_nat (Suc j)" for i j
    using that small_pid [of i] small_pid [of j] by (metis Suc_inject)
  then have u: "unique_pids (map p_pid (processes crowded))"
    using crowded_pid by (auto simp: unique_pids_def crowded_def simp del: upt_rec_numeral of_nat_Suc)
  have "slot_ok 65 (zero_process\<lparr>p_pid := of_nat (Suc i)\<rparr>)" if "i < 64" for i
    using that small_pid [OF that] nz [OF that]
    by (simp add: slot_ok_def zero_process_def word_less_nat_alt del: of_nat_Suc)
  then show "table_ok crowded" using u by (auto simp: table_ok_def crowded_def sample_kproc_def simp del: upt_rec_numeral of_nat_Suc)
  show "get_current_process crowded = Some 0"
    using crowded_pid [of 0] by (simp add: get_current_process_def) (simp add: crowded_def sample_kproc_def del: upt_rec_numeral)
qed

theorem tests_need_user_memory_witness:
  "test_pipe kernel_frame sample_platform sample_user =
    Some (kprint (''Pipe olusturulamadi!'' @ [NL]) (kprint (''Pipe testi baslatiliyor...'' @ [NL]) sample_user))"
  using tests_need_user_memory [of kernel_frame sample_platform sample_user] by (simp add: kernel_frame_def)


theorem test_signals_full_table_witness:
  "test_signals kernel_frame sample_platform crowded = signals_parent (- 1) kernel_frame sample_platform
     (kprint (''Hata: Surec tablosu dolu!'' @ [NL]) (kprint (''Sinyal testi baslatiliyor...'' @ [NL]) crowded)) \<and>
   (\<exists>r s'. sys_kill (- 1) 15 sample_platform crowded = Some (r, s') \<and> p_pending_signals (proc s' 0) = 0x8000)"
proof -
  have "get_current_process crowded \<noteq> None" using crowded_ok(2) by simp
  from test_signals_full_table [OF crowded_ok(1) this crowded_ok(3), of kernel_frame sample_platform crowded] crowded_ok(1) crowded_pid [of 0]
  show ?thesis by (auto simp: crowded_def notify_def zero_process_def sigbit_def simp del: upt_rec_numeral)
qed

end
